(* ===== verification/Prelude.thy ===== *)
theory Prelude
  imports Main "HOL-Library.Word" "HOL-Library.Sublist"
begin

unbundle bit_operations_syntax

text \<open>
  The shared vocabulary of the development: Go's clock values and durations, integer clamping,
  two-channel arrays, and the interfaces (locales) that several components share.

  \<^item> A \<open>time.Time\<close> is the number of nanoseconds since Go's zero time, as an \<open>int\<close>; the zero
    value (the one \<open>IsZero\<close> recognises) is 0.  A \<open>time.Duration\<close> is a count of nanoseconds.
    \<open>Time.Sub\<close> saturates at the ends of \<open>int64\<close>, and so does \<open>time_sub\<close>.
  \<^item> Go's \<open>int\<close> is \<open>int\<close> here where the code bounds the values (the bounds are lemmas of the
    components), and generation counters of type \<open>uint64\<close>, which only ever count up by one,
    are \<open>nat\<close>.  Bytes are \<open>8 word\<close>.
  \<^item> \<open>machine\<close> is the interface of a state machine with an invariant, \<open>fenced_machine\<close> adds a
    generation counter that never goes back, and \<open>codec\<close> is the interface of a wire format.
\<close>

section \<open>Collections of facts\<close>

named_theorems op_defs \<open>definitions of the operations of a component\<close>
named_theorems inv_rules \<open>lemmas that an operation keeps the component's invariant\<close>

section \<open>Lists\<close>

lemma filter_update:
  "i < length xs \<Longrightarrow> length (filter P (xs[i := y])) + of_bool (P (xs ! i)) = length (filter P xs) + of_bool (P y)"
proof (induction xs arbitrary: i)
  case (Cons x xs)
  show ?case
  proof (cases i)
    case (Suc j)
    then show ?thesis using Cons.IH [of j] Cons.prems by simp
  qed simp
qed simp

lemma filter_pos: "x \<in> set xs \<Longrightarrow> P x \<Longrightarrow> 0 < length (filter P xs)"
  by (auto simp: filter_empty_conv)

section \<open>Time\<close>

type_synonym time = int
type_synonym duration = int
type_synonym byte = "8 word"

abbreviation (input) zero_time :: time where
  "zero_time \<equiv> 0"

abbreviation (input) millisecond :: duration where
  "millisecond \<equiv> 1000000"

abbreviation (input) second :: duration where
  "second \<equiv> 1000000000"

abbreviation (input) max_duration :: duration where
  "max_duration \<equiv> 9223372036854775807"

abbreviation (input) min_duration :: duration where
  "min_duration \<equiv> -9223372036854775808"

text \<open>\<open>Time.Sub\<close>: the difference, saturated at the ends of \<open>int64\<close>.\<close>

definition time_sub :: "time \<Rightarrow> time \<Rightarrow> duration" where
  "time_sub a b = max min_duration (min max_duration (a - b))"

text \<open>\<open>Duration.Milliseconds\<close>: Go's integer division truncates towards zero.\<close>

definition to_millis :: "duration \<Rightarrow> int" where
  "to_millis d = sgn d * (\<bar>d\<bar> div millisecond)"

lemma time_sub_less_iff:
  "min_duration < t \<Longrightarrow> t \<le> max_duration \<Longrightarrow> time_sub a b < t \<longleftrightarrow> a - b < t"
  by (auto simp: time_sub_def)

lemma time_sub_greater_iff:
  "min_duration \<le> t \<Longrightarrow> t < max_duration \<Longrightarrow> t < time_sub a b \<longleftrightarrow> t < a - b"
  by (auto simp: time_sub_def)

lemma time_sub_self [simp]: "time_sub a a = 0"
  by (simp add: time_sub_def)

lemma to_millis_0 [simp]: "to_millis 0 = 0"
  by (simp add: to_millis_def)

lemma to_millis_nonneg: "0 \<le> d \<Longrightarrow> 0 \<le> to_millis d"
  by (simp add: to_millis_def sgn_if pos_imp_zdiv_nonneg_iff)

lemma to_millis_mono: "0 \<le> d \<Longrightarrow> d \<le> e \<Longrightarrow> to_millis d \<le> to_millis e"
  by (auto simp: to_millis_def sgn_if pos_imp_zdiv_nonneg_iff zdiv_mono1)

text \<open>Arithmetic on \<open>int64\<close> wraps.\<close>

definition wrap64 :: "int \<Rightarrow> int" where
  "wrap64 x = (x + 2 ^ 63) mod 2 ^ 64 - 2 ^ 63"

lemma wrap64_id: "- (2 ^ 63) \<le> x \<Longrightarrow> x < 2 ^ 63 \<Longrightarrow> wrap64 x = x"
  by (simp add: wrap64_def)

lemma wrap64_bounds: "- (2 ^ 63) \<le> wrap64 x \<and> wrap64 x < 2 ^ 63"
  by (simp add: wrap64_def)

section \<open>Decimal numerals\<close>

text \<open>\<open>strconv.FormatUint\<close> and the padded \<open>%0nd\<close> of \<open>fmt\<close>.\<close>

definition digit_char :: "nat \<Rightarrow> char" where
  "digit_char n = char_of (48 + n)"

fun decimal :: "nat \<Rightarrow> string" where
  "decimal n = (if n < 10 then [digit_char n] else decimal (n div 10) @ [digit_char (n mod 10)])"

declare decimal.simps [simp del]

definition padded :: "nat \<Rightarrow> nat \<Rightarrow> string" where
  "padded w n = replicate (w - length (decimal n)) CHR ''0'' @ decimal n"

section \<open>Trimming and case\<close>

text \<open>\<open>strings.TrimSpace\<close> and \<open>strings.ToLower\<close> on the ASCII strings the code compares.\<close>

definition ascii_space :: "char \<Rightarrow> bool" where
  "ascii_space c \<longleftrightarrow> c \<in> set [CHR '' '', CHR 0x09, CHR 0x0A, CHR 0x0B, CHR 0x0C, CHR 0x0D]"

definition trimSpace :: "string \<Rightarrow> string" where
  "trimSpace s = rev (dropWhile ascii_space (rev (dropWhile ascii_space s)))"

definition lower_char :: "char \<Rightarrow> char" where
  "lower_char c = (let n = of_char c :: nat in if 65 \<le> n \<and> n \<le> 90 then char_of (n + 32) else c)"

abbreviation toLower :: "string \<Rightarrow> string" where
  "toLower s \<equiv> map lower_char s"

section \<open>Bytes\<close>

lemma uint_byte [simp]: "0 \<le> x \<Longrightarrow> x < 256 \<Longrightarrow> uint (word_of_int x :: byte) = x"
  by (simp add: uint_word_of_int)

lemma uint_byte_bounds: "0 \<le> uint (b :: byte)" "uint (b :: byte) < 256"
  using uint_bounded [of b] by simp_all

section \<open>Clamping and two-channel arrays\<close>

definition clampInt :: "int \<Rightarrow> int \<Rightarrow> int \<Rightarrow> int" where
  "clampInt v lo hi = max lo (min hi v)"

lemma clampInt_bounds: "lo \<le> hi \<Longrightarrow> lo \<le> clampInt v lo hi \<and> clampInt v lo hi \<le> hi"
  by (simp add: clampInt_def)

lemma clampInt_ge [simp]: "lo \<le> clampInt v lo hi"
  by (simp add: clampInt_def)

lemma clampInt_le [simp]: "lo \<le> hi \<Longrightarrow> clampInt v lo hi \<le> hi"
  by (simp add: clampInt_def)

lemma clampInt_id: "lo \<le> v \<Longrightarrow> v \<le> hi \<Longrightarrow> clampInt v lo hi = v"
  by (simp add: clampInt_def)

text \<open>
  Go's \<open>[2]int\<close>, indexed by an output channel.  The code indexes it with the channels 0 and 1
  only; an out-of-range channel is refused before it is used as an index.
\<close>

type_synonym int2 = "int \<times> int"

definition at2 :: "int2 \<Rightarrow> int \<Rightarrow> int" where
  "at2 p c = (if c = 0 then fst p else snd p)"

definition upd2 :: "int2 \<Rightarrow> int \<Rightarrow> int \<Rightarrow> int2" where
  "upd2 p c v = (if c = 0 then (v, snd p) else (fst p, v))"

lemma at2_simps [simp]: "at2 (a, b) 0 = a" "at2 (a, b) 1 = b"
  by (simp_all add: at2_def)

lemma upd2_simps [simp]: "upd2 (a, b) 0 v = (v, b)" "upd2 (a, b) 1 v = (a, v)"
  by (simp_all add: upd2_def)

section \<open>Error results\<close>

text \<open>
  A Go call that returns \<open>(value, error)\<close> is a sum: \<open>Inl\<close> the error, \<open>Inr\<close> the value.
  \<open>bindR\<close> is the early return on an error, \<open>wrapErr\<close> is \<open>fmt.Errorf("...: %w", err)\<close>.
\<close>

definition bindR :: "'e + 'a \<Rightarrow> ('a \<Rightarrow> 'e + 'b) \<Rightarrow> 'e + 'b" where
  "bindR r f = (case r of Inl e \<Rightarrow> Inl e | Inr x \<Rightarrow> f x)"

definition wrapErr :: "('e \<Rightarrow> 'f) \<Rightarrow> 'e + 'a \<Rightarrow> 'f + 'a" where
  "wrapErr w r = (case r of Inl e \<Rightarrow> Inl (w e) | Inr x \<Rightarrow> Inr x)"

definition isOk :: "'e + 'a \<Rightarrow> bool" where
  "isOk r = (case r of Inl e \<Rightarrow> False | Inr x \<Rightarrow> True)"

lemma bindR_simps [simp]: "bindR (Inl e) f = Inl e" "bindR (Inr x) f = f x"
  by (simp_all add: bindR_def)

lemma wrapErr_simps [simp]: "wrapErr w (Inl e) = Inl (w e)" "wrapErr w (Inr x) = Inr x"
  by (simp_all add: wrapErr_def)

lemma isOk_simps [simp]: "\<not> isOk (Inl e)" "isOk (Inr x)"
  by (simp_all add: isOk_def)

lemma bindR_Inr_iff: "bindR r f = Inr y \<longleftrightarrow> (\<exists>x. r = Inr x \<and> f x = Inr y)"
  by (cases r) simp_all

lemma wrapErr_Inr_iff [simp]: "wrapErr w r = Inr x \<longleftrightarrow> r = Inr x"
  by (cases r) simp_all

lemma isOk_iff: "isOk r \<longleftrightarrow> (\<exists>x. r = Inr x)"
  by (cases r) simp_all

lemma isOk_bindR: "isOk (bindR r f) \<longleftrightarrow> (\<exists>x. r = Inr x \<and> isOk (f x))"
  by (cases r) simp_all

lemma isOk_wrapErr [simp]: "isOk (wrapErr w r) = isOk r"
  by (cases r) simp_all

section \<open>Binary search\<close>

text \<open>
  \<open>sort.Search(n, f)\<close> of Go's standard library: the loop that keeps \<open>f(i-1) = false\<close> and
  \<open>f(j) = true\<close>.  On a monotone predicate it returns the first index where \<open>f\<close> holds, or \<open>n\<close>.
\<close>

function search_between :: "nat \<Rightarrow> nat \<Rightarrow> (nat \<Rightarrow> bool) \<Rightarrow> nat" where
  "search_between i j f =
     (if i < j then let h = (i + j) div 2 in
        if \<not> f h then search_between (h + 1) j f else search_between i h f
      else i)"
  by pat_completeness auto
termination by (relation "measure (\<lambda>(i, j, f). j - i)") auto

declare search_between.simps [simp del]

definition sort_search :: "nat \<Rightarrow> (nat \<Rightarrow> bool) \<Rightarrow> nat" where
  "sort_search n f = search_between 0 n f"

lemma search_between_spec:
  assumes "i \<le> j" and "\<And>a b. a \<le> b \<Longrightarrow> b < j \<Longrightarrow> f a \<Longrightarrow> f b"
  shows "i \<le> search_between i j f \<and> search_between i j f \<le> j \<and>
    (\<forall>k. i \<le> k \<and> k < search_between i j f \<longrightarrow> \<not> f k) \<and>
    (search_between i j f < j \<longrightarrow> f (search_between i j f))"
  using assms
proof (induction i j f rule: search_between.induct)
  case (1 i j f)
  let ?h = "(i + j) div 2"
  show ?case
  proof (cases "i < j")
    case False
    with 1(3) show ?thesis by (subst (1 2 3 4 5) search_between.simps) auto
  next
    case True
    then have h: "i \<le> ?h" "?h < j" by auto
    show ?thesis
    proof (cases "f ?h")
      case True
      then have eq: "search_between i j f = search_between i ?h f"
        using \<open>i < j\<close> by (subst search_between.simps) simp
      have "i \<le> search_between i ?h f \<and> search_between i ?h f \<le> ?h \<and>
        (\<forall>k. i \<le> k \<and> k < search_between i ?h f \<longrightarrow> \<not> f k) \<and>
        (search_between i ?h f < ?h \<longrightarrow> f (search_between i ?h f))"
        using 1(2) [OF \<open>i < j\<close> refl] True h 1(4) by (meson less_trans not_less)
      moreover from this have "search_between i ?h f = ?h \<or> search_between i ?h f < ?h" by linarith
      ultimately show ?thesis using True h(2) unfolding eq by auto
    next
      case False
      then have eq: "search_between i j f = search_between (?h + 1) j f"
        using \<open>i < j\<close> by (subst search_between.simps) simp
      have ih: "?h + 1 \<le> search_between (?h + 1) j f \<and> search_between (?h + 1) j f \<le> j \<and>
        (\<forall>k. ?h + 1 \<le> k \<and> k < search_between (?h + 1) j f \<longrightarrow> \<not> f k) \<and>
        (search_between (?h + 1) j f < j \<longrightarrow> f (search_between (?h + 1) j f))"
        by (rule 1(1) [OF \<open>i < j\<close> refl False]) (use h 1(4) in auto)
      let ?m = "search_between (?h + 1) j f"
      have "\<not> f k" if "k < ?m" "i \<le> k" for k
      proof (cases "k \<le> ?h")
        case True
        then show ?thesis using 1(4) [OF True h(2)] False by blast
      next
        case False
        then show ?thesis using ih that by simp
      qed
      moreover have "i \<le> ?m" using ih h by linarith
      ultimately show ?thesis using ih unfolding eq by blast
    qed
  qed
qed

text \<open>On a list sorted by the predicate, the search splits it like \<open>takeWhile\<close>.\<close>

lemma sort_search_takeWhile:
  assumes "\<And>a b. a \<le> b \<Longrightarrow> b < length xs \<Longrightarrow> P (xs ! a) \<Longrightarrow> P (xs ! b)"
  shows "sort_search (length xs) (\<lambda>i. P (xs ! i)) = length (takeWhile (\<lambda>x. \<not> P x) xs)"
proof -
  let ?n = "sort_search (length xs) (\<lambda>i. P (xs ! i))"
  have spec: "0 \<le> ?n \<and> ?n \<le> length xs \<and> (\<forall>k. 0 \<le> k \<and> k < ?n \<longrightarrow> \<not> P (xs ! k)) \<and>
      (?n < length xs \<longrightarrow> P (xs ! ?n))"
    unfolding sort_search_def by (rule search_between_spec) (use assms in blast)+
  have "takeWhile (\<lambda>x. \<not> P x) xs = take ?n xs"
    using spec by (intro takeWhile_eq_take_P_nth) simp_all
  with spec show ?thesis by simp
qed

section \<open>Interfaces\<close>

text \<open>
  A state machine: its start states, its steps, and an invariant that holds at the start and
  that every step keeps.
\<close>

locale machine =
  fixes init :: "'s \<Rightarrow> bool"
    and step :: "'s \<Rightarrow> 's \<Rightarrow> bool"
    and inv :: "'s \<Rightarrow> bool"
  assumes inv_init: "init s \<Longrightarrow> inv s"
    and inv_step: "inv s \<Longrightarrow> step s t \<Longrightarrow> inv t"
begin

lemma inv_steps: "step\<^sup>*\<^sup>* s t \<Longrightarrow> inv s \<Longrightarrow> inv t"
  by (induction rule: rtranclp_induct) (auto intro: inv_step)

lemma reachable_inv: "init s \<Longrightarrow> step\<^sup>*\<^sup>* s t \<Longrightarrow> inv t"
  by (blast intro: inv_init inv_steps)

end

text \<open>
  A machine with a generation counter that no step lowers: a token taken at an earlier
  generation that has been passed is stale for ever.
\<close>

locale fenced_machine = machine +
  fixes gen :: "'a \<Rightarrow> nat"
  assumes gen_step: "inv s \<Longrightarrow> step s t \<Longrightarrow> gen s \<le> gen t"
begin

lemma gen_steps: "step\<^sup>*\<^sup>* s t \<Longrightarrow> inv s \<Longrightarrow> gen s \<le> gen t"
proof (induction rule: rtranclp_induct)
  case base
  then show ?case by simp
next
  case (step t u)
  then have "gen s \<le> gen t" and "inv t"
    by (auto intro: inv_steps)
  with step.hyps show ?case
    using gen_step le_trans by blast
qed

lemma stale_forever:
  assumes "step\<^sup>*\<^sup>* s t" and "inv s" and "token < gen s"
  shows "token \<noteq> gen t"
  using gen_steps [OF assms(1,2)] assms(3) by simp

end

text \<open>
  A wire format: what is encoded decodes to its canonical form, and the canonical form has the
  same encoding.  Two values with the same bytes then have the same canonical form, and
  re-encoding what was decoded reproduces the bytes.
\<close>

locale codec =
  fixes enc :: "'v \<Rightarrow> 'e + 'w"
    and dec :: "'w \<Rightarrow> 'f + 'v"
    and canon :: "'v \<Rightarrow> 'v"
    and wf :: "'v \<Rightarrow> bool"
  assumes dec_enc: "wf x \<Longrightarrow> enc x = Inr w \<Longrightarrow> dec w = Inr (canon x)"
    and enc_canon: "wf x \<Longrightarrow> enc x = Inr w \<Longrightarrow> enc (canon x) = Inr w"
    and wf_canon: "wf x \<Longrightarrow> wf (canon x)"
begin

lemma enc_inj: "wf x \<Longrightarrow> wf y \<Longrightarrow> enc x = Inr w \<Longrightarrow> enc y = Inr w \<Longrightarrow> canon x = canon y"
  using dec_enc [of x w] dec_enc [of y w] by simp

lemma reencode: "wf x \<Longrightarrow> enc x = Inr w \<Longrightarrow> dec w = Inr y \<Longrightarrow> enc y = Inr w"
  using dec_enc [of x w] enc_canon [of x w] by simp

lemma canon_idem: "wf x \<Longrightarrow> enc x = Inr w \<Longrightarrow> canon (canon x) = canon x"
  using enc_canon [of x w] enc_inj [of "canon x" x w] wf_canon [of x] by simp

end

end
