(* ===== verification/EstimProtocol.thy ===== *)
theory EstimProtocol
  imports Prelude
begin

text \<open>
  The Coyote 3.0 Bluetooth packet formats of \<open>internal/estim/protocol.go\<close>: the 20-byte B0
  packet (a strength change and four 25 ms frames for two channels), the 7-byte BF limits
  packet, the B1 strength report and the compressed period byte, each with its encoder and its
  decoder.  Both codecs interpret the locale \<open>codec\<close>; the lemmas say which values an encoder
  accepts and what a decoder returns for its output.
\<close>

section \<open>Constants and data\<close>

definition MaxStrength :: int where "MaxStrength = 200"
definition MaxIntensity :: int where "MaxIntensity = 100"
definition MinPeriodMillis :: int where "MinPeriodMillis = 10"
definition MaxPeriodMillis :: int where "MaxPeriodMillis = 1000"
definition FramesPerPacket :: nat where "FramesPerPacket = 4"
definition PacketBytes :: nat where "PacketBytes = 20"
definition LimitsBytes :: nat where "LimitsBytes = 7"
definition MaxSequence :: int where "MaxSequence = 15"
definition headerPacket :: byte where "headerPacket = 0xB0"
definition headerLimits :: byte where "headerLimits = 0xBF"
definition headerStrengthReport :: byte where "headerStrengthReport = 0xB1"

lemmas estim_consts = MaxStrength_def MaxIntensity_def MinPeriodMillis_def MaxPeriodMillis_def
  FramesPerPacket_def PacketBytes_def LimitsBytes_def MaxSequence_def headerPacket_def
  headerLimits_def headerStrengthReport_def

text \<open>\<open>StrengthMode\<close> is a \<open>uint8\<close>: the four documented modes are constants, not all values.\<close>

type_synonym strength_mode = byte

definition StrengthKeep :: strength_mode where "StrengthKeep = 0"
definition StrengthIncrease :: strength_mode where "StrengthIncrease = 1"
definition StrengthDecrease :: strength_mode where "StrengthDecrease = 2"
definition StrengthSet :: strength_mode where "StrengthSet = 3"

lemmas mode_consts = StrengthKeep_def StrengthIncrease_def StrengthDecrease_def StrengthSet_def

record strength_change =
  chMode :: strength_mode
  chValue :: int

record channel_frame =
  cfPeriodMillis :: int
  cfIntensity :: int

record frame =
  frA :: channel_frame
  frB :: channel_frame

record packet =
  pkSequence :: int
  pkA :: strength_change
  pkB :: strength_change
  pkFrames :: "frame list" \<comment> \<open>the array \<open>[FramesPerPacket]Frame\<close>\<close>
  pkSilenceA :: bool
  pkSilenceB :: bool

record limits =
  liStrengthA :: int
  liStrengthB :: int
  liFrequencyBalanceA :: int
  liFrequencyBalanceB :: int
  liIntensityBalanceA :: int
  liIntensityBalanceB :: int

record strength_report =
  srSequence :: int
  srA :: int
  srB :: int

definition SilentFrame :: frame where
  "SilentFrame = \<lparr>frA = \<lparr>cfPeriodMillis = MinPeriodMillis, cfIntensity = 0\<rparr>,
                  frB = \<lparr>cfPeriodMillis = MinPeriodMillis, cfIntensity = 0\<rparr>\<rparr>"

datatype estim_error =
    SequenceOutside int
  | UnknownMode strength_mode
  | StrengthOutside int
  | PeriodOutside int
  | IntensityOutside int
  | ValueOutside int int
  | PeriodByteOutside byte
  | NotAPacket
  | NotLimits
  | ReportTooShort nat
  | ReportOutside int int
  | InChannelA estim_error
  | InChannelB estim_error

section \<open>Encoding\<close>

definition PeriodByte :: "int \<Rightarrow> estim_error + byte" where
  "PeriodByte periodMillis =
     (if periodMillis < MinPeriodMillis \<or> MaxPeriodMillis < periodMillis
      then Inl (PeriodOutside periodMillis)
      else if periodMillis \<le> 100 then Inr (word_of_int periodMillis)
      else if periodMillis \<le> 600 then Inr (word_of_int ((periodMillis - 100) div 5 + 100))
      else Inr (word_of_int ((periodMillis - 600) div 10 + 200)))"

definition encodeStrength :: "strength_change \<Rightarrow> estim_error + byte \<times> byte" where
  "encodeStrength c =
     (if StrengthSet < chMode c then Inl (UnknownMode (chMode c))
      else if chMode c = StrengthKeep then Inr (StrengthKeep, 0)
      else if chValue c < 0 \<or> MaxStrength < chValue c then Inl (StrengthOutside (chValue c))
      else Inr (chMode c, word_of_int (chValue c)))"

text \<open>
  The loop of \<open>encodeChannel\<close> over the frames: the period bytes go to \<open>out[index]\<close> and the
  intensities to \<open>out[FramesPerPacket+index]\<close>, so the two halves are collected side by side.
\<close>

fun encodeFrames :: "(frame \<Rightarrow> channel_frame) \<Rightarrow> frame list \<Rightarrow> estim_error + byte list \<times> byte list"
where
  "encodeFrames channel [] = Inr ([], [])"
| "encodeFrames channel (f # fs) =
     (let value = channel f in
      bindR (PeriodByte (cfPeriodMillis value)) (\<lambda>period.
        if cfIntensity value < 0 \<or> MaxIntensity < cfIntensity value
        then Inl (IntensityOutside (cfIntensity value))
        else bindR (encodeFrames channel fs) (\<lambda>(ps, is).
          Inr (period # ps, word_of_int (cfIntensity value) # is))))"

definition encodeChannel :: "frame list \<Rightarrow> (frame \<Rightarrow> channel_frame) \<Rightarrow> bool \<Rightarrow> estim_error + byte list"
where
  "encodeChannel frames channel silenced =
     (if silenced then Inr [0, 0, 0, 0, 0, 0, 0, word_of_int (MaxIntensity + 1)]
      else bindR (encodeFrames channel frames) (\<lambda>(ps, is). Inr (ps @ is)))"

definition packet_Encode :: "packet \<Rightarrow> estim_error + byte list" where
  "packet_Encode p =
     (if pkSequence p < 0 \<or> MaxSequence < pkSequence p then Inl (SequenceOutside (pkSequence p))
      else bindR (wrapErr InChannelA (encodeStrength (pkA p))) (\<lambda>(modeA, valueA).
           bindR (wrapErr InChannelB (encodeStrength (pkB p))) (\<lambda>(modeB, valueB).
           bindR (wrapErr InChannelA (encodeChannel (pkFrames p) frA (pkSilenceA p))) (\<lambda>bytesA.
           bindR (wrapErr InChannelB (encodeChannel (pkFrames p) frB (pkSilenceB p))) (\<lambda>bytesB.
           Inr ([headerPacket,
                 word_of_int (push_bit 4 (pkSequence p)) OR push_bit 2 modeA OR modeB,
                 valueA, valueB] @ bytesA @ bytesB))))))"

definition boundedByte :: "int \<Rightarrow> int \<Rightarrow> estim_error + byte" where
  "boundedByte v high =
     (if v < 0 \<or> high < v \<or> 255 < v then Inl (ValueOutside v high) else Inr (word_of_int v))"

fun boundedBytes :: "(int \<times> int) list \<Rightarrow> estim_error + byte list" where
  "boundedBytes [] = Inr []"
| "boundedBytes ((v, high) # rest) =
     bindR (boundedByte v high) (\<lambda>b. bindR (boundedBytes rest) (\<lambda>bs. Inr (b # bs)))"

definition limits_Encode :: "limits \<Rightarrow> estim_error + byte list" where
  "limits_Encode l =
     bindR (boundedBytes [(liStrengthA l, MaxStrength), (liStrengthB l, MaxStrength),
                          (liFrequencyBalanceA l, 255), (liFrequencyBalanceB l, 255),
                          (liIntensityBalanceA l, 255), (liIntensityBalanceB l, 255)])
       (\<lambda>bs. Inr (headerLimits # bs))"

section \<open>Decoding\<close>

definition PeriodFromByte :: "byte \<Rightarrow> estim_error + int" where
  "PeriodFromByte b =
     (if uint b < MinPeriodMillis \<or> 240 < uint b then Inl (PeriodByteOutside b)
      else if uint b \<le> 100 then Inr (uint b)
      else if uint b \<le> 200 then Inr ((uint b - 100) * 5 + 100)
      else Inr ((uint b - 200) * 10 + 600))"

fun decodeFrames :: "byte list \<Rightarrow> byte list \<Rightarrow> channel_frame list option" where
  "decodeFrames (p # ps) (i # is) =
     (case PeriodFromByte p of
        Inl e \<Rightarrow> None
      | Inr period \<Rightarrow>
          if MaxIntensity < uint i then None
          else map_option (\<lambda>cs. \<lparr>cfPeriodMillis = period, cfIntensity = uint i\<rparr> # cs)
                 (decodeFrames ps is))"
| "decodeFrames _ _ = Some []"

text \<open>The channel's four frames, and whether the device discards them.\<close>

definition zeroChannelFrame :: channel_frame where
  "zeroChannelFrame = \<lparr>cfPeriodMillis = 0, cfIntensity = 0\<rparr>"

definition decodeChannel :: "byte list \<Rightarrow> channel_frame list \<times> bool" where
  "decodeChannel bytes =
     (case decodeFrames (take FramesPerPacket bytes) (drop FramesPerPacket bytes) of
        None \<Rightarrow> (replicate FramesPerPacket zeroChannelFrame, True)
      | Some cs \<Rightarrow> (cs, False))"

definition DecodePacket :: "byte list \<Rightarrow> estim_error + packet" where
  "DecodePacket payload =
     (if length payload \<noteq> PacketBytes \<or> payload ! 0 \<noteq> headerPacket then Inl NotAPacket
      else let (as, silenceA) = decodeChannel (take 8 (drop 4 payload));
               (bs, silenceB) = decodeChannel (take 8 (drop 12 payload)) in
        Inr \<lparr>pkSequence = uint (drop_bit 4 (payload ! 1)),
             pkA = \<lparr>chMode = drop_bit 2 (payload ! 1) AND 3, chValue = uint (payload ! 2)\<rparr>,
             pkB = \<lparr>chMode = payload ! 1 AND 3, chValue = uint (payload ! 3)\<rparr>,
             pkFrames = map2 (\<lambda>a b. \<lparr>frA = a, frB = b\<rparr>) as bs,
             pkSilenceA = silenceA, pkSilenceB = silenceB\<rparr>)"

definition DecodeLimits :: "byte list \<Rightarrow> estim_error + limits" where
  "DecodeLimits payload =
     (if length payload \<noteq> LimitsBytes \<or> payload ! 0 \<noteq> headerLimits then Inl NotLimits
      else Inr \<lparr>liStrengthA = uint (payload ! 1), liStrengthB = uint (payload ! 2),
                liFrequencyBalanceA = uint (payload ! 3), liFrequencyBalanceB = uint (payload ! 4),
                liIntensityBalanceA = uint (payload ! 5), liIntensityBalanceB = uint (payload ! 6)\<rparr>)"

text \<open>
  \<open>DecodeNotification\<close> returns \<open>(report, ok, err)\<close>: \<open>Inr None\<close> is another message type
  (\<open>ok\<close> false, no error), \<open>Inr (Some r)\<close> is a report, \<open>Inl\<close> is a malformed B1.
\<close>

definition DecodeNotification :: "byte list \<Rightarrow> estim_error + strength_report option" where
  "DecodeNotification payload =
     (if length payload = 0 \<or> payload ! 0 \<noteq> headerStrengthReport then Inr None
      else if length payload < 4 then Inl (ReportTooShort (length payload))
      else if MaxStrength < uint (payload ! 2) \<or> MaxStrength < uint (payload ! 3)
      then Inl (ReportOutside (uint (payload ! 2)) (uint (payload ! 3)))
      else Inr (Some \<lparr>srSequence = uint (payload ! 1), srA = uint (payload ! 2),
                      srB = uint (payload ! 3)\<rparr>))"

section \<open>What the encoders accept\<close>

definition period_ok :: "int \<Rightarrow> bool" where
  "period_ok p \<longleftrightarrow> MinPeriodMillis \<le> p \<and> p \<le> MaxPeriodMillis"

definition channel_frame_ok :: "channel_frame \<Rightarrow> bool" where
  "channel_frame_ok c \<longleftrightarrow>
     period_ok (cfPeriodMillis c) \<and> 0 \<le> cfIntensity c \<and> cfIntensity c \<le> MaxIntensity"

definition strength_change_ok :: "strength_change \<Rightarrow> bool" where
  "strength_change_ok c \<longleftrightarrow>
     chMode c \<le> StrengthSet \<and>
     (chMode c = StrengthKeep \<or> 0 \<le> chValue c \<and> chValue c \<le> MaxStrength)"

definition packet_ok :: "packet \<Rightarrow> bool" where
  "packet_ok p \<longleftrightarrow>
     0 \<le> pkSequence p \<and> pkSequence p \<le> MaxSequence \<and>
     strength_change_ok (pkA p) \<and> strength_change_ok (pkB p) \<and>
     (pkSilenceA p \<or> (\<forall>f \<in> set (pkFrames p). channel_frame_ok (frA f))) \<and>
     (pkSilenceB p \<or> (\<forall>f \<in> set (pkFrames p). channel_frame_ok (frB f)))"

lemma PeriodByte_Inr: "PeriodByte p = Inr b \<Longrightarrow> period_ok p"
  by (auto simp: PeriodByte_def period_ok_def split: if_splits)

lemma PeriodByte_ok: "period_ok p \<Longrightarrow> \<exists>b. PeriodByte p = Inr b"
  by (auto simp: PeriodByte_def period_ok_def)

lemma encodeStrength_Inr: "encodeStrength c = Inr r \<Longrightarrow> strength_change_ok c"
  by (auto simp: encodeStrength_def strength_change_ok_def not_less split: if_splits)

lemma encodeStrength_ok: "strength_change_ok c \<Longrightarrow> \<exists>m v. encodeStrength c = Inr (m, v)"
  by (auto simp: encodeStrength_def strength_change_ok_def)

lemma encodeFrames_Inr:
  "encodeFrames ch fs = Inr r \<Longrightarrow> f \<in> set fs \<Longrightarrow> channel_frame_ok (ch f)"
proof (induction fs arbitrary: r)
  case (Cons g fs)
  then obtain b r' where "PeriodByte (cfPeriodMillis (ch g)) = Inr b"
    and "0 \<le> cfIntensity (ch g)" "cfIntensity (ch g) \<le> MaxIntensity"
    and "encodeFrames ch fs = Inr r'"
    by (auto simp: Let_def bindR_Inr_iff split: if_splits)
  with Cons show ?case
    by (auto simp: channel_frame_ok_def dest: PeriodByte_Inr)
qed simp

lemma encodeFrames_ok:
  "(\<And>f. f \<in> set fs \<Longrightarrow> channel_frame_ok (ch f)) \<Longrightarrow> \<exists>ps is. encodeFrames ch fs = Inr (ps, is)"
proof (induction fs)
  case (Cons g fs)
  then obtain ps "is" where "encodeFrames ch fs = Inr (ps, is)"
    by auto
  moreover obtain b where "PeriodByte (cfPeriodMillis (ch g)) = Inr b"
    using Cons.prems PeriodByte_ok by (force simp: channel_frame_ok_def)
  ultimately show ?case
    using Cons.prems by (force simp: Let_def channel_frame_ok_def)
qed simp

lemma encodeChannel_Inr:
  "encodeChannel fs ch sil = Inr bs \<Longrightarrow> sil \<or> (\<forall>f \<in> set fs. channel_frame_ok (ch f))"
  by (auto simp: encodeChannel_def bindR_Inr_iff dest: encodeFrames_Inr split: if_splits)

lemma encodeChannel_ok:
  "sil \<or> (\<forall>f \<in> set fs. channel_frame_ok (ch f)) \<Longrightarrow> \<exists>bs. encodeChannel fs ch sil = Inr bs"
  using encodeFrames_ok [of fs ch] by (auto simp: encodeChannel_def)

text \<open>The packet encoder accepts exactly the packets whose fields are in range.\<close>

lemma packet_Encode_ok: "isOk (packet_Encode p) \<longleftrightarrow> packet_ok p"
proof
  assume "isOk (packet_Encode p)"
  then show "packet_ok p"
    unfolding packet_Encode_def packet_ok_def isOk_iff
    by (auto simp: bindR_Inr_iff dest: encodeStrength_Inr encodeChannel_Inr split: if_splits)
next
  assume ok: "packet_ok p"
  have A: "strength_change_ok (pkA p)" and B: "strength_change_ok (pkB p)"
    and fA: "pkSilenceA p \<or> (\<forall>f \<in> set (pkFrames p). channel_frame_ok (frA f))"
    and fB: "pkSilenceB p \<or> (\<forall>f \<in> set (pkFrames p). channel_frame_ok (frB f))"
    using ok by (simp_all only: packet_ok_def)
  obtain ma va mb vb where "encodeStrength (pkA p) = Inr (ma, va)"
    and "encodeStrength (pkB p) = Inr (mb, vb)"
    using encodeStrength_ok [OF A] encodeStrength_ok [OF B] by blast
  moreover obtain bsA bsB where "encodeChannel (pkFrames p) frA (pkSilenceA p) = Inr bsA"
    and "encodeChannel (pkFrames p) frB (pkSilenceB p) = Inr bsB"
    using encodeChannel_ok [OF fA] encodeChannel_ok [OF fB] by blast
  ultimately show "isOk (packet_Encode p)"
    using ok by (simp add: packet_Encode_def packet_ok_def)
qed

section \<open>Periods on the wire\<close>

text \<open>The period a device reads back: the shortest one with the same wire value.\<close>

definition period_canon :: "int \<Rightarrow> int" where
  "period_canon p =
     (if p \<le> 100 then p
      else if p \<le> 600 then (p - 100) div 5 * 5 + 100
      else (p - 600) div 10 * 10 + 600)"

definition period_wire :: "int \<Rightarrow> int" where
  "period_wire p =
     (if p \<le> 100 then p
      else if p \<le> 600 then (p - 100) div 5 + 100
      else (p - 600) div 10 + 200)"

lemma PeriodByte_wire:
  "PeriodByte p = (if period_ok p then Inr (word_of_int (period_wire p)) else Inl (PeriodOutside p))"
  by (auto simp: PeriodByte_def period_ok_def period_wire_def estim_consts)

lemma period_wire_bounds: "period_ok p \<Longrightarrow> 10 \<le> period_wire p \<and> period_wire p \<le> 240"
  by (auto simp: period_ok_def period_wire_def estim_consts)

lemma period_wire_mono: "p \<le> q \<Longrightarrow> period_wire p \<le> period_wire q"
  by (auto simp: period_wire_def intro: zdiv_mono1)

lemma uint_period_wire: "period_ok p \<Longrightarrow> uint (word_of_int (period_wire p) :: byte) = period_wire p"
  using period_wire_bounds [of p] by simp

lemma PeriodFromByte_PeriodByte:
  "PeriodByte p = Inr b \<Longrightarrow> PeriodFromByte b = Inr (period_canon p)"
proof -
  assume "PeriodByte p = Inr b"
  then have ok: "period_ok p" and b: "uint b = period_wire p"
    by (auto simp: PeriodByte_wire uint_period_wire split: if_splits)
  have "period_wire p \<le> 100 \<Longrightarrow> period_canon p = period_wire p"
    and "100 < period_wire p \<Longrightarrow> period_wire p \<le> 200 \<Longrightarrow> period_canon p = (period_wire p - 100) * 5 + 100"
    and "200 < period_wire p \<Longrightarrow> period_canon p = (period_wire p - 200) * 10 + 600"
    using ok by (auto simp: period_wire_def period_canon_def period_ok_def estim_consts split: if_splits)
  then show ?thesis
    using period_wire_bounds [OF ok] by (simp add: PeriodFromByte_def b MinPeriodMillis_def)
qed

lemma period_canon_le: "period_canon p \<le> p"
  by (auto simp: period_canon_def)

lemma period_canon_ok: "period_ok p \<Longrightarrow> period_ok (period_canon p)"
  by (auto simp: period_canon_def period_ok_def estim_consts)

lemma period_wire_canon: "period_wire (period_canon p) = period_wire p"
  by (auto simp: period_canon_def period_wire_def)

lemma PeriodByte_canon: "PeriodByte p = Inr b \<Longrightarrow> PeriodByte (period_canon p) = Inr b"
  by (auto simp: PeriodByte_wire period_wire_canon period_canon_ok split: if_splits)

lemma header_fields:
  fixes mA mB :: byte
  assumes "0 \<le> s" "s \<le> 15" "mA \<le> 3" "mB \<le> 3"
  defines "h \<equiv> word_of_int (push_bit 4 s) OR push_bit 2 mA OR mB"
  shows "uint (drop_bit 4 h) = s" "drop_bit 2 h AND 3 = mA" "h AND 3 = mB"
proof -
  have s: "s \<in> set [0..15]"
    using assms by simp
  have modes: "m \<in> {0, 1, 2, 3}" if "m \<le> 3" for m :: byte
  proof -
    have "unat m \<le> 3" using that by (simp add: word_le_nat_alt)
    then have "unat m = 0 \<or> unat m = 1 \<or> unat m = 2 \<or> unat m = 3" by auto
    then have "m = 0 \<or> m = 1 \<or> m = 2 \<or> m = 3"
      by (simp add: word_unat_eq_iff)
    then show ?thesis by simp
  qed
  have all: "\<forall>s \<in> set [0..15]. \<forall>a \<in> {0, 1, 2, 3 :: byte}. \<forall>b \<in> {0, 1, 2, 3 :: byte}.
      uint (drop_bit 4 (word_of_int (push_bit 4 s) OR push_bit 2 a OR b)) = s \<and>
      drop_bit 2 (word_of_int (push_bit 4 s) OR push_bit 2 a OR b) AND 3 = a \<and>
      (word_of_int (push_bit 4 s) OR push_bit 2 a OR b) AND 3 = b"
    by code_simp
  show "uint (drop_bit 4 h) = s" "drop_bit 2 h AND 3 = mA" "h AND 3 = mB"
    using all s modes [OF assms(3)] modes [OF assms(4)] unfolding h_def by blast+
qed

section \<open>What a device reads back\<close>

definition canonChange :: "strength_change \<Rightarrow> strength_change" where
  "canonChange c = (if chMode c = StrengthKeep then \<lparr>chMode = StrengthKeep, chValue = 0\<rparr> else c)"

definition canonChannelFrame :: "bool \<Rightarrow> channel_frame \<Rightarrow> channel_frame" where
  "canonChannelFrame silenced c =
     (if silenced then zeroChannelFrame
      else \<lparr>cfPeriodMillis = period_canon (cfPeriodMillis c), cfIntensity = cfIntensity c\<rparr>)"

definition canonPacket :: "packet \<Rightarrow> packet" where
  "canonPacket p =
     \<lparr>pkSequence = pkSequence p, pkA = canonChange (pkA p), pkB = canonChange (pkB p),
      pkFrames = map (\<lambda>f. \<lparr>frA = canonChannelFrame (pkSilenceA p) (frA f),
                          frB = canonChannelFrame (pkSilenceB p) (frB f)\<rparr>) (pkFrames p),
      pkSilenceA = pkSilenceA p, pkSilenceB = pkSilenceB p\<rparr>"

lemma canonPacket_sel [simp]:
  "pkSequence (canonPacket p) = pkSequence p"
  "pkA (canonPacket p) = canonChange (pkA p)"
  "pkB (canonPacket p) = canonChange (pkB p)"
  "pkSilenceA (canonPacket p) = pkSilenceA p"
  "pkSilenceB (canonPacket p) = pkSilenceB p"
  "length (pkFrames (canonPacket p)) = length (pkFrames p)"
  by (simp_all add: canonPacket_def)

abbreviation packet_array :: "packet \<Rightarrow> bool" where
  "packet_array p \<equiv> length (pkFrames p) = FramesPerPacket"

lemma encodeStrength_fields:
  "encodeStrength c = Inr (m, v) \<Longrightarrow>
     m \<le> 3 \<and> canonChange c = \<lparr>chMode = m, chValue = uint v\<rparr> \<and> encodeStrength (canonChange c) = Inr (m, v)"
  by (cases c) (auto simp: encodeStrength_def canonChange_def mode_consts estim_consts not_less
      split: if_splits)

lemma encodeStrength_canon: "encodeStrength c = Inr r \<Longrightarrow> encodeStrength (canonChange c) = Inr r"
  by (cases r) (use encodeStrength_fields in blast)

lemma encodeFrames_decode:
  "encodeFrames ch fs = Inr (ps, is) \<Longrightarrow>
     length ps = length fs \<and> length is = length fs \<and>
     decodeFrames ps is = Some (map (\<lambda>f. canonChannelFrame False (ch f)) fs)"
proof (induction fs arbitrary: ps "is")
  case (Cons f fs)
  then obtain b ps' is' where "PeriodByte (cfPeriodMillis (ch f)) = Inr b"
    and i: "0 \<le> cfIntensity (ch f)" "cfIntensity (ch f) \<le> MaxIntensity"
    and rest: "encodeFrames ch fs = Inr (ps', is')"
    and eq: "ps = b # ps'" "is = word_of_int (cfIntensity (ch f)) # is'"
    by (auto simp: Let_def bindR_Inr_iff split: if_splits)
  moreover from i have "uint (word_of_int (cfIntensity (ch f)) :: byte) = cfIntensity (ch f)"
    by (simp add: MaxIntensity_def)
  ultimately show ?case
    using Cons.IH [OF rest] by (simp add: PeriodFromByte_PeriodByte canonChannelFrame_def)
qed simp

lemma encodeFrames_canon:
  "encodeFrames ch fs = Inr r \<Longrightarrow> (\<And>f. f \<in> set fs \<Longrightarrow> ch' (g f) = canonChannelFrame False (ch f)) \<Longrightarrow>
     encodeFrames ch' (map g fs) = Inr r"
proof (induction fs arbitrary: r)
  case (Cons f fs)
  then obtain b ps' is' where "PeriodByte (cfPeriodMillis (ch f)) = Inr b"
    and "0 \<le> cfIntensity (ch f)" "cfIntensity (ch f) \<le> MaxIntensity"
    and "encodeFrames ch fs = Inr (ps', is')"
    and "r = (b # ps', word_of_int (cfIntensity (ch f)) # is')"
    by (auto simp: Let_def bindR_Inr_iff split: if_splits)
  with Cons show ?case
    by (simp add: Let_def PeriodByte_canon canonChannelFrame_def)
qed simp

lemma encodeChannel_decode:
  assumes "encodeChannel fs ch sil = Inr bs" and "length fs = FramesPerPacket"
  shows "length bs = 8 \<and> decodeChannel bs = (map (\<lambda>f. canonChannelFrame sil (ch f)) fs, sil)"
proof (cases sil)
  case True
  with assms show ?thesis
    by (auto simp: encodeChannel_def decodeChannel_def estim_consts PeriodFromByte_def
        canonChannelFrame_def numeral_eq_Suc map_replicate_const)
next
  case False
  with assms(1) obtain ps "is" where e: "encodeFrames ch fs = Inr (ps, is)" and "bs = ps @ is"
    by (auto simp: encodeChannel_def bindR_Inr_iff)
  with encodeFrames_decode [OF e] assms(2) False show ?thesis
    by (simp add: decodeChannel_def FramesPerPacket_def)
qed

lemma encodeChannel_canon:
  assumes "encodeChannel fs ch sil = Inr bs"
    and "\<And>f. f \<in> set fs \<Longrightarrow> ch' (g f) = canonChannelFrame sil (ch f)"
  shows "encodeChannel (map g fs) ch' sil = Inr bs"
  using assms encodeFrames_canon [of ch fs _ ch' g]
  by (cases sil) (auto simp: encodeChannel_def bindR_Inr_iff)

lemma packet_Encode_parts:
  assumes "packet_Encode p = Inr bs"
  obtains mA vA mB vB as bbs where
    "0 \<le> pkSequence p" "pkSequence p \<le> 15"
    "encodeStrength (pkA p) = Inr (mA, vA)" "encodeStrength (pkB p) = Inr (mB, vB)"
    "encodeChannel (pkFrames p) frA (pkSilenceA p) = Inr as"
    "encodeChannel (pkFrames p) frB (pkSilenceB p) = Inr bbs"
    "bs = [headerPacket, word_of_int (push_bit 4 (pkSequence p)) OR push_bit 2 mA OR mB, vA, vB] @ as @ bbs"
  using assms unfolding packet_Encode_def
  by (auto simp: bindR_Inr_iff MaxSequence_def split: if_splits)

lemma packet_roundtrip_lemma:
  assumes "packet_array p" and "packet_Encode p = Inr bs"
  shows "DecodePacket bs = Inr (canonPacket p)"
proof -
  obtain mA vA mB vB as bbs where s: "0 \<le> pkSequence p" "pkSequence p \<le> 15"
    and A: "encodeStrength (pkA p) = Inr (mA, vA)" and B: "encodeStrength (pkB p) = Inr (mB, vB)"
    and cA: "encodeChannel (pkFrames p) frA (pkSilenceA p) = Inr as"
    and cB: "encodeChannel (pkFrames p) frB (pkSilenceB p) = Inr bbs"
    and bs: "bs = [headerPacket, word_of_int (push_bit 4 (pkSequence p)) OR push_bit 2 mA OR mB, vA, vB]
                  @ as @ bbs"
    using assms(2) by (rule packet_Encode_parts)
  note a = encodeStrength_fields [OF A] and b = encodeStrength_fields [OF B]
  note ca = encodeChannel_decode [OF cA assms(1)] and cb = encodeChannel_decode [OF cB assms(1)]
  have "length bs = PacketBytes" "bs ! 0 = headerPacket"
    using ca cb by (simp_all add: bs PacketBytes_def)
  moreover have "take 8 (drop 4 bs) = as" "take 8 (drop 12 bs) = bbs"
    using ca cb by (simp_all add: bs)
  ultimately show ?thesis
    using a b ca cb header_fields [OF s, of mA mB]
    by (simp add: DecodePacket_def bs canonPacket_def zip_map1 zip_map2 zip_same_conv_map)
qed

lemma packet_canon_lemma:
  assumes "packet_Encode p = Inr bs"
  shows "packet_Encode (canonPacket p) = Inr bs"
proof -
  obtain mA vA mB vB as bbs where s: "0 \<le> pkSequence p" "pkSequence p \<le> 15"
    and A: "encodeStrength (pkA p) = Inr (mA, vA)" and B: "encodeStrength (pkB p) = Inr (mB, vB)"
    and cA: "encodeChannel (pkFrames p) frA (pkSilenceA p) = Inr as"
    and cB: "encodeChannel (pkFrames p) frB (pkSilenceB p) = Inr bbs"
    and bs: "bs = [headerPacket, word_of_int (push_bit 4 (pkSequence p)) OR push_bit 2 mA OR mB, vA, vB]
                  @ as @ bbs"
    using assms by (rule packet_Encode_parts)
  have "encodeStrength (canonChange (pkA p)) = Inr (mA, vA)"
    and "encodeStrength (canonChange (pkB p)) = Inr (mB, vB)"
    using encodeStrength_canon A B by blast+
  moreover have "encodeChannel (pkFrames (canonPacket p)) frA (pkSilenceA p) = Inr as"
    and "encodeChannel (pkFrames (canonPacket p)) frB (pkSilenceB p) = Inr bbs"
    by (simp_all add: canonPacket_def encodeChannel_canon [OF cA] encodeChannel_canon [OF cB])
  ultimately show ?thesis
    using s by (simp add: packet_Encode_def bs MaxSequence_def)
qed

interpretation b0: codec packet_Encode DecodePacket canonPacket packet_array
  by unfold_locales (auto simp: packet_roundtrip_lemma packet_canon_lemma)

lemma boundedByte_Inr: "boundedByte v high = Inr b \<Longrightarrow> uint b = v \<and> 0 \<le> v \<and> v \<le> high"
  by (auto simp: boundedByte_def split: if_splits)

lemma limits_roundtrip_lemma: "limits_Encode l = Inr bs \<Longrightarrow> DecodeLimits bs = Inr l"
  by (cases l) (auto simp: limits_Encode_def DecodeLimits_def bindR_Inr_iff estim_consts
      dest!: boundedByte_Inr)

interpretation bf: codec limits_Encode DecodeLimits "\<lambda>l. l" "\<lambda>l. True"
  by unfold_locales (auto simp: limits_roundtrip_lemma)

section \<open>Properties\<close>

text \<open>
  Property C27.  A B0 packet the encoder accepts is 20 bytes long, decodes to its canonical form
  (periods rounded down to the wire's resolution, an unused strength value zeroed, a silenced
  channel's frames discarded), and that form has the same bytes.
\<close>

theorem packet_roundtrip:
  assumes "length (pkFrames p) = 4" and "packet_Encode p = Inr bs"
  shows "length bs = 20 \<and> DecodePacket bs = Inr (canonPacket p) \<and> packet_Encode (canonPacket p) = Inr bs"
proof -
  have arr: "packet_array p"
    using assms(1) by (simp add: FramesPerPacket_def)
  have dec: "DecodePacket bs = Inr (canonPacket p)"
    by (rule b0.dec_enc [OF arr assms(2)])
  then have "length bs = 20"
    by (auto simp: DecodePacket_def PacketBytes_def split: if_splits)
  with dec b0.enc_canon [OF arr assms(2)] show ?thesis by simp
qed

definition sample_packet :: packet where
  "sample_packet =
     \<lparr>pkSequence = 3, pkA = \<lparr>chMode = StrengthIncrease, chValue = 5\<rparr>,
      pkB = \<lparr>chMode = StrengthKeep, chValue = 9\<rparr>,
      pkFrames = replicate 4 \<lparr>frA = \<lparr>cfPeriodMillis = 123, cfIntensity = 40\<rparr>,
                              frB = \<lparr>cfPeriodMillis = 10, cfIntensity = 0\<rparr>\<rparr>,
      pkSilenceA = False, pkSilenceB = True\<rparr>"

definition sample_bytes :: "byte list" where
  "sample_bytes = [0xB0, 0x34, 5, 0, 104, 104, 104, 104, 40, 40, 40, 40, 0, 0, 0, 0, 0, 0, 0, 101]"

lemma packet_roundtrip_witness:
  "length sample_bytes = 20 \<and> DecodePacket sample_bytes = Inr (canonPacket sample_packet) \<and>
   packet_Encode (canonPacket sample_packet) = Inr sample_bytes"
proof (rule packet_roundtrip)
  show "length (pkFrames sample_packet) = 4"
    by (simp add: sample_packet_def)
  show "packet_Encode sample_packet = Inr sample_bytes"
    by code_simp
qed

text \<open>
  The B0 encoder returns a packet exactly when every field is in its documented
  range: the sequence in 0..15, each strength change in one of the four modes with a value in
  0..200 unless the mode keeps the strength, and every frame of a channel that is not silenced
  with a period in 10..1000 ms and an intensity in 0..100.  Nothing out of range reaches the wire.
\<close>

theorem packet_Encode_iff: "(\<exists>bs. packet_Encode p = Inr bs) \<longleftrightarrow> packet_ok p"
  using packet_Encode_ok [of p] by (simp add: isOk_iff)

text \<open>
  \<open>PeriodFromByte\<close> inverts \<open>PeriodByte\<close>: the period it returns has the same wire
  value, that value is in 10..240, and no shorter period encodes to it.
\<close>

theorem period_roundtrip:
  assumes "PeriodByte p = Inr b" and "PeriodFromByte b = Inr q"
  shows "PeriodByte q = Inr b \<and> 10 \<le> uint b \<and> uint b \<le> 240 \<and> (\<forall>p'. PeriodByte p' = Inr b \<longrightarrow> q \<le> p')"
proof -
  have q: "q = period_canon p'" if "PeriodByte p' = Inr b" for p'
    using PeriodFromByte_PeriodByte [OF that] assms(2) by simp
  have "10 \<le> uint b \<and> uint b \<le> 240"
    using assms(1) period_wire_bounds [of p] by (auto simp: PeriodByte_wire split: if_splits)
  with q [OF assms(1)] PeriodByte_canon [OF assms(1)] show ?thesis
    using q period_canon_le by auto
qed

lemma period_roundtrip_witness:
  "PeriodByte 120 = Inr 104 \<and> 10 \<le> uint (104 :: byte) \<and> uint (104 :: byte) \<le> 240 \<and> (120 :: int) \<le> 123"
proof -
  have 1: "PeriodByte 123 = Inr 104" by code_simp
  have 2: "PeriodFromByte 104 = Inr 120" by code_simp
  show ?thesis using period_roundtrip [OF 1 2] 1 by blast
qed

text \<open>
  The BF limits packet decodes to exactly the limits that were encoded, so two
  limits with the same bytes are the same limits; the encoder refuses a ceiling outside 0..200
  and a balance outside 0..255.
\<close>

theorem limits_roundtrip:
  assumes "limits_Encode l = Inr bs"
  shows "DecodeLimits bs = Inr l \<and> 0 \<le> liStrengthA l \<and> liStrengthA l \<le> 200 \<and>
         0 \<le> liStrengthB l \<and> liStrengthB l \<le> 200"
  using bf.dec_enc [OF _ assms] assms
  by (auto simp: limits_Encode_def bindR_Inr_iff MaxStrength_def dest!: boundedByte_Inr)

lemma limits_roundtrip_witness:
  "DecodeLimits [0xBF, 60, 200, 1, 2, 3, 255] = Inr \<lparr>liStrengthA = 60, liStrengthB = 200,
     liFrequencyBalanceA = 1, liFrequencyBalanceB = 2, liIntensityBalanceA = 3, liIntensityBalanceB = 255\<rparr>"
proof -
  have "limits_Encode \<lparr>liStrengthA = 60, liStrengthB = 200, liFrequencyBalanceA = 1,
      liFrequencyBalanceB = 2, liIntensityBalanceA = 3, liIntensityBalanceB = 255\<rparr>
    = Inr [0xBF, 60, 200, 1, 2, 3, 255]"
    by code_simp
  from limits_roundtrip [OF this] show ?thesis by simp
qed

end
