(* ===== verification/EstimStrength.thy ===== *)
theory EstimStrength
  imports EstimProtocol
begin

text \<open>
  The user-driven strength handshake of \<open>internal/estim/strength.go\<close>: \<open>StrengthController\<close>
  batches the user's steps, keeps one change in flight until the device reports it, never asks
  for more than the ceiling, and gives a zero request priority.  Each method is a function on the
  record; \<open>sc_run\<close> runs a list of calls.  The invariant \<open>sc_inv\<close> holds of every reachable
  controller, and the properties at the end are about all runs.
\<close>

section \<open>State\<close>

type_synonym channel = int

definition ChannelA :: channel where "ChannelA = 0"
definition ChannelB :: channel where "ChannelB = 1"

lemmas channel_consts = ChannelA_def ChannelB_def

definition zeroConfirmTimeout :: duration where "zeroConfirmTimeout = 1000000000"
definition relativeConfirmTimeout :: duration where "relativeConfirmTimeout = 1500 * 1000000"

definition StrengthUnknown :: string where "StrengthUnknown = ''unknown''"
definition StrengthReported :: string where "StrengthReported = ''reported''"
definition StrengthZeroCommand :: string where "StrengthZeroCommand = ''zero_command''"

datatype change_kind = ChangeNone | ChangeRelative | ChangeZero

datatype step_error = UnknownChannel | StrengthUnconfirmed | StrengthCeilingReached

record strength_controller =
  scDevice :: int2
  scKnown :: bool
  scSource :: string
  scCeiling :: int2
  scPending :: int2
  scInflight :: int
  scInflightKind :: change_kind
  scInflightAt :: time
  scLastSequence :: int
  scZero :: bool
  scReports :: nat
  scInflightReports :: nat

record strength_snapshot =
  ssA :: int
  ssB :: int
  ssKnown :: bool
  ssSource :: string
  ssCeilingA :: int
  ssCeilingB :: int
  ssPending :: bool

definition emptyController :: strength_controller where
  "emptyController =
     \<lparr>scDevice = (0, 0), scKnown = False, scSource = [], scCeiling = (0, 0), scPending = (0, 0),
      scInflight = 0, scInflightKind = ChangeNone, scInflightAt = zero_time, scLastSequence = 0,
      scZero = False, scReports = 0, scInflightReports = 0\<rparr>"

section \<open>Operations\<close>

definition trimPending :: "channel \<Rightarrow> strength_controller \<Rightarrow> strength_controller" where
  "trimPending ch c =
     (if scKnown c \<and> 0 < at2 (scPending c) ch
      then c\<lparr>scPending := upd2 (scPending c) ch
               (min (at2 (scPending c) ch) (max 0 (at2 (scCeiling c) ch - at2 (scDevice c) ch)))\<rparr>
      else c)"

definition SetCeilings :: "int \<Rightarrow> int \<Rightarrow> strength_controller \<Rightarrow> strength_controller" where
  "SetCeilings ceilingA ceilingB c =
     trimPending ChannelB (trimPending ChannelA
       (c\<lparr>scCeiling := (clampInt ceilingA 0 MaxStrength, clampInt ceilingB 0 MaxStrength)\<rparr>))"

definition NewStrengthController :: "int \<Rightarrow> int \<Rightarrow> strength_controller" where
  "NewStrengthController ceilingA ceilingB = SetCeilings ceilingA ceilingB emptyController"

definition sc_Step :: "channel \<Rightarrow> int \<Rightarrow> strength_controller \<Rightarrow> strength_controller \<times> step_error option"
where
  "sc_Step ch delta c =
     (if ch \<noteq> ChannelA \<and> ch \<noteq> ChannelB then (c, Some UnknownChannel)
      else if delta = 0 then (c, None)
      else if 0 < delta \<and> (\<not> scKnown c \<or> scZero c \<or> scInflightKind c = ChangeZero)
      then (c, Some StrengthUnconfirmed)
      else let headroom = at2 (scCeiling c) ch - at2 (scDevice c) ch - at2 (scPending c) ch in
        if 0 < delta \<and> headroom \<le> 0 then (c, Some StrengthCeilingReached)
        else let d = (if 0 < delta then min delta headroom else delta) in
          (c\<lparr>scPending := upd2 (scPending c) ch (at2 (scPending c) ch + d)\<rparr>, None))"

definition RequestZero :: "strength_controller \<Rightarrow> strength_controller" where
  "RequestZero c = c\<lparr>scZero := True, scPending := (0, 0), scKnown := False, scSource := StrengthUnknown\<rparr>"

definition CancelPending :: "strength_controller \<Rightarrow> strength_controller" where
  "CancelPending c = c\<lparr>scPending := (0, 0)\<rparr>"

definition ZeroWritten :: "int \<Rightarrow> strength_controller \<Rightarrow> strength_controller" where
  "ZeroWritten sequence c =
     (if scInflightKind c \<noteq> ChangeZero \<or> scInflight c \<noteq> sequence \<or> scReports c \<noteq> scInflightReports c
      then c
      else c\<lparr>scDevice := (0, 0), scKnown := True, scSource := StrengthZeroCommand\<rparr>)"

definition sc_begin :: "change_kind \<Rightarrow> time \<Rightarrow> strength_controller \<Rightarrow> strength_controller" where
  "sc_begin kind now c =
     (let s = scLastSequence c mod MaxSequence + 1 in
      c\<lparr>scLastSequence := s, scInflight := s, scInflightKind := kind, scInflightAt := now,
        scInflightReports := scReports c\<rparr>)"

definition relativeChange :: "channel \<Rightarrow> strength_controller \<Rightarrow> strength_change" where
  "relativeChange ch c =
     (let delta = at2 (scPending c) ch in
      if delta = 0 \<or> 0 < delta \<and> \<not> scKnown c then \<lparr>chMode = StrengthKeep, chValue = 0\<rparr>
      else let current = at2 (scDevice c) ch;
               target = (if 0 < delta then min (current + delta) (max current (at2 (scCeiling c) ch))
                         else current + delta);
               d = (if scKnown c then clampInt target 0 MaxStrength - current else delta) in
        if 0 < d then \<lparr>chMode = StrengthIncrease, chValue = d\<rparr>
        else if d < 0 then \<lparr>chMode = StrengthDecrease, chValue = min (- d) MaxStrength\<rparr>
        else \<lparr>chMode = StrengthKeep, chValue = 0\<rparr>)"

definition confirmTimeout :: "strength_controller \<Rightarrow> duration" where
  "confirmTimeout c =
     (if scInflightKind c = ChangeZero then zeroConfirmTimeout else relativeConfirmTimeout)"

definition sc_expire :: "time \<Rightarrow> strength_controller \<Rightarrow> strength_controller \<times> bool" where
  "sc_expire now c =
     (if time_sub now (scInflightAt c) < confirmTimeout c then (c, False)
      else let c1 = (if scInflightKind c = ChangeRelative
                     then c\<lparr>scKnown := False, scSource := StrengthUnknown,
                            scPending := (min (fst (scPending c)) 0, min (snd (scPending c)) 0)\<rparr>
                     else c) in
        (c1\<lparr>scInflight := 0, scInflightKind := ChangeNone\<rparr>, True))"

type_synonym instruction = "strength_change \<times> strength_change \<times> int"

definition keepChange :: strength_change where
  "keepChange = \<lparr>chMode = StrengthKeep, chValue = 0\<rparr>"

definition keepAll :: instruction where
  "keepAll = (keepChange, keepChange, 0)"

definition setZero :: strength_change where
  "setZero = \<lparr>chMode = StrengthSet, chValue = 0\<rparr>"

definition sendRelative :: "time \<Rightarrow> strength_controller \<Rightarrow> strength_controller \<times> instruction" where
  "sendRelative now c =
     (let changeA = relativeChange ChannelA c; changeB = relativeChange ChannelB c;
          c1 = c\<lparr>scPending := (0, 0)\<rparr> in
      if chMode changeA = StrengthKeep \<and> chMode changeB = StrengthKeep then (c1, keepAll)
      else let c2 = sc_begin ChangeRelative now c1 in (c2, (changeA, changeB, scInflight c2)))"

definition sc_Next :: "time \<Rightarrow> strength_controller \<Rightarrow> strength_controller \<times> instruction" where
  "sc_Next now c =
     (if scZero c then
        let c1 = sc_begin ChangeZero now (c\<lparr>scZero := False\<rparr>) in
        (c1, (setZero, setZero, scInflight c1))
      else if scInflight c \<noteq> 0 then
        (case sc_expire now c of (c1, expired) \<Rightarrow>
           if \<not> expired then (c1, keepAll) else sendRelative now c1)
      else sendRelative now c)"

definition sc_Pending :: "strength_controller \<Rightarrow> bool" where
  "sc_Pending c \<longleftrightarrow> scZero c \<or> scInflight c \<noteq> 0 \<or> scPending c \<noteq> (0, 0)"

definition sc_Report :: "strength_report \<Rightarrow> strength_controller \<Rightarrow> strength_controller" where
  "sc_Report r c =
     (let c1 = c\<lparr>scReports := Suc (scReports c),
                 scDevice := (clampInt (srA r) 0 MaxStrength, clampInt (srB r) 0 MaxStrength),
                 scKnown := True, scSource := StrengthReported\<rparr> in
      if srSequence r \<noteq> 0 \<and> srSequence r = scInflight c1
      then c1\<lparr>scInflight := 0, scInflightKind := ChangeNone\<rparr> else c1)"

definition sc_Reset :: "strength_controller \<Rightarrow> strength_controller" where
  "sc_Reset c = emptyController\<lparr>scCeiling := scCeiling c\<rparr>"

definition sc_Snapshot :: "strength_controller \<Rightarrow> strength_snapshot" where
  "sc_Snapshot c =
     \<lparr>ssA = at2 (scDevice c) ChannelA, ssB = at2 (scDevice c) ChannelB, ssKnown = scKnown c,
      ssSource = (if scKnown c then scSource c else StrengthUnknown),
      ssCeilingA = at2 (scCeiling c) ChannelA, ssCeilingB = at2 (scCeiling c) ChannelB,
      ssPending = sc_Pending c\<rparr>"

lemmas sc_ops = trimPending_def SetCeilings_def NewStrengthController_def sc_Step_def
  RequestZero_def CancelPending_def ZeroWritten_def sc_begin_def relativeChange_def sc_expire_def
  sendRelative_def sc_Next_def sc_Report_def sc_Reset_def confirmTimeout_def

section \<open>Calls and runs\<close>

datatype sc_call =
    CallSetCeilings int int
  | CallStep channel int
  | CallRequestZero
  | CallCancelPending
  | CallZeroWritten int
  | CallNext time
  | CallReport strength_report
  | CallReset

text \<open>One call, with the instruction a \<open>Next\<close> returns.\<close>

fun sc_exec :: "sc_call \<Rightarrow> strength_controller \<Rightarrow> strength_controller \<times> instruction" where
  "sc_exec (CallSetCeilings a b) c = (SetCeilings a b c, keepAll)"
| "sc_exec (CallStep ch d) c = (fst (sc_Step ch d c), keepAll)"
| "sc_exec CallRequestZero c = (RequestZero c, keepAll)"
| "sc_exec CallCancelPending c = (CancelPending c, keepAll)"
| "sc_exec (CallZeroWritten s) c = (ZeroWritten s c, keepAll)"
| "sc_exec (CallNext now) c = sc_Next now c"
| "sc_exec (CallReport r) c = (sc_Report r c, keepAll)"
| "sc_exec CallReset c = (sc_Reset c, keepAll)"

fun sc_run :: "sc_call list \<Rightarrow> strength_controller \<Rightarrow> strength_controller \<times> instruction list" where
  "sc_run [] c = (c, [])"
| "sc_run (x # xs) c =
     (case sc_exec x c of (c1, out) \<Rightarrow> case sc_run xs c1 of (c2, outs) \<Rightarrow> (c2, out # outs))"

section \<open>Invariant\<close>

definition in_range :: "int2 \<Rightarrow> bool" where
  "in_range p \<longleftrightarrow> 0 \<le> fst p \<and> fst p \<le> MaxStrength \<and> 0 \<le> snd p \<and> snd p \<le> MaxStrength"

definition no_raise :: "strength_controller \<Rightarrow> bool" where
  "no_raise c \<longleftrightarrow> fst (scPending c) \<le> 0 \<and> snd (scPending c) \<le> 0"

definition sc_inv :: "strength_controller \<Rightarrow> bool" where
  "sc_inv c \<longleftrightarrow>
     in_range (scDevice c) \<and> in_range (scCeiling c) \<and>
     0 \<le> scInflight c \<and> scInflight c \<le> MaxSequence \<and>
     0 \<le> scLastSequence c \<and> scLastSequence c \<le> MaxSequence \<and>
     (scInflight c = 0 \<longleftrightarrow> scInflightKind c = ChangeNone) \<and>
     scInflightReports c \<le> scReports c \<and>
     (\<not> scKnown c \<longrightarrow> no_raise c) \<and>
     (scZero c \<or> scInflightKind c = ChangeZero \<longrightarrow> no_raise c)"

lemma at2_ChannelA [simp]: "at2 p ChannelA = fst p"
  and at2_ChannelB [simp]: "at2 p ChannelB = snd p"
  and upd2_ChannelA [simp]: "upd2 p ChannelA v = (v, snd p)"
  and upd2_ChannelB [simp]: "upd2 p ChannelB v = (fst p, v)"
  by (simp_all add: at2_def upd2_def channel_consts)

lemma next_sequence: "0 \<le> s \<Longrightarrow> 1 \<le> s mod MaxSequence + 1 \<and> s mod MaxSequence + 1 \<le> MaxSequence"
  by (simp add: MaxSequence_def)

lemma sc_inv_empty: "sc_inv (emptyController\<lparr>scCeiling := ce\<rparr>) \<longleftrightarrow> in_range ce"
  by (simp add: sc_inv_def in_range_def no_raise_def emptyController_def estim_consts)

lemma sc_inv_pending:
  assumes "sc_inv c"
    and "\<not> scKnown c \<or> scZero c \<or> scInflightKind c = ChangeZero \<Longrightarrow> fst p \<le> 0 \<and> snd p \<le> 0"
  shows "sc_inv (c\<lparr>scPending := p\<rparr>)"
  using assms by (auto simp: sc_inv_def no_raise_def)

lemma sc_inv_no_raise:
  "sc_inv c \<Longrightarrow> \<not> scKnown c \<or> scZero c \<or> scInflightKind c = ChangeZero \<Longrightarrow>
     fst (scPending c) \<le> 0 \<and> snd (scPending c) \<le> 0"
  by (auto simp: sc_inv_def no_raise_def)

lemma sc_inv_trim [inv_rules]: "sc_inv c \<Longrightarrow> sc_inv (trimPending ch c)"
  unfolding trimPending_def
  by (simp, intro impI sc_inv_pending) (auto simp: upd2_def at2_def dest: sc_inv_no_raise)

lemma sc_inv_SetCeilings [inv_rules]: "sc_inv c \<Longrightarrow> sc_inv (SetCeilings a b c)"
proof -
  assume "sc_inv c"
  then have "sc_inv (c\<lparr>scCeiling := (clampInt a 0 MaxStrength, clampInt b 0 MaxStrength)\<rparr>)"
    by (simp add: sc_inv_def in_range_def no_raise_def estim_consts)
  then show ?thesis by (simp add: SetCeilings_def sc_inv_trim)
qed

lemma sc_inv_New [inv_rules]: "sc_inv (NewStrengthController a b)"
  using sc_inv_empty [of "(0, 0)"]
  by (simp add: NewStrengthController_def sc_inv_SetCeilings emptyController_def in_range_def estim_consts)

text \<open>A user step either changes nothing or moves one pending amount by a bounded \<open>e\<close>.\<close>

lemma sc_Step_cases:
  obtains (refused) "fst (sc_Step ch d c) = c"
    | (queued) e where
      "fst (sc_Step ch d c) = c\<lparr>scPending := upd2 (scPending c) ch (at2 (scPending c) ch + e)\<rparr>"
      "ch = ChannelA \<or> ch = ChannelB"
      "e \<le> 0 \<and> e = d \<or> 0 < e \<and> e \<le> d \<and> scKnown c \<and> \<not> scZero c \<and> scInflightKind c \<noteq> ChangeZero"
proof -
  let ?room = "at2 (scCeiling c) ch - at2 (scDevice c) ch - at2 (scPending c) ch"
  show ?thesis
  proof (cases "(ch \<noteq> ChannelA \<and> ch \<noteq> ChannelB) \<or> d = 0 \<or>
      0 < d \<and> (\<not> scKnown c \<or> scZero c \<or> scInflightKind c = ChangeZero \<or> ?room \<le> 0)")
    case True
    then have "fst (sc_Step ch d c) = c"
      unfolding sc_Step_def Let_def
      by (auto simp del: at2_ChannelA at2_ChannelB upd2_ChannelA upd2_ChannelB)
    then show ?thesis by (rule refused)
  next
    case False
    then have "fst (sc_Step ch d c) = c\<lparr>scPending := upd2 (scPending c) ch
        (at2 (scPending c) ch + (if 0 < d then min d ?room else d))\<rparr>"
      unfolding sc_Step_def Let_def
      by (auto simp del: at2_ChannelA at2_ChannelB upd2_ChannelA upd2_ChannelB)
    with False show ?thesis by (intro queued) auto
  qed
qed

lemma sc_inv_Step [inv_rules]: "sc_inv c \<Longrightarrow> sc_inv (fst (sc_Step ch d c))"
proof (cases rule: sc_Step_cases [of ch d c])
  case (queued e)
  assume "sc_inv c"
  then have "sc_inv (c\<lparr>scPending := upd2 (scPending c) ch (at2 (scPending c) ch + e)\<rparr>)"
    using queued(3) by (intro sc_inv_pending) (auto simp: upd2_def at2_def dest: sc_inv_no_raise)
  then show ?thesis by (simp add: queued(1))
qed simp

lemma sc_inv_RequestZero [inv_rules]: "sc_inv c \<Longrightarrow> sc_inv (RequestZero c)"
  by (simp add: RequestZero_def sc_inv_def no_raise_def)

lemma sc_inv_CancelPending [inv_rules]: "sc_inv c \<Longrightarrow> sc_inv (CancelPending c)"
  by (simp add: CancelPending_def sc_inv_def no_raise_def)

lemma sc_inv_ZeroWritten [inv_rules]: "sc_inv c \<Longrightarrow> sc_inv (ZeroWritten s c)"
  by (auto simp: ZeroWritten_def sc_inv_def no_raise_def in_range_def estim_consts)

lemma sc_inv_begin: "sc_inv c \<Longrightarrow> no_raise c \<Longrightarrow> kind \<noteq> ChangeNone \<Longrightarrow> sc_inv (sc_begin kind now c)"
  using next_sequence [of "scLastSequence c"]
  by (auto simp: sc_begin_def sc_inv_def Let_def no_raise_def)

lemma sc_inv_expire: "sc_inv c \<Longrightarrow> sc_inv (fst (sc_expire now c))"
  by (auto simp: sc_expire_def Let_def sc_inv_def no_raise_def MaxSequence_def)

lemma sc_inv_sendRelative: "sc_inv c \<Longrightarrow> sc_inv (fst (sendRelative now c))"
proof -
  assume "sc_inv c"
  then have "sc_inv (c\<lparr>scPending := (0, 0)\<rparr>)"
    by (simp add: sc_inv_def no_raise_def)
  then show ?thesis
    by (auto simp: sendRelative_def Let_def no_raise_def intro: sc_inv_begin)
qed

lemma sc_inv_Next [inv_rules]: "sc_inv c \<Longrightarrow> sc_inv (fst (sc_Next now c))"
proof -
  assume inv: "sc_inv c"
  have "scZero c \<Longrightarrow> sc_inv (sc_begin ChangeZero now (c\<lparr>scZero := False\<rparr>))"
    by (rule sc_inv_begin) (use inv in \<open>auto simp: sc_inv_def no_raise_def\<close>)
  then show ?thesis
    using sc_inv_expire [OF inv, of now] sc_inv_sendRelative inv
    by (auto simp: sc_Next_def Let_def split: prod.splits)
qed

lemma sc_inv_Report [inv_rules]: "sc_inv c \<Longrightarrow> sc_inv (sc_Report r c)"
  by (auto simp: sc_Report_def Let_def sc_inv_def no_raise_def in_range_def estim_consts)

lemma sc_inv_Reset [inv_rules]: "sc_inv c \<Longrightarrow> sc_inv (sc_Reset c)"
  by (simp add: sc_Reset_def sc_inv_empty) (simp add: sc_inv_def)

lemma sc_inv_exec: "sc_inv c \<Longrightarrow> sc_inv (fst (sc_exec x c))"
  by (cases x) (simp_all add: inv_rules)

inductive sc_step :: "strength_controller \<Rightarrow> strength_controller \<Rightarrow> bool" where
  exec: "sc_step c (fst (sc_exec x c))"

inductive_cases sc_stepE: "sc_step c d"

interpretation strength: machine "\<lambda>c. \<exists>a b. c = NewStrengthController a b" sc_step sc_inv
  by unfold_locales (auto simp: inv_rules sc_inv_exec elim!: sc_stepE)

lemma strength_reachable: "sc_step\<^sup>*\<^sup>* (NewStrengthController a b) c \<Longrightarrow> sc_inv c"
  by (rule strength.reachable_inv) auto

section \<open>What an instruction may ask for\<close>

definition within_ceiling :: "strength_controller \<Rightarrow> channel \<Rightarrow> strength_change \<Rightarrow> bool" where
  "within_ceiling c ch x \<longleftrightarrow>
     (chMode x = StrengthIncrease \<longrightarrow>
        scKnown c \<and> 0 < chValue x \<and> at2 (scDevice c) ch + chValue x \<le> at2 (scCeiling c) ch)"

definition instruction_ok :: "instruction \<Rightarrow> bool" where
  "instruction_ok i = (case i of (a, b, s) \<Rightarrow>
     strength_change_ok a \<and> strength_change_ok b \<and> 0 \<le> s \<and> s \<le> MaxSequence \<and>
     (chMode a = StrengthSet \<longrightarrow> chValue a = 0) \<and> (chMode b = StrengthSet \<longrightarrow> chValue b = 0))"

definition plain_channel :: "channel \<Rightarrow> bool" where
  "plain_channel ch \<longleftrightarrow> ch = ChannelA \<or> ch = ChannelB"

lemma device_range: "sc_inv c \<Longrightarrow> 0 \<le> at2 (scDevice c) ch \<and> at2 (scDevice c) ch \<le> MaxStrength"
  by (simp add: sc_inv_def in_range_def at2_def)

lemma ceiling_range: "sc_inv c \<Longrightarrow> 0 \<le> at2 (scCeiling c) ch \<and> at2 (scCeiling c) ch \<le> MaxStrength"
  by (simp add: sc_inv_def in_range_def at2_def)

lemma mode_distinct [simp]:
  "StrengthKeep \<noteq> StrengthIncrease" "StrengthDecrease \<noteq> StrengthIncrease"
  "StrengthSet \<noteq> StrengthIncrease" "StrengthKeep \<noteq> StrengthSet" "StrengthIncrease \<noteq> StrengthSet"
  "StrengthDecrease \<noteq> StrengthSet" "StrengthIncrease \<noteq> StrengthKeep" "StrengthDecrease \<noteq> StrengthKeep"
  "StrengthSet \<noteq> StrengthKeep" "StrengthIncrease \<noteq> StrengthDecrease" "StrengthSet \<noteq> StrengthDecrease"
  "StrengthKeep \<noteq> StrengthDecrease"
  by (simp_all add: mode_consts)

lemma mode_le_Set [simp]:
  "StrengthKeep \<le> StrengthSet" "StrengthIncrease \<le> StrengthSet" "StrengthDecrease \<le> StrengthSet"
  by (simp_all add: mode_consts)

text \<open>The amount behind a relative change: positive asks for more, negative for less.\<close>

definition rel_amount :: "bool \<Rightarrow> int \<Rightarrow> int \<Rightarrow> int \<Rightarrow> int" where
  "rel_amount known current ceil delta =
     (if delta = 0 \<or> 0 < delta \<and> \<not> known then 0
      else if known
      then clampInt (if 0 < delta then min (current + delta) (max current ceil) else current + delta)
             0 MaxStrength - current
      else delta)"

definition change_of :: "int \<Rightarrow> strength_change" where
  "change_of d =
     (if 0 < d then \<lparr>chMode = StrengthIncrease, chValue = d\<rparr>
      else if d < 0 then \<lparr>chMode = StrengthDecrease, chValue = min (- d) MaxStrength\<rparr>
      else keepChange)"

lemma relativeChange_amount:
  "relativeChange ch c =
     change_of (rel_amount (scKnown c) (at2 (scDevice c) ch) (at2 (scCeiling c) ch) (at2 (scPending c) ch))"
  by (simp add: relativeChange_def rel_amount_def change_of_def keepChange_def Let_def)

lemma rel_amount_pos:
  assumes "0 \<le> current" "current \<le> MaxStrength" "ceil \<le> MaxStrength" "0 < rel_amount known current ceil delta"
  shows "known \<and> current + rel_amount known current ceil delta \<le> ceil \<and>
         rel_amount known current ceil delta \<le> delta"
  using assms by (cases known; cases "0 < delta")
     (auto simp: rel_amount_def clampInt_def min_def max_def split: if_splits)

lemma rel_amount_le:
  assumes "0 \<le> current" "current \<le> MaxStrength"
  shows "- MaxStrength \<le> rel_amount known current ceil delta \<or> \<not> known" "rel_amount known current ceil delta \<le> MaxStrength"
  using assms by (auto simp: rel_amount_def clampInt_def)

lemma change_of_increase: "chMode (change_of d) = StrengthIncrease \<longleftrightarrow> 0 < d"
  by (simp add: change_of_def keepChange_def)

lemma change_of_value: "0 < d \<Longrightarrow> chValue (change_of d) = d"
  by (simp add: change_of_def)

lemma change_of_ok: "d \<le> MaxStrength \<Longrightarrow> strength_change_ok (change_of d)"
  by (simp add: change_of_def strength_change_ok_def keepChange_def MaxStrength_def)

lemma relativeChange_increase:
  assumes "sc_inv c" and "chMode (relativeChange ch c) = StrengthIncrease"
  shows "scKnown c \<and> 0 < chValue (relativeChange ch c) \<and>
    at2 (scDevice c) ch + chValue (relativeChange ch c) \<le> at2 (scCeiling c) ch \<and>
    chValue (relativeChange ch c) \<le> at2 (scPending c) ch"
  using assms device_range [OF assms(1), of ch] ceiling_range [OF assms(1), of ch]
    rel_amount_pos [of "at2 (scDevice c) ch" "at2 (scCeiling c) ch" "scKnown c" "at2 (scPending c) ch"]
  by (auto simp: relativeChange_amount change_of_increase change_of_value)

lemma relativeChange_ok: "sc_inv c \<Longrightarrow> strength_change_ok (relativeChange ch c)"
  using device_range by (simp add: relativeChange_amount change_of_ok rel_amount_le)

lemma relativeChange_not_Set: "chMode (relativeChange ch c) \<noteq> StrengthSet"
  by (simp add: relativeChange_amount change_of_def keepChange_def)

text \<open>The three ways \<open>Next\<close> ends: a zero, nothing, or the batched user steps.\<close>

lemma sc_Next_cases:
  assumes "sc_Next now c = (c', i)"
  obtains (zero) "scZero c" "c' = sc_begin ChangeZero now (c\<lparr>scZero := False\<rparr>)"
      "i = (setZero, setZero, scInflight c')"
    | (wait) "\<not> scZero c" "scInflight c \<noteq> 0" "\<not> snd (sc_expire now c)" "c' = c" "i = keepAll"
    | (relative) "\<not> scZero c" "scInflight c \<noteq> 0" "snd (sc_expire now c)"
      "sendRelative now (fst (sc_expire now c)) = (c', i)"
    | (idle) "\<not> scZero c" "scInflight c = 0" "sendRelative now c = (c', i)"
  using assms
  by (cases "scZero c"; cases "scInflight c = 0"; cases "snd (sc_expire now c)")
     (auto simp: sc_Next_def Let_def sc_expire_def split: if_splits)

lemma sendRelative_increase:
  assumes "sc_inv c" and "sendRelative now c = (c', (a, b, s))"
  shows "within_ceiling c ChannelA a \<and> within_ceiling c ChannelB b"
  using assms(2) relativeChange_increase [OF assms(1), of ChannelA]
    relativeChange_increase [OF assms(1), of ChannelB]
  by (auto simp: sendRelative_def Let_def within_ceiling_def keepAll_def keepChange_def split: if_splits)

lemma expire_frame:
  assumes "snd (sc_expire now c)"
  shows "scDevice (fst (sc_expire now c)) = scDevice c" "scCeiling (fst (sc_expire now c)) = scCeiling c"
    "scKnown (fst (sc_expire now c)) \<Longrightarrow> scKnown c"
    "at2 (scPending (fst (sc_expire now c))) ch \<le> at2 (scPending c) ch"
    "scReports (fst (sc_expire now c)) = scReports c"
    "scLastSequence (fst (sc_expire now c)) = scLastSequence c"
    "scInflight (fst (sc_expire now c)) = 0"
  using assms by (auto simp: sc_expire_def Let_def at2_def split: if_splits)

lemma sc_Next_within_ceiling:
  assumes inv: "sc_inv c" and n: "sc_Next now c = (c', (a, b, s))"
  shows "within_ceiling c ChannelA a \<and> within_ceiling c ChannelB b"
  using n
proof (cases rule: sc_Next_cases)
  case relative
  then show ?thesis
    using sendRelative_increase [OF sc_inv_expire [OF inv], of now now c' a b s]
      expire_frame [OF relative(3)]
    by (auto simp: within_ceiling_def)
qed (use inv in \<open>auto simp: within_ceiling_def setZero_def keepAll_def keepChange_def
       dest: sendRelative_increase\<close>)

lemma sendRelative_ok:
  assumes "sc_inv c" and "sendRelative now c = (c', i)"
  shows "instruction_ok i"
proof -
  have "1 \<le> scLastSequence c mod MaxSequence + 1 \<and> scLastSequence c mod MaxSequence + 1 \<le> MaxSequence"
    using assms(1) by (intro next_sequence) (simp add: sc_inv_def)
  then show ?thesis
    using assms relativeChange_ok [OF assms(1)]
    by (auto simp: sendRelative_def Let_def instruction_ok_def keepAll_def keepChange_def
        strength_change_ok_def sc_begin_def MaxSequence_def relativeChange_not_Set split: if_splits)
qed

lemma sc_Next_ok:
  assumes inv: "sc_inv c" and n: "sc_Next now c = (c', i)"
  shows "instruction_ok i"
  using n
proof (cases rule: sc_Next_cases)
  case zero
  moreover have "1 \<le> scLastSequence c mod MaxSequence + 1 \<and> scLastSequence c mod MaxSequence + 1 \<le> MaxSequence"
    using inv by (intro next_sequence) (simp add: sc_inv_def)
  ultimately show ?thesis
    by (simp add: instruction_ok_def setZero_def strength_change_ok_def sc_begin_def Let_def
        MaxStrength_def)
next
  case wait
  then show ?thesis
    by (simp add: instruction_ok_def keepAll_def keepChange_def strength_change_ok_def MaxSequence_def)
next
  case relative
  then show ?thesis using sendRelative_ok [OF sc_inv_expire [OF inv]] by blast
next
  case idle
  then show ?thesis using sendRelative_ok [OF inv] by blast
qed

section \<open>Accounting for increases\<close>

definition raise_of :: "strength_change \<Rightarrow> int" where
  "raise_of x = (if chMode x = StrengthIncrease then chValue x else 0)"

definition part_of :: "channel \<Rightarrow> instruction \<Rightarrow> strength_change" where
  "part_of ch i = (if ch = ChannelA then fst i else fst (snd i))"

definition asked :: "channel \<Rightarrow> instruction list \<Rightarrow> int" where
  "asked ch outs = sum_list (map (\<lambda>i. raise_of (part_of ch i)) outs)"

fun user_raise :: "channel \<Rightarrow> sc_call \<Rightarrow> int" where
  "user_raise ch (CallStep ch' d) = (if ch' = ch then max 0 d else 0)"
| "user_raise ch _ = 0"

lemma raise_keep [simp]: "raise_of (part_of ch keepAll) = 0"
  by (simp add: raise_of_def part_of_def keepAll_def keepChange_def)

lemma raise_setZero [simp]: "raise_of (part_of ch (setZero, setZero, s)) = 0"
  by (simp add: raise_of_def part_of_def setZero_def)

lemma sendRelative_budget:
  assumes "sc_inv c" and "sendRelative now c = (c', i)"
  shows "raise_of (part_of ch i) + max 0 (at2 (scPending c') ch) \<le>
         max 0 (at2 (scPending c) (if ch = ChannelA then ChannelA else ChannelB))"
  using assms(2) relativeChange_increase [OF assms(1), of ChannelA]
    relativeChange_increase [OF assms(1), of ChannelB]
  by (auto simp: sendRelative_def Let_def raise_of_def part_of_def keepAll_def keepChange_def
      sc_begin_def at2_def split: if_splits)

lemma sc_Next_budget:
  assumes inv: "sc_inv c" and n: "sc_Next now c = (c', i)" and ch: "ch = ChannelA \<or> ch = ChannelB"
  shows "raise_of (part_of ch i) + max 0 (at2 (scPending c') ch) \<le> max 0 (at2 (scPending c) ch)"
  using n
proof (cases rule: sc_Next_cases)
  case relative
  with sendRelative_budget [OF sc_inv_expire [OF inv] relative(4), of ch] expire_frame(4) [OF relative(3), of ch] ch
  show ?thesis by (auto simp: channel_consts)
next
  case idle
  with sendRelative_budget [OF inv idle(3), of ch] ch show ?thesis
    by (auto simp: channel_consts)
qed (simp_all add: sc_begin_def Let_def)

lemma trim_pending_le:
  "max 0 (at2 (scPending (trimPending k c)) ch) \<le> max 0 (at2 (scPending c) ch)"
  by (simp add: trimPending_def at2_def upd2_def)

lemma sc_exec_budget:
  assumes inv: "sc_inv c" and e: "sc_exec x c = (c', i)" and ch: "ch = ChannelA \<or> ch = ChannelB"
  shows "raise_of (part_of ch i) + max 0 (at2 (scPending c') ch) \<le>
         max 0 (at2 (scPending c) ch) + user_raise ch x"
proof (cases x)
  case (CallSetCeilings a b)
  have "max 0 (at2 (scPending (SetCeilings a b c)) ch) \<le> max 0 (at2 (scPending c) ch)"
    unfolding SetCeilings_def
    by (rule order_trans [OF trim_pending_le], rule order_trans [OF trim_pending_le]) simp
  with CallSetCeilings e show ?thesis by auto
next
  case (CallStep ch' d)
  with e have c': "c' = fst (sc_Step ch' d c)" and i: "i = keepAll" by auto
  show ?thesis
    using ch by (cases rule: sc_Step_cases [of ch' d c])
      (auto simp: c' i CallStep at2_def upd2_def channel_consts)
next
  case (CallNext now)
  with e sc_Next_budget [OF inv _ ch] show ?thesis by simp
qed (use e in \<open>auto simp: RequestZero_def CancelPending_def ZeroWritten_def sc_Report_def sc_Reset_def
       emptyController_def Let_def at2_def split: if_splits\<close>)

lemma sc_run_budget:
  assumes "sc_inv c" and "ch = ChannelA \<or> ch = ChannelB"
  shows "asked ch (snd (sc_run xs c)) \<le> max 0 (at2 (scPending c) ch) + sum_list (map (user_raise ch) xs)"
  using assms(1)
proof (induction xs arbitrary: c)
  case Nil
  then show ?case by (simp add: asked_def)
next
  case (Cons x xs)
  obtain c1 i where e: "sc_exec x c = (c1, i)" by (cases "sc_exec x c")
  obtain c2 outs where r: "sc_run xs c1 = (c2, outs)" by (cases "sc_run xs c1")
  have "sc_inv c1"
    using sc_inv_exec [OF Cons.prems, of x] e by simp
  then have "asked ch outs \<le> max 0 (at2 (scPending c1) ch) + sum_list (map (user_raise ch) xs)"
    using Cons.IH [of c1] r by simp
  then show ?case
    using sc_exec_budget [OF Cons.prems e assms(2)] by (simp add: e r asked_def)
qed

section \<open>The fence a zero puts up\<close>

text \<open>
  The calls that may come between a written zero and its confirmation: any user step, ceiling
  change or cancellation, the write's acknowledgement, reports of other changes, and packets
  composed before the confirmation timeout.
\<close>

fun before_confirm :: "int \<Rightarrow> time \<Rightarrow> sc_call \<Rightarrow> bool" where
  "before_confirm s t0 (CallNext now) = (now - t0 < zeroConfirmTimeout)"
| "before_confirm s t0 (CallReport r) = (srSequence r \<noteq> s)"
| "before_confirm s t0 CallRequestZero = False"
| "before_confirm s t0 CallReset = False"
| "before_confirm s t0 _ = True"

definition zero_in_flight :: "int \<Rightarrow> time \<Rightarrow> strength_controller \<Rightarrow> bool" where
  "zero_in_flight s t0 c \<longleftrightarrow>
     \<not> scZero c \<and> scInflight c = s \<and> s \<noteq> 0 \<and> scInflightKind c = ChangeZero \<and> scInflightAt c = t0"

lemma sc_exec_fence:
  assumes "zero_in_flight s t0 c" and "before_confirm s t0 x"
  shows "zero_in_flight s t0 (fst (sc_exec x c)) \<and> snd (sc_exec x c) = keepAll"
proof (cases x)
  case (CallStep ch d)
  with assms show ?thesis
    by (cases rule: sc_Step_cases [of ch d c]) (auto simp: zero_in_flight_def)
next
  case (CallNext now)
  then have "now - t0 < zeroConfirmTimeout" using assms(2) by simp
  then have "\<not> snd (sc_expire now c)"
    using assms(1) by (simp add: sc_expire_def confirmTimeout_def zero_in_flight_def
        zeroConfirmTimeout_def time_sub_less_iff)
  with CallNext assms(1) show ?thesis
    by (auto simp: sc_Next_def zero_in_flight_def sc_expire_def split: if_splits)
qed (use assms in \<open>auto simp: zero_in_flight_def SetCeilings_def trimPending_def CancelPending_def
       ZeroWritten_def sc_Report_def Let_def split: if_splits\<close>)

lemma sc_run_fence:
  "zero_in_flight s t0 c \<Longrightarrow> list_all (before_confirm s t0) xs \<Longrightarrow>
     set (snd (sc_run xs c)) \<subseteq> {keepAll}"
proof (induction xs arbitrary: c)
  case (Cons x xs)
  then show ?case
    using sc_exec_fence [of s t0 c x] by (fastforce split: prod.splits)
qed simp

lemma zero_begins_fence:
  assumes "sc_inv c" and "sc_Next t0 (RequestZero c) = (d, i)"
  shows "i = (setZero, setZero, scInflight d) \<and> 1 \<le> scInflight d \<and> scInflight d \<le> MaxSequence \<and>
         zero_in_flight (scInflight d) t0 d"
proof -
  have d: "d = sc_begin ChangeZero t0 ((RequestZero c)\<lparr>scZero := False\<rparr>)"
    and i: "i = (setZero, setZero, scInflight d)"
    using assms(2) by (auto simp: sc_Next_def RequestZero_def Let_def)
  have "scInflight d = scLastSequence c mod MaxSequence + 1"
    by (simp add: d sc_begin_def RequestZero_def Let_def)
  with next_sequence [of "scLastSequence c"] assms(1) have "1 \<le> scInflight d \<and> scInflight d \<le> MaxSequence"
    by (simp add: sc_inv_def)
  then show ?thesis
    using i by (simp add: zero_in_flight_def) (simp add: d sc_begin_def Let_def)
qed

section \<open>Properties\<close>

text \<open>A run is a sequence of machine steps, so the invariant holds of what it ends in.\<close>

lemma sc_run_steps: "sc_step\<^sup>*\<^sup>* c (fst (sc_run xs c))"
proof (induction xs arbitrary: c)
  case (Cons x xs)
  have "sc_step c (fst (sc_exec x c))" by (rule sc_step.exec)
  with Cons.IH [of "fst (sc_exec x c)"] show ?case
    by (simp add: split_def converse_rtranclp_into_rtranclp)
qed simp

abbreviation after_calls :: "int \<Rightarrow> int \<Rightarrow> sc_call list \<Rightarrow> strength_controller" where
  "after_calls a b xs \<equiv> fst (sc_run xs (NewStrengthController a b))"

lemma after_calls_inv: "sc_inv (after_calls a b xs)"
  using strength_reachable sc_run_steps by blast

text \<open>
  In every state the controller can reach, the device strengths and the ceilings
  are in 0..200, the sequence in flight is a 4-bit number that is 0 exactly when no change is in
  flight, and no raise is queued while the strength is unknown or a zero is queued or in flight.
\<close>

theorem strength_invariant: "sc_inv (fst (sc_run xs (NewStrengthController a b)))"
  by (rule after_calls_inv)

text \<open>
  Property C21.  Whatever the calls before it, an increase that \<open>Next\<close> asks for starts from a
  known strength and stays within the channel's ceiling, a \<open>Set\<close> only ever sets zero, and the
  instruction is one that the packet encoder accepts.
\<close>

theorem strength_increase_within_ceiling:
  assumes "c = fst (sc_run xs (NewStrengthController a b))" and "snd (sc_Next now c) = (x, y, s)"
  shows "within_ceiling c ChannelA x \<and> within_ceiling c ChannelB y \<and> instruction_ok (x, y, s)"
proof -
  have inv: "sc_inv c" using after_calls_inv assms(1) by simp
  have "sc_Next now c = (fst (sc_Next now c), (x, y, s))"
    using assms(2) by (metis prod.collapse)
  with sc_Next_within_ceiling [OF inv] sc_Next_ok [OF inv] show ?thesis by blast
qed

definition raised_calls :: "sc_call list" where
  "raised_calls = [CallReport \<lparr>srSequence = 0, srA = 10, srB = 20\<rparr>, CallStep 0 70]"

lemma strength_increase_within_ceiling_witness:
  "snd (sc_Next 5 (after_calls 60 60 raised_calls)) =
     (\<lparr>chMode = StrengthIncrease, chValue = 50\<rparr>, keepChange, 1) \<and>
   within_ceiling (after_calls 60 60 raised_calls) ChannelA \<lparr>chMode = StrengthIncrease, chValue = 50\<rparr>"
proof -
  have n: "snd (sc_Next 5 (after_calls 60 60 raised_calls)) =
      (\<lparr>chMode = StrengthIncrease, chValue = 50\<rparr>, keepChange, 1)"
    by code_simp
  from strength_increase_within_ceiling [OF refl n] n show ?thesis by blast
qed

text \<open>
  Property C19.  Strength is raised only by the user: over any run of calls, the increases sent
  for a channel add up to at most the sum of the user's positive steps on that channel.  With no
  such step nothing is ever raised, whatever the device, the timers or the ceilings do.
\<close>

theorem strength_raised_only_by_user:
  assumes "ch = ChannelA \<or> ch = ChannelB"
  shows "asked ch (snd (sc_run xs (NewStrengthController a b))) \<le> sum_list (map (user_raise ch) xs)"
proof -
  have "scPending (NewStrengthController a b) = (0, 0)"
    by (simp add: NewStrengthController_def SetCeilings_def trimPending_def emptyController_def)
  then show ?thesis
    using sc_run_budget [OF sc_inv_New assms, of xs a b] by (simp add: at2_def)
qed

lemma strength_raised_only_by_user_witness:
  "asked 0 (snd (sc_run (raised_calls @ [CallNext 5, CallNext 6]) (NewStrengthController 60 60))) = 50 \<and>
   (50::int) \<le> sum_list (map (user_raise 0) (raised_calls @ [CallNext 5, CallNext 6]))"
proof -
  have asked: "asked 0 (snd (sc_run (raised_calls @ [CallNext 5, CallNext 6]) (NewStrengthController 60 60))) = 50"
    by code_simp
  have "asked 0 (snd (sc_run (raised_calls @ [CallNext 5, CallNext 6]) (NewStrengthController 60 60)))
      \<le> sum_list (map (user_raise 0) (raised_calls @ [CallNext 5, CallNext 6]))"
    by (rule strength_raised_only_by_user) (simp add: ChannelA_def)
  with asked show ?thesis by simp
qed

text \<open>
  Property C20.  A zero request has priority and puts up a fence.  The packet composed next sets
  both channels to zero under a fresh sequence, whatever was queued or in flight; and until that
  sequence is reported or a second has passed, every further packet keeps both strengths, so no
  user step, ceiling change or unrelated report can raise the strength behind the zero.
\<close>

theorem strength_zero_fence:
  assumes "c = fst (sc_run xs (NewStrengthController a b))"
    and "sc_Next t0 (RequestZero c) = (d, i)"
    and "list_all (before_confirm (scInflight d) t0) ys"
  shows "i = (setZero, setZero, scInflight d) \<and> 1 \<le> scInflight d \<and> scInflight d \<le> 15 \<and>
         set (snd (sc_run ys d)) \<subseteq> {keepAll}"
proof -
  have inv: "sc_inv c" using after_calls_inv assms(1) by simp
  note z = zero_begins_fence [OF inv assms(2)]
  then show ?thesis
    using sc_run_fence [OF _ assms(3), of d] by (simp add: MaxSequence_def)
qed

lemma strength_zero_fence_witness:
  "set (snd (sc_run [CallStep 0 30, CallZeroWritten 1, CallNext 700, CallReport \<lparr>srSequence = 0, srA = 0, srB = 3\<rparr>,
      CallStep 1 5, CallNext 900] (fst (sc_Next 0 (RequestZero (after_calls 60 60 raised_calls))))))
   \<subseteq> {keepAll}"
proof -
  let ?ys = "[CallStep 0 30, CallZeroWritten 1, CallNext 700,
    CallReport \<lparr>srSequence = 0, srA = 0, srB = 3\<rparr>, CallStep 1 5, CallNext 900]"
  let ?d = "fst (sc_Next 0 (RequestZero (after_calls 60 60 raised_calls)))"
  have "list_all (before_confirm (scInflight ?d) 0) ?ys"
    by code_simp
  moreover have "sc_Next 0 (RequestZero (after_calls 60 60 raised_calls)) =
      (?d, snd (sc_Next 0 (RequestZero (after_calls 60 60 raised_calls))))"
    by simp
  ultimately show ?thesis
    using strength_zero_fence [OF refl] by blast
qed

end
