(* ===== verification/EstimSimulated.thy ===== *)
theory EstimSimulated
  imports EstimStrength
begin

text \<open>
  The modelled Coyote of \<open>internal/estim/simulated.go\<close>: \<open>SimulatedLink\<close> decodes what the encoders
  of \<open>EstimProtocol\<close> write, clamps every change to its ceilings and answers a sequenced change
  with a B1 report.  Its invariant is that a channel never sits above its ceiling.  The last
  section closes the loop with \<open>EstimStrength\<close>: an instruction of the controller, written to the
  device, comes back as a report that completes the handshake and leaves the controller with the
  device's own strength.
\<close>

section \<open>State\<close>

definition simulatedEventBuffer :: nat where "simulatedEventBuffer = 64"
definition simulatedBattery :: int where "simulatedBattery = 87"

datatype link_event = LinkNotification "byte list" | LinkLost string

datatype link_error = LinkClosed | ContextDone | Malformed estim_error | ConnectFailed string

record sim_link =
  slEvents :: "link_event list" \<comment> \<open>the buffered channel, oldest first\<close>
  slClosed :: bool
  slStrength :: int2
  slCeiling :: int2
  slPackets :: nat
  slLimits :: nat
  slOutput :: int2
  slLastWill :: "byte list"
  slLast :: "packet option"

record sim_connector =
  cnLast :: "sim_link option"
  cnConnectErr :: "string option"
  cnInitial :: int2

record sim_state =
  ssStrengthA :: int
  ssStrengthB :: int
  ssCeilA :: int
  ssCeilB :: int
  ssPackets :: nat
  ssLimits :: nat
  ssOutputA :: int
  ssOutputB :: int
  ssLastWill :: bool
  ssClosed :: bool
  ssLastPacket :: "packet option"

section \<open>The device\<close>

text \<open>
  The send in \<open>reportLocked\<close> does not block: a full buffer drops the report.  A value that does
  not fit a report byte ends it without a report.
\<close>

definition push_event :: "link_event \<Rightarrow> sim_link \<Rightarrow> sim_link" where
  "push_event e l =
     (if length (slEvents l) < simulatedEventBuffer then l\<lparr>slEvents := slEvents l @ [e]\<rparr> else l)"

definition reportLocked :: "int \<Rightarrow> sim_link \<Rightarrow> sim_link" where
  "reportLocked sequence l =
     (case boundedBytes [(sequence, MaxStrength), (fst (slStrength l), MaxStrength),
                         (snd (slStrength l), MaxStrength)] of
        Inl e \<Rightarrow> l
      | Inr bs \<Rightarrow> push_event (LinkNotification (headerStrengthReport # bs)) l)"

definition nextStrength :: "channel \<Rightarrow> strength_change \<Rightarrow> sim_link \<Rightarrow> int" where
  "nextStrength ch change l =
     (let current = at2 (slStrength l) ch in
      if chMode change = StrengthIncrease
      then clampInt (current + chValue change) 0 (at2 (slCeiling l) ch)
      else if chMode change = StrengthDecrease
      then clampInt (current - chValue change) 0 (at2 (slCeiling l) ch)
      else if chMode change = StrengthSet then clampInt (chValue change) 0 (at2 (slCeiling l) ch)
      else current)"

definition lastIntensity :: "packet \<Rightarrow> channel \<Rightarrow> int" where
  "lastIntensity p ch =
     (let f = pkFrames p ! (FramesPerPacket - 1) in
      if ch = ChannelA then (if pkSilenceA p then 0 else cfIntensity (frA f))
      else if pkSilenceB p then 0 else cfIntensity (frB f))"

text \<open>One turn of the loop over the two channels of a limits packet.\<close>

definition applyCeiling :: "channel \<Rightarrow> int \<Rightarrow> sim_link \<Rightarrow> sim_link" where
  "applyCeiling ch v l =
     (if 0 \<le> v \<and> v \<le> MaxStrength
      then l\<lparr>slCeiling := upd2 (slCeiling l) ch v,
             slStrength := upd2 (slStrength l) ch (min (at2 (slStrength l) ch) v)\<rparr>
      else l)"

definition applyLimitsLocked :: "limits \<Rightarrow> sim_link \<Rightarrow> sim_link" where
  "applyLimitsLocked li l =
     (let l1 = applyCeiling ChannelB (liStrengthB li)
                 (applyCeiling ChannelA (liStrengthA li) (l\<lparr>slLimits := Suc (slLimits l)\<rparr>)) in
      if slStrength l \<noteq> slStrength l1 then reportLocked 0 l1 else l1)"

definition applyPacket :: "packet \<Rightarrow> sim_link \<Rightarrow> sim_link" where
  "applyPacket p l =
     (let l1 = l\<lparr>slPackets := Suc (slPackets l), slLast := Some p\<rparr>;
          l2 = l1\<lparr>slStrength := (nextStrength ChannelA (pkA p) l1, nextStrength ChannelB (pkB p) l1),
                  slOutput := (lastIntensity p ChannelA, lastIntensity p ChannelB)\<rparr> in
      if pkSequence p \<noteq> 0 \<and> slStrength l \<noteq> slStrength l2 then reportLocked (pkSequence p) l2 else l2)"

text \<open>\<open>done\<close> says that the call's context had already ended.\<close>

definition sim_Write :: "bool \<Rightarrow> byte list \<Rightarrow> sim_link \<Rightarrow> sim_link \<times> link_error option" where
  "sim_Write ctxDone payload l =
     (if ctxDone then (l, Some ContextDone)
      else if slClosed l then (l, Some LinkClosed)
      else case DecodeLimits payload of
        Inr li \<Rightarrow> (applyLimitsLocked li l, None)
      | Inl e1 \<Rightarrow> (case DecodePacket payload of
          Inl e \<Rightarrow> (l, Some (Malformed e))
        | Inr p \<Rightarrow> (applyPacket p l, None)))"

definition TurnSwitch :: "channel \<Rightarrow> int \<Rightarrow> sim_link \<Rightarrow> sim_link" where
  "TurnSwitch ch delta l =
     (if slClosed l then l
      else let before = at2 (slStrength l) ch;
               l1 = l\<lparr>slStrength := upd2 (slStrength l) ch
                         (clampInt (before + delta) 0 (at2 (slCeiling l) ch))\<rparr> in
        if at2 (slStrength l1) ch \<noteq> before then reportLocked 0 l1 else l1)"

text \<open>
  \<open>Lose\<close> sends with the lock held and without a default case, so on a full buffer it does not
  return until a reader takes an event: that is \<open>None\<close>.
\<close>

definition sim_Lose :: "string option \<Rightarrow> sim_link \<Rightarrow> sim_link option" where
  "sim_Lose cause l =
     (if slClosed l then Some l
      else if length (slEvents l) < simulatedEventBuffer
      then Some (l\<lparr>slClosed := True,
                   slEvents := slEvents l @ [LinkLost (case cause of None \<Rightarrow> ''simulated link lost''
                                                       | Some c \<Rightarrow> c)]\<rparr>)
      else None)"

definition sim_ReadBattery :: "bool \<Rightarrow> link_error + int" where
  "sim_ReadBattery ctxDone = (if ctxDone then Inl ContextDone else Inr simulatedBattery)"

definition sim_SetLastWill :: "byte list \<Rightarrow> sim_link \<Rightarrow> sim_link" where
  "sim_SetLastWill payload l = l\<lparr>slLastWill := payload\<rparr>"

definition sim_Close :: "sim_link \<Rightarrow> sim_link" where
  "sim_Close l = l\<lparr>slClosed := True\<rparr>"

text \<open>The owner's goroutine takes the oldest event from the channel.\<close>

definition receive :: "sim_link \<Rightarrow> sim_link" where
  "receive l = l\<lparr>slEvents := tl (slEvents l)\<rparr>"

definition sim_Snapshot :: "sim_link \<Rightarrow> sim_state" where
  "sim_Snapshot l =
     \<lparr>ssStrengthA = at2 (slStrength l) ChannelA, ssStrengthB = at2 (slStrength l) ChannelB,
      ssCeilA = at2 (slCeiling l) ChannelA, ssCeilB = at2 (slCeiling l) ChannelB,
      ssPackets = slPackets l, ssLimits = slLimits l,
      ssOutputA = at2 (slOutput l) ChannelA, ssOutputB = at2 (slOutput l) ChannelB,
      ssLastWill = (0 < length (slLastWill l)), ssClosed = slClosed l, ssLastPacket = slLast l\<rparr>"

section \<open>The connector\<close>

definition NewSimulatedConnector :: sim_connector where
  "NewSimulatedConnector = \<lparr>cnLast = None, cnConnectErr = None, cnInitial = (0, 0)\<rparr>"

definition FailNextConnect :: "string \<Rightarrow> sim_connector \<Rightarrow> sim_connector" where
  "FailNextConnect err c = c\<lparr>cnConnectErr := Some err\<rparr>"

definition StartAt :: "int \<Rightarrow> int \<Rightarrow> sim_connector \<Rightarrow> sim_connector" where
  "StartAt a b c = c\<lparr>cnInitial := (a, b)\<rparr>"

definition newLink :: "int2 \<Rightarrow> sim_link" where
  "newLink initial =
     \<lparr>slEvents = [], slClosed = False, slStrength = initial, slCeiling = (MaxStrength, MaxStrength),
      slPackets = 0, slLimits = 0, slOutput = (0, 0), slLastWill = [], slLast = None\<rparr>"

definition sim_Connect :: "bool \<Rightarrow> sim_connector \<Rightarrow> sim_connector \<times> (link_error + sim_link)" where
  "sim_Connect ctxDone c =
     (if ctxDone then (c, Inl ContextDone)
      else case cnConnectErr c of
        Some err \<Rightarrow> (c\<lparr>cnConnectErr := None\<rparr>, Inl (ConnectFailed err))
      | None \<Rightarrow> let l = newLink (cnInitial c) in (c\<lparr>cnLast := Some l\<rparr>, Inr l))"

section \<open>Steps and invariant\<close>

inductive sim_step :: "sim_link \<Rightarrow> sim_link \<Rightarrow> bool" where
  written: "sim_step l (fst (sim_Write d payload l))"
| turn: "ch = ChannelA \<or> ch = ChannelB \<Longrightarrow> sim_step l (TurnSwitch ch delta l)"
| lose: "sim_Lose cause l = Some l' \<Longrightarrow> sim_step l l'"
| will: "sim_step l (sim_SetLastWill payload l)"
| close: "sim_step l (sim_Close l)"
| receive: "sim_step l (receive l)"

inductive_cases sim_stepE: "sim_step l l'"

definition within :: "int2 \<Rightarrow> int2 \<Rightarrow> bool" where
  "within s c \<longleftrightarrow> fst s \<le> fst c \<and> snd s \<le> snd c"

text \<open>
  The channels are between zero and their ceilings, the buffer is bounded, and every buffered
  notification is a well-formed report.
\<close>

definition report_event :: "link_event \<Rightarrow> bool" where
  "report_event e = (case e of
     LinkNotification bs \<Rightarrow> (case DecodeNotification bs of Inr (Some r) \<Rightarrow> True | _ \<Rightarrow> False)
   | LinkLost c \<Rightarrow> True)"

definition sim_inv :: "sim_link \<Rightarrow> bool" where
  "sim_inv l \<longleftrightarrow> in_range (slStrength l) \<and> in_range (slCeiling l) \<and> within (slStrength l) (slCeiling l) \<and>
     length (slEvents l) \<le> simulatedEventBuffer \<and> list_all report_event (slEvents l)"

lemma report_bytes:
  assumes "0 \<le> s" "s \<le> MaxStrength" "in_range p"
  shows "boundedBytes [(s, MaxStrength), (fst p, MaxStrength), (snd p, MaxStrength)] =
      Inr [word_of_int s, word_of_int (fst p), word_of_int (snd p)] \<and>
    DecodeNotification [headerStrengthReport, word_of_int s, word_of_int (fst p), word_of_int (snd p)] =
      Inr (Some \<lparr>srSequence = s, srA = fst p, srB = snd p\<rparr>)"
  using assms
  by (simp add: boundedByte_def DecodeNotification_def in_range_def MaxStrength_def)

lemma boundedBytes_report:
  assumes "boundedBytes [(s, MaxStrength), (a, MaxStrength), (b, MaxStrength)] = Inr bs"
  shows "DecodeNotification (headerStrengthReport # bs) = Inr (Some \<lparr>srSequence = s, srA = a, srB = b\<rparr>)"
  using assms
  by (auto simp: bindR_Inr_iff DecodeNotification_def dest!: boundedByte_Inr)

lemma reportLocked_frame [simp]:
  "slStrength (reportLocked s l) = slStrength l" "slCeiling (reportLocked s l) = slCeiling l"
  "slClosed (reportLocked s l) = slClosed l"
  by (auto simp: reportLocked_def push_event_def split: sum.splits)

lemma sim_inv_report: "sim_inv l \<Longrightarrow> sim_inv (reportLocked s l)"
  using boundedBytes_report [of s "fst (slStrength l)" "snd (slStrength l)"]
  by (auto simp: reportLocked_def push_event_def sim_inv_def report_event_def split: sum.splits)

lemma reportLocked_sent:
  assumes "sim_inv l" "0 \<le> s" "s \<le> MaxSequence" "length (slEvents l) < simulatedEventBuffer"
  shows "\<exists>bs. slEvents (reportLocked s l) = slEvents l @ [LinkNotification bs] \<and>
    DecodeNotification bs =
      Inr (Some \<lparr>srSequence = s, srA = fst (slStrength l), srB = snd (slStrength l)\<rparr>)"
  using assms report_bytes [of s "slStrength l"]
  by (auto simp: reportLocked_def push_event_def sim_inv_def estim_consts)

lemma nextStrength_bounds:
  assumes "sim_inv l"
  shows "0 \<le> nextStrength ch x l \<and> nextStrength ch x l \<le> at2 (slCeiling l) ch"
  using assms by (auto simp: nextStrength_def Let_def sim_inv_def in_range_def within_def at2_def)

lemma sim_inv_strength:
  assumes "sim_inv l" "0 \<le> fst p" "0 \<le> snd p" "within p (slCeiling l)"
  shows "sim_inv (l\<lparr>slStrength := p, slOutput := o1, slPackets := n, slLast := q\<rparr>)"
    "sim_inv (l\<lparr>slStrength := p\<rparr>)"
  using assms by (auto simp: sim_inv_def in_range_def within_def)

lemma sim_inv_applyCeiling: "sim_inv l \<Longrightarrow> sim_inv (applyCeiling ch v l)"
  by (auto simp: applyCeiling_def sim_inv_def in_range_def within_def at2_def upd2_def)

lemma sim_inv_limits [inv_rules]: "sim_inv l \<Longrightarrow> sim_inv (applyLimitsLocked li l)"
proof -
  assume "sim_inv l"
  then have "sim_inv (l\<lparr>slLimits := Suc (slLimits l)\<rparr>)" by (simp add: sim_inv_def)
  then show ?thesis by (simp add: applyLimitsLocked_def Let_def sim_inv_applyCeiling sim_inv_report)
qed

text \<open>The state a packet leaves, before its report.\<close>

definition packet_state :: "packet \<Rightarrow> sim_link \<Rightarrow> sim_link" where
  "packet_state p l = l\<lparr>slPackets := Suc (slPackets l), slLast := Some p,
     slStrength := (nextStrength ChannelA (pkA p) l, nextStrength ChannelB (pkB p) l),
     slOutput := (lastIntensity p ChannelA, lastIntensity p ChannelB)\<rparr>"

lemma nextStrength_frame [simp]:
  "nextStrength ch x (l\<lparr>slPackets := n, slLast := q\<rparr>) = nextStrength ch x l"
  by (simp add: nextStrength_def Let_def)

lemma applyPacket_state:
  "applyPacket p l =
     (if pkSequence p \<noteq> 0 \<and> slStrength l \<noteq> slStrength (packet_state p l)
      then reportLocked (pkSequence p) (packet_state p l) else packet_state p l)"
  by (simp add: applyPacket_def packet_state_def Let_def)

lemma sim_inv_packet_state: "sim_inv l \<Longrightarrow> sim_inv (packet_state p l)"
  using nextStrength_bounds [of l ChannelA "pkA p"] nextStrength_bounds [of l ChannelB "pkB p"]
  by (auto simp: packet_state_def sim_inv_def in_range_def within_def)

lemma sim_inv_packet [inv_rules]: "sim_inv l \<Longrightarrow> sim_inv (applyPacket p l)"
  by (simp add: applyPacket_state sim_inv_packet_state sim_inv_report)

lemma sim_inv_Write [inv_rules]: "sim_inv l \<Longrightarrow> sim_inv (fst (sim_Write d payload l))"
  by (auto simp: sim_Write_def inv_rules split: sum.splits)

lemma sim_inv_TurnSwitch [inv_rules]: "sim_inv l \<Longrightarrow> sim_inv (TurnSwitch ch delta l)"
proof -
  let ?p = "upd2 (slStrength l) ch (clampInt (at2 (slStrength l) ch + delta) 0 (at2 (slCeiling l) ch))"
  assume "sim_inv l"
  then have "sim_inv (l\<lparr>slStrength := ?p\<rparr>)"
    by (intro sim_inv_strength) (auto simp: sim_inv_def in_range_def within_def at2_def upd2_def)
  with \<open>sim_inv l\<close> show ?thesis
    by (simp add: TurnSwitch_def Let_def sim_inv_report)
qed

lemma sim_inv_Lose [inv_rules]: "sim_inv l \<Longrightarrow> sim_Lose cause l = Some l' \<Longrightarrow> sim_inv l'"
  by (auto simp: sim_Lose_def sim_inv_def report_event_def split: if_splits)

lemma in_tl: "x \<in> set (tl xs) \<Longrightarrow> x \<in> set xs"
  by (cases xs) simp_all

lemma sim_inv_step: "sim_step l l' \<Longrightarrow> sim_inv l \<Longrightarrow> sim_inv l'"
  by (induction rule: sim_step.induct)
     (auto simp: inv_rules intro: sim_inv_Lose,
      auto simp: sim_inv_def sim_SetLastWill_def sim_Close_def receive_def list_all_iff
        dest: in_tl)

lemma sim_inv_newLink: "in_range p \<Longrightarrow> sim_inv (newLink p)"
  by (simp add: newLink_def sim_inv_def in_range_def within_def estim_consts)

interpretation device: machine "\<lambda>l. \<exists>p. in_range p \<and> l = newLink p" sim_step sim_inv
  by unfold_locales (auto simp: sim_inv_newLink intro: sim_inv_step)

section \<open>The closed loop with the strength controller\<close>

lemma Next_instruction_ok:
  assumes "sc_inv c" and "sc_Next now c = (c', (a, b, s))"
  shows "strength_change_ok a \<and> strength_change_ok b \<and> 0 \<le> s \<and> s \<le> MaxSequence"
  using sc_Next_ok [OF assms] by (simp add: instruction_ok_def)

lemma begin_inflight: "0 \<le> scLastSequence c \<Longrightarrow> scInflight (sc_begin kind now c) \<noteq> 0"
  using next_sequence [of "scLastSequence c"] by (simp add: sc_begin_def Let_def)

lemma sendRelative_sequence:
  assumes "0 \<le> scLastSequence c" and "sendRelative now c = (c', (a, b, s))"
  shows "s = 0 \<and> a = keepChange \<and> b = keepChange \<or> s \<noteq> 0 \<and> scInflight c' = s"
  using assms begin_inflight [of "c\<lparr>scPending := (0, 0)\<rparr>" ChangeRelative now]
  by (auto simp: sendRelative_def Let_def keepAll_def split: if_splits)

lemma Next_sequence:
  assumes "sc_inv c" and "sc_Next now c = (c', (a, b, s))"
  shows "s = 0 \<and> a = keepChange \<and> b = keepChange \<or> s \<noteq> 0 \<and> scInflight c' = s"
proof -
  have seq: "0 \<le> scLastSequence c" "scLastSequence (fst (sc_expire now c)) = scLastSequence c"
    using assms(1) by (simp_all add: sc_inv_def sc_expire_def Let_def)
  show ?thesis
    using assms(2)
  proof (cases rule: sc_Next_cases)
    case zero
    then show ?thesis using begin_inflight [of "c\<lparr>scZero := False\<rparr>" ChangeZero now] seq by simp
  next
    case wait
    then show ?thesis by (simp add: keepAll_def)
  next
    case relative
    then show ?thesis using sendRelative_sequence [OF _ relative(4)] seq by simp
  next
    case idle
    then show ?thesis using sendRelative_sequence [OF seq(1) idle(3)] by simp
  qed
qed

lemma nextStrength_canon [simp]: "nextStrength ch (canonChange x) l = nextStrength ch x l"
  by (simp add: nextStrength_def canonChange_def)

lemma nextStrength_keep [simp]: "nextStrength ch keepChange l = at2 (slStrength l) ch"
  by (simp add: nextStrength_def keepChange_def)

text \<open>A packet the encoder accepted is never taken for a limits packet.\<close>

lemma Write_packet:
  assumes "packet_array p" "packet_Encode p = Inr bs" "\<not> slClosed l"
  shows "sim_Write False bs l = (applyPacket (canonPacket p) l, None)"
proof -
  have "length bs = PacketBytes"
    using packet_roundtrip_lemma [OF assms(1,2)] by (auto simp: DecodePacket_def split: if_splits)
  then have "\<not> isOk (DecodeLimits bs)"
    by (simp add: DecodeLimits_def estim_consts)
  then show ?thesis
    using packet_roundtrip_lemma [OF assms(1,2)] assms(3)
    by (auto simp: sim_Write_def split: sum.splits)
qed

lemma applyPacket_strength:
  "slStrength (applyPacket p l) = (nextStrength ChannelA (pkA p) l, nextStrength ChannelB (pkB p) l)"
  by (simp add: applyPacket_state packet_state_def)

lemma packet_state_frame [simp]:
  "slEvents (packet_state p l) = slEvents l"
  "slStrength (packet_state p l) = (nextStrength ChannelA (pkA p) l, nextStrength ChannelB (pkB p) l)"
  by (simp_all add: packet_state_def)

lemma applyPacket_report:
  assumes "sim_inv l" "0 \<le> pkSequence p" "pkSequence p \<le> MaxSequence"
    "length (slEvents l) < simulatedEventBuffer"
  shows "if pkSequence p \<noteq> 0 \<and> slStrength (applyPacket p l) \<noteq> slStrength l
    then \<exists>bs. slEvents (applyPacket p l) = slEvents l @ [LinkNotification bs] \<and>
      DecodeNotification bs = Inr (Some \<lparr>srSequence = pkSequence p,
        srA = fst (slStrength (applyPacket p l)), srB = snd (slStrength (applyPacket p l))\<rparr>)
    else slEvents (applyPacket p l) = slEvents l"
  using reportLocked_sent [OF sim_inv_packet_state [OF assms(1)] assms(2,3), of p] assms(4)
  by (auto simp: applyPacket_state)

lemma Report_matches:
  assumes "in_range p" "s \<noteq> 0" "scInflight c = s"
  shows "scDevice (sc_Report \<lparr>srSequence = s, srA = fst p, srB = snd p\<rparr> c) = p \<and>
    scKnown (sc_Report \<lparr>srSequence = s, srA = fst p, srB = snd p\<rparr> c) \<and>
    scInflight (sc_Report \<lparr>srSequence = s, srA = fst p, srB = snd p\<rparr> c) = 0"
  using assms by (simp add: sc_Report_def Let_def in_range_def clampInt_id)

lemma raise_is_exact:
  assumes "within_ceiling c ch x" "chMode x = StrengthIncrease" "sim_inv l"
    "at2 (scDevice c) ch = at2 (slStrength l) ch" "at2 (scCeiling c) ch = at2 (slCeiling l) ch"
  shows "nextStrength ch x l = at2 (slStrength l) ch + chValue x"
  using assms by (auto simp: within_ceiling_def nextStrength_def sim_inv_def in_range_def at2_def clampInt_def
      split: if_splits)

section \<open>Properties\<close>

text \<open>
  Whatever is written to the device (well-formed or not), whatever the user turns on
  the device itself, and whenever it is lost or closed: from a start in range, each channel's
  strength stays between zero and the channel's ceiling, which stays at most 200, and every
  notification waiting in its buffer decodes as a strength report.
\<close>

theorem device_within_ceiling:
  assumes "in_range p" and "sim_step\<^sup>*\<^sup>* (newLink p) l"
  shows "0 \<le> fst (slStrength l) \<and> fst (slStrength l) \<le> fst (slCeiling l) \<and> fst (slCeiling l) \<le> 200 \<and>
         0 \<le> snd (slStrength l) \<and> snd (slStrength l) \<le> snd (slCeiling l) \<and> snd (slCeiling l) \<le> 200 \<and>
         length (slEvents l) \<le> 64 \<and> list_all report_event (slEvents l)"
proof -
  have "sim_inv l" using device.reachable_inv assms by blast
  then show ?thesis by (simp add: sim_inv_def in_range_def within_def estim_consts simulatedEventBuffer_def)
qed

lemma device_within_ceiling_witness:
  "fst (slStrength (TurnSwitch ChannelA 90 (fst (sim_Write False [0xBF, 60, 70, 0, 0, 0, 0] (newLink (80, 20))))))
     \<le> 60"
proof -
  let ?m = "fst (sim_Write False [0xBF, 60, 70, 0, 0, 0, 0] (newLink (80, 20)))"
  have "sim_step (newLink (80, 20)) ?m" by (rule written)
  moreover have "sim_step ?m (TurnSwitch ChannelA 90 ?m)" by (rule turn) simp
  ultimately have "sim_step\<^sup>*\<^sup>* (newLink (80, 20)) (TurnSwitch ChannelA 90 ?m)" by simp
  moreover have "in_range (80, 20)" by code_simp
  moreover have "fst (slCeiling (TurnSwitch ChannelA 90 ?m)) = 60" by code_simp
  ultimately show ?thesis using device_within_ceiling by metis
qed

text \<open>
  Property C22.  The handshake closes.  Take a reachable controller and the instruction it puts in a
  packet, with any frames the encoder accepts, and write those bytes to an open device with room in
  its buffer.  The write succeeds; a packet without a sequence changes no strength; and a change of
  strength is announced by exactly one report under the packet's sequence, which, passed to the
  controller, leaves it knowing the device's own strengths with nothing in flight.
\<close>

theorem handshake_closes:
  assumes "sc_inv c" and "sc_Next now c = (c', (a, b, s))"
    and "p = \<lparr>pkSequence = s, pkA = a, pkB = b, pkFrames = fs, pkSilenceA = qa, pkSilenceB = qb\<rparr>"
    and "length fs = 4" and "packet_Encode p = Inr bs"
    and "sim_inv l" and "\<not> slClosed l" and "length (slEvents l) < 64"
    and "sim_Write False bs l = (l', err)"
  shows "err = None \<and>
    (if s \<noteq> 0 \<and> slStrength l' \<noteq> slStrength l
     then \<exists>n r. slEvents l' = slEvents l @ [LinkNotification n] \<and> DecodeNotification n = Inr (Some r) \<and>
            srSequence r = s \<and> scDevice (sc_Report r c') = slStrength l' \<and> scKnown (sc_Report r c') \<and>
            scInflight (sc_Report r c') = 0
     else slEvents l' = slEvents l \<and> (s = 0 \<longrightarrow> slStrength l' = slStrength l))"
proof -
  have w: "l' = applyPacket (canonPacket p) l" "err = None"
    using Write_packet [of p bs l] assms by (auto simp: FramesPerPacket_def)
  have inv: "sim_inv l'" by (simp add: w sim_inv_packet assms(6))
  have seq: "pkSequence (canonPacket p) = s" "0 \<le> s" "s \<le> MaxSequence"
    using Next_instruction_ok [OF assms(1,2)] assms(3) by simp_all
  have still: "slStrength l' = slStrength l" if "s = 0"
    using Next_sequence [OF assms(1,2)] that by (simp add: w applyPacket_strength assms(3))
  have rep: "scInflight c' = s" if "s \<noteq> 0" using Next_sequence [OF assms(1,2)] that by auto
  note r = applyPacket_report [of l "canonPacket p", folded w(1), unfolded seq(1), OF assms(6) seq(2,3)]
  show ?thesis
  proof (cases "s \<noteq> 0 \<and> slStrength l' \<noteq> slStrength l")
    case True
    then obtain n where n: "slEvents l' = slEvents l @ [LinkNotification n]"
      "DecodeNotification n = Inr (Some \<lparr>srSequence = s, srA = fst (slStrength l'), srB = snd (slStrength l')\<rparr>)"
      using r assms(8) by (auto simp: simulatedEventBuffer_def)
    have "in_range (slStrength l')" using inv by (simp add: sim_inv_def)
    then show ?thesis
      using True n w(2) Report_matches [of "slStrength l'" s c'] rep by auto
  next
    case False
    then show ?thesis using r still w(2) assms(8) by (auto simp: simulatedEventBuffer_def)
  qed
qed

definition step_calls :: "sc_call list" where
  "step_calls = [CallReport \<lparr>srSequence = 0, srA = 10, srB = 20\<rparr>, CallStep ChannelA 5]"

definition step_packet :: packet where
  "step_packet = \<lparr>pkSequence = 1, pkA = \<lparr>chMode = StrengthIncrease, chValue = 5\<rparr>, pkB = keepChange,
     pkFrames = replicate 4 SilentFrame, pkSilenceA = False, pkSilenceB = True\<rparr>"

lemma handshake_closes_witness:
  "let c' = fst (sc_Next 0 (after_calls 60 60 step_calls));
       l' = fst (sim_Write False (projr (packet_Encode step_packet)) (newLink (10, 20))) in
   slStrength l' = (15, 20) \<and>
   (\<exists>n r. slEvents l' = [LinkNotification n] \<and> DecodeNotification n = Inr (Some r) \<and>
          scDevice (sc_Report r c') = (15, 20) \<and> scInflight (sc_Report r c') = 0)"
proof -
  let ?c = "after_calls 60 60 step_calls" and ?bs = "projr (packet_Encode step_packet)"
  let ?w = "sim_Write False ?bs (newLink (10, 20))"
  have 1: "sc_inv ?c" by (rule after_calls_inv)
  have 2: "sc_Next 0 ?c = (fst (sc_Next 0 ?c), (\<lparr>chMode = StrengthIncrease, chValue = 5\<rparr>, keepChange, 1))"
    by code_simp
  have 3: "packet_Encode step_packet = Inr ?bs" by code_simp
  have 4: "sim_inv (newLink (10, 20))" by (rule sim_inv_newLink) code_simp
  have 5: "\<not> slClosed (newLink (10, 20))" "length (slEvents (newLink (10, 20))) < 64"
    "slEvents (newLink (10, 20)) = []"
    by (simp_all add: newLink_def)
  have 6: "slStrength (fst ?w) = (15, 20)" "slStrength (newLink (10, 20)) = (10, 20)" by code_simp+
  have 7: "?w = (fst ?w, snd ?w)" by simp
  show ?thesis
    using handshake_closes [OF 1 2 step_packet_def _ 3 4 5(1,2) 7] 5(3) 6
    by (simp add: Let_def, blast)
qed

end
