(* ===== verification/Companion.thy ===== *)
theory Companion
  imports Complex_Main Prelude
begin

text \<open>
  The pieces of \<open>internal/companion\<close> that every companion output shares: the playback clock, the
  coverage tracker that turns a frame that ran out into a reported starvation, and the timeline
  of timed points.  \<open>spliceAt\<close> is the abstract meaning of appending one point (it replaces
  everything at or after its time); the lemmas show that \<open>Append\<close> with its binary search and its
  bound implements it on a strictly increasing timeline, and what \<open>Prune\<close> keeps.
  Interpolation (\<open>Timeline.At\<close>) and \<open>StreamMillis\<close> are floating point and are not modelled.
\<close>

section \<open>Clock\<close>

record clock =
  ckAnchor :: time

definition stoppedClock :: clock where
  "stoppedClock = \<lparr>ckAnchor = zero_time\<rparr>"

definition clock_Start :: "time \<Rightarrow> int \<Rightarrow> duration \<Rightarrow> clock \<Rightarrow> clock" where
  "clock_Start now startMillis preroll c =
     c\<lparr>ckAnchor := now + wrap64 (preroll - wrap64 (startMillis * millisecond))\<rparr>"

definition clock_StartAt :: "time \<Rightarrow> clock \<Rightarrow> clock" where
  "clock_StartAt anchor c = c\<lparr>ckAnchor := anchor\<rparr>"

definition clock_Stop :: "clock \<Rightarrow> clock" where
  "clock_Stop c = c\<lparr>ckAnchor := zero_time\<rparr>"

definition clock_Playing :: "clock \<Rightarrow> bool" where
  "clock_Playing c \<longleftrightarrow> ckAnchor c \<noteq> zero_time"

lemma clock_Playing_simps [simp]:
  "\<not> clock_Playing (clock_Stop c)" "clock_Playing (clock_StartAt a c) \<longleftrightarrow> a \<noteq> 0"
  "\<not> clock_Playing stoppedClock"
  by (simp_all add: clock_Playing_def clock_Stop_def clock_StartAt_def stoppedClock_def)

section \<open>Coverage\<close>

definition StateCovered :: string where "StateCovered = ''playing''"
definition StateStarving :: string where "StateStarving = ''starving''"
definition StateStarved :: string where "StateStarved = ''starved''"

record coverage =
  cvGrace :: duration
  cvUncoveredSince :: time

definition NewCoverage :: "duration \<Rightarrow> coverage" where
  "NewCoverage grace = \<lparr>cvGrace = grace, cvUncoveredSince = zero_time\<rparr>"

definition Observe_coverage :: "time \<Rightarrow> bool \<Rightarrow> coverage \<Rightarrow> coverage \<times> string" where
  "Observe_coverage now covered c =
     (if covered then (c\<lparr>cvUncoveredSince := zero_time\<rparr>, StateCovered)
      else let c1 = (if cvUncoveredSince c = zero_time then c\<lparr>cvUncoveredSince := now\<rparr> else c) in
        (c1, if time_sub now (cvUncoveredSince c1) \<ge> cvGrace c1 then StateStarved else StateStarving))"

definition coverage_Reset :: "coverage \<Rightarrow> coverage" where
  "coverage_Reset c = c\<lparr>cvUncoveredSince := zero_time\<rparr>"

text \<open>A run of uncovered ticks, and the states the tracker reports for it.\<close>

fun observe_all :: "time list \<Rightarrow> coverage \<Rightarrow> coverage \<times> string list" where
  "observe_all [] c = (c, [])"
| "observe_all (t # ts) c =
     (case Observe_coverage t False c of (c1, s) \<Rightarrow>
      case observe_all ts c1 of (c2, ss) \<Rightarrow> (c2, s # ss))"

lemma observe_since:
  assumes "cvUncoveredSince c = t0" "t0 \<noteq> 0"
  shows "Observe_coverage t False c =
    (c, if time_sub t t0 \<ge> cvGrace c then StateStarved else StateStarving)"
  using assms by (simp add: Observe_coverage_def)

lemma observe_all_since:
  assumes "cvUncoveredSince c = t0" "t0 \<noteq> 0"
  shows "observe_all ts c =
    (c, map (\<lambda>t. if time_sub t t0 \<ge> cvGrace c then StateStarved else StateStarving) ts)"
  using assms by (induction ts) (simp_all add: observe_since)

section \<open>Timeline\<close>

text \<open>A position is a \<open>float64\<close> between 0 and 100 that the timeline only stores; \<open>None\<close> is NaN.\<close>

type_synonym position = "rat option"

record point =
  ptTimeMillis :: int
  ptPosition :: position

type_synonym timeline = "point list"

definition maxTimelinePoints :: nat where "maxTimelinePoints = 8192"

datatype timeline_error = OutsideFrame point | TimelineFull

definition position_bad :: "position \<Rightarrow> bool" where
  "position_bad p = (case p of None \<Rightarrow> True | Some x \<Rightarrow> x < 0 \<or> 100 < x)"

fun validatePoints :: "point list \<Rightarrow> timeline_error option" where
  "validatePoints [] = None"
| "validatePoints (p # ps) =
     (if position_bad (ptPosition p) \<or> ptTimeMillis p < 0 then Some (OutsideFrame p)
      else validatePoints ps)"

text \<open>One turn of the second loop: cut the tail at or after the point's time, then add it.\<close>

definition appendPoint :: "point \<Rightarrow> timeline \<Rightarrow> timeline_error + timeline" where
  "appendPoint p t =
     (let t1 = (if 0 < length t \<and> ptTimeMillis p \<le> ptTimeMillis (t ! (length t - 1))
                then take (sort_search (length t) (\<lambda>i. ptTimeMillis p \<le> ptTimeMillis (t ! i))) t
                else t) in
      if maxTimelinePoints \<le> length t1 then Inl TimelineFull else Inr (t1 @ [p]))"

fun appendPoints :: "point list \<Rightarrow> timeline \<Rightarrow> timeline_error + timeline" where
  "appendPoints [] t = Inr t"
| "appendPoints (p # ps) t = bindR (appendPoint p t) (appendPoints ps)"

definition timeline_Append :: "point list \<Rightarrow> timeline \<Rightarrow> timeline \<times> timeline_error option" where
  "timeline_Append ps t =
     (case validatePoints ps of
        Some e \<Rightarrow> (t, Some e)
      | None \<Rightarrow> (case appendPoints ps t of Inl e \<Rightarrow> (t, Some e) | Inr next \<Rightarrow> (next, None)))"

definition timeline_Reset :: "timeline \<Rightarrow> timeline" where
  "timeline_Reset t = []"

definition timeline_Prune :: "int \<Rightarrow> timeline \<Rightarrow> timeline" where
  "timeline_Prune beforeMillis t =
     (let cut = sort_search (length t) (\<lambda>i. beforeMillis \<le> ptTimeMillis (t ! i)) in
      if 1 < cut then drop (cut - 1) t else t)"

definition timeline_End :: "timeline \<Rightarrow> int option" where
  "timeline_End t = (if length t = 0 then None else Some (ptTimeMillis (t ! (length t - 1))))"

definition timeline_Start :: "timeline \<Rightarrow> int option" where
  "timeline_Start t = (if length t = 0 then None else Some (ptTimeMillis (t ! 0)))"

section \<open>What the timeline holds\<close>

definition increasing :: "timeline \<Rightarrow> bool" where
  "increasing t \<longleftrightarrow> sorted_wrt (\<lambda>p q. ptTimeMillis p < ptTimeMillis q) t"

definition timeline_ok :: "timeline \<Rightarrow> bool" where
  "timeline_ok t \<longleftrightarrow> increasing t \<and> length t \<le> maxTimelinePoints \<and> validatePoints t = None"

text \<open>The abstract meaning of one appended point.\<close>

definition spliceAt :: "timeline \<Rightarrow> point \<Rightarrow> timeline" where
  "spliceAt t p = filter (\<lambda>q. ptTimeMillis q < ptTimeMillis p) t @ [p]"

lemma validatePoints_None:
  "validatePoints ps = None \<longleftrightarrow> (\<forall>p \<in> set ps. \<not> position_bad (ptPosition p) \<and> 0 \<le> ptTimeMillis p)"
  by (induction ps) (auto split: if_splits)

lemma increasing_nth_mono:
  "increasing t \<Longrightarrow> a \<le> b \<Longrightarrow> b < length t \<Longrightarrow> ptTimeMillis (t ! a) \<le> ptTimeMillis (t ! b)"
  by (cases "a = b") (auto simp: increasing_def sorted_wrt_iff_nth_less order_less_imp_le)

lemma search_increasing:
  assumes "increasing t"
  shows "sort_search (length t) (\<lambda>i. m \<le> ptTimeMillis (t ! i)) =
    length (takeWhile (\<lambda>q. ptTimeMillis q < m) t)"
proof -
  have "m \<le> ptTimeMillis (t ! b)" if "a \<le> b" "b < length t" "m \<le> ptTimeMillis (t ! a)" for a b
    using increasing_nth_mono [OF assms that(1,2)] that(3) by simp
  then show ?thesis
    using sort_search_takeWhile [of t "\<lambda>q. m \<le> ptTimeMillis q"] by (simp add: not_le)
qed

lemma takeWhile_increasing:
  "increasing t \<Longrightarrow> takeWhile (\<lambda>q. ptTimeMillis q < m) t = filter (\<lambda>q. ptTimeMillis q < m) t"
proof (induction t)
  case (Cons a t)
  then have "increasing t" "\<forall>q \<in> set t. ptTimeMillis a < ptTimeMillis q" by (auto simp: increasing_def)
  with Cons.IH show ?case by (cases "ptTimeMillis a < m") (auto intro!: filter_False [symmetric])
qed simp

lemma take_search:
  "increasing t \<Longrightarrow> take (sort_search (length t) (\<lambda>i. m \<le> ptTimeMillis (t ! i))) t =
     filter (\<lambda>q. ptTimeMillis q < m) t"
  by (simp add: search_increasing takeWhile_increasing [symmetric] takeWhile_eq_take [symmetric])

lemma filter_beyond_end:
  assumes "increasing t" "\<not> (0 < length t \<and> m \<le> ptTimeMillis (t ! (length t - 1)))"
  shows "filter (\<lambda>q. ptTimeMillis q < m) t = t"
proof (rule filter_True, rule ballI)
  fix q assume "q \<in> set t"
  then obtain i where i: "i < length t" "q = t ! i" by (auto simp: in_set_conv_nth)
  then have "ptTimeMillis q \<le> ptTimeMillis (t ! (length t - 1))"
    using increasing_nth_mono [OF assms(1), of i "length t - 1"] by simp
  with assms(2) i show "ptTimeMillis q < m" by auto
qed

lemma appendPoint_splice:
  assumes "increasing t"
  shows "appendPoint p t =
    (if maxTimelinePoints \<le> length (filter (\<lambda>q. ptTimeMillis q < ptTimeMillis p) t)
     then Inl TimelineFull else Inr (spliceAt t p))"
  using take_search [OF assms] filter_beyond_end [OF assms]
  by (auto simp: appendPoint_def spliceAt_def Let_def)

lemma increasing_splice: "increasing t \<Longrightarrow> increasing (spliceAt t p)"
  by (auto simp: increasing_def spliceAt_def sorted_wrt_append sorted_wrt_filter)

lemma splice_max: "increasing t \<Longrightarrow> timeline_End (spliceAt t p) = Some (ptTimeMillis p)"
  by (simp add: timeline_End_def spliceAt_def nth_append)

text \<open>The points that survive a batch: no appended point reaches back to them.\<close>

lemma appendPoints_splice:
  assumes "increasing t" "appendPoints ps t = Inr u" "length t \<le> maxTimelinePoints"
  shows "u = foldl spliceAt t ps \<and> increasing u \<and> length u \<le> maxTimelinePoints"
  using assms
proof (induction ps arbitrary: t)
  case (Cons p ps)
  let ?kept = "filter (\<lambda>q. ptTimeMillis q < ptTimeMillis p) t"
  from Cons.prems have room: "length ?kept < maxTimelinePoints" and rest: "appendPoints ps (spliceAt t p) = Inr u"
    by (auto simp: appendPoint_splice split: if_splits)
  then have "length (spliceAt t p) \<le> maxTimelinePoints" by (simp add: spliceAt_def)
  with Cons.IH [OF increasing_splice [OF Cons.prems(1)] rest] show ?case
    unfolding foldl_Cons by blast
qed simp

lemma splice_keeps:
  "q \<in> set t \<Longrightarrow> ptTimeMillis q < ptTimeMillis p \<Longrightarrow> q \<in> set (spliceAt t p)"
  by (simp add: spliceAt_def)

lemma foldl_splice_keeps:
  "q \<in> set t \<Longrightarrow> \<forall>p \<in> set ps. ptTimeMillis q < ptTimeMillis p \<Longrightarrow> q \<in> set (foldl spliceAt t ps)"
  by (induction ps arbitrary: t) (auto simp: splice_keeps)

lemma foldl_splice_end:
  "ps \<noteq> [] \<Longrightarrow> timeline_End (foldl spliceAt t ps) = Some (ptTimeMillis (last ps))"
  by (induction ps rule: rev_induct) (simp_all add: timeline_End_def spliceAt_def nth_append)

lemma set_foldl_splice: "set (foldl spliceAt t ps) \<subseteq> set t \<union> set ps"
  by (induction ps arbitrary: t) (fastforce simp: spliceAt_def)+

text \<open>\<open>Prune\<close> drops exactly the points before the segment that spans the given time.\<close>

lemma prune_suffix: "\<exists>front. t = front @ timeline_Prune m t"
proof -
  let ?c = "sort_search (length t) (\<lambda>i. m \<le> ptTimeMillis (t ! i))"
  have "t = (if 1 < ?c then take (?c - 1) t else []) @ timeline_Prune m t"
    by (simp add: timeline_Prune_def Let_def)
  then show ?thesis by blast
qed

lemma prune_front:
  assumes "increasing t" "t = front @ timeline_Prune m t" "front \<noteq> []"
  shows "timeline_Prune m t \<noteq> [] \<and> ptTimeMillis (timeline_Prune m t ! 0) < m"
proof -
  let ?cut = "length (takeWhile (\<lambda>q. ptTimeMillis q < m) t)"
  have p: "timeline_Prune m t = (if 1 < ?cut then drop (?cut - 1) t else t)"
    by (simp add: timeline_Prune_def search_increasing [OF assms(1)] Let_def)
  with assms(2,3) have cut: "1 < ?cut" by (metis append_self_conv2)
  then have "?cut - 1 < ?cut" "?cut \<le> length t" by (simp_all add: length_takeWhile_le)
  then have "ptTimeMillis (t ! (?cut - 1)) < m" "?cut - 1 < length t"
    using takeWhile_nth [of "?cut - 1" "\<lambda>q. ptTimeMillis q < m" t]
      nth_mem [of "?cut - 1" "takeWhile (\<lambda>q. ptTimeMillis q < m) t"] set_takeWhileD by (metis, linarith)
  then show ?thesis using p cut by simp
qed

lemma end_append: "rest \<noteq> [] \<Longrightarrow> timeline_End (front @ rest) = timeline_End rest"
  by (cases rest rule: rev_cases) (simp_all add: timeline_End_def nth_append)

lemma timeline_ok_drop: "timeline_ok (front @ rest) \<Longrightarrow> timeline_ok rest"
  by (simp add: timeline_ok_def increasing_def sorted_wrt_append validatePoints_None)

lemma timeline_ok_Append: "timeline_ok t \<Longrightarrow> timeline_ok (fst (timeline_Append ps t))"
proof (cases "timeline_Append ps t")
  case (Pair u e)
  assume ok: "timeline_ok t"
  show ?thesis
  proof (cases e)
    case None
    then have v: "validatePoints ps = None" and a: "appendPoints ps t = Inr u"
      using Pair by (auto simp: timeline_Append_def split: option.splits sum.splits)
    have u: "u = foldl spliceAt t ps" "increasing u" "length u \<le> maxTimelinePoints"
      using appendPoints_splice [OF _ a] ok unfolding timeline_ok_def by blast+
    then have "validatePoints u = None"
      using set_foldl_splice [of t ps] v ok unfolding timeline_ok_def validatePoints_None by blast
    with u Pair show ?thesis by (simp add: timeline_ok_def)
  next
    case (Some x)
    with Pair ok show ?thesis by (auto simp: timeline_Append_def split: option.splits sum.splits)
  qed
qed

lemma timeline_ok_Prune: "timeline_ok t \<Longrightarrow> timeline_ok (timeline_Prune m t)"
  using prune_suffix [of t m] timeline_ok_drop by metis

section \<open>Properties\<close>

text \<open>
  Property C28.  Appending to a well-formed timeline is atomic and implements the abstract spliceAt:
  on an error the timeline is unchanged; otherwise it is the old timeline with each new point in
  turn replacing everything at or after its time, so it ends at the last new point, keeps every old
  point that lies before all the new ones, and is again strictly increasing, inside the frame and
  within the bound of 8192 points.
\<close>

theorem timeline_append_splices:
  assumes "timeline_ok t" and "timeline_Append ps t = (u, e)"
  shows "timeline_ok u \<and> length u \<le> 8192 \<and> (e \<noteq> None \<and> u = t \<or> e = None \<and> u = foldl spliceAt t ps) \<and>
    (e = None \<longrightarrow>
       (ps \<noteq> [] \<longrightarrow> timeline_End u = Some (ptTimeMillis (last ps))) \<and>
       (\<forall>q \<in> set t. (\<forall>p \<in> set ps. ptTimeMillis q < ptTimeMillis p) \<longrightarrow> q \<in> set u))"
proof -
  have u: "e \<noteq> None \<and> u = t \<or> e = None \<and> u = foldl spliceAt t ps"
    using assms appendPoints_splice [of t ps u]
    by (auto simp: timeline_Append_def timeline_ok_def split: option.splits sum.splits)
  have "timeline_ok u" using timeline_ok_Append [OF assms(1), of ps] assms(2) by simp
  then show ?thesis
    using u foldl_splice_end [of ps t] foldl_splice_keeps [of _ t ps]
    by (simp add: timeline_ok_def maxTimelinePoints_def) blast
qed

definition sample_points :: "point list" where
  "sample_points = [\<lparr>ptTimeMillis = 150, ptPosition = Some 30\<rparr>, \<lparr>ptTimeMillis = 400, ptPosition = Some 90\<rparr>]"

lemma timeline_append_splices_witness:
  "let t = [\<lparr>ptTimeMillis = 0, ptPosition = Some 0\<rparr>, \<lparr>ptTimeMillis = 100, ptPosition = Some 50\<rparr>,
            \<lparr>ptTimeMillis = 200, ptPosition = Some 100\<rparr>] in
   timeline_End (fst (timeline_Append sample_points t)) = Some 400 \<and>
   \<lparr>ptTimeMillis = 100, ptPosition = Some 50\<rparr> \<in> set (fst (timeline_Append sample_points t))"
proof -
  let ?t = "[\<lparr>ptTimeMillis = 0, ptPosition = Some 0\<rparr>, \<lparr>ptTimeMillis = 100, ptPosition = Some 50\<rparr>,
            \<lparr>ptTimeMillis = 200, ptPosition = Some 100\<rparr>]"
  have "timeline_ok ?t" by code_simp
  moreover have "timeline_Append sample_points ?t = (fst (timeline_Append sample_points ?t), None)" by code_simp
  ultimately show ?thesis
    using timeline_append_splices [of ?t sample_points] by (fastforce simp: Let_def sample_points_def)
qed

text \<open>
  Pruning keeps everything from the given time on: what it drops is a prefix, the
  timeline stays well-formed with the same end, and if anything was dropped the first point kept
  lies before the given time, so every stream time from there to the end that was covered is still
  covered.
\<close>

theorem timeline_prune_keeps_coverage:
  assumes "timeline_ok t"
  shows "timeline_ok (timeline_Prune m t) \<and> timeline_End (timeline_Prune m t) = timeline_End t \<and>
    (\<exists>front. t = front @ timeline_Prune m t \<and>
       (front \<noteq> [] \<longrightarrow> (\<exists>s < m. timeline_Start (timeline_Prune m t) = Some s)))"
proof -
  obtain front where f: "t = front @ timeline_Prune m t" using prune_suffix by blast
  have kept: "timeline_Prune m t \<noteq> [] \<and> ptTimeMillis (timeline_Prune m t ! 0) < m" if "front \<noteq> []"
    using prune_front [OF _ f that] assms by (simp add: timeline_ok_def)
  then have "front \<noteq> [] \<longrightarrow> (\<exists>s < m. timeline_Start (timeline_Prune m t) = Some s)"
    by (auto simp: timeline_Start_def)
  moreover have "timeline_End (timeline_Prune m t) = timeline_End t"
    using f end_append [of "timeline_Prune m t" front] kept by (cases "front = []") simp_all
  ultimately show ?thesis
    using f timeline_ok_Prune [OF assms] by blast
qed

lemma timeline_prune_keeps_coverage_witness:
  "timeline_End (timeline_Prune 150 [\<lparr>ptTimeMillis = 0, ptPosition = Some 0\<rparr>,
     \<lparr>ptTimeMillis = 100, ptPosition = Some 50\<rparr>, \<lparr>ptTimeMillis = 200, ptPosition = Some 100\<rparr>]) = Some 200"
proof -
  have "timeline_ok [\<lparr>ptTimeMillis = 0, ptPosition = Some 0\<rparr>,
     \<lparr>ptTimeMillis = 100, ptPosition = Some 50\<rparr>, \<lparr>ptTimeMillis = 200, ptPosition = Some 100\<rparr>]" by code_simp
  from timeline_prune_keeps_coverage [OF this, of 150] show ?thesis
    by (simp add: timeline_End_def)
qed

text \<open>
  Starvation is reported exactly after the grace period.  From a fresh tracker, a run
  of uncovered ticks reports \<open>starved\<close> at a tick if and only if the grace has passed since the run
  began, and \<open>starving\<close> before; one covered tick starts over.
\<close>

theorem starved_after_grace:
  assumes "t0 \<noteq> 0"
  shows "snd (observe_all (t0 # ts) (NewCoverage g)) =
      map (\<lambda>t. if g \<le> time_sub t t0 then StateStarved else StateStarving) (t0 # ts) \<and>
    Observe_coverage t True (fst (observe_all (t0 # ts) (NewCoverage g))) = (NewCoverage g, StateCovered)"
proof -
  let ?c = "\<lparr>cvGrace = g, cvUncoveredSince = t0\<rparr>"
  have "Observe_coverage t0 False (NewCoverage g) = (?c, if g \<le> time_sub t0 t0 then StateStarved else StateStarving)"
    by (simp add: Observe_coverage_def NewCoverage_def)
  moreover have "observe_all ts ?c =
      (?c, map (\<lambda>t. if time_sub t t0 \<ge> g then StateStarved else StateStarving) ts)"
    using observe_all_since [of ?c t0 ts] assms by simp
  ultimately show ?thesis by (simp add: Observe_coverage_def NewCoverage_def)
qed

lemma starved_after_grace_witness:
  "snd (observe_all [5, 105, 755, 1005] (NewCoverage 750)) = [StateStarving, StateStarving, StateStarved, StateStarved]"
  using starved_after_grace [of 5 "[105, 755, 1005]" 750] by (simp add: time_sub_def)

end
