(* ===== verification/CoyoteOwner.thy ===== *)
theory CoyoteOwner
  imports EstimSimulated Companion
begin

text \<open>
  The owner of one Coyote connection: \<open>internal/transport/coyote.go\<close>, \<open>coyote_controls.go\<close>,
  \<open>coyote_session.go\<close> and \<open>coyote_stream.go\<close>.  This theory holds the owner's state (everything
  under \<open>Coyote.mu\<close>) and, for every method, what it does to that state in each of its critical
  sections; \<open>CoyoteConcurrency\<close> interleaves those sections with the wire.

  A link is named by the number of the connection that opened it, so two links are equal exactly
  when Go's interface values are.  The renderer is floating point and is not modelled: the frames
  it returns for a tick, and whether the timeline ran out, are arguments of the pacer's step.
\<close>

section \<open>State\<close>

type_synonym link = nat

definition coyotePreroll :: duration where "coyotePreroll = 120 * 1000000"
definition coyoteStarveAfter :: duration where "coyoteStarveAfter = 750 * 1000000"
definition coyoteMaxOffsetMillis :: int where "coyoteMaxOffsetMillis = 300"
definition coyotePruneMillis :: int where "coyotePruneMillis = 1000"
definition ReferencePackets :: int where "ReferencePackets = 16"

datatype coyote_error =
    NotConnected
  | StopUnconfirmed
  | AlreadyConnected
  | OwnerClosed
  | Superseded
  | NotReady
  | TestWhilePlaying
  | SessionEnded
  | HelperMissing
  | NotFound
  | UnknownCoyoteChannel
  | ContextErr
  | NoPoints string
  | StrengthErr step_error
  | TimelineErr timeline_error
  | EncodeErr estim_error
  | LinkErr string

record coyote_config =
  ccLimits :: limits
  ccOffsetMillis :: int
  ccRemembered :: string

record coyote_stream =
  csTimeline :: timeline
  csOffsetMillis :: int
  csId :: string
  csOrigin :: clock
  csCoverage :: coverage
  csStarted :: bool
  csLastTick :: time

record coyote_reference =
  rfActive :: bool
  rfChannel :: channel
  rfIndex :: int

record coyote_stats =
  stPackets :: nat
  stWriteFailures :: nat
  stStarved :: nat
  stMaxLateness :: duration
  stCommanded :: int2

record device_info =
  diName :: string
  diAddress :: string
  diUnacknowledged :: bool

datatype command_kind = KindPointsAdd | KindPointsPlay | KindStop | KindStrokeWindow

record coyote_diag =
  dgNextID :: nat
  dgCount :: nat
  dgLast :: "(command_kind \<times> coyote_error option) option"

record coyote =
  coClosed :: bool
  coConnecting :: bool
  coLink :: "link option"
  coDevice :: device_info
  coBattery :: "int option"
  coConfig :: coyote_config
  coAppliedLimits :: limits
  coLimitsApplied :: bool
  coZeroWrites :: int
  coStopHolds :: int
  coStrength :: strength_controller
  coStream :: coyote_stream
  coReference :: coyote_reference
  coGeneration :: nat
  coSessionID :: nat
  coStats :: coyote_stats
  coState :: string
  coLastError :: "coyote_error option"
  coDiag :: coyote_diag

definition zeroLimits :: limits where
  "zeroLimits = \<lparr>liStrengthA = 0, liStrengthB = 0, liFrequencyBalanceA = 0, liFrequencyBalanceB = 0,
                 liIntensityBalanceA = 0, liIntensityBalanceB = 0\<rparr>"

definition noReference :: coyote_reference where
  "noReference = \<lparr>rfActive = False, rfChannel = ChannelA, rfIndex = 0\<rparr>"

section \<open>The stream\<close>

definition newCoyoteStream :: coyote_stream where
  "newCoyoteStream =
     \<lparr>csTimeline = [], csOffsetMillis = 0, csId = [], csOrigin = stoppedClock,
      csCoverage = NewCoverage coyoteStarveAfter, csStarted = False, csLastTick = zero_time\<rparr>"

definition stream_configure :: "int \<Rightarrow> coyote_stream \<Rightarrow> coyote_stream" where
  "stream_configure offsetMillis s =
     s\<lparr>csOffsetMillis := max (- coyoteMaxOffsetMillis) (min coyoteMaxOffsetMillis offsetMillis)\<rparr>"

definition stream_stop :: "coyote_stream \<Rightarrow> coyote_stream" where
  "stream_stop s =
     s\<lparr>csTimeline := timeline_Reset (csTimeline s), csId := [], csOrigin := clock_Stop (csOrigin s),
       csStarted := False, csLastTick := zero_time, csCoverage := coverage_Reset (csCoverage s)\<rparr>"

definition stream_playing :: "coyote_stream \<Rightarrow> bool" where
  "stream_playing s \<longleftrightarrow> clock_Playing (csOrigin s)"

section \<open>Connection\<close>

definition NewCoyote :: coyote where
  "NewCoyote =
     \<lparr>coClosed = False, coConnecting = False, coLink = None,
      coDevice = \<lparr>diName = [], diAddress = [], diUnacknowledged = False\<rparr>, coBattery = None,
      coConfig = \<lparr>ccLimits = zeroLimits, ccOffsetMillis = 0, ccRemembered = []\<rparr>,
      coAppliedLimits = zeroLimits, coLimitsApplied = False, coZeroWrites = 0, coStopHolds = 0,
      coStrength = NewStrengthController 0 0, coStream = newCoyoteStream, coReference = noReference,
      coGeneration = 0, coSessionID = 0,
      coStats = \<lparr>stPackets = 0, stWriteFailures = 0, stStarved = 0, stMaxLateness = 0, stCommanded = (0, 0)\<rparr>,
      coState = ''disconnected'', coLastError = None,
      coDiag = \<lparr>dgNextID = 0, dgCount = 0, dgLast = None\<rparr>\<rparr>"

text \<open>The first critical section of \<open>Configure\<close>: the new state and whether the limits changed.\<close>

definition configure_locked :: "coyote_config \<Rightarrow> coyote \<Rightarrow> coyote \<times> bool" where
  "configure_locked config c =
     (let changed = (\<not> coLimitsApplied c \<or> coAppliedLimits c \<noteq> ccLimits config);
          c1 = c\<lparr>coConfig := config,
                 coStrength := SetCeilings (liStrengthA (ccLimits config)) (liStrengthB (ccLimits config))
                                 (coStrength c),
                 coStream := stream_configure (ccOffsetMillis config) (coStream c)\<rparr> in
      (if changed then c1\<lparr>coLimitsApplied := False, coGeneration := Suc (coGeneration c1)\<rparr> else c1, changed))"

text \<open>The first critical section of \<open>connect\<close>: refused, or the address to ask for.\<close>

definition connect_begin :: "bool \<Rightarrow> string \<Rightarrow> coyote \<Rightarrow> coyote \<times> (coyote_error + string)" where
  "connect_begin haveConnector selected c =
     (if coClosed c then (c, Inl OwnerClosed)
      else if coLink c \<noteq> None then (c, Inl AlreadyConnected)
      else if \<not> haveConnector then (c, Inl HelperMissing)
      else (c\<lparr>coConnecting := True\<rparr>,
            Inr (if selected \<noteq> [] then selected else ccRemembered (coConfig c))))"

definition connect_failed :: "coyote_error \<Rightarrow> coyote \<Rightarrow> coyote" where
  "connect_failed e c = c\<lparr>coConnecting := False, coLastError := Some e\<rparr>"

definition connect_cancelled :: "coyote \<Rightarrow> coyote" where
  "connect_cancelled c = c\<lparr>coConnecting := False\<rparr>"

definition arm_locked :: "link \<Rightarrow> device_info \<Rightarrow> coyote \<Rightarrow> coyote" where
  "arm_locked l dev c =
     c\<lparr>coConnecting := False, coLink := Some l, coSessionID := Suc (coSessionID c),
       coLimitsApplied := False, coDevice := dev, coGeneration := Suc (coGeneration c),
       coStrength := sc_Reset (coStrength c), coStream := stream_stop (coStream c),
       coReference := noReference, coState := ''idle'', coLastError := None\<rparr>"

definition release_locked :: "link \<Rightarrow> coyote_error option \<Rightarrow> coyote \<Rightarrow> coyote" where
  "release_locked l reason c =
     (if coLink c \<noteq> Some l then c
      else let c1 = c\<lparr>coLink := None, coSessionID := Suc (coSessionID c), coLimitsApplied := False,
                      coConnecting := False, coGeneration := Suc (coGeneration c),
                      coStream := stream_stop (coStream c), coReference := noReference,
                      coStats := (coStats c)\<lparr>stCommanded := (0, 0)\<rparr>,
                      coStrength := sc_Reset (coStrength c), coBattery := None,
                      coState := ''disconnected''\<rparr> in
        (case reason of
           None \<Rightarrow> c1
         | Some r \<Rightarrow> c1\<lparr>coLastError := Some r, coState := ''stale''\<rparr>))"

definition close_locked :: "coyote \<Rightarrow> coyote" where
  "close_locked c = c\<lparr>coClosed := True\<rparr>"

section \<open>Strength and the zero\<close>

definition adjustStrengthLocked :: "bool \<Rightarrow> nat \<Rightarrow> channel \<Rightarrow> int \<Rightarrow> coyote \<Rightarrow> coyote \<times> coyote_error option"
where
  "adjustStrengthLocked ctxDone generation ch delta c =
     (if coLink c = None then (c, Some NotConnected)
      else if 0 < delta \<and> (ctxDone \<or> coGeneration c \<noteq> generation) then (c, Some Superseded)
      else if 0 < delta \<and> (\<not> coLimitsApplied c \<or> coZeroWrites c \<noteq> 0 \<or> coStopHolds c \<noteq> 0)
      then (c, Some (StrengthErr StrengthUnconfirmed))
      else case sc_Step ch delta (coStrength c) of
        (s, e) \<Rightarrow> (c\<lparr>coStrength := s\<rparr>, map_option StrengthErr e))"

definition AdjustStrength :: "channel \<Rightarrow> int \<Rightarrow> coyote \<Rightarrow> coyote \<times> coyote_error option" where
  "AdjustStrength ch delta c = adjustStrengthLocked False (coGeneration c) ch delta c"

text \<open>
  The first critical section of \<open>zero\<close>: the generation bump and the composition of the zero, and
  the last one, after the write returned.
\<close>

definition zero_begin :: "link \<Rightarrow> time \<Rightarrow> coyote \<Rightarrow> coyote \<times> (coyote_error + instruction)" where
  "zero_begin l now c =
     (if coLink c \<noteq> Some l then (c, Inl NotConnected)
      else let c1 = c\<lparr>coGeneration := Suc (coGeneration c), coZeroWrites := coZeroWrites c + 1,
                      coStream := stream_stop (coStream c), coReference := noReference,
                      coStats := (coStats c)\<lparr>stCommanded := (0, 0)\<rparr>,
                      coState := (if coState c \<noteq> ''disconnected'' then ''idle'' else coState c)\<rparr> in
        (case sc_Next now (RequestZero (coStrength c1)) of
           (s, i) \<Rightarrow> (c1\<lparr>coStrength := s\<rparr>, Inr i)))"

definition zero_finish :: "link \<Rightarrow> bool \<Rightarrow> int \<Rightarrow> coyote_error option \<Rightarrow> coyote \<Rightarrow> coyote" where
  "zero_finish l unacknowledged sequence err c =
     (let c1 = c\<lparr>coZeroWrites := coZeroWrites c - 1\<rparr> in
      if coLink c1 = Some l then
        (if err = None \<and> \<not> unacknowledged then c1\<lparr>coStrength := ZeroWritten sequence (coStrength c1)\<rparr>
         else if err \<noteq> None then c1\<lparr>coStrength := sc_Reset (coStrength c1)\<rparr> else c1)
      else c1)"

text \<open>The last critical section of \<open>writeLimits\<close>, after its write succeeded.\<close>

definition limits_finish :: "link \<Rightarrow> limits \<Rightarrow> coyote \<Rightarrow> coyote \<times> coyote_error option" where
  "limits_finish l li c =
     (if coLink c \<noteq> Some l then (c, Some NotConnected)
      else (c\<lparr>coAppliedLimits := li, coLimitsApplied := (ccLimits (coConfig c) = li)\<rparr>, None))"

section \<open>The wire\<close>

text \<open>
  The two critical sections of \<open>writeChecked\<close>.  \<open>Some g\<close> is the guard of \<open>write\<close> (the generation
  the packet was composed in), \<open>None\<close> the one that is always true.
\<close>

definition write_valid :: "link \<Rightarrow> nat option \<Rightarrow> coyote \<Rightarrow> bool" where
  "write_valid l guard c \<longleftrightarrow>
     coLink c = Some l \<and> (case guard of None \<Rightarrow> True | Some g \<Rightarrow> coGeneration c = g)"

definition write_finish :: "coyote_error option \<Rightarrow> coyote \<Rightarrow> coyote" where
  "write_finish err c =
     (case err of
        Some e \<Rightarrow> c\<lparr>coStats := (coStats c)\<lparr>stWriteFailures := Suc (stWriteFailures (coStats c))\<rparr>,
                    coLastError := Some e\<rparr>
      | None \<Rightarrow> c\<lparr>coStats := (coStats c)\<lparr>stPackets := Suc (stPackets (coStats c))\<rparr>\<rparr>)"

definition silentFrames :: "frame list" where
  "silentFrames = replicate FramesPerPacket SilentFrame"

definition framed :: "instruction \<Rightarrow> frame list \<Rightarrow> packet" where
  "framed i frames = (case i of (a, b, s) \<Rightarrow>
     \<lparr>pkSequence = s, pkA = a, pkB = b, pkFrames = frames, pkSilenceA = False, pkSilenceB = False\<rparr>)"

text \<open>The last will, and the packet of \<open>Stop\<close>.\<close>

definition zeroPacket :: "int \<Rightarrow> packet" where
  "zeroPacket sequence = framed (setZero, setZero, sequence) silentFrames"

definition stopPacket :: packet where
  "stopPacket = framed keepAll silentFrames"

section \<open>Reports\<close>

definition store_battery :: "link \<Rightarrow> int \<Rightarrow> coyote \<Rightarrow> coyote" where
  "store_battery l percent c = (if coLink c = Some l then c\<lparr>coBattery := Some percent\<rparr> else c)"

datatype coyote_event =
    EvNotification "byte list"
  | EvBattery int
  | EvLost "string option"
  | EvWriteFailed "string option"

text \<open>\<open>apply\<close>: the new state, and why the connection ended if the event says so.\<close>

definition apply_event :: "link \<Rightarrow> coyote_event \<Rightarrow> coyote \<Rightarrow> coyote \<times> coyote_error option" where
  "apply_event l ev c =
     (let lost = (\<lambda>e. Some (LinkErr (case e of Some s \<Rightarrow> s | None \<Rightarrow> ''the Coyote connection was lost''))) in
      case ev of
        EvNotification payload \<Rightarrow>
          (case DecodeNotification payload of
             Inr (Some r) \<Rightarrow>
               (if coLink c = Some l then c\<lparr>coStrength := sc_Report r (coStrength c)\<rparr> else c, None)
           | _ \<Rightarrow> (c, None))
      | EvBattery percent \<Rightarrow> (store_battery l percent c, None)
      | EvLost e \<Rightarrow> (c, lost e)
      | EvWriteFailed e \<Rightarrow> (c, lost e))"

section \<open>Sessions\<close>

definition playbackReadyLocked :: "coyote \<Rightarrow> bool" where
  "playbackReadyLocked c \<longleftrightarrow>
     coLink c \<noteq> None \<and> coLimitsApplied c \<and> coZeroWrites c = 0 \<and> coStopHolds c = 0 \<and>
     scKnown (coStrength c) \<and> \<not> sc_Pending (coStrength c)"

text \<open>The link a session is bound to; a call that is not made through a session has none.\<close>

definition MotionTransport :: "coyote \<Rightarrow> coyote_error + link" where
  "MotionTransport c =
     (case coLink c of
        None \<Rightarrow> Inl NotConnected
      | Some l \<Rightarrow> if playbackReadyLocked c then Inr l else Inl NotReady)"

definition checkSessionLocked :: "link option \<Rightarrow> coyote \<Rightarrow> coyote_error option" where
  "checkSessionLocked sess c =
     (case sess of
        None \<Rightarrow> None
      | Some l \<Rightarrow> if Some l \<noteq> coLink c then Some SessionEnded else None)"

definition recordLocked :: "command_kind \<Rightarrow> coyote_error option \<Rightarrow> coyote \<Rightarrow> coyote \<times> coyote_error option"
where
  "recordLocked kind err c =
     (c\<lparr>coDiag := \<lparr>dgNextID = Suc (dgNextID (coDiag c)), dgCount = Suc (dgCount (coDiag c)),
                   dgLast = Some (kind, err)\<rparr>\<rparr>, err)"

text \<open>What a session's own \<open>Stop\<close> does with a retired connection; \<open>None\<close> calls the owner's.\<close>

definition session_Stop_retired :: "link \<Rightarrow> coyote \<Rightarrow> coyote_error option option" where
  "session_Stop_retired l c =
     (if coLink c = Some l then None
      else if coLink c = None \<and> coState c = ''stale'' then Some (Some StopUnconfirmed)
      else Some None)"

definition session_PlaybackStartTime :: "link \<Rightarrow> coyote \<Rightarrow> time" where
  "session_PlaybackStartTime l c =
     (if coLink c \<noteq> Some l then zero_time else ckAnchor (csOrigin (coStream c)))"

definition align_stream :: "time \<Rightarrow> coyote \<Rightarrow> coyote" where
  "align_stream start c =
     (if stream_playing (coStream c) \<and> start \<noteq> zero_time
      then c\<lparr>coStream := (coStream c)\<lparr>csOrigin := clock_StartAt start (csOrigin (coStream c)),
                                     csStarted := False\<rparr>\<rparr>
      else c)"

text \<open>\<open>AlignPlaybackStart\<close> of the owner, and of a session.\<close>

definition AlignPlaybackStart :: "link option \<Rightarrow> time \<Rightarrow> coyote \<Rightarrow> coyote" where
  "AlignPlaybackStart sess start c =
     (case sess of
        None \<Rightarrow> align_stream start c
      | Some l \<Rightarrow> if coLink c = Some l then align_stream start c else c)"

definition session_PlaybackState :: "link \<Rightarrow> coyote \<Rightarrow> string" where
  "session_PlaybackState l c =
     (if 0 < coStopHolds c then ''stopping''
      else if coLink c \<noteq> Some l \<or>
              stream_playing (coStream c) \<and> (\<not> coLimitsApplied c \<or> \<not> scKnown (coStrength c))
      then ''stale'' else coState c)"

section \<open>Motion commands\<close>

definition AppendPoints :: "link option \<Rightarrow> bool \<Rightarrow> string \<Rightarrow> point list \<Rightarrow> coyote \<Rightarrow> coyote \<times> coyote_error option"
where
  "AppendPoints sess ctxDone streamID points c =
     (if ctxDone then (c, Some ContextErr)
      else case checkSessionLocked sess c of
        Some e \<Rightarrow> recordLocked KindPointsAdd (Some e) c
      | None \<Rightarrow>
          if coLink c = None then recordLocked KindPointsAdd (Some NotConnected) c
          else let s = (if streamID \<noteq> csId (coStream c)
                        then (stream_stop (coStream c))\<lparr>csId := streamID\<rparr> else coStream c) in
            (case timeline_Append points (csTimeline s) of
               (t, e) \<Rightarrow> recordLocked KindPointsAdd (map_option TimelineErr e)
                           (c\<lparr>coStream := s\<lparr>csTimeline := t\<rparr>\<rparr>)))"

definition play :: "link option \<Rightarrow> bool \<Rightarrow> string \<Rightarrow> int \<Rightarrow> time \<Rightarrow> time \<Rightarrow> coyote \<Rightarrow> coyote \<times> coyote_error option"
where
  "play sess ctxDone streamID startMillis start now c =
     (if ctxDone then recordLocked KindPointsPlay (Some ContextErr) c
      else case checkSessionLocked sess c of
        Some e \<Rightarrow> recordLocked KindPointsPlay (Some e) c
      | None \<Rightarrow>
          if coLink c = None then recordLocked KindPointsPlay (Some NotConnected) c
          else if \<not> playbackReadyLocked c then recordLocked KindPointsPlay (Some NotReady) c
          else if streamID \<noteq> csId (coStream c) then recordLocked KindPointsPlay (Some (NoPoints streamID)) c
          else let s = coStream c;
                   o1 = (if start = zero_time then clock_Start now startMillis coyotePreroll (csOrigin s)
                         else clock_StartAt start (csOrigin s)) in
            recordLocked KindPointsPlay None
              (c\<lparr>coStream := s\<lparr>csOrigin := o1, csStarted := False,
                                csCoverage := coverage_Reset (csCoverage s)\<rparr>,
                 coReference := noReference, coState := ''playing''\<rparr>))"

text \<open>
  The first critical section of \<open>Stop\<close>: refused, or the link to silence (\<open>None\<close> when there is
  none).  The sections after the write only record the result (\<open>stop_unlinked\<close>, \<open>recordLocked\<close>).
\<close>

definition stop_begin :: "link option \<Rightarrow> coyote \<Rightarrow> coyote \<times> (coyote_error + link option)" where
  "stop_begin sess c =
     (case checkSessionLocked sess c of
        Some e \<Rightarrow> (c, Inl e)
      | None \<Rightarrow>
          (c\<lparr>coGeneration := Suc (coGeneration c), coStream := stream_stop (coStream c),
             coReference := noReference, coStrength := CancelPending (coStrength c),
             coStats := (coStats c)\<lparr>stCommanded := (0, 0)\<rparr>,
             coState := (if coLink c \<noteq> None then ''idle'' else coState c)\<rparr>,
           Inr (coLink c)))"

definition stop_unlinked :: "coyote \<Rightarrow> coyote \<times> coyote_error option" where
  "stop_unlinked c = recordLocked KindStop (if coState c = ''stale'' then Some StopUnconfirmed else None) c"

definition SetStrokeWindow :: "link option \<Rightarrow> coyote \<Rightarrow> coyote \<times> coyote_error option" where
  "SetStrokeWindow sess c = recordLocked KindStrokeWindow (checkSessionLocked sess c) c"

section \<open>The channel test and the emergency stop\<close>

definition startReferenceLocked :: "bool \<Rightarrow> nat \<Rightarrow> channel \<Rightarrow> coyote \<Rightarrow> coyote \<times> coyote_error option" where
  "startReferenceLocked ctxDone generation ch c =
     (if ch \<noteq> ChannelA \<and> ch \<noteq> ChannelB then (c, Some UnknownCoyoteChannel)
      else if ctxDone \<or> generation \<noteq> coGeneration c then (c, Some Superseded)
      else if coLink c = None then (c, Some NotConnected)
      else if \<not> coLimitsApplied c \<or> coZeroWrites c \<noteq> 0 \<or> coStopHolds c \<noteq> 0 \<or>
              \<not> scKnown (coStrength c) \<or> sc_Pending (coStrength c)
      then (c, Some NotReady)
      else if stream_playing (coStream c) then (c, Some TestWhilePlaying)
      else (c\<lparr>coReference := \<lparr>rfActive = True, rfChannel = ch, rfIndex = 0\<rparr>\<rparr>, None))"

definition emergency_begin :: "coyote \<Rightarrow> coyote" where
  "emergency_begin c =
     c\<lparr>coStopHolds := coStopHolds c + 1, coGeneration := Suc (coGeneration c),
       coStream := stream_stop (coStream c), coReference := noReference,
       coStrength := CancelPending (coStrength c), coStats := (coStats c)\<lparr>stCommanded := (0, 0)\<rparr>\<rparr>"

definition emergency_end :: "coyote \<Rightarrow> coyote" where
  "emergency_end c = c\<lparr>coStopHolds := coStopHolds c - 1\<rparr>"

section \<open>The pacer\<close>

text \<open>What the renderer makes of a tick: the frames, whether the timeline ran out, the prune time.\<close>

record render_result =
  rdFrames :: "frame list"
  rdRanOut :: bool
  rdPruneBefore :: int

definition trackCoverageLocked :: "time \<Rightarrow> bool \<Rightarrow> coyote \<Rightarrow> coyote" where
  "trackCoverageLocked now ranOut c =
     (let c1 = (if ranOut then c\<lparr>coStats := (coStats c)\<lparr>stStarved := Suc (stStarved (coStats c))\<rparr>\<rparr> else c) in
      case Observe_coverage now (\<not> ranOut) (csCoverage (coStream c1)) of
        (cv, st) \<Rightarrow>
          let c2 = c1\<lparr>coStream := (coStream c1)\<lparr>csCoverage := cv\<rparr>, coState := st\<rparr> in
          if st = StateStarved then c2\<lparr>coStream := stream_stop (coStream c2)\<rparr> else c2)"

definition renderStreamLocked :: "duration \<Rightarrow> time \<Rightarrow> render_result \<Rightarrow> coyote \<Rightarrow> coyote \<times> frame list" where
  "renderStreamLocked tick now rd c =
     (let late = time_sub now (csLastTick (coStream c)) - tick;
          c1 = (if csLastTick (coStream c) \<noteq> zero_time \<and> stMaxLateness (coStats c) < late
                then c\<lparr>coStats := (coStats c)\<lparr>stMaxLateness := late\<rparr>\<rparr> else c);
          c2 = c1\<lparr>coStream := (coStream c1)\<lparr>csLastTick := now, csStarted := True\<rparr>\<rparr>;
          c3 = trackCoverageLocked now (rdRanOut rd) c2 in
      (c3\<lparr>coStream := (coStream c3)\<lparr>csTimeline := timeline_Prune (rdPruneBefore rd) (csTimeline (coStream c3))\<rparr>\<rparr>,
       rdFrames rd))"

text \<open>
  The frames of the packet composed for a tick, by the first case that applies; \<open>None\<close> when there
  is nothing to send.
\<close>

definition compose_frames :: "duration \<Rightarrow> time \<Rightarrow> render_result \<Rightarrow> int \<Rightarrow> coyote \<Rightarrow> coyote \<times> frame list option"
where
  "compose_frames tick now rd sequence c =
     (if stream_playing (coStream c) \<and> \<not> scKnown (coStrength c)
      then (c\<lparr>coStream := stream_stop (coStream c), coState := ''stale''\<rparr>, Some silentFrames)
      else if stream_playing (coStream c)
      then (case renderStreamLocked tick now rd c of (c1, fs) \<Rightarrow> (c1, Some fs))
      else if rfActive (coReference c)
      then let i = rfIndex (coReference c) + 1 in
        (c\<lparr>coReference := (if ReferencePackets \<le> i then noReference else (coReference c)\<lparr>rfIndex := i\<rparr>)\<rparr>,
         Some (rdFrames rd))
      else if sequence \<noteq> 0 then (c, Some silentFrames)
      else (c, None))"

definition composeLocked :: "duration \<Rightarrow> time \<Rightarrow> render_result \<Rightarrow> coyote \<Rightarrow> coyote \<times> packet option" where
  "composeLocked tick now rd c =
     (case sc_Next now (coStrength c) of
        (s, i) \<Rightarrow>
          (case compose_frames tick now rd (snd (snd i)) (c\<lparr>coStrength := s\<rparr>) of
            (c1, None) \<Rightarrow> (c1\<lparr>coStats := (coStats c1)\<lparr>stCommanded := (0, 0)\<rparr>\<rparr>, None)
          | (c1, Some frames) \<Rightarrow>
              (case packet_Encode (framed i frames) of
                Inl e \<Rightarrow> (c1\<lparr>coLastError := Some (EncodeErr e)\<rparr>, None)
              | Inr bytes \<Rightarrow>
                  let f = frames ! (FramesPerPacket - 1) in
                  (c1\<lparr>coStats := (coStats c1)\<lparr>stCommanded := (cfIntensity (frA f), cfIntensity (frB f))\<rparr>\<rparr>,
                   Some (framed i frames)))))"

text \<open>The critical section of \<open>paceOnce\<close>: the link, the generation and the packet to write.\<close>

definition paceOnce :: "duration \<Rightarrow> time \<Rightarrow> render_result \<Rightarrow> coyote \<Rightarrow> coyote \<times> (link \<times> nat \<times> packet) option"
where
  "paceOnce tick now rd c =
     (case coLink c of
        None \<Rightarrow> (c, None)
      | Some l \<Rightarrow>
          if \<not> coLimitsApplied c \<or> coZeroWrites c \<noteq> 0 \<or> coStopHolds c \<noteq> 0 then (c, None)
          else (case composeLocked tick now rd c of
            (c1, None) \<Rightarrow> (c1, None)
          | (c1, Some p) \<Rightarrow> (c1, Some (l, coGeneration c1, p))))"

section \<open>Status\<close>

record coyote_status =
  ysConnected :: bool
  ysConnecting :: bool
  ysDeviceName :: string
  ysAddress :: string
  ysBatteryPercent :: "int option"
  ysStrengthA :: int
  ysStrengthB :: int
  ysStrengthKnown :: bool
  ysStrengthSource :: string
  ysStrengthPending :: bool
  ysLimitsApplied :: bool
  ysCeilingA :: int
  ysCeilingB :: int
  ysPlaybackState :: string
  ysReferencePulse :: bool
  ysCommandedA :: int
  ysCommandedB :: int
  ysPacketsSent :: nat
  ysWriteFailures :: nat
  ysStarvedPackets :: nat
  ysMaxSendLatenessMillis :: int
  ysLastError :: "coyote_error option"
  ysSilentReason :: string

definition coyoteSilentReason :: "coyote_status \<Rightarrow> string" where
  "coyoteSilentReason st =
     (if \<not> ysConnected st then []
      else if ysLimitsApplied st \<and> ysCeilingA st = 0 \<and> ysCeilingB st = 0 then ''ceiling_zero''
      else if ysStrengthKnown st \<and> ysStrengthSource st = ''reported'' \<and> ysStrengthA st = 0 \<and> ysStrengthB st = 0
      then ''strength_zero'' else [])"

definition coyote_Status :: "coyote \<Rightarrow> coyote_status" where
  "coyote_Status c =
     (let s = sc_Snapshot (coStrength c); connected = (coLink c \<noteq> None);
          lim = (if connected then coAppliedLimits c else ccLimits (coConfig c));
          st = \<lparr>ysConnected = connected, ysConnecting = coConnecting c,
            ysDeviceName = (if connected then diName (coDevice c) else []),
            ysAddress = (if connected then diAddress (coDevice c) else []),
            ysBatteryPercent = coBattery c, ysStrengthA = ssA s, ysStrengthB = ssB s,
            ysStrengthKnown = ssKnown s, ysStrengthSource = ssSource s, ysStrengthPending = ssPending s,
            ysLimitsApplied = coLimitsApplied c, ysCeilingA = liStrengthA lim, ysCeilingB = liStrengthB lim,
            ysPlaybackState = (if coStopHolds c \<noteq> 0 then ''stopping'' else coState c),
            ysReferencePulse = rfActive (coReference c),
            ysCommandedA = at2 (stCommanded (coStats c)) ChannelA,
            ysCommandedB = at2 (stCommanded (coStats c)) ChannelB,
            ysPacketsSent = stPackets (coStats c), ysWriteFailures = stWriteFailures (coStats c),
            ysStarvedPackets = stStarved (coStats c),
            ysMaxSendLatenessMillis = to_millis (stMaxLateness (coStats c)),
            ysLastError = coLastError c, ysSilentReason = []\<rparr> in
      st\<lparr>ysSilentReason := coyoteSilentReason st\<rparr>)"

section \<open>Invariant\<close>

definition ceilings_of :: "coyote_config \<Rightarrow> int2" where
  "ceilings_of config = (clampInt (liStrengthA (ccLimits config)) 0 MaxStrength,
                         clampInt (liStrengthB (ccLimits config)) 0 MaxStrength)"

definition coyote_inv :: "coyote \<Rightarrow> bool" where
  "coyote_inv c \<longleftrightarrow>
     sc_inv (coStrength c) \<and> scCeiling (coStrength c) = ceilings_of (coConfig c) \<and>
     (coLimitsApplied c \<longrightarrow> coLink c \<noteq> None \<and> coAppliedLimits c = ccLimits (coConfig c)) \<and>
     (scKnown (coStrength c) \<longrightarrow> coLink c \<noteq> None) \<and>
     (stream_playing (coStream c) \<longrightarrow> coLink c \<noteq> None) \<and>
     (rfActive (coReference c) \<longrightarrow> coLink c \<noteq> None) \<and>
     timeline_ok (csTimeline (coStream c))"

lemma coyote_invI:
  assumes "sc_inv (coStrength c)" "scCeiling (coStrength c) = ceilings_of (coConfig c)"
    and "coLimitsApplied c \<Longrightarrow> coLink c \<noteq> None \<and> coAppliedLimits c = ccLimits (coConfig c)"
    and "scKnown (coStrength c) \<Longrightarrow> coLink c \<noteq> None"
    and "stream_playing (coStream c) \<Longrightarrow> coLink c \<noteq> None"
    and "rfActive (coReference c) \<Longrightarrow> coLink c \<noteq> None"
    and "timeline_ok (csTimeline (coStream c))"
  shows "coyote_inv c"
  using assms by (simp add: coyote_inv_def)

text \<open>What the strength operations leave alone.\<close>

lemma ceiling_frames [simp]:
  "scCeiling (fst (sc_Step ch d s)) = scCeiling s"
  "scCeiling (RequestZero s) = scCeiling s"
  "scCeiling (CancelPending s) = scCeiling s"
  "scCeiling (ZeroWritten q s) = scCeiling s"
  "scCeiling (sc_Report r s) = scCeiling s"
  "scCeiling (sc_Reset s) = scCeiling s"
  "scCeiling (sc_begin k now s) = scCeiling s"
  by (simp_all add: sc_Step_def RequestZero_def CancelPending_def ZeroWritten_def sc_Report_def
      sc_Reset_def sc_begin_def emptyController_def Let_def)

lemma expire_ceiling [simp]: "scCeiling (fst (sc_expire now s)) = scCeiling s"
  by (simp add: sc_expire_def Let_def)

lemma sendRelative_ceiling [simp]: "scCeiling (fst (sendRelative now s)) = scCeiling s"
  by (simp add: sendRelative_def Let_def)

lemma Next_ceiling [simp]: "scCeiling (fst (sc_Next now s)) = scCeiling s"
  by (simp add: sc_Next_def Let_def split_beta)

lemma SetCeilings_ceiling [simp]:
  "scCeiling (SetCeilings a b s) = (clampInt a 0 MaxStrength, clampInt b 0 MaxStrength)"
  by (simp add: SetCeilings_def trimPending_def)

lemma known_frames [simp]:
  "scKnown (fst (sc_Step ch d s)) = scKnown s"
  "scKnown (CancelPending s) = scKnown s"
  "\<not> scKnown (RequestZero s)"
  "\<not> scKnown (sc_Reset s)"
  "scKnown (SetCeilings a b s) = scKnown s"
  by (simp_all add: sc_Step_def RequestZero_def CancelPending_def sc_Reset_def emptyController_def
      SetCeilings_def trimPending_def Let_def)

lemma Next_known: "scKnown (fst (sc_Next now s)) \<Longrightarrow> scKnown s"
  by (auto simp: sc_Next_def Let_def sendRelative_def sc_begin_def sc_expire_def split: if_splits)

lemma stream_frames [simp]:
  "stream_playing (stream_configure off s) = stream_playing s"
  "\<not> stream_playing (stream_stop s)"
  "csTimeline (stream_stop s) = []"
  "csTimeline (stream_configure off s) = csTimeline s"
  by (simp_all add: stream_playing_def stream_configure_def stream_stop_def timeline_Reset_def)

lemma timeline_ok_Nil [simp]: "timeline_ok []"
  by (simp add: timeline_ok_def increasing_def)

lemma noReference_inactive [simp]: "\<not> rfActive noReference"
  by (simp add: noReference_def)

lemma stream_playing_update [simp]:
  "stream_playing (s\<lparr>csTimeline := t\<rparr>) = stream_playing s"
  "stream_playing (s\<lparr>csStarted := b\<rparr>) = stream_playing s"
  "stream_playing (s\<lparr>csLastTick := n\<rparr>) = stream_playing s"
  "stream_playing (s\<lparr>csCoverage := cv\<rparr>) = stream_playing s"
  "stream_playing (s\<lparr>csId := i\<rparr>) = stream_playing s"
  by (simp_all add: stream_playing_def)

section \<open>Every critical section keeps the invariant\<close>

lemma coyote_inv_New: "coyote_inv NewCoyote"
proof (rule coyote_invI)
  show "sc_inv (coStrength NewCoyote)" by (simp add: NewCoyote_def sc_inv_New)
  show "scCeiling (coStrength NewCoyote) = ceilings_of (coConfig NewCoyote)"
    by (simp add: NewCoyote_def NewStrengthController_def ceilings_of_def zeroLimits_def)
  show "scKnown (coStrength NewCoyote) \<Longrightarrow> coLink NewCoyote \<noteq> None"
    by (simp add: NewCoyote_def NewStrengthController_def emptyController_def)
qed (simp_all add: NewCoyote_def newCoyoteStream_def stream_playing_def)

lemma coyote_inv_configure [inv_rules]: "coyote_inv c \<Longrightarrow> coyote_inv (fst (configure_locked config c))"
  by (auto simp: coyote_inv_def configure_locked_def Let_def ceilings_of_def inv_rules)

lemma coyote_inv_connect_begin [inv_rules]: "coyote_inv c \<Longrightarrow> coyote_inv (fst (connect_begin h sel c))"
  by (auto simp: coyote_inv_def connect_begin_def)

lemma coyote_inv_connect_ends [inv_rules]:
  "coyote_inv c \<Longrightarrow> coyote_inv (connect_failed e c)" "coyote_inv c \<Longrightarrow> coyote_inv (connect_cancelled c)"
  "coyote_inv c \<Longrightarrow> coyote_inv (close_locked c)"
  by (simp_all add: coyote_inv_def connect_failed_def connect_cancelled_def close_locked_def)

lemma coyote_inv_arm [inv_rules]: "coyote_inv c \<Longrightarrow> coyote_inv (arm_locked l dev c)"
  by (simp add: coyote_inv_def arm_locked_def inv_rules)

lemma coyote_inv_release [inv_rules]: "coyote_inv c \<Longrightarrow> coyote_inv (release_locked l reason c)"
  by (simp add: coyote_inv_def release_locked_def Let_def inv_rules split: option.splits)

lemma coyote_inv_adjust [inv_rules]: "coyote_inv c \<Longrightarrow> coyote_inv (fst (adjustStrengthLocked x g ch d c))"
  by (auto simp: coyote_inv_def adjustStrengthLocked_def split_beta inv_rules)

lemma Next_RequestZero_known [simp]: "\<not> scKnown (fst (sc_Next now (RequestZero s)))"
  using Next_known [of now "RequestZero s"] by auto

lemma coyote_inv_zero_begin [inv_rules]: "coyote_inv c \<Longrightarrow> coyote_inv (fst (zero_begin l now c))"
  by (auto simp: coyote_inv_def zero_begin_def Let_def split_beta inv_rules)

lemma coyote_inv_zero_finish [inv_rules]: "coyote_inv c \<Longrightarrow> coyote_inv (zero_finish l u q e c)"
  by (simp add: coyote_inv_def zero_finish_def Let_def inv_rules)

lemma coyote_inv_limits_finish [inv_rules]: "coyote_inv c \<Longrightarrow> coyote_inv (fst (limits_finish l li c))"
  by (simp add: coyote_inv_def limits_finish_def)

lemma coyote_inv_write_finish [inv_rules]: "coyote_inv c \<Longrightarrow> coyote_inv (write_finish e c)"
  by (simp add: coyote_inv_def write_finish_def split: option.splits)

lemma coyote_inv_battery [inv_rules]: "coyote_inv c \<Longrightarrow> coyote_inv (store_battery l n c)"
  by (simp add: coyote_inv_def store_battery_def)

lemma coyote_inv_report: "coyote_inv c \<Longrightarrow> coLink c = Some l \<Longrightarrow>
    coyote_inv (c\<lparr>coStrength := sc_Report r (coStrength c)\<rparr>)"
  by (simp add: coyote_inv_def inv_rules)

lemma coyote_inv_apply [inv_rules]: "coyote_inv c \<Longrightarrow> coyote_inv (fst (apply_event l ev c))"
  by (cases ev) (auto simp: apply_event_def Let_def coyote_inv_battery coyote_inv_report
      split: sum.splits option.splits)

lemma coyote_inv_record [inv_rules]: "coyote_inv c \<Longrightarrow> coyote_inv (fst (recordLocked k e c))"
  by (simp add: coyote_inv_def recordLocked_def)

lemma coyote_inv_append [inv_rules]: "coyote_inv c \<Longrightarrow> coyote_inv (fst (AppendPoints sess x i pts c))"
proof -
  assume inv: "coyote_inv c"
  let ?s = "if i \<noteq> csId (coStream c) then (stream_stop (coStream c))\<lparr>csId := i\<rparr> else coStream c"
  have "timeline_ok (csTimeline ?s)" "stream_playing ?s \<Longrightarrow> stream_playing (coStream c)"
    using inv by (auto simp: coyote_inv_def split: if_splits)
  then have "coyote_inv (c\<lparr>coStream := ?s\<lparr>csTimeline := fst (timeline_Append pts (csTimeline ?s))\<rparr>\<rparr>)"
    using inv timeline_ok_Append [of "csTimeline ?s" pts] unfolding coyote_inv_def by simp
  then show ?thesis
    using inv by (auto simp: AppendPoints_def Let_def inv_rules split_beta split: option.splits)
qed

lemma coyote_inv_play [inv_rules]: "coyote_inv c \<Longrightarrow> coyote_inv (fst (play sess x i m start now c))"
proof -
  assume inv: "coyote_inv c"
  then have "coLink c \<noteq> None \<Longrightarrow> coyote_inv (c\<lparr>coStream := (coStream c)\<lparr>csOrigin := og, csStarted := False,
      csCoverage := coverage_Reset (csCoverage (coStream c))\<rparr>, coReference := noReference,
      coState := ''playing''\<rparr>)" for og
    by (auto simp: coyote_inv_def)
  then show ?thesis
    using inv by (auto simp: play_def Let_def inv_rules split: option.splits)
qed

lemma coyote_inv_align [inv_rules]: "coyote_inv c \<Longrightarrow> coyote_inv (AlignPlaybackStart sess start c)"
  by (auto simp: coyote_inv_def AlignPlaybackStart_def align_stream_def split: option.splits)

lemma coyote_inv_stop [inv_rules]: "coyote_inv c \<Longrightarrow> coyote_inv (fst (stop_begin sess c))"
  by (auto simp: coyote_inv_def stop_begin_def inv_rules split: option.splits)

lemma coyote_inv_reference [inv_rules]: "coyote_inv c \<Longrightarrow> coyote_inv (fst (startReferenceLocked x g ch c))"
  by (auto simp: coyote_inv_def startReferenceLocked_def)

lemma coyote_inv_emergency [inv_rules]:
  "coyote_inv c \<Longrightarrow> coyote_inv (emergency_begin c)" "coyote_inv c \<Longrightarrow> coyote_inv (emergency_end c)"
  by (auto simp: coyote_inv_def emergency_begin_def emergency_end_def inv_rules)

lemma coyote_inv_track: "coyote_inv c \<Longrightarrow> coyote_inv (trackCoverageLocked now r c)"
  by (auto simp: coyote_inv_def trackCoverageLocked_def Let_def split_beta)

lemma coyote_inv_render: "coyote_inv c \<Longrightarrow> coyote_inv (fst (renderStreamLocked tick now rd c))"
proof -
  assume inv: "coyote_inv c"
  define late where "late = time_sub now (csLastTick (coStream c)) - tick"
  define c1 where "c1 = (if csLastTick (coStream c) \<noteq> zero_time \<and> stMaxLateness (coStats c) < late
                then c\<lparr>coStats := (coStats c)\<lparr>stMaxLateness := late\<rparr>\<rparr> else c)"
  define c2 where "c2 = c1\<lparr>coStream := (coStream c1)\<lparr>csLastTick := now, csStarted := True\<rparr>\<rparr>"
  have "coyote_inv c1" using inv by (simp add: c1_def coyote_inv_def)
  then have "coyote_inv c2" by (simp add: c2_def coyote_inv_def)
  then have "coyote_inv (trackCoverageLocked now (rdRanOut rd) c2)" by (rule coyote_inv_track)
  then show ?thesis
    by (simp add: renderStreamLocked_def Let_def c1_def [symmetric] c2_def [symmetric] late_def [symmetric]
        coyote_inv_def timeline_ok_Prune)
qed

lemma coyote_inv_frames: "coyote_inv c \<Longrightarrow> coyote_inv (fst (compose_frames tick now rd q c))"
  using coyote_inv_render [of c tick now rd]
  by (auto simp: compose_frames_def Let_def split_beta) (auto simp: coyote_inv_def)

lemma coyote_inv_Next: "coyote_inv c \<Longrightarrow> coyote_inv (c\<lparr>coStrength := fst (sc_Next now (coStrength c))\<rparr>)"
  by (auto simp: coyote_inv_def inv_rules dest: Next_known)

lemma coyote_inv_outputs [simp]:
  "coyote_inv (c\<lparr>coStats := st\<rparr>) = coyote_inv c" "coyote_inv (c\<lparr>coLastError := e\<rparr>) = coyote_inv c"
  by (simp_all add: coyote_inv_def)

lemma coyote_inv_compose: "coyote_inv c \<Longrightarrow> coyote_inv (fst (composeLocked tick now rd c))"
  using coyote_inv_frames [OF coyote_inv_Next [of c now], of tick now rd "snd (snd (snd (sc_Next now (coStrength c))))"]
  by (auto simp: composeLocked_def Let_def split: prod.splits option.splits sum.splits)

lemma coyote_inv_pace [inv_rules]: "coyote_inv c \<Longrightarrow> coyote_inv (fst (paceOnce tick now rd c))"
  using coyote_inv_compose [of c tick now rd]
  by (auto simp: paceOnce_def split: prod.splits option.splits)

section \<open>What an operation leaves alone\<close>

text \<open>The fields the concurrency argument reads, for the operations that keep all of them.\<close>

definition same_admission :: "coyote \<Rightarrow> coyote \<Rightarrow> bool" where
  "same_admission c d \<longleftrightarrow>
     coLink d = coLink c \<and> coGeneration d = coGeneration c \<and> coLimitsApplied d = coLimitsApplied c \<and>
     coAppliedLimits d = coAppliedLimits c \<and> coConfig d = coConfig c \<and>
     coZeroWrites d = coZeroWrites c \<and> coStopHolds d = coStopHolds c"

named_theorems keeps \<open>operations that keep the admission fields\<close>

lemma same_admission_refl [keeps]: "same_admission c c"
  by (simp add: same_admission_def)

lemma same_admission_trans: "same_admission c d \<Longrightarrow> same_admission d e \<Longrightarrow> same_admission c e"
  by (simp add: same_admission_def)

lemma keeps_connect [keeps]:
  "same_admission c (fst (connect_begin h sel c))" "same_admission c (connect_failed e c)"
  "same_admission c (connect_cancelled c)" "same_admission c (close_locked c)"
  "same_admission c (write_finish w c)" "same_admission c (store_battery l n c)"
  "same_admission c (fst (recordLocked k r c))"
  by (auto simp: same_admission_def connect_begin_def connect_failed_def connect_cancelled_def
      close_locked_def write_finish_def store_battery_def recordLocked_def split: option.splits)

lemma keeps_strength [keeps]:
  "same_admission c (fst (adjustStrengthLocked x g ch d c))"
  "same_admission c (fst (apply_event l ev c))"
  by (auto simp: same_admission_def adjustStrengthLocked_def split_beta apply_event_def Let_def store_battery_def
      split: coyote_event.splits sum.splits option.splits)

lemma keeps_motion [keeps]:
  "same_admission c (fst (AppendPoints sess x i pts c))" "same_admission c (fst (play sess x i m start now c))"
  "same_admission c (AlignPlaybackStart sess start c)" "same_admission c (fst (SetStrokeWindow sess c))"
  "same_admission c (fst (stop_unlinked c))" "same_admission c (fst (startReferenceLocked x g ch c))"
  by (auto simp: same_admission_def AppendPoints_def play_def Let_def AlignPlaybackStart_def align_stream_def
      SetStrokeWindow_def stop_unlinked_def startReferenceLocked_def recordLocked_def split_beta split: option.splits)

lemma keeps_frames [keeps]: "same_admission c (fst (compose_frames tick now rd q c))"
  by (auto simp: same_admission_def compose_frames_def renderStreamLocked_def trackCoverageLocked_def Let_def split_beta)

lemma keeps_compose [keeps]: "same_admission c (fst (composeLocked tick now rd c))"
  using keeps_frames [of "c\<lparr>coStrength := fst (sc_Next now (coStrength c))\<rparr>" tick now rd
      "snd (snd (snd (sc_Next now (coStrength c))))"]
  by (auto simp: composeLocked_def Let_def same_admission_def split: prod.splits option.splits sum.splits)

lemma keeps_pace [keeps]: "same_admission c (fst (paceOnce tick now rd c))"
  using keeps_compose [of c tick now rd]
  by (auto simp: paceOnce_def same_admission_def split: prod.splits option.splits)

section \<open>The zero in flight\<close>

definition zero_inflight :: "strength_controller \<Rightarrow> bool" where
  "zero_inflight s \<longleftrightarrow> scZero s \<or> scInflightKind s = ChangeZero"

definition raising :: "packet \<Rightarrow> bool" where
  "raising p \<longleftrightarrow> chMode (pkA p) = StrengthIncrease \<or> chMode (pkB p) = StrengthIncrease"

lemma zero_inflight_mono:
  "zero_inflight (fst (sc_Step ch d s)) = zero_inflight s"
  "zero_inflight (CancelPending s) = zero_inflight s"
  "zero_inflight (ZeroWritten q s) = zero_inflight s"
  "zero_inflight (SetCeilings a b s) = zero_inflight s"
  "\<not> zero_inflight (sc_Reset s)"
  by (auto simp: zero_inflight_def sc_Step_def CancelPending_def ZeroWritten_def SetCeilings_def
      trimPending_def sc_Reset_def emptyController_def Let_def split: if_splits)

lemma zero_inflight_Report: "zero_inflight (sc_Report r s) \<Longrightarrow> zero_inflight s"
  by (auto simp: zero_inflight_def sc_Report_def Let_def split: if_splits)

lemma sendRelative_zero:
  "zero_inflight (fst (sendRelative now s)) \<Longrightarrow> \<not> scZero s \<Longrightarrow> zero_inflight s \<and> snd (sendRelative now s) = keepAll"
  by (auto simp: sendRelative_def Let_def zero_inflight_def sc_begin_def split: if_splits)

lemma expire_not_zero: "snd (sc_expire now s) \<Longrightarrow> \<not> scZero s \<Longrightarrow> \<not> zero_inflight (fst (sc_expire now s))"
  by (auto simp: sc_expire_def Let_def zero_inflight_def split: if_splits)

lemma Next_zero_inflight:
  assumes "sc_Next now s = (s', (a, b, q))" "zero_inflight s'"
  shows "zero_inflight s \<and> chMode a \<noteq> StrengthIncrease \<and> chMode b \<noteq> StrengthIncrease"
  using assms(1)
proof (cases rule: sc_Next_cases)
  case zero
  then show ?thesis by (simp add: zero_inflight_def setZero_def)
next
  case wait
  then show ?thesis using assms(2) by (simp add: keepAll_def keepChange_def)
next
  case relative
  then show ?thesis
    using sendRelative_zero [of now "fst (sc_expire now s)"] expire_not_zero [of now s] assms(2)
    by (auto simp: zero_inflight_def)
next
  case idle
  then show ?thesis
    using sendRelative_zero [of now s] assms(2) by (simp add: keepAll_def keepChange_def)
qed

lemma raising_framed: "raising (framed (a, b, q) fs) \<longleftrightarrow> chMode a = StrengthIncrease \<or> chMode b = StrengthIncrease"
  by (simp add: raising_def framed_def)

lemma stopPacket_not_raising [simp]: "\<not> raising stopPacket"
  by (simp add: stopPacket_def keepAll_def raising_framed keepChange_def)

lemma compose_frames_strength: "coStrength (fst (compose_frames tick now rd q c)) = coStrength c"
  by (simp add: compose_frames_def renderStreamLocked_def trackCoverageLocked_def Let_def split_beta)

lemma composeLocked_strength:
  "coStrength (fst (composeLocked tick now rd c)) = fst (sc_Next now (coStrength c))"
  using compose_frames_strength [of tick now rd "snd (snd (snd (sc_Next now (coStrength c))))"
      "c\<lparr>coStrength := fst (sc_Next now (coStrength c))\<rparr>"]
  by (auto simp: composeLocked_def Let_def split: prod.splits option.splits sum.splits)

lemma composeLocked_packet:
  "snd (composeLocked tick now rd c) = Some p \<Longrightarrow> \<exists>fs. p = framed (snd (sc_Next now (coStrength c))) fs"
  by (auto simp: composeLocked_def Let_def split: prod.splits option.splits sum.splits)

lemma paceOnce_zero:
  assumes "paceOnce tick now rd c = (c', out)" "zero_inflight (coStrength c')"
  shows "zero_inflight (coStrength c) \<and> (\<forall>l g p. out = Some (l, g, p) \<longrightarrow> \<not> raising p)"
proof -
  obtain s a b q where n: "sc_Next now (coStrength c) = (s, (a, b, q))"
    by (cases "sc_Next now (coStrength c)") auto
  have "c' = c \<and> out = None \<or> coStrength c' = s \<and> (\<forall>l g p. out = Some (l, g, p) \<longrightarrow>
      (\<exists>fs. p = framed (a, b, q) fs))"
    using assms(1) composeLocked_strength [of tick now rd c] composeLocked_packet [of tick now rd c] n
    by (auto simp: paceOnce_def split: option.splits prod.splits if_splits)
  then show ?thesis
    using Next_zero_inflight [OF n] assms(2) by (auto simp: raising_framed)
qed

lemma zero_begin_not_raising:
  "snd (zero_begin l now c) = Inr (a, b, q) \<Longrightarrow> \<not> raising (framed (a, b, q) fs)"
  by (auto simp: zero_begin_def Let_def sc_Next_def RequestZero_def raising_framed setZero_def split: if_splits)

end
