(* ===== verification/CoyoteConcurrency.thy ===== *)
theory CoyoteConcurrency
  imports CoyoteOwner
begin

text \<open>
  The Coyote owner with its goroutines (\<open>internal/transport/coyote.go\<close>, \<open>coyote_controls.go\<close>,
  \<open>coyote_stream.go\<close>).  A goroutine is a \<open>task\<close>: the point it has reached between two critical
  sections.  A call starts with its first critical section (\<open>start_call\<close>), and \<open>run_task\<close> takes any
  waiting task through its next one, so every interleaving of Stop, zero, limits, pacer and link
  events is a run of \<open>coyote_step\<close>.  \<open>opMu\<close> and \<open>writeMu\<close> are flags of the world, and \<open>woWire\<close> is
  the sequence of payloads handed to \<open>Link.Write\<close>, with the generation each was composed in.
  \<open>writeChecked\<close> holds \<open>writeMu\<close> throughout but \<open>mu\<close> only for its check and for its result, so a
  write is three steps: the check, the call of \<open>Link.Write\<close>, and its return; anything that needs
  only \<open>mu\<close>, a Stop or a zero included, may come between them.

  The waits in \<open>release\<close> for the link's own goroutines are not modelled, nor that there is one
  pacer: the model allows more interleavings than the code.  Results of the link and the
  connector, the clock and the renderer are inputs (\<open>env\<close>).
\<close>

section \<open>Tasks and the world\<close>

datatype wire_payload = PacketPayload packet | LimitsPayload limits

record job =
  jbLink :: link
  jbPayload :: wire_payload
  jbGen :: nat \<comment> \<open>the generation it was composed in\<close>
  jbGuarded :: bool \<comment> \<open>a packet of \<open>write\<close>, checked against the generation\<close>

datatype zero_caller =
    ZEmergency bool \<comment> \<open>started by \<open>BeginEmergencyStop\<close>\<close>
  | ZDisconnect bool \<comment> \<open>called by \<open>Close\<close>\<close>
  | ZConfigure coyote_error
  | ZArmFailed coyote_error
  | ZArm
  | ZStopFault

datatype limits_caller = LConfigure | LArm

datatype writer = WPace | WStop | WZero zero_caller int | WLimits limits_caller limits

datatype after_release = AfterNothing | AfterOp bool | AfterHold | AfterStop "coyote_error option"

datatype task =
    TConnecting
  | TLimits link limits_caller
  | TZero link zero_caller
  | TWrite job writer
  | TChecked job writer \<comment> \<open>valid, about to call \<open>Link.Write\<close>\<close>
  | TInWrite job writer
  | TReturn job writer "coyote_error option"
  | TRelease link "coyote_error option" after_release
  | TBattery link
  | TClosing
  | TEmergency
  | THoldEnd
  | TRecordStop "coyote_error option"
  | TStopUnlinked

record world =
  woCoy :: coyote
  woOp :: bool
  woBusy :: bool
  woTasks :: "task list"
  woWire :: "job list"
  woFresh :: link

text \<open>What the clock, the link and the connector answer in a step.\<close>

record env =
  evNow :: time
  evErr :: "coyote_error option"
  evUnacknowledged :: bool
  evCancelled :: bool
  evDevice :: device_info
  evBattery :: "int option"

datatype coyote_call =
    CallConfigure coyote_config
  | CallConnect bool string
  | CallDisconnect bool
  | CallAdjustStrength channel int
  | CallAdjustStrengthAt bool nat channel int
  | CallTestChannel bool nat channel
  | CallEmergencyZero
  | CallBeginEmergencyStop
  | CallAppendPoints "link option" bool string "point list"
  | CallPlay "link option" bool string int time
  | CallStop "link option" bool
  | CallSetStrokeWindow "link option"
  | CallAlign "link option" time
  | CallPace duration render_result
  | CallEvent link coyote_event
  | CallEventsClosed link

definition withCoy :: "coyote \<Rightarrow> task list \<Rightarrow> world \<Rightarrow> world" where
  "withCoy c ts w = w\<lparr>woCoy := c, woTasks := woTasks w @ ts\<rparr>"

text \<open>A goroutine that ends while it holds \<open>opMu\<close> releases it.\<close>

definition opEnd :: "world \<Rightarrow> world" where
  "opEnd w = w\<lparr>woOp := False\<rparr>"

definition packetJob :: "link \<Rightarrow> packet \<Rightarrow> nat \<Rightarrow> bool \<Rightarrow> job" where
  "packetJob l p g guarded = \<lparr>jbLink = l, jbPayload = PacketPayload p, jbGen = g, jbGuarded = guarded\<rparr>"

definition limitsJob :: "link \<Rightarrow> limits \<Rightarrow> nat \<Rightarrow> job" where
  "limitsJob l li g = \<lparr>jbLink = l, jbPayload = LimitsPayload li, jbGen = g, jbGuarded = False\<rparr>"

section \<open>Calls\<close>

definition call_Configure :: "coyote_config \<Rightarrow> world \<Rightarrow> world" where
  "call_Configure config w =
     (if woOp w then w
      else case configure_locked config (woCoy w) of
        (c, changed) \<Rightarrow>
          (case coLink (woCoy w) of
             Some l \<Rightarrow> if changed then (withCoy c [TLimits l LConfigure] w)\<lparr>woOp := True\<rparr> else withCoy c [] w
           | None \<Rightarrow> withCoy c [] w))"

definition call_Connect :: "bool \<Rightarrow> string \<Rightarrow> world \<Rightarrow> world" where
  "call_Connect haveConnector selected w =
     (if woOp w then w
      else case connect_begin haveConnector selected (woCoy w) of
        (c, Inl e) \<Rightarrow> withCoy c [] w
      | (c, Inr address) \<Rightarrow> (withCoy c [TConnecting] w)\<lparr>woOp := True\<rparr>)"

definition call_Disconnect :: "bool \<Rightarrow> world \<Rightarrow> world" where
  "call_Disconnect closing w =
     (if woOp w then w
      else case coLink (woCoy w) of
        None \<Rightarrow> withCoy (woCoy w) (if closing then [TClosing] else []) w
      | Some l \<Rightarrow> (withCoy (woCoy w) [TZero l (ZDisconnect closing)] w)\<lparr>woOp := True\<rparr>)"

definition call_EmergencyZero :: "world \<Rightarrow> world" where
  "call_EmergencyZero w =
     (case coLink (woCoy w) of
        None \<Rightarrow> w
      | Some l \<Rightarrow> withCoy (woCoy w) [TZero l (ZEmergency False)] w)"

definition call_BeginEmergencyStop :: "world \<Rightarrow> world" where
  "call_BeginEmergencyStop w = withCoy (emergency_begin (woCoy w)) [TEmergency] w"

definition call_Stop :: "link option \<Rightarrow> bool \<Rightarrow> world \<Rightarrow> world" where
  "call_Stop sess fault w =
     (case stop_begin sess (woCoy w) of
        (c, Inl e) \<Rightarrow> withCoy c [] w
      | (c, Inr None) \<Rightarrow> withCoy c [TStopUnlinked] w
      | (c, Inr (Some l)) \<Rightarrow>
          if fault then withCoy c [TZero l ZStopFault] w
          else (case packet_Encode stopPacket of
            Inl e \<Rightarrow> withCoy c [TReturn (packetJob l stopPacket (coGeneration c) False) WStop (Some (EncodeErr e))] w
          | Inr bytes \<Rightarrow> withCoy c [TWrite (packetJob l stopPacket (coGeneration c) False) WStop] w))"

definition call_Pace :: "duration \<Rightarrow> time \<Rightarrow> render_result \<Rightarrow> world \<Rightarrow> world" where
  "call_Pace tick now rd w =
     (case paceOnce tick now rd (woCoy w) of
        (c, None) \<Rightarrow> withCoy c [] w
      | (c, Some (l, g, p)) \<Rightarrow> withCoy c [TWrite (packetJob l p g True) WPace] w)"

definition call_Event :: "link \<Rightarrow> coyote_event \<Rightarrow> world \<Rightarrow> world" where
  "call_Event l ev w =
     (case apply_event l ev (woCoy w) of
        (c, None) \<Rightarrow> withCoy c [] w
      | (c, Some reason) \<Rightarrow> withCoy c [TRelease l (Some reason) AfterNothing] w)"

fun start_call :: "env \<Rightarrow> coyote_call \<Rightarrow> world \<Rightarrow> world" where
  "start_call e (CallConfigure config) w = call_Configure config w"
| "start_call e (CallConnect h sel) w = call_Connect h sel w"
| "start_call e (CallDisconnect closing) w = call_Disconnect closing w"
| "start_call e (CallAdjustStrength ch d) w = withCoy (fst (AdjustStrength ch d (woCoy w))) [] w"
| "start_call e (CallAdjustStrengthAt x g ch d) w =
     withCoy (fst (adjustStrengthLocked x g ch d (woCoy w))) [] w"
| "start_call e (CallTestChannel x g ch) w = withCoy (fst (startReferenceLocked x g ch (woCoy w))) [] w"
| "start_call e CallEmergencyZero w = call_EmergencyZero w"
| "start_call e CallBeginEmergencyStop w = call_BeginEmergencyStop w"
| "start_call e (CallAppendPoints sess x i pts) w = withCoy (fst (AppendPoints sess x i pts (woCoy w))) [] w"
| "start_call e (CallPlay sess x i m start) w = withCoy (fst (play sess x i m start (evNow e) (woCoy w))) [] w"
| "start_call e (CallStop sess fault) w = call_Stop sess fault w"
| "start_call e (CallSetStrokeWindow sess) w = withCoy (fst (SetStrokeWindow sess (woCoy w))) [] w"
| "start_call e (CallAlign sess start) w = withCoy (AlignPlaybackStart sess start (woCoy w)) [] w"
| "start_call e (CallPace tick rd) w = call_Pace tick (evNow e) rd w"
| "start_call e (CallEvent l ev) w = call_Event l ev w"
| "start_call e (CallEventsClosed l) w =
     withCoy (woCoy w) [TRelease l (Some (LinkErr ''the Coyote connection ended'')) AfterNothing] w"

section \<open>What a goroutine does next\<close>

text \<open>After \<open>zero\<close> returned \<open>err\<close> to its caller, and after \<open>writeLimits\<close> did.\<close>

fun zero_returned :: "link \<Rightarrow> zero_caller \<Rightarrow> coyote_error option \<Rightarrow> task list" where
  "zero_returned l (ZEmergency held) (Some e) = [TRelease l (Some e) (if held then AfterHold else AfterNothing)]"
| "zero_returned l (ZEmergency held) None = (if held then [THoldEnd] else [])"
| "zero_returned l (ZDisconnect closing) err = [TRelease l None (AfterOp closing)]"
| "zero_returned l (ZConfigure e) err = [TRelease l (Some e) (AfterOp False)]"
| "zero_returned l (ZArmFailed e) err = [TRelease l (Some e) (AfterOp False)]"
| "zero_returned l ZArm (Some e) = [TRelease l (Some e) (AfterOp False)]"
| "zero_returned l ZArm None = [TBattery l]"
| "zero_returned l ZStopFault (Some e) = [TRelease l (Some e) (AfterStop (Some e))]"
| "zero_returned l ZStopFault None = [TRecordStop None]"

text \<open>\<open>limits_returned\<close> gives the tasks, and whether \<open>opMu\<close> is released.\<close>

fun limits_returned :: "link \<Rightarrow> limits_caller \<Rightarrow> coyote_error option \<Rightarrow> task list \<times> bool" where
  "limits_returned l LConfigure None = ([], True)"
| "limits_returned l LConfigure (Some e) = ([TZero l (ZConfigure e)], False)"
| "limits_returned l LArm None = ([TZero l ZArm], False)"
| "limits_returned l LArm (Some e) = ([TZero l (ZArmFailed e)], False)"

definition limits_done :: "link \<Rightarrow> limits_caller \<Rightarrow> coyote_error option \<Rightarrow> coyote \<Rightarrow> world \<Rightarrow> world" where
  "limits_done l lc err c w =
     (case limits_returned l lc err of
        (ts, True) \<Rightarrow> opEnd (withCoy c ts w)
      | (ts, False) \<Rightarrow> withCoy c ts w)"

definition run_Connecting :: "env \<Rightarrow> world \<Rightarrow> world" where
  "run_Connecting e w =
     (case evErr e of
        Some err \<Rightarrow> opEnd (withCoy (connect_failed err (woCoy w)) [] w)
      | None \<Rightarrow>
          if evCancelled e then opEnd (withCoy (connect_cancelled (woCoy w)) [] (w\<lparr>woFresh := Suc (woFresh w)\<rparr>))
          else withCoy (arm_locked (woFresh w) (evDevice e) (woCoy w)) [TLimits (woFresh w) LArm]
                 (w\<lparr>woFresh := Suc (woFresh w)\<rparr>))"

definition run_Limits :: "link \<Rightarrow> limits_caller \<Rightarrow> world \<Rightarrow> world" where
  "run_Limits l lc w =
     (let c = woCoy w; li = ccLimits (coConfig c) in
      case limits_Encode li of
        Inl e \<Rightarrow> limits_done l lc (Some (EncodeErr e)) c w
      | Inr bytes \<Rightarrow> withCoy c [TWrite (limitsJob l li (coGeneration c)) (WLimits lc li)] w)"

definition run_Zero :: "env \<Rightarrow> link \<Rightarrow> zero_caller \<Rightarrow> world \<Rightarrow> world" where
  "run_Zero e l zc w =
     (case zero_begin l (evNow e) (woCoy w) of
        (c, Inl err) \<Rightarrow> withCoy c (zero_returned l zc (Some err)) w
      | (c, Inr (a, b, q)) \<Rightarrow>
          let p = framed (a, b, q) silentFrames; j = packetJob l p (coGeneration c) False in
          (case packet_Encode p of
             Inl err \<Rightarrow> withCoy c [TReturn j (WZero zc q) (Some (EncodeErr err))] w
           | Inr bytes \<Rightarrow> withCoy c [TWrite j (WZero zc q)] w))"

text \<open>\<open>writeChecked\<close>: wait for \<open>writeMu\<close> (\<open>None\<close>) and check under \<open>mu\<close>; then, with \<open>mu\<close> released and
  \<open>writeMu\<close> still held, hand the payload to the link; then take its result.\<close>

definition run_Write :: "job \<Rightarrow> writer \<Rightarrow> world \<Rightarrow> world option" where
  "run_Write j wr w =
     (if woBusy w then None
      else if write_valid (jbLink j) (if jbGuarded j then Some (jbGen j) else None) (woCoy w)
      then Some ((withCoy (woCoy w) [TChecked j wr] w)\<lparr>woBusy := True\<rparr>)
      else Some (withCoy (woCoy w) [TReturn j wr (Some Superseded)] w))"

definition run_Checked :: "job \<Rightarrow> writer \<Rightarrow> world \<Rightarrow> world" where
  "run_Checked j wr w = (withCoy (woCoy w) [TInWrite j wr] w)\<lparr>woWire := woWire w @ [j]\<rparr>"

definition run_InWrite :: "env \<Rightarrow> job \<Rightarrow> writer \<Rightarrow> world \<Rightarrow> world" where
  "run_InWrite e j wr w =
     (withCoy (write_finish (evErr e) (woCoy w)) [TReturn j wr (evErr e)] w)\<lparr>woBusy := False\<rparr>"

fun run_Return :: "env \<Rightarrow> job \<Rightarrow> writer \<Rightarrow> coyote_error option \<Rightarrow> world \<Rightarrow> world" where
  "run_Return e j WPace err w =
     (case err of
        None \<Rightarrow> w
      | Some x \<Rightarrow> if x = Superseded then w else withCoy (woCoy w) [TRelease (jbLink j) (Some x) AfterNothing] w)"
| "run_Return e j WStop err w =
     (case err of
        None \<Rightarrow> withCoy (woCoy w) [TRecordStop None] w
      | Some x \<Rightarrow> if x = Superseded then withCoy (woCoy w) [TRecordStop err] w
                  else withCoy (woCoy w) [TRelease (jbLink j) (Some x) (AfterStop err)] w)"
| "run_Return e j (WZero zc q) err w =
     withCoy (zero_finish (jbLink j) (evUnacknowledged e) q err (woCoy w)) (zero_returned (jbLink j) zc err) w"
| "run_Return e j (WLimits lc li) err w =
     (case err of
        Some x \<Rightarrow> limits_done (jbLink j) lc err (woCoy w) w
      | None \<Rightarrow> (case limits_finish (jbLink j) li (woCoy w) of
          (c, x) \<Rightarrow> limits_done (jbLink j) lc x c w))"

fun run_after :: "after_release \<Rightarrow> world \<Rightarrow> world" where
  "run_after AfterNothing w = w"
| "run_after (AfterOp closing) w = opEnd (withCoy (woCoy w) (if closing then [TClosing] else []) w)"
| "run_after AfterHold w = withCoy (woCoy w) [THoldEnd] w"
| "run_after (AfterStop err) w = withCoy (woCoy w) [TRecordStop err] w"

fun run_task :: "env \<Rightarrow> task \<Rightarrow> world \<Rightarrow> world option" where
  "run_task e TConnecting w = Some (run_Connecting e w)"
| "run_task e (TLimits l lc) w = Some (run_Limits l lc w)"
| "run_task e (TZero l zc) w = Some (run_Zero e l zc w)"
| "run_task e (TWrite j wr) w = run_Write j wr w"
| "run_task e (TChecked j wr) w = Some (run_Checked j wr w)"
| "run_task e (TInWrite j wr) w = Some (run_InWrite e j wr w)"
| "run_task e (TReturn j wr err) w = Some (run_Return e j wr err w)"
| "run_task e (TRelease l reason after) w =
     Some (run_after after (withCoy (release_locked l reason (woCoy w)) [] w))"
| "run_task e (TBattery l) w =
     Some (opEnd (withCoy (case evBattery e of None \<Rightarrow> woCoy w | Some n \<Rightarrow> store_battery l n (woCoy w)) [] w))"
| "run_task e TClosing w = Some (withCoy (close_locked (woCoy w)) [] w)"
| "run_task e TEmergency w =
     Some (case coLink (woCoy w) of
             None \<Rightarrow> withCoy (woCoy w) [THoldEnd] w
           | Some l \<Rightarrow> withCoy (woCoy w) [TZero l (ZEmergency True)] w)"
| "run_task e THoldEnd w = Some (withCoy (emergency_end (woCoy w)) [] w)"
| "run_task e (TRecordStop err) w = Some (withCoy (fst (recordLocked KindStop err (woCoy w))) [] w)"
| "run_task e TStopUnlinked w = Some (withCoy (fst (stop_unlinked (woCoy w))) [] w)"

definition newWorld :: world where
  "newWorld = \<lparr>woCoy = NewCoyote, woOp = False, woBusy = False, woTasks = [], woWire = [], woFresh = 0\<rparr>"

inductive coyote_step :: "world \<Rightarrow> world \<Rightarrow> bool" where
  call: "coyote_step w (start_call e call w)"
| task: "woTasks w = xs @ t # ys \<Longrightarrow> run_task e t (w\<lparr>woTasks := xs @ ys\<rparr>) = Some w' \<Longrightarrow> coyote_step w w'"

inductive_cases coyote_stepE: "coyote_step w w'"

section \<open>Counting goroutines\<close>

fun op_zero :: "zero_caller \<Rightarrow> nat" where
  "op_zero (ZDisconnect closing) = 1"
| "op_zero (ZConfigure e) = 1"
| "op_zero (ZArmFailed e) = 1"
| "op_zero ZArm = 1"
| "op_zero _ = 0"

fun hold_zero :: "zero_caller \<Rightarrow> nat" where
  "hold_zero (ZEmergency held) = (if held then 1 else 0)"
| "hold_zero _ = 0"

text \<open>How much a task counts: holding \<open>opMu\<close>, holding \<open>writeMu\<close>, a zero write, a stop hold, limits.\<close>

fun op_weight :: "task \<Rightarrow> nat" where
  "op_weight TConnecting = 1"
| "op_weight (TLimits l lc) = 1"
| "op_weight (TZero l zc) = op_zero zc"
| "op_weight (TWrite j wr) = (case wr of WZero zc q \<Rightarrow> op_zero zc | WLimits lc li \<Rightarrow> 1 | _ \<Rightarrow> 0)"
| "op_weight (TChecked j wr) = (case wr of WZero zc q \<Rightarrow> op_zero zc | WLimits lc li \<Rightarrow> 1 | _ \<Rightarrow> 0)"
| "op_weight (TInWrite j wr) = (case wr of WZero zc q \<Rightarrow> op_zero zc | WLimits lc li \<Rightarrow> 1 | _ \<Rightarrow> 0)"
| "op_weight (TReturn j wr err) = (case wr of WZero zc q \<Rightarrow> op_zero zc | WLimits lc li \<Rightarrow> 1 | _ \<Rightarrow> 0)"
| "op_weight (TRelease l r after) = (case after of AfterOp closing \<Rightarrow> 1 | _ \<Rightarrow> 0)"
| "op_weight (TBattery l) = 1"
| "op_weight _ = 0"

fun busy_weight :: "task \<Rightarrow> nat" where
  "busy_weight (TChecked j wr) = 1"
| "busy_weight (TInWrite j wr) = 1"
| "busy_weight _ = 0"

fun zero_weight :: "task \<Rightarrow> nat" where
  "zero_weight (TWrite j wr) = (case wr of WZero zc q \<Rightarrow> 1 | _ \<Rightarrow> 0)"
| "zero_weight (TChecked j wr) = (case wr of WZero zc q \<Rightarrow> 1 | _ \<Rightarrow> 0)"
| "zero_weight (TInWrite j wr) = (case wr of WZero zc q \<Rightarrow> 1 | _ \<Rightarrow> 0)"
| "zero_weight (TReturn j wr err) = (case wr of WZero zc q \<Rightarrow> 1 | _ \<Rightarrow> 0)"
| "zero_weight _ = 0"

fun hold_weight :: "task \<Rightarrow> nat" where
  "hold_weight (TZero l zc) = hold_zero zc"
| "hold_weight (TWrite j wr) = (case wr of WZero zc q \<Rightarrow> hold_zero zc | _ \<Rightarrow> 0)"
| "hold_weight (TChecked j wr) = (case wr of WZero zc q \<Rightarrow> hold_zero zc | _ \<Rightarrow> 0)"
| "hold_weight (TInWrite j wr) = (case wr of WZero zc q \<Rightarrow> hold_zero zc | _ \<Rightarrow> 0)"
| "hold_weight (TReturn j wr err) = (case wr of WZero zc q \<Rightarrow> hold_zero zc | _ \<Rightarrow> 0)"
| "hold_weight (TRelease l r after) = (case after of AfterHold \<Rightarrow> 1 | _ \<Rightarrow> 0)"
| "hold_weight TEmergency = 1"
| "hold_weight THoldEnd = 1"
| "hold_weight _ = 0"

definition tally :: "(task \<Rightarrow> nat) \<Rightarrow> task list \<Rightarrow> nat" where
  "tally f ts = sum_list (map f ts)"

lemma tally_simps [simp]: "tally f [] = 0" "tally f (t # ts) = f t + tally f ts"
  "tally f (ts @ us) = tally f ts + tally f us"
  by (simp_all add: tally_def)

lemma tally_member: "t \<in> set ts \<Longrightarrow> f t \<le> tally f ts"
  by (induction ts) auto

text \<open>The counts, with a task \<open>ts\<close> taken out of the list that is about to run.\<close>

definition counts :: "task list \<Rightarrow> world \<Rightarrow> bool" where
  "counts ts w \<longleftrightarrow>
     tally op_weight (ts @ woTasks w) = (if woOp w then 1 else 0) \<and>
     tally busy_weight (ts @ woTasks w) = (if woBusy w then 1 else 0) \<and>
     coZeroWrites (woCoy w) = int (tally zero_weight (ts @ woTasks w)) \<and>
     coStopHolds (woCoy w) = int (tally hold_weight (ts @ woTasks w))"

lemmas keep_fields [simp] = keeps_connect [unfolded same_admission_def]
  keeps_strength [unfolded same_admission_def] keeps_motion [unfolded same_admission_def]
  keeps_pace [unfolded same_admission_def]

lemma configure_fields [simp]:
  "coLink (fst (configure_locked cf c)) = coLink c"
  "coZeroWrites (fst (configure_locked cf c)) = coZeroWrites c"
  "coStopHolds (fst (configure_locked cf c)) = coStopHolds c"
  "coConfig (fst (configure_locked cf c)) = cf"
  "coAppliedLimits (fst (configure_locked cf c)) = coAppliedLimits c"
  by (simp_all add: configure_locked_def Let_def)

lemma arm_fields [simp]:
  "coLink (arm_locked l dev c) = Some l" "coZeroWrites (arm_locked l dev c) = coZeroWrites c"
  "coStopHolds (arm_locked l dev c) = coStopHolds c" "\<not> coLimitsApplied (arm_locked l dev c)"
  "coGeneration (arm_locked l dev c) = Suc (coGeneration c)" "coConfig (arm_locked l dev c) = coConfig c"
  "coStrength (arm_locked l dev c) = sc_Reset (coStrength c)"
  by (simp_all add: arm_locked_def)

lemma release_fields [simp]:
  "coZeroWrites (release_locked l r c) = coZeroWrites c"
  "coStopHolds (release_locked l r c) = coStopHolds c" "coConfig (release_locked l r c) = coConfig c"
  by (simp_all add: release_locked_def Let_def split: option.splits)

lemma zero_begin_fields [simp]:
  "coLink (fst (zero_begin l now c)) = coLink c" "coStopHolds (fst (zero_begin l now c)) = coStopHolds c"
  "coConfig (fst (zero_begin l now c)) = coConfig c"
  "coLimitsApplied (fst (zero_begin l now c)) = coLimitsApplied c"
  "coAppliedLimits (fst (zero_begin l now c)) = coAppliedLimits c"
  "coZeroWrites (fst (zero_begin l now c)) = coZeroWrites c + (if coLink c = Some l then 1 else 0)"
  "coGeneration (fst (zero_begin l now c)) = coGeneration c + (if coLink c = Some l then 1 else 0)"
  by (simp_all add: zero_begin_def Let_def split_beta)

lemma zero_begin_result: "isOk (snd (zero_begin l now c)) \<longleftrightarrow> coLink c = Some l"
  by (simp add: zero_begin_def Let_def split_beta)

lemma zero_finish_fields [simp]:
  "coLink (zero_finish l u q e c) = coLink c" "coStopHolds (zero_finish l u q e c) = coStopHolds c"
  "coConfig (zero_finish l u q e c) = coConfig c"
  "coLimitsApplied (zero_finish l u q e c) = coLimitsApplied c"
  "coAppliedLimits (zero_finish l u q e c) = coAppliedLimits c"
  "coZeroWrites (zero_finish l u q e c) = coZeroWrites c - 1"
  "coGeneration (zero_finish l u q e c) = coGeneration c"
  by (simp_all add: zero_finish_def Let_def)

lemma limits_finish_fields [simp]:
  "coLink (fst (limits_finish l li c)) = coLink c" "coStopHolds (fst (limits_finish l li c)) = coStopHolds c"
  "coConfig (fst (limits_finish l li c)) = coConfig c"
  "coZeroWrites (fst (limits_finish l li c)) = coZeroWrites c"
  "coGeneration (fst (limits_finish l li c)) = coGeneration c"
  "coStrength (fst (limits_finish l li c)) = coStrength c"
  by (simp_all add: limits_finish_def)

lemma stop_begin_fields [simp]:
  "coLink (fst (stop_begin sess c)) = coLink c" "coStopHolds (fst (stop_begin sess c)) = coStopHolds c"
  "coConfig (fst (stop_begin sess c)) = coConfig c"
  "coLimitsApplied (fst (stop_begin sess c)) = coLimitsApplied c"
  "coAppliedLimits (fst (stop_begin sess c)) = coAppliedLimits c"
  "coZeroWrites (fst (stop_begin sess c)) = coZeroWrites c"
  by (simp_all add: stop_begin_def split: option.splits)

lemma emergency_fields [simp]:
  "coLink (emergency_begin c) = coLink c" "coLink (emergency_end c) = coLink c"
  "coStopHolds (emergency_begin c) = coStopHolds c + 1" "coStopHolds (emergency_end c) = coStopHolds c - 1"
  "coConfig (emergency_begin c) = coConfig c" "coConfig (emergency_end c) = coConfig c"
  "coLimitsApplied (emergency_begin c) = coLimitsApplied c" "coLimitsApplied (emergency_end c) = coLimitsApplied c"
  "coAppliedLimits (emergency_begin c) = coAppliedLimits c" "coAppliedLimits (emergency_end c) = coAppliedLimits c"
  "coZeroWrites (emergency_begin c) = coZeroWrites c" "coZeroWrites (emergency_end c) = coZeroWrites c"
  "coGeneration (emergency_begin c) = Suc (coGeneration c)" "coGeneration (emergency_end c) = coGeneration c"
  by (simp_all add: emergency_begin_def emergency_end_def)

lemma withCoy_fields [simp]:
  "woCoy (withCoy c ts w) = c" "woTasks (withCoy c ts w) = woTasks w @ ts" "woOp (withCoy c ts w) = woOp w"
  "woBusy (withCoy c ts w) = woBusy w" "woWire (withCoy c ts w) = woWire w" "woFresh (withCoy c ts w) = woFresh w"
  by (simp_all add: withCoy_def)

lemma opEnd_fields [simp]:
  "woCoy (opEnd w) = woCoy w" "woTasks (opEnd w) = woTasks w" "\<not> woOp (opEnd w)"
  "woBusy (opEnd w) = woBusy w" "woWire (opEnd w) = woWire w" "woFresh (opEnd w) = woFresh w"
  by (simp_all add: opEnd_def)

lemma counts_withCoy:
  assumes "counts ts w" "coZeroWrites c = coZeroWrites (woCoy w)" "coStopHolds c = coStopHolds (woCoy w)"
    and "tally op_weight us = tally op_weight ts" "tally busy_weight us = tally busy_weight ts"
    and "tally zero_weight us = tally zero_weight ts" "tally hold_weight us = tally hold_weight ts"
  shows "counts [] (withCoy c us w)"
  using assms by (auto simp: counts_def)

lemma AdjustStrength_fields [simp]:
  "coLink (fst (AdjustStrength ch d c)) = coLink c"
  "coGeneration (fst (AdjustStrength ch d c)) = coGeneration c"
  "coLimitsApplied (fst (AdjustStrength ch d c)) = coLimitsApplied c"
  "coAppliedLimits (fst (AdjustStrength ch d c)) = coAppliedLimits c"
  "coConfig (fst (AdjustStrength ch d c)) = coConfig c"
  "coZeroWrites (fst (AdjustStrength ch d c)) = coZeroWrites c"
  "coStopHolds (fst (AdjustStrength ch d c)) = coStopHolds c"
  by (simp_all add: AdjustStrength_def)

lemma keeps_results:
  "connect_begin h sel c = (d, r1) \<Longrightarrow> same_admission c d"
  "apply_event l ev c = (d, r2) \<Longrightarrow> same_admission c d"
  "paceOnce tick now rd c = (d, r3) \<Longrightarrow> same_admission c d"
  by (metis keeps_connect(1) fst_conv, metis keeps_strength(2) fst_conv, metis keeps_pace fst_conv)

lemma stop_begin_result:
  "stop_begin sess c = (d, r) \<Longrightarrow> coZeroWrites d = coZeroWrites c \<and> coStopHolds d = coStopHolds c \<and>
     coLink d = coLink c \<and> coConfig d = coConfig c \<and> coLimitsApplied d = coLimitsApplied c \<and>
     coAppliedLimits d = coAppliedLimits c \<and> (\<forall>l. r = Inr (Some l) \<longrightarrow> coLink c = Some l)"
  by (auto simp: stop_begin_def split: option.splits)

lemma counts_plain:
  "counts [] w \<Longrightarrow> coZeroWrites c = coZeroWrites (woCoy w) \<Longrightarrow> coStopHolds c = coStopHolds (woCoy w) \<Longrightarrow>
     counts [] (withCoy c [] w)"
  by (rule counts_withCoy) auto

lemma counts_Configure: "counts [] w \<Longrightarrow> counts [] (call_Configure config w)"
  by (simp add: call_Configure_def counts_plain split_beta split: option.split) (simp add: counts_def)

lemma counts_Connect: "counts [] w \<Longrightarrow> counts [] (call_Connect h sel w)"
  by (auto simp: call_Connect_def same_admission_def counts_def dest!: keeps_results(1)
      split: prod.splits sum.splits)

lemma counts_Disconnect: "counts [] w \<Longrightarrow> counts [] (call_Disconnect closing w)"
  by (auto simp: call_Disconnect_def counts_def split: option.splits)

lemma counts_Stop: "counts [] w \<Longrightarrow> counts [] (call_Stop sess fault w)"
  by (auto simp: call_Stop_def counts_def dest!: stop_begin_result split: prod.splits sum.splits option.splits)

lemma counts_Pace: "counts [] w \<Longrightarrow> counts [] (call_Pace tick now rd w)"
  by (auto simp: call_Pace_def counts_def same_admission_def dest!: keeps_results(3)
      split: prod.splits option.splits)

lemma counts_Event: "counts [] w \<Longrightarrow> counts [] (call_Event l ev w)"
  by (auto simp: call_Event_def counts_def same_admission_def dest!: keeps_results(2)
      split: prod.splits option.splits)

lemma counts_call: "counts [] w \<Longrightarrow> counts [] (start_call e call w)"
  by (cases call)
     (simp_all add: counts_Configure counts_Connect counts_Disconnect counts_Stop counts_Pace counts_Event
       counts_plain call_EmergencyZero_def call_BeginEmergencyStop_def split: option.split,
      simp_all add: counts_def)

lemma counts_Connecting: "counts [TConnecting] w \<Longrightarrow> counts [] (run_Connecting e w)"
  by (auto simp: run_Connecting_def counts_def split: option.splits if_splits)

lemma limits_done_counts:
  assumes "counts [TLimits l lc] w" "coZeroWrites c = coZeroWrites (woCoy w)" "coStopHolds c = coStopHolds (woCoy w)"
  shows "counts [] (limits_done l lc err c w)"
  using assms by (cases lc; cases err) (auto simp: limits_done_def counts_def split: if_splits)

lemma counts_Limits: "counts [TLimits l lc] w \<Longrightarrow> counts [] (run_Limits l lc w)"
  by (auto simp: run_Limits_def Let_def limits_done_counts split: sum.split) (simp add: counts_def)

text \<open>What \<open>zero\<close> hands back keeps the counts, without the zero write it ends.\<close>

lemma zero_returned_weights:
  "tally op_weight (zero_returned l zc err) = op_zero zc"
  "tally busy_weight (zero_returned l zc err) = 0"
  "tally zero_weight (zero_returned l zc err) = 0"
  "tally hold_weight (zero_returned l zc err) = hold_zero zc"
  by (cases zc; cases err; simp)+

lemma counts_Zero: "counts [TZero l zc] w \<Longrightarrow> counts [] (run_Zero e l zc w)"
proof -
  assume c: "counts [TZero l zc] w"
  obtain d r where z: "zero_begin l (evNow e) (woCoy w) = (d, r)" by (cases "zero_begin l (evNow e) (woCoy w)")
  then have f: "coStopHolds d = coStopHolds (woCoy w)"
    "coZeroWrites d = coZeroWrites (woCoy w) + (if isOk r then 1 else 0)"
    using zero_begin_fields(2,6) [of l "evNow e" "woCoy w"] zero_begin_result [of l "evNow e" "woCoy w"] by simp_all
  show ?thesis
    using c f by (auto simp: run_Zero_def z Let_def counts_def zero_returned_weights split: sum.splits)
qed

lemma counts_Write: "counts [TWrite j wr] w \<Longrightarrow> run_Write j wr w = Some w' \<Longrightarrow> counts [] w'"
  by (auto simp: run_Write_def counts_def split: if_splits)

lemma counts_Checked: "counts [TChecked j wr] w \<Longrightarrow> counts [] (run_Checked j wr w)"
  by (simp add: run_Checked_def counts_def)

lemma counts_InWrite: "counts [TInWrite j wr] w \<Longrightarrow> counts [] (run_InWrite e j wr w)"
  by (auto simp: run_InWrite_def counts_def split: if_splits)

lemma counts_Return: "counts [TReturn j wr err] w \<Longrightarrow> counts [] (run_Return e j wr err w)"
proof (cases wr)
  case (WZero zc q)
  assume "counts [TReturn j wr err] w"
  then show ?thesis by (auto simp: WZero counts_def zero_returned_weights)
next
  case (WLimits lc li)
  assume "counts [TReturn j wr err] w"
  then have "counts [TLimits (jbLink j) lc] w" by (simp add: WLimits counts_def)
  then show ?thesis
    using limits_finish_fields(2,4) [of "jbLink j" li "woCoy w"]
    by (auto simp: WLimits limits_done_counts split_beta split: option.split)
qed (auto simp: counts_def split: option.split)

lemma counts_after:
  "counts [TRelease l r after] w \<Longrightarrow> counts [] (run_after after w)"
  by (cases after) (auto simp: counts_def split: if_splits)

lemma counts_task: "counts [t] w \<Longrightarrow> run_task e t w = Some w' \<Longrightarrow> counts [] w'"
proof (cases t)
  case (TRelease l r after)
  assume "counts [t] w" "run_task e t w = Some w'"
  then show ?thesis
    using counts_after [of l r after "withCoy (release_locked l r (woCoy w)) [] w"]
    by (simp add: TRelease counts_def)
next
  case (TBattery l)
  assume "counts [t] w" "run_task e t w = Some w'"
  then show ?thesis by (auto simp: TBattery counts_def split: option.splits if_splits)
next
  case TEmergency
  assume "counts [t] w" "run_task e t w = Some w'"
  then show ?thesis by (auto simp: TEmergency counts_def split: option.splits)
qed (auto simp: counts_Connecting counts_Limits counts_Zero counts_Write counts_Checked counts_InWrite counts_Return,
     auto simp: counts_def)

end
