(* ===== verification/CoyoteSafety.thy ===== *)
theory CoyoteSafety
  imports CoyoteConcurrency
begin

text \<open>
  What the Coyote owner guarantees under every interleaving.  \<open>proceeds\<close> bounds what one critical
  section may do to the generation, the zero in flight and the applied limits; \<open>job_ok\<close> and
  \<open>task_ok\<close> say what a goroutine carries; \<open>safe\<close> and \<open>counts\<close> are the invariant, kept by every call
  and every task; \<open>owner\<close> is the interpretation as a machine fenced by the generation.
  \<open>checked_step\<close> says what happens between the check of a write and its hand-over, and \<open>silenced\<close>
  what Stop leaves behind.  The properties at the end read the wire.
\<close>

section \<open>What every owner operation may do\<close>

text \<open>
  \<open>proceeds c d\<close>: the generation does not go back, a zero gets in flight only with a new
  generation, and limits that are applied afterwards were applied before, to the same link and
  equal to the same configuration.
\<close>

definition proceeds :: "coyote \<Rightarrow> coyote \<Rightarrow> bool" where
  "proceeds c d \<longleftrightarrow>
     coGeneration c \<le> coGeneration d \<and>
     (zero_inflight (coStrength d) \<and> coGeneration d = coGeneration c \<longrightarrow> zero_inflight (coStrength c)) \<and>
     (coLimitsApplied d \<longrightarrow> coLimitsApplied c \<and> coLink d = coLink c \<and>
        ccLimits (coConfig d) = ccLimits (coConfig c))"

lemma proceeds_refl [simp]: "proceeds c c"
  by (simp add: proceeds_def)

lemma proceeds_admission:
  assumes "same_admission c d" "zero_inflight (coStrength d) \<Longrightarrow> zero_inflight (coStrength c)"
  shows "proceeds c d"
  using assms by (simp add: proceeds_def same_admission_def)

lemma proceeds_same: "same_admission c d \<Longrightarrow> coStrength d = coStrength c \<Longrightarrow> proceeds c d"
  by (rule proceeds_admission) auto

lemma proceeds_connect [simp]:
  "proceeds c (fst (connect_begin h sel c))" "proceeds c (connect_failed e c)"
  "proceeds c (connect_cancelled c)" "proceeds c (close_locked c)"
  "proceeds c (write_finish w c)" "proceeds c (store_battery l n c)" "proceeds c (fst (recordLocked k r c))"
  by (rule proceeds_same [OF keeps_connect(1)], simp add: connect_begin_def,
      rule proceeds_same [OF keeps_connect(2)], simp add: connect_failed_def,
      rule proceeds_same [OF keeps_connect(3)], simp add: connect_cancelled_def,
      rule proceeds_same [OF keeps_connect(4)], simp add: close_locked_def,
      rule proceeds_same [OF keeps_connect(5)], simp add: write_finish_def split: option.split,
      rule proceeds_same [OF keeps_connect(6)], simp add: store_battery_def,
      rule proceeds_same [OF keeps_connect(7)], simp add: recordLocked_def)

lemma proceeds_adjust [simp]: "proceeds c (fst (adjustStrengthLocked x g ch d c))"
  by (rule proceeds_admission [OF keeps_strength(1)])
     (auto simp: adjustStrengthLocked_def split_beta zero_inflight_mono split: if_splits)

lemma proceeds_AdjustStrength [simp]: "proceeds c (fst (AdjustStrength ch d c))"
  by (simp add: AdjustStrength_def)

lemma proceeds_event [simp]: "proceeds c (fst (apply_event l ev c))"
  by (rule proceeds_admission [OF keeps_strength(2)])
     (auto simp: apply_event_def Let_def store_battery_def dest: zero_inflight_Report
       split: coyote_event.splits sum.splits option.splits if_splits)

lemma proceeds_motion [simp]:
  "proceeds c (fst (AppendPoints sess x i pts c))" "proceeds c (fst (play sess x i m start now c))"
  "proceeds c (AlignPlaybackStart sess start c)" "proceeds c (fst (SetStrokeWindow sess c))"
  "proceeds c (fst (stop_unlinked c))" "proceeds c (fst (startReferenceLocked x g ch c))"
  by (rule proceeds_same [OF keeps_motion(1)], simp add: AppendPoints_def recordLocked_def split_beta Let_def
        split: option.split,
      rule proceeds_same [OF keeps_motion(2)], simp add: play_def recordLocked_def Let_def split: option.split,
      rule proceeds_same [OF keeps_motion(3)], simp add: AlignPlaybackStart_def align_stream_def split: option.split,
      rule proceeds_same [OF keeps_motion(4)], simp add: SetStrokeWindow_def recordLocked_def,
      rule proceeds_same [OF keeps_motion(5)], simp add: stop_unlinked_def recordLocked_def,
      rule proceeds_same [OF keeps_motion(6)], simp add: startReferenceLocked_def)

lemma proceeds_pace: "paceOnce tick now rd c = (d, out) \<Longrightarrow> proceeds c d"
  using paceOnce_zero [of tick now rd c d out] by (intro proceeds_admission) (auto dest: keeps_results(3))

lemma proceeds_configure: "coyote_inv c \<Longrightarrow> proceeds c (fst (configure_locked cf c))"
  by (auto simp: proceeds_def configure_locked_def Let_def zero_inflight_mono coyote_inv_def)

lemma proceeds_arm [simp]: "proceeds c (arm_locked l dev c)"
  by (simp add: proceeds_def)

lemma release_cases:
  "release_locked l r c = c \<or> \<not> coLimitsApplied (release_locked l r c) \<and>
     coGeneration (release_locked l r c) = Suc (coGeneration c)"
  by (simp add: release_locked_def Let_def split: option.split)

lemma proceeds_release [simp]: "proceeds c (release_locked l r c)"
  using release_cases [of l r c] by (auto simp: proceeds_def)

lemma proceeds_zero_begin [simp]: "proceeds c (fst (zero_begin l now c))"
  by (cases "coLink c = Some l") (simp_all add: proceeds_def, simp add: zero_begin_def)

lemma proceeds_zero_finish [simp]: "proceeds c (zero_finish l u q e c)"
  by (simp add: proceeds_def) (auto simp: zero_finish_def Let_def zero_inflight_mono)

lemma proceeds_stop [simp]: "proceeds c (fst (stop_begin sess c))"
  by (auto simp: proceeds_def stop_begin_def split: option.splits)

lemma proceeds_emergency [simp]: "proceeds c (emergency_begin c)" "proceeds c (emergency_end c)"
  by (simp_all add: proceeds_def, simp_all add: emergency_end_def)

section \<open>Jobs, tasks and the wire\<close>

definition job_ok :: "coyote \<Rightarrow> job \<Rightarrow> writer \<Rightarrow> bool" where
  "job_ok c j wr \<longleftrightarrow> jbGen j \<le> coGeneration c \<and>
     (case wr of
        WPace \<Rightarrow> jbGuarded j \<and> (\<exists>p. jbPayload j = PacketPayload p \<and>
          (zero_inflight (coStrength c) \<and> jbGen j = coGeneration c \<longrightarrow> \<not> raising p))
      | WStop \<Rightarrow> \<not> jbGuarded j \<and> jbPayload j = PacketPayload stopPacket
      | WZero zc q \<Rightarrow> \<not> jbGuarded j \<and>
          (\<exists>p. jbPayload j = PacketPayload p \<and> \<not> raising p \<and> pkFrames p = silentFrames)
      | WLimits lc li \<Rightarrow> \<not> jbGuarded j \<and> jbPayload j = LimitsPayload li)"

lemma job_ok_proceeds: "job_ok c j wr \<Longrightarrow> proceeds c d \<Longrightarrow> job_ok d j wr"
  by (cases wr) (auto simp: job_ok_def proceeds_def)

text \<open>The limits last handed to a link.\<close>

fun lastLimits :: "link \<Rightarrow> job list \<Rightarrow> limits option" where
  "lastLimits l [] = None"
| "lastLimits l (j # js) =
     (case lastLimits l js of
        Some li \<Rightarrow> Some li
      | None \<Rightarrow> (case jbPayload j of LimitsPayload li \<Rightarrow> if jbLink j = l then Some li else None
                                     | PacketPayload p \<Rightarrow> None))"

lemma lastLimits_append [simp]:
  "lastLimits l (js @ ks) = (case lastLimits l ks of Some li \<Rightarrow> Some li | None \<Rightarrow> lastLimits l js)"
  by (induction js) (auto split: option.splits)

fun limits_busy :: "task \<Rightarrow> bool" where
  "limits_busy (TLimits l lc) = True"
| "limits_busy (TWrite j wr) = (case wr of WLimits lc li \<Rightarrow> True | _ \<Rightarrow> False)"
| "limits_busy (TChecked j wr) = (case wr of WLimits lc li \<Rightarrow> True | _ \<Rightarrow> False)"
| "limits_busy (TInWrite j wr) = (case wr of WLimits lc li \<Rightarrow> True | _ \<Rightarrow> False)"
| "limits_busy (TReturn j wr err) = (case wr of WLimits lc li \<Rightarrow> True | _ \<Rightarrow> False)"
| "limits_busy _ = False"

fun task_ok :: "world \<Rightarrow> task \<Rightarrow> bool" where
  "task_ok w (TLimits l lc) \<longleftrightarrow> \<not> coLimitsApplied (woCoy w)"
| "task_ok w (TWrite j wr) \<longleftrightarrow> job_ok (woCoy w) j wr \<and>
     (limits_busy (TWrite j wr) \<longrightarrow> \<not> coLimitsApplied (woCoy w))"
| "task_ok w (TChecked j wr) \<longleftrightarrow> job_ok (woCoy w) j wr \<and>
     (limits_busy (TChecked j wr) \<longrightarrow> \<not> coLimitsApplied (woCoy w)) \<and>
     (jbGuarded j \<longrightarrow> (\<forall>i \<in> set (woWire w). jbGen i \<le> jbGen j))"
| "task_ok w (TInWrite j wr) \<longleftrightarrow> job_ok (woCoy w) j wr \<and>
     (case wr of WLimits lc li \<Rightarrow> \<not> coLimitsApplied (woCoy w) \<and> lastLimits (jbLink j) (woWire w) = Some li
      | _ \<Rightarrow> True)"
| "task_ok w (TReturn j wr err) \<longleftrightarrow> job_ok (woCoy w) j wr \<and>
     (case wr of WLimits lc li \<Rightarrow> \<not> coLimitsApplied (woCoy w) \<and>
        (err = None \<longrightarrow> lastLimits (jbLink j) (woWire w) = Some li)
      | _ \<Rightarrow> True)"
| "task_ok w _ \<longleftrightarrow> True"

lemma limits_busy_op: "limits_busy t \<Longrightarrow> op_weight t = 1"
  by (cases t) (auto split: writer.splits)

text \<open>The order of the wire: a guarded packet follows only what was composed no later.\<close>

definition fenced :: "job list \<Rightarrow> bool" where
  "fenced wire \<longleftrightarrow> sorted_wrt (\<lambda>i j. jbGuarded j \<longrightarrow> jbGen i \<le> jbGen j) wire"

definition safe :: "task list \<Rightarrow> world \<Rightarrow> bool" where
  "safe ts w \<longleftrightarrow>
     coyote_inv (woCoy w) \<and> (\<forall>t \<in> set (ts @ woTasks w). task_ok w t) \<and>
     (\<forall>j \<in> set (woWire w). jbGen j \<le> coGeneration (woCoy w)) \<and> fenced (woWire w) \<and>
     (\<forall>l. coLimitsApplied (woCoy w) \<and> coLink (woCoy w) = Some l \<longrightarrow>
        lastLimits l (woWire w) = Some (ccLimits (coConfig (woCoy w))))"

lemma task_ok_proceeds:
  "task_ok w t \<Longrightarrow> proceeds (woCoy w) (woCoy w') \<Longrightarrow> woWire w' = woWire w \<Longrightarrow> task_ok w' t"
  by (cases t) (auto intro: job_ok_proceeds simp: proceeds_def split: writer.splits)

lemma safe_withCoy:
  assumes "safe ts w" "coyote_inv c" "proceeds (woCoy w) c"
    and "\<And>t. t \<in> set us \<Longrightarrow> task_ok (withCoy c us w) t"
  shows "safe [] (withCoy c us w)"
proof -
  have "task_ok (withCoy c us w) t" if "t \<in> set (woTasks w)" for t
    using task_ok_proceeds [of w t "withCoy c us w"] assms(1,3) that by (simp add: safe_def)
  then show ?thesis
    using assms by (auto simp: safe_def proceeds_def)
qed

lemma task_ok_fields:
  "woCoy w' = woCoy w \<Longrightarrow> woWire w' = woWire w \<Longrightarrow> task_ok w' t = task_ok w t"
  by (cases t) (simp_all split: writer.split)

lemma safe_fields [simp]:
  "safe ts (w\<lparr>woOp := b\<rparr>) = safe ts w" "safe ts (w\<lparr>woBusy := b\<rparr>) = safe ts w"
  "safe ts (w\<lparr>woFresh := n\<rparr>) = safe ts w" "safe ts (opEnd w) = safe ts w"
  by (simp_all add: safe_def opEnd_def task_ok_fields [of "w\<lparr>woOp := x\<rparr>" w for x]
      task_ok_fields [of "w\<lparr>woBusy := x\<rparr>" w for x] task_ok_fields [of "w\<lparr>woFresh := x\<rparr>" w for x])

lemma safe_plain:
  "safe ts w \<Longrightarrow> coyote_inv c \<Longrightarrow> proceeds (woCoy w) c \<Longrightarrow> safe [] (withCoy c [] w)"
  by (rule safe_withCoy) auto

lemma safe_coyote: "safe ts w \<Longrightarrow> coyote_inv (woCoy w)"
  by (simp add: safe_def)
section \<open>Every step is safe\<close>

lemma safe_Configure: "safe [] w \<Longrightarrow> safe [] (call_Configure config w)"
proof -
  assume s: "safe [] w"
  let ?r = "configure_locked config (woCoy w)"
  have c: "coyote_inv (fst ?r)" "proceeds (woCoy w) (fst ?r)"
    using s by (simp_all add: safe_def inv_rules proceeds_configure)
  have "\<not> coLimitsApplied (fst ?r)" if "snd ?r"
    using that by (simp add: configure_locked_def Let_def split: if_splits)
  then have "snd ?r \<Longrightarrow> safe [] (withCoy (fst ?r) [TLimits l LConfigure] w)" for l
    using safe_withCoy [OF s c, of "[TLimits l LConfigure]"] by simp
  then show ?thesis
    using safe_plain [OF s c] s by (simp add: call_Configure_def split_beta split: option.split)
qed

lemma safe_one:
  assumes "safe ts w" "coyote_inv c" "proceeds (woCoy w) c" "task_ok (withCoy c [t] w) t"
  shows "safe [] (withCoy c [t] w)"
  using assms(4) by (intro safe_withCoy [OF assms(1-3)]) simp

lemma safe_Connect: "safe [] w \<Longrightarrow> safe [] (call_Connect h sel w)"
proof -
  assume s: "safe [] w"
  have c: "coyote_inv (fst (connect_begin h sel (woCoy w)))" using s by (simp add: safe_def inv_rules)
  show ?thesis
    using safe_withCoy [OF s c proceeds_connect(1), of "[TConnecting]"] safe_plain [OF s c proceeds_connect(1)] s
    by (auto simp: call_Connect_def split: prod.splits sum.splits)
qed

lemma safe_Disconnect: "safe [] w \<Longrightarrow> safe [] (call_Disconnect closing w)"
  by (auto simp: call_Disconnect_def safe_one safe_plain safe_coyote split: option.splits)

lemma safe_Stop: "safe [] w \<Longrightarrow> safe [] (call_Stop sess fault w)"
proof -
  assume s: "safe [] w"
  obtain c r where b: "stop_begin sess (woCoy w) = (c, r)" by (cases "stop_begin sess (woCoy w)")
  then have c: "coyote_inv c" "proceeds (woCoy w) c"
    using s coyote_inv_stop [of "woCoy w" sess] proceeds_stop [of "woCoy w" sess] by (simp_all add: safe_def)
  have j: "job_ok c (packetJob l stopPacket (coGeneration c) False) WStop" for l
    by (simp add: job_ok_def packetJob_def)
  show ?thesis
    unfolding call_Stop_def b
    by (auto split: sum.split option.split intro!: safe_withCoy [OF s c] simp: j)
qed

lemma paceOnce_some:
  assumes "paceOnce tick now rd c = (d, Some (l, g, p))"
  shows "g = coGeneration d" "zero_inflight (coStrength d) \<Longrightarrow> \<not> raising p"
  using paceOnce_zero [OF assms] assms
  by (auto simp: paceOnce_def split: option.splits prod.splits if_splits)

lemma safe_Pace: "safe [] w \<Longrightarrow> safe [] (call_Pace tick now rd w)"
proof -
  assume s: "safe [] w"
  obtain c r where b: "paceOnce tick now rd (woCoy w) = (c, r)" by (cases "paceOnce tick now rd (woCoy w)")
  then have c: "coyote_inv c" "proceeds (woCoy w) c"
    using s coyote_inv_pace [of "woCoy w" tick now rd] proceeds_pace [OF b] by (simp_all add: safe_def)
  have j: "job_ok c (packetJob l p g True) WPace" if "r = Some (l, g, p)" for l g p
    using paceOnce_some [OF b [unfolded that]] by (simp add: job_ok_def packetJob_def)
  show ?thesis
    unfolding call_Pace_def b
    by (auto split: option.split intro!: safe_withCoy [OF s c] simp: j)
qed

lemma safe_Event: "safe [] w \<Longrightarrow> safe [] (call_Event l ev w)"
proof -
  assume s: "safe [] w"
  have c: "coyote_inv (fst (apply_event l ev (woCoy w)))" using s by (simp add: safe_def inv_rules)
  show ?thesis
    using safe_one [OF s c proceeds_event] safe_plain [OF s c proceeds_event]
    by (simp add: call_Event_def split_beta split: option.split)
qed

lemma safe_call: "safe [] w \<Longrightarrow> safe [] (start_call e call w)"
proof -
  assume s: "safe [] w"
  note c = safe_coyote [OF s]
  show ?thesis
    by (cases call)
       (simp_all add: s c safe_Configure safe_Connect safe_Disconnect safe_Stop safe_Pace safe_Event
         call_EmergencyZero_def call_BeginEmergencyStop_def
         safe_plain [OF s] safe_one [OF s] inv_rules AdjustStrength_def SetStrokeWindow_def split: option.split)
qed

lemma withCoy_fresh: "withCoy c ts (w\<lparr>woFresh := n\<rparr>) = (withCoy c ts w)\<lparr>woFresh := n\<rparr>"
  by (simp add: withCoy_def)

lemma safe_Connecting: "safe [TConnecting] w \<Longrightarrow> safe [] (run_Connecting e w)"
proof -
  assume s: "safe [TConnecting] w"
  note c = safe_coyote [OF s] and p = safe_plain [OF s]
  have "safe [] (withCoy (arm_locked (woFresh w) (evDevice e) (woCoy w)) [TLimits (woFresh w) LArm] w)"
    using c by (intro safe_withCoy [OF s]) (auto simp: inv_rules)
  then show ?thesis
    using p c by (auto simp: run_Connecting_def inv_rules withCoy_fresh split: option.splits)
qed

lemma limits_returned_ok: "t \<in> set (fst (limits_returned l lc err)) \<Longrightarrow> task_ok v t"
  by (cases lc; cases err) auto

lemma withCoy_twice: "withCoy c ts (withCoy d us w) = withCoy c (us @ ts) w"
  by (simp add: withCoy_def)

lemma safe_limits_done:
  assumes "safe [] (withCoy c [] w)"
  shows "safe [] (limits_done l lc err c w)"
proof -
  obtain ts u where r: "limits_returned l lc err = (ts, u)" by (cases "limits_returned l lc err")
  have "safe [] (withCoy c ts (withCoy c [] w))"
    by (rule safe_withCoy [OF assms]) (use assms limits_returned_ok [of _ l lc err] r in \<open>auto dest: safe_coyote\<close>)
  then show ?thesis
    by (cases u) (simp_all add: limits_done_def r withCoy_twice)
qed

lemma safe_Limits: "safe [TLimits l lc] w \<Longrightarrow> safe [] (run_Limits l lc w)"
proof -
  assume s: "safe [TLimits l lc] w"
  note c = safe_coyote [OF s]
  have n: "\<not> coLimitsApplied (woCoy w)" using s by (simp add: safe_def)
  have j: "job_ok (woCoy w) (limitsJob l li (coGeneration (woCoy w))) (WLimits lc li)" for li
    by (simp add: job_ok_def limitsJob_def)
  show ?thesis
    using safe_limits_done safe_plain [OF s c] c n
    by (auto simp: run_Limits_def Let_def j split: sum.split intro!: safe_withCoy [OF s])
qed

lemma zero_returned_ok: "t \<in> set (zero_returned l zc err) \<Longrightarrow> task_ok v t"
  by (cases zc; cases err) (auto split: if_splits)

lemma safe_Zero: "safe [TZero l zc] w \<Longrightarrow> safe [] (run_Zero e l zc w)"
proof -
  assume s: "safe [TZero l zc] w"
  obtain d r where z: "zero_begin l (evNow e) (woCoy w) = (d, r)" by (cases "zero_begin l (evNow e) (woCoy w)")
  then have c: "coyote_inv d" "proceeds (woCoy w) d"
    using s coyote_inv_zero_begin [of "woCoy w" l "evNow e"] proceeds_zero_begin [of "woCoy w" l "evNow e"]
    by (simp_all add: safe_def)
  have j: "job_ok d (packetJob l (framed (a, b, q) silentFrames) (coGeneration d) False) (WZero zc q)"
    if "r = Inr (a, b, q)" for a b q
    using zero_begin_not_raising [of l "evNow e" "woCoy w" a b q] z that by (simp add: job_ok_def packetJob_def) (simp add: framed_def)
  show ?thesis
    unfolding run_Zero_def z
    by (auto simp: Let_def j zero_returned_ok split: sum.split intro!: safe_withCoy [OF s c])
qed

text \<open>While a task that holds \<open>writeMu\<close> runs, no other task holds it.\<close>

lemma alone_on_link:
  assumes "counts [t] w" "busy_weight t = 1" "u \<in> set (woTasks w)"
  shows "busy_weight u = 0"
proof -
  have "tally busy_weight (woTasks w) = 0" using assms(1,2) by (auto simp: counts_def split: if_splits)
  then show ?thesis using tally_member [OF assms(3), of busy_weight] by simp
qed

text \<open>While a limits task runs, no other task has limits under way.\<close>

lemma alone_with_limits:
  assumes "counts [t] w" "op_weight t = 1" "u \<in> set (woTasks w)"
  shows "\<not> limits_busy u"
proof -
  have "tally op_weight (woTasks w) = 0" using assms(1,2) by (auto simp: counts_def split: if_splits)
  then show ?thesis using tally_member [OF assms(3), of op_weight] limits_busy_op [of u] by auto
qed

lemma fenced_append: "fenced js \<Longrightarrow> (jbGuarded j \<longrightarrow> (\<forall>i \<in> set js. jbGen i \<le> jbGen j)) \<Longrightarrow> fenced (js @ [j])"
  by (auto simp: fenced_def sorted_wrt_append)

lemma task_ok_wire:
  assumes "task_ok w t" "woCoy w' = woCoy w" "woWire w' = woWire w @ [j]"
    and "limits_busy t \<Longrightarrow> \<forall>l. lastLimits l [j] = None" and "busy_weight t = 0"
  shows "task_ok w' t"
  using assms by (cases t) (auto split: writer.splits)

lemma safe_Write:
  assumes s: "safe [TWrite j wr] w" and r: "run_Write j wr w = Some w'"
  shows "safe [] w'"
proof -
  have job: "job_ok (woCoy w) j wr" and lim: "limits_busy (TWrite j wr) \<Longrightarrow> \<not> coLimitsApplied (woCoy w)"
    and gens: "\<forall>i \<in> set (woWire w). jbGen i \<le> coGeneration (woCoy w)"
    using s by (simp_all add: safe_def)
  have c: "coyote_inv (woCoy w)" "proceeds (woCoy w) (woCoy w)" using safe_coyote [OF s] by simp_all
  show ?thesis
  proof (cases "write_valid (jbLink j) (if jbGuarded j then Some (jbGen j) else None) (woCoy w)")
    case False
    have "safe [] (withCoy (woCoy w) [TReturn j wr (Some Superseded)] w)"
      using job lim by (intro safe_one [OF s c]) (auto split: writer.split)
    with False r show ?thesis by (auto simp: run_Write_def split: if_splits)
  next
    case True
    then have "jbGuarded j \<Longrightarrow> jbGen j = coGeneration (woCoy w)" by (simp add: write_valid_def)
    then have "safe [] (withCoy (woCoy w) [TChecked j wr] w)"
      using job lim gens by (intro safe_one [OF s c]) auto
    with True r show ?thesis by (auto simp: run_Write_def split: if_splits)
  qed
qed

lemma safe_Checked:
  assumes s: "safe [TChecked j wr] w" and n: "counts [TChecked j wr] w"
  shows "safe [] (run_Checked j wr w)"
proof -
  let ?w = "run_Checked j wr w"
  have w': "woCoy ?w = woCoy w" "woWire ?w = woWire w @ [j]" "woTasks ?w = woTasks w @ [TInWrite j wr]"
    by (simp_all add: run_Checked_def)
  have job: "job_ok (woCoy w) j wr" and lim: "limits_busy (TChecked j wr) \<Longrightarrow> \<not> coLimitsApplied (woCoy w)"
    and order: "jbGuarded j \<Longrightarrow> \<forall>i \<in> set (woWire w). jbGen i \<le> jbGen j"
    and gens: "\<forall>i \<in> set (woWire w). jbGen i \<le> coGeneration (woCoy w)"
    and applied: "\<And>l. coLimitsApplied (woCoy w) \<Longrightarrow> coLink (woCoy w) = Some l \<Longrightarrow>
      lastLimits l (woWire w) = Some (ccLimits (coConfig (woCoy w)))"
    using s by (simp_all add: safe_def)
  have plain: "\<forall>l. lastLimits l [j] = None" if "\<not> limits_busy (TChecked j wr)"
    using job that by (cases wr) (auto simp: job_ok_def)
  have "\<not> limits_busy u \<or> \<not> limits_busy (TChecked j wr)" if "u \<in> set (woTasks w)" for u
    using alone_with_limits [OF n _ that] limits_busy_op by blast
  then have tasks: "task_ok ?w u" if "u \<in> set (woTasks w)" for u
    using task_ok_wire [of w u ?w j] s plain that alone_on_link [OF n _ that] w' by (auto simp: safe_def)
  have self: "task_ok ?w (TInWrite j wr)"
    using job lim w' by (cases wr) (auto simp: job_ok_def)
  have "fenced (woWire w @ [j])"
    using order s by (intro fenced_append) (auto simp: safe_def)
  moreover have "lastLimits l (woWire w @ [j]) = Some (ccLimits (coConfig (woCoy w)))"
    if "coLimitsApplied (woCoy w)" "coLink (woCoy w) = Some l" for l
  proof -
    have "\<not> limits_busy (TChecked j wr)" using lim that(1) by blast
    then have "lastLimits l [j] = None" using plain by blast
    then show ?thesis by (simp only: lastLimits_append applied [OF that] option.case)
  qed
  moreover have "jbGen j \<le> coGeneration (woCoy w)" using job by (simp add: job_ok_def)
  ultimately show ?thesis
    using tasks self gens safe_coyote [OF s] unfolding safe_def w' by auto
qed

lemma safe_InWrite: "safe [TInWrite j wr] w \<Longrightarrow> safe [] (run_InWrite e j wr w)"
proof -
  assume s: "safe [TInWrite j wr] w"
  let ?c = "write_finish (evErr e) (woCoy w)"
  have c: "coyote_inv ?c" "proceeds (woCoy w) ?c" using safe_coyote [OF s] by (simp_all add: inv_rules)
  have "task_ok w (TInWrite j wr)" using s by (simp add: safe_def)
  then have "task_ok (withCoy ?c [TReturn j wr (evErr e)] w) (TReturn j wr (evErr e))"
    using job_ok_proceeds [OF _ c(2)] by (auto split: writer.splits)
  then show ?thesis
    using safe_one [OF s c] by (simp add: run_InWrite_def)
qed

lemma task_ok_idle:
  assumes "task_ok w u" "\<not> limits_busy u" "coGeneration (woCoy w') = coGeneration (woCoy w)"
    "coStrength (woCoy w') = coStrength (woCoy w)" "woWire w' = woWire w"
  shows "task_ok w' u"
  using assms by (cases u) (auto simp: job_ok_def split: writer.splits)

lemma limits_finish_ok:
  assumes s: "safe [TReturn j (WLimits lc li) None] w" and n: "counts [TReturn j (WLimits lc li) None] w"
  shows "safe [] (withCoy (fst (limits_finish (jbLink j) li (woCoy w))) [] w)"
    (is "safe [] (withCoy ?c [] w)")
proof -
  have last: "lastLimits (jbLink j) (woWire w) = Some li" and off: "\<not> coLimitsApplied (woCoy w)"
    using s by (simp_all add: safe_def)
  have "task_ok (withCoy ?c [] w) u" if "u \<in> set (woTasks w)" for u
  proof (rule task_ok_idle)
    show "task_ok w u" using s that by (simp add: safe_def)
    show "\<not> limits_busy u" using alone_with_limits [OF n _ that] by simp
  qed simp_all
  moreover have "coyote_inv ?c" using safe_coyote [OF s] by (rule coyote_inv_limits_finish)
  moreover have "lastLimits l (woWire w) = Some (ccLimits (coConfig ?c))"
    if "coLimitsApplied ?c" "coLink ?c = Some l" for l
    using that last off by (auto simp: limits_finish_def split: if_splits)
  ultimately show ?thesis
    using s by (simp add: safe_def)
qed

lemma safe_Return:
  assumes s: "safe [TReturn j wr err] w" and n: "counts [TReturn j wr err] w"
  shows "safe [] (run_Return e j wr err w)"
proof (cases wr)
  case (WLimits lc li)
  show ?thesis
  proof (cases err)
    case None
    have "safe [] (withCoy (fst (limits_finish (jbLink j) li (woCoy w))) [] w)"
      using limits_finish_ok [of j lc li w] s n by (simp add: WLimits None)
    then show ?thesis by (simp add: WLimits None split_beta safe_limits_done)
  next
    case (Some x)
    then show ?thesis
      using safe_plain [OF s safe_coyote [OF s]] by (simp add: WLimits safe_limits_done)
  qed
next
  case (WZero zc q)
  have "coyote_inv (zero_finish (jbLink j) (evUnacknowledged e) q err (woCoy w))"
    using safe_coyote [OF s] by (rule coyote_inv_zero_finish)
  then show ?thesis
    unfolding WZero run_Return.simps by (intro safe_withCoy [OF s]) (auto intro: zero_returned_ok)
next
  case WPace
  have "safe [] w" using s by (simp add: safe_def)
  then show ?thesis
    using safe_one [OF s safe_coyote [OF s]] by (simp add: WPace split: option.split)
next
  case WStop
  show ?thesis
    using safe_one [OF s safe_coyote [OF s]] by (simp add: WStop split: option.split)
qed

lemma safe_after: "safe [] w \<Longrightarrow> safe [] (run_after after w)"
  using safe_one [of "[]" w "woCoy w"] safe_plain [of "[]" w "woCoy w"]
  by (cases after) (auto dest: safe_coyote)

lemma safe_task:
  assumes s: "safe [t] w" and n: "counts [t] w" and r: "run_task e t w = Some w'"
  shows "safe [] w'"
proof (cases t)
  case (TRelease l reason after)
  have "safe [] (withCoy (release_locked l reason (woCoy w)) [] w)"
    using safe_plain [OF s] safe_coyote [OF s] by (simp add: coyote_inv_release)
  then show ?thesis using r by (auto simp: TRelease safe_after)
next
  case (TWrite j wr)
  then show ?thesis using safe_Write [of j wr w w'] s r by simp
next
  case (TChecked j wr)
  then show ?thesis using safe_Checked [of j wr w] s n r by auto
next
  case (TReturn j wr err)
  then show ?thesis using safe_Return [of j wr err w e] s n r by auto
next
  case (TBattery l)
  have "coyote_inv (case evBattery e of None \<Rightarrow> woCoy w | Some n \<Rightarrow> store_battery l n (woCoy w))"
    "proceeds (woCoy w) (case evBattery e of None \<Rightarrow> woCoy w | Some n \<Rightarrow> store_battery l n (woCoy w))"
    using safe_coyote [OF s] by (simp_all add: coyote_inv_battery split: option.split)
  then show ?thesis using r safe_plain [OF s] by (auto simp: TBattery)
qed (use s r safe_coyote [OF s] in \<open>auto simp: safe_Connecting safe_Limits safe_Zero safe_InWrite
      safe_plain safe_one inv_rules stop_unlinked_def split: option.splits\<close>)

lemma safe_split: "woTasks w = xs @ t # ys \<Longrightarrow> safe [] w \<Longrightarrow> safe [t] (w\<lparr>woTasks := xs @ ys\<rparr>)"
  by (auto simp: safe_def) (simp_all add: task_ok_fields [of "w\<lparr>woTasks := xs @ ys\<rparr>" w])

lemma counts_split: "woTasks w = xs @ t # ys \<Longrightarrow> counts [] w \<Longrightarrow> counts [t] (w\<lparr>woTasks := xs @ ys\<rparr>)"
  by (simp add: counts_def ac_simps)

definition world_inv :: "world \<Rightarrow> bool" where
  "world_inv w \<longleftrightarrow> counts [] w \<and> safe [] w"

lemma world_inv_step: "coyote_step w w' \<Longrightarrow> world_inv w \<Longrightarrow> world_inv w'"
proof (induction rule: coyote_step.induct)
  case (call w e c)
  then show ?case by (simp add: world_inv_def counts_call safe_call)
next
  case (task w xs t ys e w')
  then have "counts [t] (w\<lparr>woTasks := xs @ ys\<rparr>)" "safe [t] (w\<lparr>woTasks := xs @ ys\<rparr>)"
    by (simp_all add: world_inv_def counts_split safe_split)
  then show ?case using task(2) counts_task safe_task by (simp add: world_inv_def)
qed

lemma world_inv_new: "world_inv newWorld"
  by (simp add: world_inv_def counts_def safe_def newWorld_def coyote_inv_New fenced_def)
     (simp add: NewCoyote_def)

section \<open>The generation\<close>

lemma proceeds_gen: "proceeds c d \<Longrightarrow> coGeneration c \<le> coGeneration d"
  by (simp add: proceeds_def)

lemma gen_configure: "coGeneration c \<le> coGeneration (fst (configure_locked cf c))"
  by (simp add: configure_locked_def Let_def)

lemmas gen_facts = gen_configure proceeds_connect [THEN proceeds_gen] proceeds_adjust [THEN proceeds_gen]
  proceeds_AdjustStrength [THEN proceeds_gen] proceeds_event [THEN proceeds_gen] proceeds_motion [THEN proceeds_gen]
  proceeds_arm [THEN proceeds_gen] proceeds_release [THEN proceeds_gen] proceeds_zero_begin [THEN proceeds_gen]
  proceeds_zero_finish [THEN proceeds_gen] proceeds_stop [THEN proceeds_gen] proceeds_emergency [THEN proceeds_gen]

lemma gen_results:
  "configure_locked cf c = (d, r1) \<Longrightarrow> coGeneration c \<le> coGeneration d"
  "connect_begin h sel c = (d, r2) \<Longrightarrow> coGeneration c \<le> coGeneration d"
  "stop_begin sess c = (d, r3) \<Longrightarrow> coGeneration c \<le> coGeneration d"
  "zero_begin l now c = (d, r4) \<Longrightarrow> coGeneration c \<le> coGeneration d"
  "apply_event l ev c = (d, r5) \<Longrightarrow> coGeneration c \<le> coGeneration d"
  "paceOnce tick now rd c = (d, r6) \<Longrightarrow> coGeneration c \<le> coGeneration d"
  "limits_finish l li c = (d, r7) \<Longrightarrow> coGeneration c \<le> coGeneration d"
  by (metis gen_facts fst_conv)+ (auto dest: proceeds_pace [THEN proceeds_gen] simp: limits_finish_def split: if_splits)

lemma gen_call: "coGeneration (woCoy w) \<le> coGeneration (woCoy (start_call e call w))"
  by (cases call)
     (auto simp: gen_facts call_Configure_def call_Connect_def call_Disconnect_def call_EmergencyZero_def
       call_BeginEmergencyStop_def call_Stop_def call_Pace_def call_Event_def dest: gen_results
       split: prod.split sum.split option.split)

lemma gen_limits_done: "woCoy (limits_done l lc err c w) = c"
  by (simp add: limits_done_def split: prod.split bool.split)

lemma after_coy: "woCoy (run_after after w) = woCoy w"
  by (cases after) simp_all

lemma gen_task: "run_task e t w = Some w' \<Longrightarrow> coGeneration (woCoy w) \<le> coGeneration (woCoy w')"
proof (cases t)
  case (TReturn j wr err)
  assume "run_task e t w = Some w'"
  then show ?thesis
    by (cases wr) (auto simp: TReturn gen_limits_done gen_facts dest: gen_results split: option.splits prod.splits)
qed (auto simp: run_Connecting_def run_Limits_def Let_def gen_limits_done run_Zero_def run_Write_def run_Checked_def run_InWrite_def
       after_coy gen_facts dest: gen_results split: option.splits prod.splits sum.splits if_splits)

interpretation owner: fenced_machine "\<lambda>w. w = newWorld" coyote_step world_inv "\<lambda>w. coGeneration (woCoy w)"
proof unfold_locales
  fix w w' assume "coyote_step w w'"
  then show "coGeneration (woCoy w) \<le> coGeneration (woCoy w')"
    by (induction rule: coyote_step.induct) (use gen_call gen_task in fastforce)+
qed (auto simp: world_inv_new world_inv_step)

section \<open>What reaches the wire\<close>

lemma wire_call: "woWire (start_call e call w) = woWire w"
  by (cases call)
     (auto simp: call_Configure_def call_Connect_def call_Disconnect_def call_EmergencyZero_def
       call_BeginEmergencyStop_def call_Stop_def call_Pace_def call_Event_def
       split: prod.split sum.split option.split)

lemma wire_limits_done: "woWire (limits_done l lc err c w) = woWire w"
  by (simp add: limits_done_def split: prod.split bool.split)

lemma wire_after: "woWire (run_after after w) = woWire w"
  by (cases after) simp_all

lemma wire_task:
  "run_task e t w = Some w' \<Longrightarrow> woWire w' = woWire w \<or>
     (\<exists>j wr. t = TChecked j wr \<and> w' = run_Checked j wr w)"
proof (cases t)
  case (TReturn j wr err)
  assume "run_task e t w = Some w'"
  then show ?thesis
    by (cases wr) (auto simp: TReturn wire_limits_done split: option.splits prod.splits)
qed (auto simp: run_Connecting_def run_Limits_def Let_def wire_limits_done run_Zero_def run_Write_def run_InWrite_def
       wire_after split: option.splits prod.splits sum.splits if_splits)

text \<open>A step that hands a payload to the link took a job that had passed its check.\<close>

lemma step_wire:
  assumes "coyote_step w w'" "woWire w' = woWire w @ [j]"
  shows "\<exists>wr. TChecked j wr \<in> set (woTasks w) \<and> woCoy w' = woCoy w"
  using assms
proof (cases rule: coyote_step.cases)
  case (task xs t ys e)
  then show ?thesis using wire_task [OF task(2)] assms(2) by (auto simp: run_Checked_def)
qed (use wire_call in auto)

text \<open>The jobs that passed their check and are not yet on the wire.\<close>

definition checked :: "world \<Rightarrow> (job \<times> writer) set" where
  "checked w = {(j, wr). TChecked j wr \<in> set (woTasks w)}"

lemma checked_call: "checked (start_call e call w) = checked w"
  by (cases call)
     (auto simp: checked_def call_Configure_def call_Connect_def call_Disconnect_def call_EmergencyZero_def
       call_BeginEmergencyStop_def call_Stop_def call_Pace_def call_Event_def
       split: prod.splits sum.splits option.splits if_splits)

lemma zero_returned_checked: "TChecked j wr \<notin> set (zero_returned l zc err)"
  by (cases zc; cases err) auto

lemma limits_done_checked:
  "TChecked j wr \<in> set (woTasks (limits_done l lc err c w)) \<Longrightarrow> TChecked j wr \<in> set (woTasks w)"
  by (cases lc; cases err) (auto simp: limits_done_def)

lemma after_checked: "TChecked j wr \<in> set (woTasks (run_after after w)) \<Longrightarrow> TChecked j wr \<in> set (woTasks w)"
  by (cases after) (auto split: if_splits)

lemma checked_task:
  "run_task e t w = Some w' \<Longrightarrow> (j, wr) \<in> checked w' \<Longrightarrow> (j, wr) \<in> checked w \<or>
     (t = TWrite j wr \<and> write_valid (jbLink j) (if jbGuarded j then Some (jbGen j) else None) (woCoy w))"
proof (cases t)
  case (TReturn i wi err)
  assume "run_task e t w = Some w'" "(j, wr) \<in> checked w'"
  then show ?thesis
    by (cases wi) (auto simp: TReturn checked_def zero_returned_checked dest: limits_done_checked
        split: option.splits prod.splits if_splits)
next
  case (TRelease l r after)
  assume "run_task e t w = Some w'" "(j, wr) \<in> checked w'"
  then show ?thesis
    using after_checked [of j wr after "withCoy (release_locked l r (woCoy w)) [] w"]
    by (auto simp: TRelease checked_def)
qed (auto simp: checked_def run_Connecting_def run_Limits_def Let_def run_Zero_def run_Write_def run_Checked_def
       run_InWrite_def zero_returned_checked dest: after_checked limits_done_checked
       split: option.splits prod.splits sum.splits if_splits)

text \<open>
  While a job stands between its check and its hand-over nothing else reaches the link; and it got
  there by a check that found it valid.
\<close>

lemma checked_step:
  assumes "coyote_step w w'" "world_inv w" "(j, wr) \<in> checked w'"
  shows "woWire w' = woWire w \<and> ((j, wr) \<in> checked w \<or> TWrite j wr \<in> set (woTasks w) \<and>
     write_valid (jbLink j) (if jbGuarded j then Some (jbGen j) else None) (woCoy w))"
  using assms(1)
proof (cases rule: coyote_step.cases)
  case (call e c)
  then show ?thesis using assms(3) by (simp add: checked_call wire_call)
next
  case (task xs t ys e)
  let ?w = "w\<lparr>woTasks := xs @ ys\<rparr>"
  have n: "counts [t] ?w" using assms(2) task(1) by (simp add: world_inv_def counts_split)
  have new: "(j, wr) \<in> checked ?w \<or> (t = TWrite j wr \<and>
      write_valid (jbLink j) (if jbGuarded j then Some (jbGen j) else None) (woCoy w))"
    using checked_task [OF task(2) assms(3)] by simp
  have "woWire w' = woWire ?w"
  proof (rule ccontr)
    assume "woWire w' \<noteq> woWire ?w"
    then obtain i wi where t: "t = TChecked i wi" using wire_task [OF task(2)] by blast
    with new have "TChecked j wr \<in> set (woTasks ?w)" by (simp add: checked_def)
    from alone_on_link [OF n _ this] t show False by simp
  qed
  then show ?thesis using new task(1) by (auto simp: checked_def)
qed

section \<open>Quiet owners\<close>

text \<open>Nothing plays: no stream and no channel test.\<close>

definition quiet :: "coyote \<Rightarrow> bool" where
  "quiet c \<longleftrightarrow> \<not> stream_playing (coStream c) \<and> \<not> rfActive (coReference c)"

fun starts_output :: "coyote_call \<Rightarrow> bool" where
  "starts_output (CallPlay sess x i m start) = True"
| "starts_output (CallTestChannel x g ch) = True"
| "starts_output _ = False"

lemma quiet_keeps [simp]:
  "quiet (fst (connect_begin h sel c)) = quiet c" "quiet (connect_failed e c) = quiet c"
  "quiet (connect_cancelled c) = quiet c" "quiet (close_locked c) = quiet c" "quiet (write_finish x c) = quiet c"
  "quiet (store_battery l n c) = quiet c" "quiet (fst (recordLocked k r c)) = quiet c"
  "quiet (fst (adjustStrengthLocked y g ch d c)) = quiet c" "quiet (fst (AdjustStrength ch d c)) = quiet c"
  "quiet (fst (configure_locked cf c)) = quiet c" "quiet (zero_finish l u q zr c) = quiet c"
  "quiet (fst (limits_finish l li c)) = quiet c" "quiet (emergency_end c) = quiet c"
  by (simp_all add: quiet_def connect_begin_def connect_failed_def connect_cancelled_def close_locked_def
      write_finish_def store_battery_def recordLocked_def adjustStrengthLocked_def AdjustStrength_def
      configure_locked_def zero_finish_def limits_finish_def emergency_end_def Let_def split_beta split: option.split)

lemma quiet_event [simp]: "quiet (fst (apply_event l ev c)) = quiet c"
proof (cases ev)
  case (EvNotification bs)
  then show ?thesis by (auto simp: apply_event_def Let_def quiet_def split: sum.split option.split)
qed (simp_all add: apply_event_def Let_def)

lemma quiet_after [simp]: "quiet (arm_locked l dev c)" "quiet (emergency_begin c)"
  by (simp_all add: quiet_def arm_locked_def emergency_begin_def)

lemma quiet_imps:
  "quiet c \<Longrightarrow> quiet (release_locked l r c)" "quiet c \<Longrightarrow> quiet (fst (zero_begin l now c))"
  "quiet c \<Longrightarrow> quiet (fst (stop_begin sess c))" "quiet c \<Longrightarrow> quiet (fst (AppendPoints sess x i pts c))"
  "quiet c \<Longrightarrow> quiet (AlignPlaybackStart sess start c)" "quiet c \<Longrightarrow> quiet (fst (stop_unlinked c))"
  "quiet c \<Longrightarrow> quiet (fst (SetStrokeWindow sess c))"
  by (simp_all add: quiet_def release_locked_def zero_begin_def stop_begin_def AppendPoints_def
      AlignPlaybackStart_def align_stream_def stop_unlinked_def SetStrokeWindow_def recordLocked_def Let_def split_beta
      split: option.split)

lemma quiet_frames:
  "quiet c \<Longrightarrow> compose_frames tick now rd q c = (c, if q \<noteq> 0 then Some silentFrames else None)"
  by (simp add: quiet_def compose_frames_def)

lemma quiet_pace:
  assumes "paceOnce tick now rd c = (d, out)" "quiet c"
  shows "quiet d \<and> (\<forall>l g p. out = Some (l, g, p) \<longrightarrow> pkFrames p = silentFrames)"
proof -
  have "quiet (c\<lparr>coStrength := s\<rparr>)" for s using assms(2) by (simp add: quiet_def)
  note f = quiet_frames [OF this]
  have "quiet (fst (composeLocked tick now rd c)) \<and>
      (\<forall>p. snd (composeLocked tick now rd c) = Some p \<longrightarrow> pkFrames p = silentFrames)"
    using assms(2)
    by (auto simp: composeLocked_def f Let_def quiet_def framed_def split: prod.splits sum.splits)
  then show ?thesis
    using assms by (auto simp: paceOnce_def split: option.splits prod.splits if_splits)
qed

lemma quiet_results:
  "configure_locked cf c = (d, r1) \<Longrightarrow> quiet c \<Longrightarrow> quiet d"
  "connect_begin h sel c = (d, r2) \<Longrightarrow> quiet c \<Longrightarrow> quiet d"
  "stop_begin sess c = (d, r3) \<Longrightarrow> quiet c \<Longrightarrow> quiet d"
  "zero_begin l now c = (d, r4) \<Longrightarrow> quiet c \<Longrightarrow> quiet d"
  "apply_event l ev c = (d, r5) \<Longrightarrow> quiet c \<Longrightarrow> quiet d"
  "limits_finish l li c = (d, r7) \<Longrightarrow> quiet c \<Longrightarrow> quiet d"
  using quiet_keeps(10) [of cf c] quiet_keeps(1) [of h sel c] quiet_imps(3) [of c sess]
    quiet_imps(2) [of c l now] quiet_event [of l ev c] quiet_keeps(12) [of l li c]
  by (auto simp del: quiet_keeps quiet_event)

lemma quiet_call:
  "quiet (woCoy w) \<Longrightarrow> \<not> starts_output call \<Longrightarrow> quiet (woCoy (start_call e call w))"
  by (cases call)
     (auto simp: quiet_imps call_Configure_def call_Connect_def call_Disconnect_def call_EmergencyZero_def
       call_BeginEmergencyStop_def call_Stop_def call_Pace_def call_Event_def dest: quiet_results dest!: quiet_pace
       split: prod.split sum.split option.split)

lemma quiet_task: "run_task e t w = Some w' \<Longrightarrow> quiet (woCoy w) \<Longrightarrow> quiet (woCoy w')"
proof (cases t)
  case (TReturn j wr err)
  assume "run_task e t w = Some w'" "quiet (woCoy w)"
  then show ?thesis
    by (cases wr) (auto simp: TReturn gen_limits_done dest: quiet_results split: option.splits prod.splits)
qed (auto simp: run_Connecting_def run_Limits_def Let_def gen_limits_done run_Zero_def run_Write_def run_Checked_def run_InWrite_def
       after_coy quiet_imps dest: quiet_results split: option.splits prod.splits sum.splits if_splits)

text \<open>The guarded packets that wait for the wire.\<close>

definition waiting :: "world \<Rightarrow> job set" where
  "waiting w = {j. \<exists>wr. TWrite j wr \<in> set (woTasks w) \<and> jbGuarded j}"

lemma waiting_call:
  "j \<in> waiting (start_call e call w) \<Longrightarrow> j \<in> waiting w \<or>
     (\<exists>d l p g tick rd. paceOnce tick (evNow e) rd (woCoy w) = (d, Some (l, g, p)) \<and>
        j = packetJob l p g True)"
  by (cases call)
     (auto simp: waiting_def call_Configure_def call_Connect_def call_Disconnect_def call_EmergencyZero_def
       call_BeginEmergencyStop_def call_Stop_def call_Pace_def call_Event_def packetJob_def
       split: prod.splits sum.splits option.splits if_splits)

lemma zero_returned_waiting: "TWrite j wr \<notin> set (zero_returned l zc err)"
  by (cases zc; cases err) auto

lemma limits_done_waiting: "TWrite j wr \<in> set (woTasks (limits_done l lc err c w)) \<Longrightarrow> TWrite j wr \<in> set (woTasks w)"
  by (cases lc; cases err) (auto simp: limits_done_def)

lemma after_waiting: "TWrite j wr \<in> set (woTasks (run_after after w)) \<Longrightarrow> TWrite j wr \<in> set (woTasks w)"
  by (cases after) (auto split: if_splits)

lemma waiting_task: "run_task e t w = Some w' \<Longrightarrow> waiting w' \<subseteq> waiting w"
proof (cases t)
  case (TReturn j wr err)
  assume "run_task e t w = Some w'"
  then show ?thesis
    by (cases wr) (auto simp: TReturn waiting_def zero_returned_waiting dest: limits_done_waiting
        split: option.splits prod.splits if_splits)
next
  case (TRelease l r after)
  assume "run_task e t w = Some w'"
  then show ?thesis
    using after_waiting [of _ _ after "withCoy (release_locked l r (woCoy w)) [] w"]
    by (auto simp: TRelease waiting_def)
qed (auto simp: waiting_def run_Connecting_def run_Limits_def Let_def run_Zero_def run_Write_def run_Checked_def run_InWrite_def
       zero_returned_waiting packetJob_def limitsJob_def dest: after_waiting limits_done_waiting
       split: option.splits prod.splits sum.splits if_splits)

lemma waiting_split: "woTasks w = xs @ t # ys \<Longrightarrow> waiting (w\<lparr>woTasks := xs @ ys\<rparr>) \<subseteq> waiting w"
  by (auto simp: waiting_def)

definition silent_job :: "job \<Rightarrow> bool" where
  "silent_job j \<longleftrightarrow> (\<forall>p. jbPayload j = PacketPayload p \<longrightarrow> pkFrames p = silentFrames)"

lemma unguarded_silent: "job_ok c j wr \<Longrightarrow> \<not> jbGuarded j \<Longrightarrow> silent_job j"
  by (cases wr) (auto simp: job_ok_def silent_job_def stopPacket_def framed_def keepAll_def)

text \<open>
  \<open>silenced w0 w\<close>: nothing plays, every waiting packet that is still valid carries silent frames,
  and so does one that passed its check, unless it had already passed it in \<open>w0\<close> and the wire is
  still that of \<open>w0\<close>.
\<close>

definition silenced :: "world \<Rightarrow> world \<Rightarrow> bool" where
  "silenced w0 w \<longleftrightarrow> quiet (woCoy w) \<and>
     (\<forall>j \<in> waiting w. jbGen j = coGeneration (woCoy w) \<longrightarrow> silent_job j) \<and>
     (\<forall>(j, wr) \<in> checked w. silent_job j \<or> woWire w = woWire w0 \<and> (j, wr) \<in> checked w0)"

lemma silenced_valid:
  assumes "world_inv w" "silenced w0 w" "TWrite j wr \<in> set (woTasks w)"
    and "write_valid (jbLink j) (if jbGuarded j then Some (jbGen j) else None) (woCoy w)"
  shows "silent_job j"
proof (cases "jbGuarded j")
  case True
  then have "j \<in> waiting w" "jbGen j = coGeneration (woCoy w)"
    using assms(3,4) by (auto simp: waiting_def write_valid_def)
  then show ?thesis using assms(2) by (simp add: silenced_def)
next
  case False
  have "task_ok w (TWrite j wr)" using assms(1,3) unfolding world_inv_def safe_def by auto
  then show ?thesis using False unguarded_silent by auto
qed

lemma silenced_checked:
  assumes "coyote_step w w'" "world_inv w" "silenced w0 w" "(j, wr) \<in> checked w'"
  shows "silent_job j \<or> woWire w' = woWire w0 \<and> (j, wr) \<in> checked w0"
proof -
  have same: "woWire w' = woWire w" and c: "(j, wr) \<in> checked w \<or> TWrite j wr \<in> set (woTasks w) \<and>
     write_valid (jbLink j) (if jbGuarded j then Some (jbGen j) else None) (woCoy w)"
    using checked_step [OF assms(1,2,4)] by blast+
  from c show ?thesis
  proof
    assume "(j, wr) \<in> checked w"
    then show ?thesis using assms(3) unfolding silenced_def same by blast
  qed (use silenced_valid [OF assms(2,3)] in blast)
qed

inductive quiet_step :: "world \<Rightarrow> world \<Rightarrow> bool" where
  call: "\<not> starts_output call \<Longrightarrow> quiet_step w (start_call e call w)"
| task: "woTasks w = xs @ t # ys \<Longrightarrow> run_task e t (w\<lparr>woTasks := xs @ ys\<rparr>) = Some w' \<Longrightarrow> quiet_step w w'"

lemma quiet_step_step: "quiet_step w w' \<Longrightarrow> coyote_step w w'"
  by (induction rule: quiet_step.induct) (auto intro: coyote_step.intros)

lemma waiting_gen: "world_inv w \<Longrightarrow> j \<in> waiting w \<Longrightarrow> jbGen j \<le> coGeneration (woCoy w)"
  by (auto simp: waiting_def world_inv_def safe_def job_ok_def)

lemma silenced_call:
  assumes "world_inv w" "silenced w0 w" "\<not> starts_output call"
  shows "silenced w0 (start_call e call w)"
proof -
  let ?w = "start_call e call w"
  have "silent_job j" if j: "j \<in> waiting ?w" "jbGen j = coGeneration (woCoy ?w)" for j
  proof (cases "j \<in> waiting w")
    case True
    then have "jbGen j = coGeneration (woCoy w)"
      using waiting_gen [OF assms(1) True] gen_call [of w e call] j(2) by simp
    with True assms(2) show ?thesis by (simp add: silenced_def)
  next
    case False
    then obtain d l p g tick rd where jp: "j = packetJob l p g True"
      and eq: "paceOnce tick (evNow e) rd (woCoy w) = (d, Some (l, g, p))"
      using waiting_call [OF j(1)] by auto
    have "quiet (woCoy w)" using assms(2) by (simp add: silenced_def)
    from quiet_pace [OF eq this] have "pkFrames p = silentFrames" by blast
    then show ?thesis by (simp add: jp packetJob_def silent_job_def)
  qed
  then show ?thesis
    using quiet_call [of w call e] assms(2,3) by (simp add: silenced_def checked_call wire_call)
qed

lemma silenced_task:
  assumes "world_inv w" "silenced w0 w" "woTasks w = xs @ t # ys" "run_task e t (w\<lparr>woTasks := xs @ ys\<rparr>) = Some w'"
  shows "silenced w0 w'"
proof -
  have sub: "waiting w' \<subseteq> waiting w"
    using waiting_task [OF assms(4)] waiting_split [OF assms(3)] by blast
  have gen: "coGeneration (woCoy w) \<le> coGeneration (woCoy w')" using gen_task [OF assms(4)] by simp
  have "jbGen j = coGeneration (woCoy w)" if "j \<in> waiting w'" "jbGen j = coGeneration (woCoy w')" for j
    using waiting_gen [OF assms(1)] sub gen that by fastforce
  moreover have "quiet (woCoy w')" using quiet_task [OF assms(4)] assms(2) by (simp add: silenced_def)
  moreover have "\<forall>(j, wr) \<in> checked w'. silent_job j \<or> woWire w' = woWire w0 \<and> (j, wr) \<in> checked w0"
    using silenced_checked [OF coyote_step.task [OF assms(3,4)] assms(1,2)] by blast
  ultimately show ?thesis using assms(2) sub unfolding silenced_def by blast
qed

lemma silenced_steps: "quiet_step\<^sup>*\<^sup>* w w' \<Longrightarrow> world_inv w \<Longrightarrow> silenced w0 w \<Longrightarrow> world_inv w' \<and> silenced w0 w'"
proof (induction rule: rtranclp_induct)
  case (step v w')
  then have "world_inv v" "silenced w0 v" by simp_all
  moreover have "world_inv w'" using world_inv_step [OF quiet_step_step] step(2) \<open>world_inv v\<close> by blast
  moreover have "silenced w0 w'"
    using step(2) \<open>world_inv v\<close> \<open>silenced w0 v\<close>
    by (cases rule: quiet_step.cases) (auto intro: silenced_call silenced_task)
  ultimately show ?case by simp
qed simp

text \<open>After a new generation with nothing playing, every waiting packet is stale.\<close>

lemma silenced_start:
  assumes "world_inv w" "waiting w' \<subseteq> waiting w" "coGeneration (woCoy w) < coGeneration (woCoy w')" "quiet (woCoy w')"
    and "checked w' = checked w" "woWire w' = woWire w"
  shows "silenced w w'"
  using assms waiting_gen [OF assms(1)] unfolding silenced_def by fastforce

section \<open>Driving the owner through a schedule\<close>

text \<open>A schedule names the calls and, by position, the waiting goroutine that runs next.\<close>

datatype move = DoCall env coyote_call | DoTask env nat

definition make_move :: "move \<Rightarrow> world \<Rightarrow> world option" where
  "make_move m w =
     (case m of
        DoCall e call \<Rightarrow> Some (start_call e call w)
      | DoTask e i \<Rightarrow>
          if i < length (woTasks w)
          then run_task e (woTasks w ! i) (w\<lparr>woTasks := take i (woTasks w) @ drop (Suc i) (woTasks w)\<rparr>)
          else None)"

fun drive :: "move list \<Rightarrow> world \<Rightarrow> world option" where
  "drive [] w = Some w"
| "drive (m # ms) w = Option.bind (make_move m w) (drive ms)"

fun quiet_move :: "move \<Rightarrow> bool" where
  "quiet_move (DoCall e call) = (\<not> starts_output call)"
| "quiet_move (DoTask e i) = True"

lemma make_move_step: "make_move m w = Some w' \<Longrightarrow> coyote_step w w'"
  by (auto simp: make_move_def id_take_nth_drop [symmetric] split: move.splits if_splits
      intro: coyote_step.intros coyote_step.task [OF id_take_nth_drop])

lemma make_move_quiet: "make_move m w = Some w' \<Longrightarrow> quiet_move m \<Longrightarrow> quiet_step w w'"
  by (cases m) (auto simp: make_move_def split: if_splits
      intro: quiet_step.intros quiet_step.task [OF id_take_nth_drop])

lemma drive_steps: "drive ms w = Some w' \<Longrightarrow> coyote_step\<^sup>*\<^sup>* w w'"
  by (induction ms arbitrary: w)
     (auto simp: Option.bind_eq_Some_conv intro: converse_rtranclp_into_rtranclp make_move_step)

lemma drive_quiet: "drive ms w = Some w' \<Longrightarrow> list_all quiet_move ms \<Longrightarrow> quiet_step\<^sup>*\<^sup>* w w'"
  by (induction ms arbitrary: w)
     (auto simp: Option.bind_eq_Some_conv intro: converse_rtranclp_into_rtranclp make_move_quiet)

definition plainEnv :: env where
  "plainEnv = \<lparr>evNow = 5, evErr = None, evUnacknowledged = False, evCancelled = False,
     evDevice = \<lparr>diName = ''c'', diAddress = ''a'', diUnacknowledged = False\<rparr>, evBattery = None\<rparr>"

definition sampleConfig :: coyote_config where
  "sampleConfig = \<lparr>ccLimits = \<lparr>liStrengthA = 100, liStrengthB = 80, liFrequencyBalanceA = 160,
     liFrequencyBalanceB = 160, liIntensityBalanceA = 0, liIntensityBalanceB = 0\<rparr>,
     ccOffsetMillis = 0, ccRemembered = []\<rparr>"

definition loudFrame :: frame where
  "loudFrame = \<lparr>frA = \<lparr>cfPeriodMillis = 20, cfIntensity = 70\<rparr>, frB = \<lparr>cfPeriodMillis = 20, cfIntensity = 50\<rparr>\<rparr>"

definition loudRender :: render_result where
  "loudRender = \<lparr>rdFrames = replicate 4 loudFrame, rdRanOut = False, rdPruneBefore = 0\<rparr>"

text \<open>Configure, connect, write the limits and the zero, and take the device's report.\<close>

definition connectMoves :: "move list" where
  "connectMoves = [DoCall plainEnv (CallConfigure sampleConfig), DoCall plainEnv (CallConnect True ''x'')] @
     replicate 12 (DoTask plainEnv 0) @ [DoCall plainEnv (CallEvent 0 (EvNotification [0xB1, 1, 0, 0]))]"

definition playMoves :: "move list" where
  "playMoves = connectMoves @
     [DoCall plainEnv (CallAppendPoints None False ''s'' [\<lparr>ptTimeMillis = 0, ptPosition = Some 0\<rparr>]),
      DoCall plainEnv (CallPlay None False ''s'' 0 0), DoCall plainEnv (CallPace 100000000 loudRender)]"

definition driven :: "move list \<Rightarrow> world" where
  "driven ms = the (drive ms newWorld)"

lemma driven_steps: "drive ms newWorld \<noteq> None \<Longrightarrow> coyote_step\<^sup>*\<^sup>* newWorld (driven ms)"
  using drive_steps by (auto simp: driven_def)

section \<open>Properties\<close>

text \<open>The first step of a Stop that was accepted: the transport's \<open>Stop\<close> or the global emergency.\<close>

definition stopped_from :: "world \<Rightarrow> world \<Rightarrow> bool" where
  "stopped_from w w1 \<longleftrightarrow> w1 = call_BeginEmergencyStop w \<or>
     (\<exists>sess fault. w1 = call_Stop sess fault w \<and> isOk (snd (stop_begin sess (woCoy w))))"

lemma stopped_silenced:
  assumes inv: "world_inv w" and st: "stopped_from w w1"
  shows "world_inv w1 \<and> silenced w w1"
proof -
  obtain call where c: "w1 = start_call plainEnv call w" "call = CallBeginEmergencyStop \<or> (\<exists>s f. call = CallStop s f)"
    using st by (auto simp: stopped_from_def) (metis start_call.simps(8), metis start_call.simps(11))
  have "waiting w1 \<subseteq> waiting w"
    using waiting_call [of _ plainEnv call w] c st
    by (auto simp: stopped_from_def waiting_def call_BeginEmergencyStop_def call_Stop_def packetJob_def
        split: prod.splits sum.splits option.splits if_splits)
  moreover have "coGeneration (woCoy w) < coGeneration (woCoy w1)" "quiet (woCoy w1)"
    using st by (auto simp: stopped_from_def call_BeginEmergencyStop_def call_Stop_def stop_begin_def
        emergency_begin_def quiet_def
        split: prod.splits sum.splits option.splits if_splits)
  moreover have "checked w1 = checked w" "woWire w1 = woWire w"
    by (simp_all add: c(1) checked_call wire_call)
  ultimately have "silenced w w1" by (rule silenced_start [OF inv])
  moreover have "world_inv w1" using world_inv_step [OF coyote_step.call] inv c(1) by blast
  ultimately show ?thesis by simp
qed

text \<open>
  Property C1.  Stop is final until the user starts output again.  From the first critical section of
  an accepted Stop or of the global emergency stop on, under every interleaving of the pacer,
  connects, settings, strength steps, device events and packets already composed, every packet that
  is handed to the link carries only silent frames, as long as nobody calls \<open>Play\<close> or tests a channel.
  The one exception is the packet, if any, that had already passed its check and held \<open>writeMu\<close> when
  the Stop came: it may still reach the link, once, before anything else does, so also before the
  Stop's own packet.  A packet that was composed but not yet checked is not excepted.
\<close>

theorem coyote_stop_silences:
  assumes "coyote_step\<^sup>*\<^sup>* newWorld w" and "stopped_from w w1" and "quiet_step\<^sup>*\<^sup>* w1 v"
    and "quiet_step v v'" and "woWire v' = woWire v @ [j]" and "jbPayload j = PacketPayload p"
  shows "pkFrames p = replicate 4 SilentFrame \<or>
    (woWire v = woWire w \<and> woBusy w \<and> (\<exists>wr. TChecked j wr \<in> set (woTasks w)))"
proof -
  have inv: "world_inv w" using owner.reachable_inv [OF refl assms(1)] .
  then have "silenced w v" using silenced_steps [OF assms(3)] stopped_silenced [OF _ assms(2)] by simp
  moreover obtain wr where "(j, wr) \<in> checked v"
    using step_wire [OF quiet_step_step [OF assms(4)] assms(5)] by (auto simp: checked_def)
  ultimately have "silent_job j \<or> woWire v = woWire w \<and> (j, wr) \<in> checked w" by (auto simp: silenced_def)
  moreover have "woBusy w" if "TChecked j wr \<in> set (woTasks w)"
    using tally_member [OF that, of busy_weight] inv by (simp add: world_inv_def counts_def split: if_splits)
  ultimately show ?thesis
    using assms(6) by (auto simp: silent_job_def checked_def silentFrames_def FramesPerPacket_def)
qed

text \<open>The pacer's packet has passed its check when Stop comes; then a step up and another packet.\<close>

definition afterStopMoves :: "move list" where
  "afterStopMoves = [DoTask plainEnv 0, DoTask plainEnv 1, DoTask plainEnv 1] @
     replicate 5 (DoTask plainEnv 0) @ [DoCall plainEnv (CallAdjustStrength ChannelA 5),
     DoCall plainEnv (CallPace 100000000 loudRender), DoTask plainEnv 0]"

definition checkedWorld :: world where
  "checkedWorld = driven (playMoves @ [DoTask plainEnv 0])"

definition afterStopWorld :: world where
  "afterStopWorld = the (drive afterStopMoves (call_Stop None False checkedWorld))"

lemma coyote_stop_silences_witness:
  "woTasks checkedWorld \<noteq> [] \<and>
   pkFrames (case jbPayload (last (woWire (the (make_move (DoTask plainEnv 0) afterStopWorld))))
     of PacketPayload p \<Rightarrow> p) = replicate 4 SilentFrame"
proof -
  let ?w = checkedWorld and ?v = afterStopWorld
  let ?w1 = "call_Stop None False ?w"
  let ?v' = "the (make_move (DoTask plainEnv 0) ?v)"
  let ?j = "last (woWire ?v')"
  let ?p = "case jbPayload ?j of PacketPayload p \<Rightarrow> p"
  have 1: "coyote_step\<^sup>*\<^sup>* newWorld ?w" unfolding checkedWorld_def by (rule driven_steps) code_simp
  have "isOk (snd (stop_begin None (woCoy ?w)))" by code_simp
  then have 2: "stopped_from ?w ?w1" by (auto simp: stopped_from_def)
  have "drive afterStopMoves ?w1 \<noteq> None" by code_simp
  then have d: "drive afterStopMoves ?w1 = Some ?v" by (simp add: afterStopWorld_def)
  have 3: "quiet_step\<^sup>*\<^sup>* ?w1 ?v" by (rule drive_quiet [OF d]) (simp add: afterStopMoves_def list_all_iff)
  have m: "make_move (DoTask plainEnv 0) ?v = Some ?v'" by code_simp
  have 4: "quiet_step ?v ?v'" by (rule make_move_quiet [OF m]) simp
  have 5: "woWire ?v' = woWire ?v @ [?j]" by code_simp
  have 6: "jbPayload ?j = PacketPayload ?p" by code_simp
  have "woWire ?v \<noteq> woWire ?w" "woTasks ?w \<noteq> []" by code_simp+
  then show ?thesis using coyote_stop_silences [OF 1 2 3 4 5 6] by blast
qed

text \<open>
  Property C2.  The fence.  In every run, a packet of the pacer never follows on the wire a packet
  that was composed in a later generation; so nothing composed before a Stop, a zero, a reconnect or
  a change of ceilings can come after the Stop's or the zero's own packet, although a Stop may come
  between the check of a packet and its hand-over.  And once the generation has passed it, a waiting
  packet is refused for ever, whatever happens in between: its check ends the write with
  \<open>errCoyoteSuperseded\<close> and never calls the link.
\<close>

theorem coyote_wire_fenced:
  assumes "coyote_step\<^sup>*\<^sup>* newWorld w"
  shows "(\<forall>i k. i < k \<and> k < length (woWire w) \<and> jbGuarded (woWire w ! k) \<longrightarrow>
            jbGen (woWire w ! i) \<le> jbGen (woWire w ! k)) \<and>
    (\<forall>j wr v v'. jbGuarded j \<and> jbGen j < coGeneration (woCoy w) \<and> coyote_step\<^sup>*\<^sup>* w v \<and>
            run_Write j wr v = Some v' \<longrightarrow>
          v' = withCoy (woCoy v) [TReturn j wr (Some Superseded)] v)"
proof -
  have inv: "world_inv w" using owner.reachable_inv [OF refl assms] .
  then have "fenced (woWire w)" by (simp add: world_inv_def safe_def)
  moreover have "v' = withCoy (woCoy v) [TReturn j wr (Some Superseded)] v"
    if "jbGuarded j" "jbGen j < coGeneration (woCoy w)" "coyote_step\<^sup>*\<^sup>* w v" "run_Write j wr v = Some v'"
    for j wr v v'
    using owner.stale_forever [OF that(3) inv that(2)] that(1,4)
    by (auto simp: run_Write_def write_valid_def split: if_splits)
  ultimately show ?thesis by (auto simp: fenced_def sorted_wrt_iff_nth_less)
qed

definition overtakeMoves :: "move list" where
  "overtakeMoves = playMoves @ [DoCall plainEnv (CallStop None False), DoTask plainEnv 1, DoTask plainEnv 1]"

definition overtakenWorld :: world where
  "overtakenWorld = driven (overtakeMoves @ [DoTask plainEnv 1])"

definition overtakenJob :: job where
  "overtakenJob = (case woTasks overtakenWorld ! 0 of TWrite j wr \<Rightarrow> j)"

lemma coyote_wire_fenced_witness:
  "length (woWire overtakenWorld) = 3 \<and> jbGuarded overtakenJob \<and>
   run_Write overtakenJob WPace overtakenWorld \<noteq> None \<and>
   woWire (the (run_Write overtakenJob WPace overtakenWorld)) = woWire overtakenWorld \<and>
   last (woTasks (the (run_Write overtakenJob WPace overtakenWorld))) = TReturn overtakenJob WPace (Some Superseded)"
proof -
  have 1: "coyote_step\<^sup>*\<^sup>* newWorld overtakenWorld"
    unfolding overtakenWorld_def by (rule driven_steps) code_simp
  have 2: "length (woWire overtakenWorld) = 3" "jbGuarded overtakenJob"
    "run_Write overtakenJob WPace overtakenWorld \<noteq> None"
    "jbGen overtakenJob < coGeneration (woCoy overtakenWorld)"
    by code_simp+
  then obtain v' where v: "run_Write overtakenJob WPace overtakenWorld = Some v'" by blast
  have "v' = withCoy (woCoy overtakenWorld) [TReturn overtakenJob WPace (Some Superseded)] overtakenWorld"
    using conjunct2 [OF coyote_wire_fenced [OF 1]] 2(2,4) v by blast
  then show ?thesis using 2 v by simp
qed

text \<open>
  The past of a checked job: it was checked in some earlier state, and since then nothing else was
  handed to the link.
\<close>

definition checked_past :: "job \<Rightarrow> world \<Rightarrow> bool" where
  "checked_past j w \<longleftrightarrow> (\<exists>u u' wr. coyote_step\<^sup>*\<^sup>* newWorld u \<and> coyote_step u u' \<and> coyote_step\<^sup>*\<^sup>* u' w \<and>
     TWrite j wr \<in> set (woTasks u) \<and> TChecked j wr \<in> set (woTasks u') \<and> woWire u = woWire w \<and>
     write_valid (jbLink j) (if jbGuarded j then Some (jbGen j) else None) (woCoy u))"

lemma checked_has_past: "coyote_step\<^sup>*\<^sup>* newWorld w \<Longrightarrow> (j, wr) \<in> checked w \<Longrightarrow> checked_past j w"
proof (induction arbitrary: wr rule: rtranclp_induct)
  case base
  then show ?case by (simp add: checked_def newWorld_def)
next
  case (step w w')
  have "world_inv w" using owner.reachable_inv [OF refl step(1)] .
  note s = checked_step [OF step(2) this step(4)]
  show ?case
  proof (cases "(j, wr) \<in> checked w")
    case True
    from step(3) [OF this] show ?thesis
      using s step(2) unfolding checked_past_def by (metis rtranclp.rtrancl_into_rtrancl)
  next
    case False
    then have "TWrite j wr \<in> set (woTasks w) \<and> woWire w = woWire w' \<and>
        write_valid (jbLink j) (if jbGuarded j then Some (jbGen j) else None) (woCoy w)" using s by simp
    moreover have "TChecked j wr \<in> set (woTasks w')" using step(4) by (simp add: checked_def)
    ultimately show ?thesis
      using step(1,2) unfolding checked_past_def by (intro exI [of _ w] exI [of _ w'] exI [of _ wr]) simp
  qed
qed

text \<open>
  Property C3.  Nothing raises strength behind a zero.  In every run, a packet with an increase on
  either channel that is handed to the link is a packet of the pacer; when its check ran, it belonged
  to the current generation and no zero was requested or in flight; and since that check nothing
  else was handed to the link.  So a Stop, a zero, a reconnect or a ceiling change can come at most
  between that check and the hand-over, and then the older packet lands first, as the comment of
  \<open>zero\<close> says: nothing of a later generation, the zero's packet included, is on the wire before it.
  If the generation is still current at the hand-over, no zero is requested or in flight there either.
\<close>

theorem coyote_no_raise_behind_zero:
  assumes "coyote_step\<^sup>*\<^sup>* newWorld w" and "coyote_step w w'" and "woWire w' = woWire w @ [j]"
    and "jbPayload j = PacketPayload p" and "raising p"
  shows "jbGuarded j \<and> (\<forall>i \<in> set (woWire w). jbGen i \<le> jbGen j) \<and>
    (jbGen j = coGeneration (woCoy w') \<longrightarrow> \<not> zero_inflight (coStrength (woCoy w'))) \<and>
    (\<exists>u u' wr. coyote_step\<^sup>*\<^sup>* newWorld u \<and> coyote_step u u' \<and> coyote_step\<^sup>*\<^sup>* u' w \<and>
       TWrite j wr \<in> set (woTasks u) \<and> TChecked j wr \<in> set (woTasks u') \<and> woWire u = woWire w \<and>
       coLink (woCoy u) = Some (jbLink j) \<and> jbGen j = coGeneration (woCoy u) \<and>
       \<not> zero_inflight (coStrength (woCoy u)))"
proof -
  obtain wr where t: "TChecked j wr \<in> set (woTasks w)" and same: "woCoy w' = woCoy w"
    using step_wire [OF assms(2,3)] by blast
  have "world_inv w" using owner.reachable_inv [OF refl assms(1)] .
  then have ok: "task_ok w (TChecked j wr)" using t unfolding world_inv_def safe_def by auto
  then have pacer: "jbGuarded j" "jbGen j = coGeneration (woCoy w) \<Longrightarrow> \<not> zero_inflight (coStrength (woCoy w))"
    using assms(4,5) by (cases wr; auto simp: job_ok_def)+
  have "checked_past j w" using checked_has_past [OF assms(1)] t by (auto simp: checked_def)
  then obtain u u' wu where u: "coyote_step\<^sup>*\<^sup>* newWorld u" "coyote_step u u'" "coyote_step\<^sup>*\<^sup>* u' w"
    "TWrite j wu \<in> set (woTasks u)" "TChecked j wu \<in> set (woTasks u')" "woWire u = woWire w"
    "write_valid (jbLink j) (Some (jbGen j)) (woCoy u)"
    unfolding checked_past_def using pacer(1) by auto
  have "world_inv u" using owner.reachable_inv [OF refl u(1)] .
  then have "task_ok u (TWrite j wu)" using u(4) unfolding world_inv_def safe_def by auto
  then have job: "job_ok (woCoy u) j wu" by simp
  have gen: "jbGen j = coGeneration (woCoy u)" "coLink (woCoy u) = Some (jbLink j)"
    using u(7) by (simp_all add: write_valid_def)
  have "\<not> zero_inflight (coStrength (woCoy u))"
    using job gen assms(4,5) pacer(1) by (cases wu) (auto simp: job_ok_def)
  with u gen have "\<exists>u u' wr. coyote_step\<^sup>*\<^sup>* newWorld u \<and> coyote_step u u' \<and> coyote_step\<^sup>*\<^sup>* u' w \<and>
       TWrite j wr \<in> set (woTasks u) \<and> TChecked j wr \<in> set (woTasks u') \<and> woWire u = woWire w \<and>
       coLink (woCoy u) = Some (jbLink j) \<and> jbGen j = coGeneration (woCoy u) \<and>
       \<not> zero_inflight (coStrength (woCoy u))" by blast
  then show ?thesis using ok pacer same by simp
qed

text \<open>A step up whose packet has passed its check when a zero begins.\<close>

definition raiseMoves :: "move list" where
  "raiseMoves = connectMoves @ [DoCall plainEnv (CallAdjustStrength ChannelA 5),
     DoCall plainEnv (CallPace 100000000 loudRender), DoTask plainEnv 0,
     DoCall plainEnv CallEmergencyZero, DoTask plainEnv 1]"

definition raisedWorld :: world where
  "raisedWorld = driven (raiseMoves @ [DoTask plainEnv 0])"

lemma coyote_no_raise_behind_zero_witness:
  "zero_inflight (coStrength (woCoy raisedWorld)) \<and> coGeneration (woCoy raisedWorld) = 4 \<and>
   (\<exists>u. coyote_step\<^sup>*\<^sup>* newWorld u \<and> coGeneration (woCoy u) = 3 \<and> \<not> zero_inflight (coStrength (woCoy u)) \<and>
      woWire u = woWire (driven raiseMoves))"
proof -
  let ?w = "driven raiseMoves" and ?w' = raisedWorld
  let ?j = "last (woWire ?w')"
  let ?p = "case jbPayload ?j of PacketPayload p \<Rightarrow> p"
  have 1: "coyote_step\<^sup>*\<^sup>* newWorld ?w" by (rule driven_steps) code_simp
  have "make_move (DoTask plainEnv 0) ?w = Some ?w'" by code_simp
  then have 2: "coyote_step ?w ?w'" by (rule make_move_step)
  have 3: "woWire ?w' = woWire ?w @ [?j]" by code_simp
  have 4: "jbPayload ?j = PacketPayload ?p" by code_simp
  have 5: "raising ?p" by code_simp
  have "jbGen ?j = 3" "coGeneration (woCoy ?w') = 4" "zero_inflight (coStrength (woCoy ?w'))" by code_simp+
  with coyote_no_raise_behind_zero [OF 1 2 3 4 5] show ?thesis by metis
qed

text \<open>
  Property C23.  The ceilings agree.  In every run, whenever the owner says that its limits are
  applied, it is connected, the last limits packet handed to that very link is the configured one,
  and the strength handshake enforces the same ceilings; and motion is admitted, and a step up
  queued, only then.
\<close>

theorem coyote_limits_agree:
  assumes "coyote_step\<^sup>*\<^sup>* newWorld w"
  shows "(coLimitsApplied (woCoy w) \<longrightarrow>
      (\<exists>l. coLink (woCoy w) = Some l \<and>
           lastLimits l (woWire w) = Some (ccLimits (coConfig (woCoy w))) \<and>
           coAppliedLimits (woCoy w) = ccLimits (coConfig (woCoy w)))) \<and>
    scCeiling (coStrength (woCoy w)) = ceilings_of (coConfig (woCoy w)) \<and>
    (playbackReadyLocked (woCoy w) \<longrightarrow> coLimitsApplied (woCoy w)) \<and>
    (0 < d \<and> snd (adjustStrengthLocked x g ch d (woCoy w)) = None \<longrightarrow> coLimitsApplied (woCoy w))"
proof -
  have "world_inv w" using owner.reachable_inv [OF refl assms] .
  then have s: "coyote_inv (woCoy w)"
    "\<And>l. coLimitsApplied (woCoy w) \<Longrightarrow> coLink (woCoy w) = Some l \<Longrightarrow>
       lastLimits l (woWire w) = Some (ccLimits (coConfig (woCoy w)))"
    by (simp_all add: world_inv_def safe_def)
  moreover have "coLimitsApplied (woCoy w)" if "0 < d" "snd (adjustStrengthLocked x g ch d (woCoy w)) = None"
    using that by (auto simp: adjustStrengthLocked_def split: if_splits)
  ultimately show ?thesis
    by (auto simp: coyote_inv_def playbackReadyLocked_def)
qed

lemma coyote_limits_agree_witness:
  "lastLimits 0 (woWire (driven playMoves)) = Some (ccLimits (coConfig (woCoy (driven playMoves))))"
proof -
  have "coyote_step\<^sup>*\<^sup>* newWorld (driven playMoves)" by (rule driven_steps) code_simp
  moreover have "coLimitsApplied (woCoy (driven playMoves))" "coLink (woCoy (driven playMoves)) = Some 0" by code_simp+
  ultimately show ?thesis using coyote_limits_agree [of "driven playMoves" 0 False 0 0] by auto
qed

text \<open>
  Admission is closed while a zero is being written or an emergency stop is under way.
  In every run the two counters count exactly the goroutines concerned, so while one of them is
  anywhere between its first and its last critical section the pacer composes nothing, \<open>Play\<close> and the
  channel test start nothing, and no step up is queued.
\<close>

theorem coyote_closed_during_zero:
  assumes "coyote_step\<^sup>*\<^sup>* newWorld w" and "t \<in> set (woTasks w)" and "zero_weight t = 1 \<or> hold_weight t = 1"
  shows "paceOnce tick now rd (woCoy w) = (woCoy w, None) \<and>
    snd (play sess x i m start now (woCoy w)) \<noteq> None \<and>
    coStream (fst (play sess x i m start now (woCoy w))) = coStream (woCoy w) \<and>
    snd (startReferenceLocked x g ch (woCoy w)) \<noteq> None \<and>
    (0 < d \<longrightarrow> snd (adjustStrengthLocked x g ch d (woCoy w)) \<noteq> None \<and>
       coStrength (fst (adjustStrengthLocked x g ch d (woCoy w))) = coStrength (woCoy w))"
proof -
  have "world_inv w" using owner.reachable_inv [OF refl assms(1)] .
  then have c: "coZeroWrites (woCoy w) = int (tally zero_weight (woTasks w))"
    "coStopHolds (woCoy w) = int (tally hold_weight (woTasks w))"
    by (simp_all add: world_inv_def counts_def)
  have closed: "coZeroWrites (woCoy w) \<noteq> 0 \<or> coStopHolds (woCoy w) \<noteq> 0"
    using assms(3) tally_member [OF assms(2), of zero_weight] tally_member [OF assms(2), of hold_weight] c by auto
  then have "paceOnce tick now rd (woCoy w) = (woCoy w, None)"
    by (auto simp: paceOnce_def split: option.split)
  moreover have "snd (play sess x i m start now (woCoy w)) \<noteq> None \<and>
      coStream (fst (play sess x i m start now (woCoy w))) = coStream (woCoy w)"
    using closed by (auto simp: play_def playbackReadyLocked_def recordLocked_def split: option.split)
  ultimately show ?thesis
    using closed by (auto simp: startReferenceLocked_def adjustStrengthLocked_def)
qed

lemma coyote_closed_during_zero_witness:
  "paceOnce 100000000 9 loudRender (woCoy (driven (playMoves @ [DoCall plainEnv CallBeginEmergencyStop]))) =
     (woCoy (driven (playMoves @ [DoCall plainEnv CallBeginEmergencyStop])), None)"
proof -
  let ?w = "driven (playMoves @ [DoCall plainEnv CallBeginEmergencyStop])"
  have 1: "coyote_step\<^sup>*\<^sup>* newWorld ?w" by (rule driven_steps) code_simp
  have 2: "woTasks ?w ! 1 = TEmergency" "1 < length (woTasks ?w)" by code_simp+
  have "TEmergency \<in> set (woTasks ?w)" using 2 nth_mem [of 1 "woTasks ?w"] by simp
  from coyote_closed_during_zero [OF 1 this] show ?thesis by simp
qed

end
