(* ===== verification/ControllerLease.thy ===== *)
theory ControllerLease
  imports Prelude
begin

text \<open>
  Who may control the device: \<open>controllerRuntime\<close> of \<open>internal/httpapi/controller_state.go\<close>,
  with the command tickets of \<open>controller_tickets.go\<close>, the phone's renewal of
  \<open>controller_remote.go\<close> and the request bindings of \<open>controller_request.go\<close>.  Every method runs
  under one mutex, so each is one function on the record; the clock and the random text of a
  ticket are arguments.  \<open>lease_exec\<close> is one call, and the properties are about all runs of calls.

  A context is modelled by whether it is live: \<open>crOwnerCtx\<close> is \<open>None\<close> for \<open>nil\<close>.  A bound
  request is its number in \<open>requests\<close>; \<open>crCancelled\<close> records the cancel functions called, with
  their cause.
\<close>

section \<open>State\<close>

definition controllerLeaseTTL :: duration where "controllerLeaseTTL = 15 * 1000000000"
definition commandTicketLifetime :: duration where "commandTicketLifetime = 10 * 1000000000"
definition maxTickets :: nat where "maxTickets = 8"

record identity =
  idClient :: string
  idSession :: string
  idGrant :: string
  idGrantExpires :: time

definition noIdentity :: identity where
  "noIdentity = \<lparr>idClient = [], idSession = [], idGrant = [], idGrantExpires = zero_time\<rparr>"

datatype cancel_cause = ControlChanged | EmergencyStop | OtherCause string

type_synonym ticket = "string \<times> time"

record controller =
  crLeaseTTL :: duration
  crActive :: identity
  crPending :: identity
  crActiveSince :: time
  crLastSeenAt :: time
  crRemoteSeenAt :: time
  crGeneration :: nat
  crRevision :: nat
  crEpoch :: string
  crStopping :: bool
  crLossGeneration :: nat
  crLossGrant :: string
  crOwnerCtx :: "bool option" \<comment> \<open>whether the owner's context is live\<close>
  crRequests :: "nat list"
  crRequestID :: nat
  crTickets :: "ticket list"
  crCancelled :: "(nat \<times> cancel_cause) list"

record controller_snapshot =
  snRevision :: nat
  snClient :: string
  snActive :: bool
  snReason :: string
  snActiveClient :: string
  snAgeMillis :: int
  snLeaseMillis :: int
  snTakeover :: bool
  snGeneration :: nat
  snEpoch :: string
  snHeartbeatRequired :: bool
  snRemoteHeld :: bool
  snTicket :: string
  snTicketMillis :: int

definition newControllerRuntime :: "string \<Rightarrow> controller" where
  "newControllerRuntime epoch =
     \<lparr>crLeaseTTL = controllerLeaseTTL, crActive = noIdentity, crPending = noIdentity,
      crActiveSince = zero_time, crLastSeenAt = zero_time, crRemoteSeenAt = zero_time,
      crGeneration = 0, crRevision = 0, crEpoch = epoch, crStopping = False, crLossGeneration = 0,
      crLossGrant = [], crOwnerCtx = None, crRequests = [], crRequestID = 0, crTickets = [],
      crCancelled = []\<rparr>"

section \<open>Helpers under the lock\<close>

definition expiredLocked :: "time \<Rightarrow> controller \<Rightarrow> bool" where
  "expiredLocked now c \<longleftrightarrow> idClient (crActive c) \<noteq> [] \<and>
     (crLeaseTTL c < time_sub now (crLastSeenAt c) \<or>
      idGrantExpires (crActive c) \<noteq> zero_time \<and> \<not> now < idGrantExpires (crActive c))"

definition remoteHeldLocked :: "time \<Rightarrow> controller \<Rightarrow> bool" where
  "remoteHeldLocked now c \<longleftrightarrow>
     crRemoteSeenAt c \<noteq> zero_time \<and> time_sub now (crRemoteSeenAt c) \<le> crLeaseTTL c"

definition ownerLiveLocked :: "time \<Rightarrow> identity \<Rightarrow> controller \<Rightarrow> bool" where
  "ownerLiveLocked now owner c \<longleftrightarrow>
     idClient owner \<noteq> [] \<and> crActive c = owner \<and> \<not> crStopping c \<and> idClient (crPending c) = [] \<and>
     \<not> expiredLocked now c \<and> crOwnerCtx c = Some True"

definition issueCommandTicketLocked :: "time \<Rightarrow> string \<Rightarrow> controller \<Rightarrow> controller" where
  "issueCommandTicketLocked now fresh c =
     (if idSession (crActive c) = [] then c
      else if 0 < length (crTickets c) \<and>
              commandTicketLifetime - second < time_sub (snd (last (crTickets c))) now then c
      else let ts = (if maxTickets \<le> length (crTickets c) then tl (crTickets c) else crTickets c) in
        c\<lparr>crTickets := ts @ [(fresh, now + commandTicketLifetime)]\<rparr>)"

definition cancelRequestsLocked :: "cancel_cause \<Rightarrow> controller \<Rightarrow> controller" where
  "cancelRequestsLocked cause c =
     c\<lparr>crCancelled := crCancelled c @ map (\<lambda>r. (r, cause)) (crRequests c), crRequests := []\<rparr>"

definition cancelOwnerLocked :: "cancel_cause \<Rightarrow> controller \<Rightarrow> controller" where
  "cancelOwnerLocked cause c =
     (cancelRequestsLocked cause c)\<lparr>crOwnerCtx := map_option (\<lambda>live. False) (crOwnerCtx c)\<rparr>"

definition activateLocked :: "time \<Rightarrow> string \<Rightarrow> identity \<Rightarrow> controller \<Rightarrow> controller" where
  "activateLocked now fresh actor c =
     (let c1 = cancelOwnerLocked ControlChanged c in
      issueCommandTicketLocked now fresh
        (c1\<lparr>crActive := actor, crGeneration := Suc (crGeneration c1), crActiveSince := now,
            crLastSeenAt := now, crRemoteSeenAt := zero_time, crOwnerCtx := Some True, crTickets := []\<rparr>))"

definition clearOwnerLocked :: "controller \<Rightarrow> controller" where
  "clearOwnerLocked c =
     (let c1 = cancelOwnerLocked ControlChanged c in
      c1\<lparr>crActive := noIdentity, crActiveSince := zero_time, crLastSeenAt := zero_time,
         crRemoteSeenAt := zero_time, crGeneration := Suc (crGeneration c1)\<rparr>)"

text \<open>\<open>snapshotLocked\<close>: whether the actor is active, and the whole reply (it counts the revision).\<close>

definition activeLocked :: "time \<Rightarrow> identity \<Rightarrow> controller \<Rightarrow> bool" where
  "activeLocked now actor c \<longleftrightarrow>
     idClient actor \<noteq> [] \<and> crActive c = actor \<and> \<not> expiredLocked now c \<and> \<not> crStopping c \<and>
     idClient (crPending c) = [] \<and> crOwnerCtx c = Some True"

definition snapshotLocked :: "time \<Rightarrow> identity \<Rightarrow> controller \<Rightarrow> controller \<times> controller_snapshot" where
  "snapshotLocked now actor c =
     (let active = activeLocked now actor c;
          handoff = (crStopping c \<or> idClient (crPending c) \<noteq> []);
          reason = (if active then []
            else if handoff then ''controller handoff is stopping active work''
            else if idClient (crActive c) = [] \<or> expiredLocked now c
            then ''take control to establish a fresh controller lease''
            else if idClient actor = [] then ''missing controller client id''
            else ''another browser tab is the active controller'');
          since = (crActiveSince c \<noteq> zero_time);
          ticket = (active \<and> idSession actor \<noteq> [] \<and> 0 < length (crTickets c) \<and> now < snd (last (crTickets c))) in
      (c\<lparr>crRevision := Suc (crRevision c)\<rparr>,
       \<lparr>snRevision = Suc (crRevision c), snClient = idClient actor, snActive = active, snReason = reason,
        snActiveClient = idClient (crActive c),
        snAgeMillis = (if since then max 0 (to_millis (time_sub now (crActiveSince c))) else 0),
        snLeaseMillis = (if since
          then max 0 (to_millis (crLeaseTTL c) - to_millis (time_sub now (crLastSeenAt c))) else 0),
        snTakeover = handoff, snGeneration = crGeneration c, snEpoch = crEpoch c,
        snHeartbeatRequired = (idSession actor \<noteq> []),
        snRemoteHeld = (active \<and> remoteHeldLocked now c),
        snTicket = (if ticket then fst (last (crTickets c)) else []),
        snTicketMillis = (if ticket then to_millis (time_sub (snd (last (crTickets c))) now) else 0)\<rparr>))"

definition touchLocalLocked :: "time \<Rightarrow> string \<Rightarrow> identity \<Rightarrow> controller \<Rightarrow> controller" where
  "touchLocalLocked now fresh actor c =
     (if idClient actor = [] \<or> crStopping c \<or> idClient (crPending c) \<noteq> [] \<or> idSession (crActive c) \<noteq> [] then c
      else if idClient (crActive c) = [] \<or> expiredLocked now c then activateLocked now fresh actor c
      else if crActive c = actor then c\<lparr>crLastSeenAt := now\<rparr> else c)"

section \<open>Methods\<close>

definition Observe_lease :: "time \<Rightarrow> string \<Rightarrow> identity \<Rightarrow> controller \<Rightarrow> controller \<times> controller_snapshot" where
  "Observe_lease now fresh actor c =
     snapshotLocked now actor (if idSession actor = [] then touchLocalLocked now fresh actor c else c)"

definition Peek :: "time \<Rightarrow> identity \<Rightarrow> controller \<Rightarrow> controller \<times> controller_snapshot" where
  "Peek now actor c = snapshotLocked now actor c"

text \<open>\<open>heartbeatTransition\<close>: the state before the reply, and whether it claimed the lease.\<close>

definition heartbeatTransition :: "time \<Rightarrow> string \<Rightarrow> identity \<Rightarrow> nat \<Rightarrow> controller \<Rightarrow>
    controller \<times> controller_snapshot \<times> bool" where
  "heartbeatTransition now fresh actor generation c =
     (let reply = (\<lambda>c1 claimed. case snapshotLocked now actor c1 of (c2, s) \<Rightarrow> (c2, s, claimed)) in
      if idClient actor = [] \<or> crStopping c \<or> idClient (crPending c) \<noteq> [] \<or>
         idSession actor \<noteq> [] \<and> generation \<noteq> crGeneration c
      then reply c False
      else if idClient (crActive c) = [] \<and> crGeneration c = 0
      then reply (activateLocked now fresh actor c) True
      else if crActive c = actor \<and> \<not> expiredLocked now c
      then reply (issueCommandTicketLocked now fresh (c\<lparr>crLastSeenAt := now\<rparr>)) False
      else reply c False)"

datatype takeover_error = NoClientID | TakeoverInProgress | TakeoverNotPending

definition BeginTakeover :: "time \<Rightarrow> identity \<Rightarrow> controller \<Rightarrow>
    controller \<times> controller_snapshot \<times> (takeover_error + bool)" where
  "BeginTakeover now actor c =
     (let reply = (\<lambda>c1 r. case snapshotLocked now actor c1 of (c2, s) \<Rightarrow> (c2, s, r)) in
      if idClient actor = [] then reply c (Inl NoClientID)
      else if crStopping c \<or> idClient (crPending c) \<noteq> [] then reply c (Inl TakeoverInProgress)
      else if crActive c = actor \<and> \<not> expiredLocked now c then reply c (Inr False)
      else reply ((cancelOwnerLocked ControlChanged c)\<lparr>crPending := actor\<rparr>) (Inr True))"

definition CompleteTakeover :: "time \<Rightarrow> string \<Rightarrow> identity \<Rightarrow> controller \<Rightarrow>
    controller \<times> controller_snapshot \<times> takeover_error option" where
  "CompleteTakeover now fresh actor c =
     (let reply = (\<lambda>c1 r. case snapshotLocked now actor c1 of (c2, s) \<Rightarrow> (c2, s, r)) in
      if idClient actor = [] \<or> crPending c \<noteq> actor \<or> crStopping c then reply c (Some TakeoverNotPending)
      else reply ((activateLocked now fresh actor c)\<lparr>crPending := noIdentity\<rparr>) None)"

definition CancelTakeover :: "identity \<Rightarrow> controller \<Rightarrow> controller" where
  "CancelTakeover actor c =
     (if crPending c = actor then clearOwnerLocked (c\<lparr>crPending := noIdentity\<rparr>) else c)"

definition Authority :: "time \<Rightarrow> string \<Rightarrow> identity \<Rightarrow> controller \<Rightarrow>
    controller \<times> controller_snapshot \<times> bool option" where
  "Authority now fresh actor c =
     (case snapshotLocked now actor (if idSession actor = [] then touchLocalLocked now fresh actor c else c) of
        (c1, s) \<Rightarrow> (c1, s, if snActive s then crOwnerCtx c1 else None))"

definition BeginLoss :: "time \<Rightarrow> string \<Rightarrow> bool \<Rightarrow> controller \<Rightarrow> controller \<times> bool" where
  "BeginLoss now sessionKey expiredOnly c =
     (if crStopping c then (c, False)
      else let matches = (if expiredOnly then idSession (crActive c) \<noteq> [] \<and> expiredLocked now c
                 else sessionKey \<noteq> [] \<and> (idSession (crActive c) = sessionKey \<or> idSession (crPending c) = sessionKey)) in
        if \<not> matches then (c, False)
        else (clearOwnerLocked (c\<lparr>crStopping := True, crLossGeneration := crGeneration c,
                crLossGrant := idGrant (crActive c), crPending := noIdentity\<rparr>), True))"

definition BeginLocalLoss :: "controller \<Rightarrow> controller \<times> bool" where
  "BeginLocalLoss c =
     (if crStopping c \<or> idClient (crActive c) = [] \<or> idSession (crActive c) \<noteq> [] then (c, False)
      else (clearOwnerLocked (c\<lparr>crStopping := True, crLossGeneration := crGeneration c,
              crLossGrant := idGrant (crActive c), crPending := noIdentity\<rparr>), True))"

definition FinishLoss :: "controller \<Rightarrow> controller" where
  "FinishLoss c = c\<lparr>crStopping := False\<rparr>"

definition advanceStopGeneration :: "time \<Rightarrow> string \<Rightarrow> cancel_cause \<Rightarrow> controller \<Rightarrow> controller" where
  "advanceStopGeneration now fresh cause c =
     (if idSession (crActive c) = [] then cancelRequestsLocked cause c
      else let c1 = cancelOwnerLocked cause c in
        issueCommandTicketLocked now fresh
          (c1\<lparr>crGeneration := Suc (crGeneration c1), crOwnerCtx := Some True, crTickets := []\<rparr>))"

definition RemoteRenew :: "time \<Rightarrow> string \<Rightarrow> identity \<Rightarrow> controller \<Rightarrow> controller \<times> bool" where
  "RemoteRenew now fresh owner c =
     (if \<not> ownerLiveLocked now owner c then (c, False)
      else (issueCommandTicketLocked now fresh (c\<lparr>crLastSeenAt := now, crRemoteSeenAt := now\<rparr>), True))"

definition bindRequestCause :: "time \<Rightarrow> identity \<Rightarrow> controller \<Rightarrow> controller \<times> nat option" where
  "bindRequestCause now actor c =
     (case snapshotLocked now actor c of
        (c1, s) \<Rightarrow>
          if \<not> snActive s then (c1, None)
          else let r = Suc (crRequestID c1) in
            (c1\<lparr>crRequestID := r, crRequests := crRequests c1 @ [r]\<rparr>, Some r))"

text \<open>The detach function a binding returns: whether the request was still registered.\<close>

definition detachRequest :: "nat \<Rightarrow> controller \<Rightarrow> controller \<times> bool" where
  "detachRequest r c = (c\<lparr>crRequests := removeAll r (crRequests c)\<rparr>, r \<in> set (crRequests c))"

text \<open>\<open>admitCommand\<close>: whether the callback \<open>admit\<close> is reached.\<close>

definition admitCommand :: "time \<Rightarrow> identity \<Rightarrow> nat \<Rightarrow> string \<Rightarrow> controller \<Rightarrow> controller \<times> bool" where
  "admitCommand now actor generation v c =
     (case snapshotLocked now actor c of
        (c1, s) \<Rightarrow> (c1, snActive s \<and> generation = crGeneration c1 \<and>
          list_ex (\<lambda>(t, expires). v = t \<and> now < expires) (crTickets c1)))"

section \<open>Calls\<close>

datatype lease_op =
    OpObserve identity
  | OpPeek identity
  | OpHeartbeat identity nat
  | OpBeginTakeover identity
  | OpCompleteTakeover identity
  | OpCancelTakeover identity
  | OpAuthority identity
  | OpBeginLoss string bool
  | OpBeginLocalLoss
  | OpFinishLoss
  | OpStop cancel_cause
  | OpRemoteRenew identity
  | OpBind identity
  | OpDetach nat
  | OpAdmit identity nat string

fun lease_exec :: "time \<Rightarrow> string \<Rightarrow> lease_op \<Rightarrow> controller \<Rightarrow> controller" where
  "lease_exec now fresh (OpObserve a) c = fst (Observe_lease now fresh a c)"
| "lease_exec now fresh (OpPeek a) c = fst (Peek now a c)"
| "lease_exec now fresh (OpHeartbeat a g) c = fst (heartbeatTransition now fresh a g c)"
| "lease_exec now fresh (OpBeginTakeover a) c = fst (BeginTakeover now a c)"
| "lease_exec now fresh (OpCompleteTakeover a) c = fst (CompleteTakeover now fresh a c)"
| "lease_exec now fresh (OpCancelTakeover a) c = CancelTakeover a c"
| "lease_exec now fresh (OpAuthority a) c = fst (Authority now fresh a c)"
| "lease_exec now fresh (OpBeginLoss k e) c = fst (BeginLoss now k e c)"
| "lease_exec now fresh OpBeginLocalLoss c = fst (BeginLocalLoss c)"
| "lease_exec now fresh OpFinishLoss c = FinishLoss c"
| "lease_exec now fresh (OpStop cause) c = advanceStopGeneration now fresh cause c"
| "lease_exec now fresh (OpRemoteRenew a) c = fst (RemoteRenew now fresh a c)"
| "lease_exec now fresh (OpBind a) c = fst (bindRequestCause now a c)"
| "lease_exec now fresh (OpDetach r) c = fst (detachRequest r c)"
| "lease_exec now fresh (OpAdmit a g v) c = fst (admitCommand now a g v c)"

text \<open>A run of calls, each with the clock and the random text it reads.\<close>

type_synonym lease_call = "time \<times> string \<times> lease_op"

fun lease_run :: "lease_call list \<Rightarrow> controller \<Rightarrow> controller" where
  "lease_run [] c = c"
| "lease_run ((now, fresh, x) # xs) c = lease_run xs (lease_exec now fresh x c)"

section \<open>Invariant\<close>

definition lease_inv :: "controller \<Rightarrow> bool" where
  "lease_inv c \<longleftrightarrow>
     (idClient (crActive c) = [] \<longrightarrow> crActive c = noIdentity) \<and>
     (crStopping c \<longrightarrow> crActive c = noIdentity \<and> crPending c = noIdentity) \<and>
     (crActive c = noIdentity \<longrightarrow> crOwnerCtx c \<noteq> Some True) \<and>
     (crGeneration c = 0 \<longrightarrow> crActive c = noIdentity) \<and>
     (idSession (crActive c) = [] \<longrightarrow> crActive c = noIdentity \<or> crTickets c = []) \<and>
     length (crTickets c) \<le> maxTickets \<and>
     (\<forall>r \<in> set (crRequests c). r \<le> crRequestID c)"

lemma noIdentity_fields [simp]: "idClient noIdentity = []" "idSession noIdentity = []"
  by (simp_all add: noIdentity_def)

lemma snapshot_state [simp]: "fst (snapshotLocked now a c) = c\<lparr>crRevision := Suc (crRevision c)\<rparr>"
  and snapshot_active [simp]: "snActive (snd (snapshotLocked now a c)) = activeLocked now a c"
  by (simp_all add: snapshotLocked_def Let_def)

lemma activeLocked_revision [simp]: "activeLocked now a (c\<lparr>crRevision := n\<rparr>) = activeLocked now a c"
  by (simp add: activeLocked_def expiredLocked_def)

lemma lease_inv_revision [simp]: "lease_inv (c\<lparr>crRevision := n\<rparr>) = lease_inv c"
  by (simp add: lease_inv_def)

lemma issue_fields [simp]:
  "crActive (issueCommandTicketLocked now f c) = crActive c"
  "crPending (issueCommandTicketLocked now f c) = crPending c"
  "crGeneration (issueCommandTicketLocked now f c) = crGeneration c"
  "crStopping (issueCommandTicketLocked now f c) = crStopping c"
  "crOwnerCtx (issueCommandTicketLocked now f c) = crOwnerCtx c"
  "crRequests (issueCommandTicketLocked now f c) = crRequests c"
  "crRequestID (issueCommandTicketLocked now f c) = crRequestID c"
  "crCancelled (issueCommandTicketLocked now f c) = crCancelled c"
  "crLastSeenAt (issueCommandTicketLocked now f c) = crLastSeenAt c"
  "crLeaseTTL (issueCommandTicketLocked now f c) = crLeaseTTL c"
  by (simp_all add: issueCommandTicketLocked_def Let_def)

lemma issue_tickets:
  "length (crTickets c) \<le> maxTickets \<Longrightarrow> length (crTickets (issueCommandTicketLocked now f c)) \<le> maxTickets"
  "fst ` set (crTickets (issueCommandTicketLocked now f c)) \<subseteq> insert f (fst ` set (crTickets c))"
  by (auto simp: issueCommandTicketLocked_def Let_def maxTickets_def dest: list.set_sel(2))
     (metis image_eqI list.sel(2) list.set_sel(2) fst_conv)

lemma issue_local [simp]: "idSession (crActive c) = [] \<Longrightarrow> crTickets (issueCommandTicketLocked now f c) = crTickets c"
  by (simp add: issueCommandTicketLocked_def)

lemma cancelOwner_fields [simp]:
  "crActive (cancelOwnerLocked k c) = crActive c" "crPending (cancelOwnerLocked k c) = crPending c"
  "crGeneration (cancelOwnerLocked k c) = crGeneration c" "crStopping (cancelOwnerLocked k c) = crStopping c"
  "crOwnerCtx (cancelOwnerLocked k c) \<noteq> Some True" "crRequests (cancelOwnerLocked k c) = []"
  "crRequestID (cancelOwnerLocked k c) = crRequestID c" "crTickets (cancelOwnerLocked k c) = crTickets c"
  "crCancelled (cancelOwnerLocked k c) = crCancelled c @ map (\<lambda>r. (r, k)) (crRequests c)"
  "crLastSeenAt (cancelOwnerLocked k c) = crLastSeenAt c" "crLeaseTTL (cancelOwnerLocked k c) = crLeaseTTL c"
  by (simp_all add: cancelOwnerLocked_def cancelRequestsLocked_def)

lemma activate_fields [simp]:
  "crActive (activateLocked now f a c) = a" "crPending (activateLocked now f a c) = crPending c"
  "crGeneration (activateLocked now f a c) = Suc (crGeneration c)"
  "crStopping (activateLocked now f a c) = crStopping c" "crOwnerCtx (activateLocked now f a c) = Some True"
  "crRequests (activateLocked now f a c) = []" "crRequestID (activateLocked now f a c) = crRequestID c"
  "crCancelled (activateLocked now f a c) = crCancelled c @ map (\<lambda>r. (r, ControlChanged)) (crRequests c)"
  by (simp_all add: activateLocked_def Let_def)

lemma activate_tickets: "fst ` set (crTickets (activateLocked now f a c)) \<subseteq> {f}"
  "length (crTickets (activateLocked now f a c)) \<le> maxTickets"
  using issue_tickets(2) [of now f] issue_tickets(1)
  by (fastforce simp: activateLocked_def Let_def maxTickets_def)+

lemma activate_local [simp]: "idSession a = [] \<Longrightarrow> crTickets (activateLocked now f a c) = []"
  by (simp add: activateLocked_def Let_def)

lemma clear_fields [simp]:
  "crActive (clearOwnerLocked c) = noIdentity" "crPending (clearOwnerLocked c) = crPending c"
  "crGeneration (clearOwnerLocked c) = Suc (crGeneration c)" "crStopping (clearOwnerLocked c) = crStopping c"
  "crOwnerCtx (clearOwnerLocked c) \<noteq> Some True" "crRequests (clearOwnerLocked c) = []"
  "crRequestID (clearOwnerLocked c) = crRequestID c" "crTickets (clearOwnerLocked c) = crTickets c"
  "crCancelled (clearOwnerLocked c) = crCancelled c @ map (\<lambda>r. (r, ControlChanged)) (crRequests c)"
  by (simp_all add: clearOwnerLocked_def Let_def)

lemma lease_inv_activate:
  "lease_inv c \<Longrightarrow> idClient a \<noteq> [] \<Longrightarrow> \<not> crStopping c \<Longrightarrow> lease_inv (activateLocked now f a c)"
  using activate_tickets(2) [of now f a c] by (auto simp: lease_inv_def)

lemma lease_inv_touch: "lease_inv c \<Longrightarrow> lease_inv (touchLocalLocked now f a c)"
  using lease_inv_activate [of c a now f] by (auto simp: touchLocalLocked_def) (auto simp: lease_inv_def)

lemma lease_inv_clear: "lease_inv c \<Longrightarrow> lease_inv (clearOwnerLocked (c\<lparr>crPending := noIdentity\<rparr>))"
  "lease_inv c \<Longrightarrow> lease_inv (clearOwnerLocked (c\<lparr>crStopping := True, crLossGeneration := g,
     crLossGrant := k, crPending := noIdentity\<rparr>))"
  by (simp_all add: lease_inv_def)

lemma lease_inv_exec: "lease_inv c \<Longrightarrow> lease_inv (lease_exec now f x c)"
proof (cases x)
  case (OpObserve a)
  then show "lease_inv c \<Longrightarrow> ?thesis" by (simp add: Observe_lease_def lease_inv_touch)
next
  case (OpHeartbeat a g)
  then show "lease_inv c \<Longrightarrow> ?thesis"
    using lease_inv_activate [of c a now f] issue_tickets(1) [of "c\<lparr>crLastSeenAt := now\<rparr>" now f]
    by (auto simp: heartbeatTransition_def Let_def split_beta) (auto simp: lease_inv_def)
next
  case (OpBeginTakeover a)
  then show "lease_inv c \<Longrightarrow> ?thesis"
    by (auto simp: BeginTakeover_def Let_def split_beta) (auto simp: lease_inv_def)
next
  case (OpCompleteTakeover a)
  then show "lease_inv c \<Longrightarrow> ?thesis"
    using lease_inv_activate [of c a now f]
    by (auto simp: CompleteTakeover_def Let_def split_beta) (auto simp: lease_inv_def)
next
  case (OpAuthority a)
  then show "lease_inv c \<Longrightarrow> ?thesis" by (simp add: Authority_def split_beta lease_inv_touch)
next
  case (OpStop k)
  then show "lease_inv c \<Longrightarrow> ?thesis"
    using issue_tickets(1) [of "(cancelOwnerLocked k c)\<lparr>crGeneration := Suc (crGeneration c), crOwnerCtx := Some True,
        crTickets := []\<rparr>" now f]
    by (auto simp: advanceStopGeneration_def Let_def) (auto simp: lease_inv_def cancelRequestsLocked_def)
next
  case (OpRemoteRenew a)
  then show "lease_inv c \<Longrightarrow> ?thesis"
    using issue_tickets(1) [of "c\<lparr>crLastSeenAt := now, crRemoteSeenAt := now\<rparr>" now f]
    by (auto simp: RemoteRenew_def) (auto simp: lease_inv_def)
next
  case (OpBind a)
  then show "lease_inv c \<Longrightarrow> ?thesis"
    by (auto simp: bindRequestCause_def split_beta Let_def lease_inv_def)
next
  case (OpDetach r)
  then show "lease_inv c \<Longrightarrow> ?thesis" by (simp add: detachRequest_def lease_inv_def)
next
  case OpFinishLoss
  then show "lease_inv c \<Longrightarrow> ?thesis" by (simp add: FinishLoss_def lease_inv_def)
qed (simp_all add: Peek_def CancelTakeover_def BeginLoss_def BeginLocalLoss_def Let_def lease_inv_clear
       admitCommand_def split_beta)

lemma lease_inv_new: "lease_inv (newControllerRuntime epoch)"
  by (simp add: lease_inv_def newControllerRuntime_def maxTickets_def)

inductive lease_step :: "controller \<Rightarrow> controller \<Rightarrow> bool" where
  exec: "lease_step c (lease_exec now f x c)"

lemma touch_gen: "crGeneration c \<le> crGeneration (touchLocalLocked now f a c)"
  by (simp add: touchLocalLocked_def)

lemma lease_gen: "crGeneration c \<le> crGeneration (lease_exec now f x c)"
  using touch_gen [of c now f]
  by (cases x) (auto simp: Observe_lease_def Peek_def heartbeatTransition_def BeginTakeover_def CompleteTakeover_def
      CancelTakeover_def Authority_def BeginLoss_def BeginLocalLoss_def FinishLoss_def advanceStopGeneration_def
      cancelRequestsLocked_def RemoteRenew_def bindRequestCause_def detachRequest_def admitCommand_def Let_def split_beta)

interpretation lease: fenced_machine "\<lambda>c. \<exists>epoch. c = newControllerRuntime epoch" lease_step lease_inv crGeneration
  by unfold_locales (auto simp: lease_inv_new lease_inv_exec lease_gen elim!: lease_step.cases)

lemma lease_run_steps: "lease_step\<^sup>*\<^sup>* c (lease_run xs c)"
  by (induction xs c rule: lease_run.induct)
     (auto intro: converse_rtranclp_into_rtranclp [of lease_step, OF lease_step.intros])

lemma lease_run_inv: "lease_inv c \<Longrightarrow> lease_inv (lease_run xs c)"
  using lease.inv_steps [OF lease_run_steps] .
section \<open>What one call can change\<close>

definition ticket_values :: "controller \<Rightarrow> string set" where
  "ticket_values c = fst ` set (crTickets c)"

definition cancelled :: "controller \<Rightarrow> nat set" where
  "cancelled c = fst ` set (crCancelled c)"

text \<open>
  Either the generation stays, and with it the owner, and every bound request is still bound, was
  cancelled or was detached; or it advances, every bound request is cancelled and the old tickets
  are gone or nobody owns the lease.
\<close>

definition changes :: "string \<Rightarrow> lease_op \<Rightarrow> controller \<Rightarrow> controller \<Rightarrow> bool" where
  "changes f x c d \<longleftrightarrow>
     cancelled c \<subseteq> cancelled d \<and>
     (crGeneration d = crGeneration c \<and> crActive d = crActive c \<and>
      ticket_values d \<subseteq> insert f (ticket_values c) \<and>
      (\<forall>r \<in> set (crRequests c). r \<in> set (crRequests d) \<or> r \<in> cancelled d \<or> x = OpDetach r) \<or>
      crGeneration c < crGeneration d \<and> set (crRequests c) \<subseteq> cancelled d \<and>
      (ticket_values d \<subseteq> {f} \<or> crActive d = noIdentity))"

lemma cancelled_eqs [simp]:
  "cancelled (cancelOwnerLocked k c) = cancelled c \<union> set (crRequests c)"
  "cancelled (cancelRequestsLocked k c) = cancelled c \<union> set (crRequests c)"
  "cancelled (activateLocked now f a c) = cancelled c \<union> set (crRequests c)"
  "cancelled (clearOwnerLocked c) = cancelled c \<union> set (crRequests c)"
  "cancelled (issueCommandTicketLocked now f c) = cancelled c"
  by (simp_all add: cancelled_def cancelRequestsLocked_def image_Un image_image)

lemma cancelled_updates [simp]:
  "cancelled (c\<lparr>crPending := p\<rparr>) = cancelled c" "cancelled (c\<lparr>crOwnerCtx := o1\<rparr>) = cancelled c"
  "cancelled (c\<lparr>crStopping := b\<rparr>) = cancelled c" "cancelled (c\<lparr>crLossGrant := g\<rparr>) = cancelled c"
  "cancelled (c\<lparr>crTickets := ts\<rparr>) = cancelled c" "cancelled (c\<lparr>crGeneration := n\<rparr>) = cancelled c"
  "cancelled (c\<lparr>crLossGeneration := n\<rparr>) = cancelled c" "cancelled (c\<lparr>crLastSeenAt := t\<rparr>) = cancelled c"
  "cancelled (c\<lparr>crRemoteSeenAt := t\<rparr>) = cancelled c"
  by (simp_all add: cancelled_def)

lemma changes_revision [simp]: "changes f x c (d\<lparr>crRevision := n\<rparr>) = changes f x c d"
  by (simp add: changes_def cancelled_def ticket_values_def)

lemma changes_refl [simp]: "changes f x c c"
  by (auto simp: changes_def)

lemma changes_activate: "changes f x c (activateLocked now f a c)"
  using activate_tickets(1) [of now f a c] by (simp add: changes_def ticket_values_def)

lemma changes_activate_pending: "changes f x c ((activateLocked now f a c)\<lparr>crPending := p\<rparr>)"
  using activate_tickets(1) [of now f a c] by (simp add: changes_def ticket_values_def)

lemma changes_issue:
  "changes f x c (issueCommandTicketLocked now f (c\<lparr>crLastSeenAt := t, crRemoteSeenAt := u\<rparr>))"
  "changes f x c (issueCommandTicketLocked now f (c\<lparr>crLastSeenAt := t\<rparr>))"
  using issue_tickets(2) [of now f "c\<lparr>crLastSeenAt := t, crRemoteSeenAt := u\<rparr>"]
    issue_tickets(2) [of now f "c\<lparr>crLastSeenAt := t\<rparr>"]
  by (simp_all add: changes_def ticket_values_def)

lemma changes_clear:
  "changes f x c (clearOwnerLocked (c\<lparr>crPending := p\<rparr>))"
  "changes f x c (clearOwnerLocked (c\<lparr>crStopping := True, crLossGeneration := g, crLossGrant := k, crPending := p\<rparr>))"
  by (simp_all add: changes_def)

lemma cancelRequests_fields [simp]:
  "crTickets (cancelRequestsLocked k c) = crTickets c" "crActive (cancelRequestsLocked k c) = crActive c"
  "crGeneration (cancelRequestsLocked k c) = crGeneration c"
  by (simp_all add: cancelRequestsLocked_def)

lemma changes_cancel:
  "changes f x c ((cancelOwnerLocked k c)\<lparr>crPending := p\<rparr>)" "changes f x c (cancelRequestsLocked k c)"
  by (simp_all add: changes_def ticket_values_def subset_insertI)

lemma changes_touch: "changes f x c (touchLocalLocked now f a c)"
  by (simp add: touchLocalLocked_def changes_activate)
     (simp add: changes_def ticket_values_def subset_insertI)

lemma changes_stop: "changes f x c (advanceStopGeneration now f k c)"
proof -
  let ?d = "(cancelOwnerLocked k c)\<lparr>crGeneration := Suc (crGeneration c), crOwnerCtx := Some True, crTickets := []\<rparr>"
  have "ticket_values (issueCommandTicketLocked now f ?d) \<subseteq> {f}"
    using issue_tickets(2) [of now f ?d] by (simp add: ticket_values_def)
  then have "changes f x c (issueCommandTicketLocked now f ?d)" by (simp add: changes_def)
  then show ?thesis
    by (simp add: advanceStopGeneration_def Let_def changes_cancel)
qed

lemma lease_changes: "changes f x c (lease_exec now f x c)"
proof (cases x)
  case (OpHeartbeat a g)
  then show ?thesis
    by (simp add: heartbeatTransition_def Let_def split_beta changes_activate changes_issue)
next
  case (OpBeginLoss k e)
  then show ?thesis using changes_clear(2) by (simp add: BeginLoss_def Let_def)
next
  case OpBeginLocalLoss
  then show ?thesis using changes_clear(2) by (simp add: BeginLocalLoss_def Let_def)
next
  case (OpBind a)
  then show ?thesis
    by (auto simp: bindRequestCause_def split_beta Let_def changes_def cancelled_def ticket_values_def)
next
  case (OpDetach r)
  then show ?thesis
    by (auto simp: detachRequest_def changes_def cancelled_def ticket_values_def)
next
  case OpFinishLoss
  then show ?thesis by (auto simp: FinishLoss_def changes_def cancelled_def ticket_values_def)
qed (simp_all add: Observe_lease_def Peek_def BeginTakeover_def CompleteTakeover_def CancelTakeover_def Authority_def
       admitCommand_def RemoteRenew_def Let_def split_beta changes_touch changes_activate_pending changes_clear
       changes_cancel changes_stop changes_issue)

lemma run_gen: "crGeneration c \<le> crGeneration (lease_run xs c)"
  by (induction xs c rule: lease_run.induct) (auto intro: le_trans [OF lease_gen])

lemma ticket_stays_gone:
  assumes "v \<notin> ticket_values c \<or> crActive c = noIdentity" "v \<notin> set (map (\<lambda>(t, f, x). f) xs)"
  shows "v \<notin> ticket_values (lease_run xs c) \<or> crActive (lease_run xs c) = noIdentity"
  using assms
proof (induction xs c rule: lease_run.induct)
  case (2 now f x xs c)
  let ?d = "lease_exec now f x c"
  have "v \<noteq> f" using 2(3) by auto
  then have "v \<notin> ticket_values ?d \<or> crActive ?d = noIdentity"
    using 2(2) lease_changes [of f x c now] unfolding changes_def by auto
  then show ?case using 2(1,3) by simp
qed simp

lemma ticket_fence:
  assumes "crGeneration (lease_run xs c) \<noteq> crGeneration c" "v \<notin> set (map (\<lambda>(t, f, x). f) xs)"
  shows "v \<notin> ticket_values (lease_run xs c) \<or> crActive (lease_run xs c) = noIdentity"
  using assms
proof (induction xs c rule: lease_run.induct)
  case (2 now f x xs c)
  let ?d = "lease_exec now f x c"
  show ?case
  proof (cases "crGeneration ?d = crGeneration c")
    case True
    then show ?thesis using 2 by simp
  next
    case False
    then have "v \<notin> ticket_values ?d \<or> crActive ?d = noIdentity"
      using lease_changes [of f x c now] 2(3) unfolding changes_def by auto
    then show ?thesis using ticket_stays_gone [of v ?d xs] 2(3) by simp
  qed
qed simp

lemma request_fate:
  assumes "r \<in> set (crRequests c) \<or> r \<in> cancelled c" "\<forall>(t, f, x) \<in> set xs. x \<noteq> OpDetach r"
  shows "r \<in> set (crRequests (lease_run xs c)) \<or> r \<in> cancelled (lease_run xs c)"
  using assms
proof (induction xs c rule: lease_run.induct)
  case (2 now f x xs c)
  let ?d = "lease_exec now f x c"
  have "r \<in> set (crRequests ?d) \<or> r \<in> cancelled ?d"
    using 2(2,3) lease_changes [of f x c now] unfolding changes_def by auto
  then show ?case using 2(1,3) by simp
qed simp

lemma cancelled_mono: "cancelled c \<subseteq> cancelled (lease_run xs c)"
proof (induction xs c rule: lease_run.induct)
  case (2 now f x xs c)
  have "cancelled c \<subseteq> cancelled (lease_exec now f x c)"
    using lease_changes [of f x c now] by (simp add: changes_def)
  with 2 show ?case by auto
qed simp

lemma request_fence:
  assumes "r \<in> set (crRequests c)" "crGeneration (lease_run xs c) \<noteq> crGeneration c"
    and "\<forall>(t, f, x) \<in> set xs. x \<noteq> OpDetach r"
  shows "r \<in> cancelled (lease_run xs c)"
  using assms
proof (induction xs c rule: lease_run.induct)
  case (2 now f x xs c)
  let ?d = "lease_exec now f x c"
  have ch: "r \<in> cancelled ?d \<or> r \<in> set (crRequests ?d) \<and> crGeneration ?d = crGeneration c"
    using 2(2,4) lease_changes [of f x c now] unfolding changes_def by auto
  then show ?case
    using 2 cancelled_mono [of ?d xs] by auto
qed simp

section \<open>An expired lease\<close>

lemma time_sub_mono: "a \<le> b \<Longrightarrow> time_sub a t \<le> time_sub b t"
  by (simp add: time_sub_def)

lemma expired_later: "expiredLocked t c \<Longrightarrow> t \<le> u \<Longrightarrow> expiredLocked u c"
  using time_sub_mono [of t u "crLastSeenAt c"] by (auto simp: expiredLocked_def)

text \<open>What \<open>expiredLocked\<close> reads.\<close>

definition same_lease :: "controller \<Rightarrow> controller \<Rightarrow> bool" where
  "same_lease c d \<longleftrightarrow> crActive d = crActive c \<and> crLastSeenAt d = crLastSeenAt c \<and> crLeaseTTL d = crLeaseTTL c"

lemma expired_same: "same_lease c d \<Longrightarrow> expiredLocked t d = expiredLocked t c"
  by (simp add: same_lease_def expiredLocked_def)

lemma expired_kept:
  assumes "expiredLocked now c" "idSession (crActive c) \<noteq> []"
    and "crGeneration (lease_exec now f x c) = crGeneration c"
  shows "same_lease c (lease_exec now f x c)"
  using assms
  by (cases x) (auto simp: Observe_lease_def Peek_def heartbeatTransition_def BeginTakeover_def CompleteTakeover_def
      CancelTakeover_def Authority_def BeginLoss_def BeginLocalLoss_def FinishLoss_def advanceStopGeneration_def
      cancelRequestsLocked_def RemoteRenew_def ownerLiveLocked_def bindRequestCause_def detachRequest_def
      admitCommand_def touchLocalLocked_def Let_def split_beta same_lease_def split: if_splits)

lemma expired_run:
  assumes "expiredLocked t0 c" "idSession (crActive c) \<noteq> []" "\<forall>(t, f, x) \<in> set xs. t0 \<le> t"
    and "crGeneration (lease_run xs c) = crGeneration c"
  shows "same_lease c (lease_run xs c)"
  using assms
proof (induction xs c rule: lease_run.induct)
  case (2 now f x xs c)
  let ?d = "lease_exec now f x c"
  have g: "crGeneration ?d = crGeneration c"
    using lease_gen [of c now f x] run_gen [of ?d xs] 2(5) by simp
  have s: "same_lease c ?d"
    using expired_kept [OF expired_later [OF 2(2)] 2(3) g] 2(4) by auto
  then have "same_lease ?d (lease_run xs ?d)"
    using 2 g expired_same [OF s] by (auto simp: same_lease_def)
  with s show ?case by (simp add: same_lease_def)
qed (simp add: same_lease_def)

section \<open>Properties\<close>

text \<open>What a Stop does to the tickets: a remote owner's are gone, and nobody else's admits anything.\<close>

lemma stop_revokes:
  assumes "lease_inv c" "v \<noteq> f"
  shows "v \<notin> ticket_values (advanceStopGeneration now f k c) \<or> crActive (advanceStopGeneration now f k c) = noIdentity"
proof (cases "idSession (crActive c) = []")
  case True
  then have "crActive c = noIdentity \<or> crTickets c = []" using assms(1) by (simp add: lease_inv_def)
  then show ?thesis
    using True by (auto simp: advanceStopGeneration_def cancelRequestsLocked_def ticket_values_def)
next
  case False
  then have "ticket_values (advanceStopGeneration now f k c) \<subseteq> {f}"
    using issue_tickets(2) [of now f "(cancelOwnerLocked k c)\<lparr>crGeneration := Suc (crGeneration c),
        crOwnerCtx := Some True, crTickets := []\<rparr>"]
    by (simp add: advanceStopGeneration_def ticket_values_def Let_def)
  then show ?thesis using assms(2) by blast
qed

lemma stop_fence:
  assumes "lease_inv c" "(t, f, OpStop k) \<in> set xs" "v \<notin> set (map (\<lambda>(t, f, x). f) xs)"
  shows "v \<notin> ticket_values (lease_run xs c) \<or> crActive (lease_run xs c) = noIdentity"
  using assms
proof (induction xs c rule: lease_run.induct)
  case (2 now g x xs c)
  show ?case
  proof (cases "(t, f, OpStop k) = (now, g, x)")
    case True
    then have "v \<notin> ticket_values (lease_exec now g x c) \<or> crActive (lease_exec now g x c) = noIdentity"
      using stop_revokes [of c v f now k] 2(2,4) by auto
    then show ?thesis using ticket_stays_gone [of v "lease_exec now g x c" xs] 2(4) by simp
  next
    case False
    then show ?thesis using 2 lease_inv_exec by auto
  qed
qed simp

lemma owner_change_gen: "crActive (lease_run xs c) \<noteq> crActive c \<Longrightarrow> crGeneration (lease_run xs c) \<noteq> crGeneration c"
proof (induction xs c rule: lease_run.induct)
  case (2 now f x xs c)
  let ?d = "lease_exec now f x c"
  show ?case
  proof (cases "crActive ?d = crActive c")
    case True
    then show ?thesis using 2 lease_gen [of c now f x] run_gen [of ?d xs] by fastforce
  next
    case False
    then have "crGeneration c < crGeneration ?d" using lease_changes [of f x c now] by (auto simp: changes_def)
    then show ?thesis using run_gen [of ?d xs] by simp
  qed
qed simp

text \<open>
  Property C7.  A command ticket does not survive a Stop or a change of control.  Take any state \<open>c\<close>
  of any run and any further calls: if a Stop is among them, or the owner is another one than in \<open>c\<close>,
  or the generation has moved for any other reason, then a ticket value that was not drawn afresh
  since \<open>c\<close> admits nothing, for any client, at any time and whatever generation the request names.
  A Stop under a signed-in owner moves the generation and keeps the owner, so from then on a request
  that names the generation of \<open>c\<close> or an older one is admitted with no ticket at all; and so does
  every change of the owner.  A successful admission is always by the live owner, in the current
  generation, with an unexpired ticket.
\<close>

theorem ticket_dies_with_generation:
  assumes "c = lease_run ps (newControllerRuntime epoch)" and "v \<notin> set (map (\<lambda>(t, f, x). f) xs)"
    and "(\<exists>t f k. (t, f, OpStop k) \<in> set xs) \<or> crActive (lease_run xs c) \<noteq> crActive c \<or>
      crGeneration (lease_run xs c) \<noteq> crGeneration c"
  shows "\<not> snd (admitCommand now a g v (lease_run xs c)) \<and>
    (snd (admitCommand now a g w (lease_run xs c)) \<longrightarrow>
       activeLocked now a (lease_run xs c) \<and> g = crGeneration (lease_run xs c) \<and>
       (\<exists>e > now. (w, e) \<in> set (crTickets (lease_run xs c)))) \<and>
    (idSession (crActive c) \<noteq> [] \<longrightarrow>
       crActive (advanceStopGeneration t f k c) = crActive c \<and>
       crGeneration c < crGeneration (advanceStopGeneration t f k c) \<and>
       (g \<le> crGeneration c \<longrightarrow> \<not> snd (admitCommand now a g w (lease_run ys (advanceStopGeneration t f k c))))) \<and>
    (crActive (lease_exec t f x c) \<noteq> crActive c \<longrightarrow> crGeneration c < crGeneration (lease_exec t f x c) \<and>
       (g \<le> crGeneration c \<longrightarrow> \<not> snd (admitCommand now a g w (lease_run ys (lease_exec t f x c)))))"
proof -
  let ?d = "lease_run xs c"
  have adm: "snd (admitCommand now a g w d) \<longleftrightarrow> activeLocked now a d \<and> g = crGeneration d \<and>
      (\<exists>e > now. (w, e) \<in> set (crTickets d))" for w d
    by (auto simp: admitCommand_def split_beta list_ex_iff intro!: bexI [of _ "(w, e)" for e])
  have inv: "lease_inv c" using lease_run_inv [OF lease_inv_new] assms(1) by blast
  have "v \<notin> ticket_values ?d \<or> crActive ?d = noIdentity"
    using ticket_fence [OF _ assms(2)] stop_fence [OF inv _ assms(2)] owner_change_gen [of xs c] assms(3) by blast
  moreover have "crActive ?d = noIdentity \<Longrightarrow> \<not> activeLocked now a ?d"
    by (auto simp: activeLocked_def)
  ultimately have 1: "\<not> snd (admitCommand now a g v ?d)"
    unfolding adm by (force simp: ticket_values_def)
  have old: "\<not> snd (admitCommand now a g w (lease_run ys d))" if "crGeneration c < crGeneration d" "g \<le> crGeneration c" for d
    using run_gen [of d ys] that by (simp add: adm)
  have 2: "crActive (advanceStopGeneration t f k c) = crActive c"
    "crGeneration c < crGeneration (advanceStopGeneration t f k c)" if "idSession (crActive c) \<noteq> []"
    using that by (simp_all add: advanceStopGeneration_def Let_def)
  have 3: "crGeneration c < crGeneration (lease_exec t f x c)" if "crActive (lease_exec t f x c) \<noteq> crActive c"
    using that lease_changes [of f x c t] by (auto simp: changes_def)
  show ?thesis using 1 2 3 old adm by blast
qed

definition desktop :: identity where
  "desktop = \<lparr>idClient = ''tab-1'', idSession = ''s1'', idGrant = ''g1'', idGrantExpires = 0\<rparr>"

definition laptop :: identity where
  "laptop = \<lparr>idClient = ''tab-2'', idSession = ''s2'', idGrant = ''g2'', idGrantExpires = 0\<rparr>"

definition claimed :: controller where
  "claimed = lease_run [(5, ''t1'', OpHeartbeat desktop 0), (6, '''', OpBind desktop)] (newControllerRuntime ''e'')"

lemma ticket_dies_with_generation_witness:
  "snd (admitCommand 7 desktop 1 ''t1'' claimed) \<and>
   \<not> snd (admitCommand 9 desktop 2 ''t1'' (lease_run [(8, ''t2'', OpStop EmergencyStop)] claimed)) \<and>
   \<not> snd (admitCommand 9 desktop 1 ''t2'' (lease_run [] (advanceStopGeneration 8 ''t2'' EmergencyStop claimed))) \<and>
   snd (admitCommand 9 desktop 2 ''t2'' (lease_run [(8, ''t2'', OpStop EmergencyStop)] claimed))"
proof -
  let ?xs = "[(8, ''t2'', OpStop EmergencyStop)]"
  have v: "''t1'' \<notin> set (map (\<lambda>(t, f, x). f) ?xs)" by simp
  have s: "(\<exists>t f k. (t, f, OpStop k) \<in> set ?xs) \<or> crActive (lease_run ?xs claimed) \<noteq> crActive claimed \<or>
    crGeneration (lease_run ?xs claimed) \<noteq> crGeneration claimed" by simp
  have i: "idSession (crActive claimed) \<noteq> []" "1 \<le> crGeneration claimed" by code_simp+
  note t = ticket_dies_with_generation [OF claimed_def v s]
  have "\<not> snd (admitCommand 9 desktop 2 ''t1'' (lease_run ?xs claimed))" using t [of 9 desktop 2] by blast
  moreover have "\<not> snd (admitCommand 9 desktop 1 ''t2'' (lease_run [] (advanceStopGeneration 8 ''t2'' EmergencyStop claimed)))"
    using t [of 9 desktop 1 "''t2''" 8 "''t2''" EmergencyStop "[]"] i by blast
  moreover have "snd (admitCommand 7 desktop 1 ''t1'' claimed)"
    "snd (admitCommand 9 desktop 2 ''t2'' (lease_run ?xs claimed))" by code_simp+
  ultimately show ?thesis by blast
qed

text \<open>
  No request outlives the ownership it was bound to.  Once the generation has moved
  (a Stop, a takeover, a loss), every request that was bound before and has not detached itself has
  had its cancel function called; and as long as the generation stands it is still registered or
  already cancelled.
\<close>

theorem bound_requests_cancelled:
  assumes "r \<in> set (crRequests c)" and "\<forall>(t, f, x) \<in> set xs. x \<noteq> OpDetach r"
  shows "(crGeneration (lease_run xs c) \<noteq> crGeneration c \<longrightarrow> r \<in> cancelled (lease_run xs c)) \<and>
    (r \<in> set (crRequests (lease_run xs c)) \<or> r \<in> cancelled (lease_run xs c))"
  using request_fence [OF assms(1) _ assms(2)] request_fate [OF _ assms(2), of c] assms(1) by blast

lemma bound_requests_cancelled_witness:
  "1 \<in> cancelled (lease_run [(8, '''', OpBeginTakeover laptop), (9, '''', OpFinishLoss),
     (10, ''t2'', OpCompleteTakeover laptop)] claimed)"
proof -
  let ?xs = "[(8, '''', OpBeginTakeover laptop), (9, '''', OpFinishLoss), (10, ''t2'', OpCompleteTakeover laptop)]"
  have "1 \<in> set (crRequests claimed)" "crGeneration (lease_run ?xs claimed) \<noteq> crGeneration claimed" by code_simp+
  then show ?thesis using bound_requests_cancelled [of 1 claimed ?xs] by simp
qed

text \<open>
  Property C24.  An expired lease is never revived.  After an authenticated owner's lease or grant
  has expired, no sequence of later calls makes anybody active again (no heartbeat, observation,
  phone renewal or retry) unless the generation has moved, which takes a fresh claim.
\<close>

theorem expired_lease_not_revived:
  assumes "expiredLocked t0 c" and "idSession (crActive c) \<noteq> []" and "\<forall>(t, f, x) \<in> set xs. t0 \<le> t"
    and "crGeneration (lease_run xs c) = crGeneration c" and "t0 \<le> now"
  shows "\<not> activeLocked now a (lease_run xs c) \<and> \<not> ownerLiveLocked now a (lease_run xs c) \<and>
    crActive (lease_run xs c) = crActive c"
proof -
  have s: "same_lease c (lease_run xs c)" using expired_run [OF assms(1-4)] .
  then have "expiredLocked now (lease_run xs c)"
    using expired_later [OF assms(1,5)] expired_same by blast
  then show ?thesis using s by (auto simp: activeLocked_def ownerLiveLocked_def same_lease_def)
qed

lemma expired_lease_not_revived_witness:
  "\<not> activeLocked 20000000006 desktop (lease_run [(20000000000, ''t2'', OpHeartbeat desktop 1),
      (20000000001, ''t3'', OpRemoteRenew desktop)] claimed)"
proof -
  let ?xs = "[(20000000000, ''t2'', OpHeartbeat desktop 1), (20000000001, ''t3'', OpRemoteRenew desktop)]"
  have "expiredLocked 20000000000 claimed" "idSession (crActive claimed) \<noteq> []"
    "crGeneration (lease_run ?xs claimed) = crGeneration claimed" by code_simp+
  then show ?thesis using expired_lease_not_revived [of 20000000000 claimed ?xs 20000000006 desktop] by simp
qed

text \<open>
  Property C10.  Control changes hands only by a stop-first takeover.  If a call makes a client the
  owner who was not, then either it completes the takeover that this client had pending (and whose
  beginning cancelled the previous owner), or it is the first heartbeat of a fresh server, or both
  sides are unauthenticated local clients and nobody owned the lease or it had expired.  The
  generation moves with it, and while a takeover or a loss is pending nobody is active.
\<close>

theorem control_changes_hands:
  assumes "lease_inv c" and "crActive (lease_exec now f x c) = a" and "a \<noteq> crActive c" and "a \<noteq> noIdentity"
  shows "crGeneration (lease_exec now f x c) = Suc (crGeneration c) \<and> \<not> crStopping c \<and>
    (x = OpCompleteTakeover a \<and> crPending c = a \<or>
     (\<exists>g. x = OpHeartbeat a g) \<and> crGeneration c = 0 \<or>
     (x = OpObserve a \<or> x = OpAuthority a) \<and> idSession a = [] \<and> idSession (crActive c) = [] \<and>
       (crActive c = noIdentity \<or> expiredLocked now c)) \<and>
    (crStopping c \<or> idClient (crPending c) \<noteq> [] \<longrightarrow> \<not> activeLocked t b c)"
  using assms
  by (cases x) (auto simp: Observe_lease_def Peek_def heartbeatTransition_def BeginTakeover_def CompleteTakeover_def
      CancelTakeover_def Authority_def BeginLoss_def BeginLocalLoss_def FinishLoss_def advanceStopGeneration_def
      cancelRequestsLocked_def RemoteRenew_def bindRequestCause_def detachRequest_def lease_inv_def activeLocked_def
      admitCommand_def touchLocalLocked_def Let_def split_beta split: if_splits)

lemma control_changes_hands_witness:
  "crGeneration (lease_exec 10 ''t2'' (OpCompleteTakeover laptop) (lease_run [(8, '''', OpBeginTakeover laptop)] claimed)) = 2"
proof -
  let ?c = "lease_run [(8, '''', OpBeginTakeover laptop)] claimed"
  have 1: "lease_inv ?c" unfolding claimed_def using lease_run_inv lease_inv_new by blast
  have 2: "crActive (lease_exec 10 ''t2'' (OpCompleteTakeover laptop) ?c) = laptop" by code_simp
  have 3: "laptop \<noteq> crActive ?c" "laptop \<noteq> noIdentity" by code_simp+
  have "crGeneration ?c = 1" by code_simp
  with control_changes_hands [OF 1 2 3] show ?thesis by simp
qed

end
