(* ===== verification/CommandReceipts.thy ===== *)
theory CommandReceipts
  imports ControllerLease "HOL-Library.Multiset"
begin

text \<open>
  How a control request is delivered at most once: \<open>commandRuntime\<close> of
  \<open>internal/httpapi/command_state.go\<close>, the admission of \<open>command_delivery.go\<close>, the body hash and the
  captured response of \<open>command_capture.go\<close> and the routes of \<open>command_motion.go\<close>, on top of the
  lease of \<open>ControllerLease\<close>.

  A Go map has no order, and the pruning looks for the oldest receipt in the order of its
  iteration: the receipts are a list here, and \<open>CmdShuffle\<close> may permute it at any time.  The hash
  and the JSON check of the standard library are arguments (\<open>sha\<close>, \<open>json_valid\<close>); header values
  that \<open>strconv.ParseUint\<close> refuses are \<open>None\<close>.
\<close>

section \<open>Routes\<close>

definition cutQuery :: "string \<Rightarrow> string" where
  "cutQuery route = takeWhile (\<lambda>c. c \<noteq> CHR ''?'') route"

definition deferredMotionCommand :: "string \<Rightarrow> bool" where
  "deferredMotionCommand route \<longleftrightarrow>
     cutQuery route \<in> set [''/api/chat/stream'', ''/api/chat/repair'', ''/api/labs/llm/chat'']"

definition motionRoutes :: "string list" where
  "motionRoutes =
     [''/api/chat/stream'', ''/api/chat/repair'', ''/api/labs/llm/chat'', ''/api/labs/llm/session'',
      ''/api/motion/start'', ''/api/motion/target'', ''/api/motion/quick'', ''/api/motion/pause'',
      ''/api/motion/resume'', ''/api/motion/reset-position'', ''/api/motion/edge'',
      ''/api/motion/edge/resume'', ''/api/motion/vibration/follow'', ''/api/settings'',
      ''/api/settings/reset'', ''/api/settings/labs'', ''/api/settings/llm-motion-mode'',
      ''/api/settings/device/connection-key'', ''/api/settings/device'', ''/api/settings/device/output'',
      ''/api/settings/device/connections'', ''/api/transport/coyote/strength'',
      ''/api/transport/coyote/test'', ''/api/media/sync'', ''/api/media/script-offset'',
      ''/api/media/playback'']"

definition motionCommandRoute :: "string \<Rightarrow> bool" where
  "motionCommandRoute r0 =
     (let route = cutQuery r0 in
      route \<in> set motionRoutes \<or> prefix ''/api/modes/'' route \<or> prefix ''/api/settings/handys'' route \<or>
      prefix ''/api/library/'' route \<and> suffix ''/play'' route \<or>
      prefix ''/api/transport/'' route \<and>
        (suffix ''/connect'' route \<or> suffix ''/disconnect'' route \<or> suffix ''/select'' route))"

definition isStopDelivery :: "string \<Rightarrow> bool" where
  "isStopDelivery route \<longleftrightarrow>
     route \<in> set [''/api/motion/stop'', ''/api/transport/cloud/stop'', ''/api/transport/bluetooth/stop'']"

definition serialControlRequest :: "string \<Rightarrow> bool" where
  "serialControlRequest route =
     (if motionCommandRoute route then \<not> deferredMotionCommand route
      else if route = ''/api/voice/preferences'' \<or> route = ''/api/voice/input-preferences'' then True
      else route \<noteq> ''/api/host/path-picker'' \<and> route \<noteq> ''/api/motion/lab/proposal'' \<and>
        \<not> prefix ''/api/llm/'' route \<and> \<not> prefix ''/api/voice/'' route \<and> \<not> prefix ''/api/labs/'' route)"

section \<open>Client identifiers\<close>

definition id_char :: "char \<Rightarrow> bool" where
  "id_char c \<longleftrightarrow>
     (let n = of_char c :: nat in
      97 \<le> n \<and> n \<le> 122 \<or> 65 \<le> n \<and> n \<le> 90 \<or> 48 \<le> n \<and> n \<le> 57 \<or>
      c = CHR ''-'' \<or> c = CHR ''_'' \<or> c = CHR ''.'')"

definition cleanControllerClientID :: "string \<Rightarrow> string" where
  "cleanControllerClientID s =
     (let t = trimSpace s; u = (if 120 < length t then take 120 t else t) in filter id_char u)"

definition clientIDFromRequest :: "string \<Rightarrow> string \<Rightarrow> string" where
  "clientIDFromRequest header query =
     cleanControllerClientID (if trimSpace header = [] then trimSpace query else trimSpace header)"

section \<open>Bodies and responses\<close>

definition maxCommandReplyBytes :: int where "maxCommandReplyBytes = 16384"

text \<open>
  A request body: what the hash has read, what is still unread, and whether its end was seen.
  The hash starts with the method and the URI.
\<close>

record command_body =
  bdHead :: string
  bdRead :: string
  bdRest :: string
  bdComplete :: bool

definition newCommandBody :: "string \<Rightarrow> string \<Rightarrow> string \<Rightarrow> command_body" where
  "newCommandBody reqMethod uri body =
     \<lparr>bdHead = reqMethod @ [CHR 0x00] @ uri @ [CHR 0x00], bdRead = [], bdRest = body,
      bdComplete = (length body = 0)\<rparr>"

text \<open>A reader asks for \<open>n\<close> bytes; the end of the body is seen only by reading past it.\<close>

definition body_Read :: "nat \<Rightarrow> command_body \<Rightarrow> command_body" where
  "body_Read n b =
     b\<lparr>bdRead := bdRead b @ take n (bdRest b), bdRest := drop n (bdRest b),
       bdComplete := (bdComplete b \<or> length (bdRest b) < n)\<rparr>"

definition body_fingerprint :: "(string \<Rightarrow> string) \<Rightarrow> command_body \<Rightarrow> string" where
  "body_fingerprint sha b = sha (bdHead b @ bdRead b)"

definition body_count :: "command_body \<Rightarrow> nat" where
  "body_count b = length (bdRead b)"

record command_capture =
  cpStatus :: int
  cpData :: string
  cpStreamed :: bool
  cpOverflow :: bool
  cpInterrupted :: bool

definition newCapture :: command_capture where
  "newCapture = \<lparr>cpStatus = 0, cpData = [], cpStreamed = False, cpOverflow = False, cpInterrupted = False\<rparr>"

definition capture_WriteHeader :: "int \<Rightarrow> command_capture \<Rightarrow> command_capture" where
  "capture_WriteHeader st w = (if cpStatus w \<noteq> 0 then w else w\<lparr>cpStatus := st\<rparr>)"

definition capture_Write :: "string \<Rightarrow> command_capture \<Rightarrow> command_capture" where
  "capture_Write bytes w =
     (let w1 = (if cpStatus w = 0 then w\<lparr>cpStatus := 200\<rparr> else w) in
      if cpOverflow w1 \<or> cpStreamed w1 then w1
      else if maxCommandReplyBytes < int (length (cpData w1) + length bytes)
      then w1\<lparr>cpOverflow := True, cpData := []\<rparr>
      else w1\<lparr>cpData := cpData w1 @ bytes\<rparr>)"

definition capture_Flush :: "command_capture \<Rightarrow> command_capture" where
  "capture_Flush w =
     (let w1 = w\<lparr>cpStreamed := True, cpData := []\<rparr> in
      if cpStatus w1 = 0 then w1\<lparr>cpStatus := 200\<rparr> else w1)"

section \<open>Receipts\<close>

definition commandReceiptLifetime :: duration where "commandReceiptLifetime = 5 * 60 * 1000000000"
definition maxCommandReceipts :: nat where "maxCommandReceipts = 256"

type_synonym scope = "identity \<times> nat"
type_synonym receipt_key = "string \<times> string \<times> string"

datatype receipt_state = Pending | Complete | UnknownState

record receipt =
  rcKey :: receipt_key
  rcEpoch :: string
  rcGeneration :: nat
  rcSequence :: nat
  rcState :: receipt_state
  rcStatus :: int
  rcReplayable :: bool
  rcResponse :: string
  rcCreatedAt :: time
  rcCompletedAt :: time
  rcFingerprint :: string
  rcBodyBytes :: nat
  rcMethod :: string
  rcRoute :: string

record commands =
  cmSerial :: bool \<comment> \<open>the one-slot channel is taken\<close>
  cmScope :: scope
  cmSequence :: nat
  cmMotionSequence :: nat
  cmReceipts :: "receipt list"

definition newCommandRuntime :: commands where
  "newCommandRuntime =
     \<lparr>cmSerial = False, cmScope = (noIdentity, 0), cmSequence = 0, cmMotionSequence = 0, cmReceipts = []\<rparr>"

definition find_receipt :: "receipt_key \<Rightarrow> receipt list \<Rightarrow> receipt option" where
  "find_receipt k rs = find (\<lambda>r. rcKey r = k) rs"

definition stale_receipt :: "time \<Rightarrow> receipt \<Rightarrow> bool" where
  "stale_receipt now r \<longleftrightarrow>
     rcState r \<noteq> Pending \<and> commandReceiptLifetime \<le> time_sub now (rcCompletedAt r)"

text \<open>The oldest finished receipt, in the order of iteration.\<close>

fun oldest_receipt :: "receipt list \<Rightarrow> receipt option \<Rightarrow> receipt option" where
  "oldest_receipt [] best = best"
| "oldest_receipt (r # rs) best =
     oldest_receipt rs
       (if rcState r = Pending then best
        else case best of None \<Rightarrow> Some r
             | Some o1 \<Rightarrow> if rcCompletedAt r < rcCompletedAt o1 then Some r else best)"

definition pruneLocked :: "time \<Rightarrow> bool \<Rightarrow> commands \<Rightarrow> commands" where
  "pruneLocked now needCapacity c =
     (let kept = filter (\<lambda>r. \<not> stale_receipt now r) (cmReceipts c) in
      case oldest_receipt kept None of
        None \<Rightarrow> c\<lparr>cmReceipts := kept\<rparr>
      | Some o1 \<Rightarrow>
          if needCapacity \<and> maxCommandReceipts \<le> length kept
          then c\<lparr>cmReceipts := filter (\<lambda>r. rcKey r \<noteq> rcKey o1) kept\<rparr>
          else c\<lparr>cmReceipts := kept\<rparr>)"

definition lookup :: "time \<Rightarrow> receipt_key \<Rightarrow> commands \<Rightarrow> commands \<times> receipt option" where
  "lookup now k c = (let c1 = pruneLocked now False c in (c1, find_receipt k (cmReceipts c1)))"

definition lastSequence :: "scope \<Rightarrow> commands \<Rightarrow> nat" where
  "lastSequence s c = (if cmScope c \<noteq> s then 0 else cmSequence c)"

datatype begin_error = AlreadyReceived | OutOfOrder | CapacityBusy

definition begin_command :: "time \<Rightarrow> scope \<Rightarrow> receipt \<Rightarrow> commands \<Rightarrow> commands \<times> begin_error option" where
  "begin_command now s r c =
     (let c1 = pruneLocked now True c in
      if find_receipt (rcKey r) (cmReceipts c1) \<noteq> None then (c1, Some AlreadyReceived)
      else if cmScope c1 = s \<and> rcSequence r \<le> cmSequence c1 then (c1, Some OutOfOrder)
      else if maxCommandReceipts \<le> length (cmReceipts c1) then (c1, Some CapacityBusy)
      else let c2 = (if cmScope c1 \<noteq> s then c1\<lparr>cmMotionSequence := 0\<rparr> else c1);
               c3 = c2\<lparr>cmScope := s, cmSequence := rcSequence r\<rparr>;
               c4 = (if motionCommandRoute (rcRoute r) then c3\<lparr>cmMotionSequence := rcSequence r\<rparr> else c3) in
        (c4\<lparr>cmReceipts := cmReceipts c4 @ [r\<lparr>rcCreatedAt := now, rcState := Pending\<rparr>]\<rparr>, None))"

text \<open>\<open>finish\<close> updates the receipt in place; the store holds the same object.\<close>

definition finish_receipt :: "(string \<Rightarrow> string) \<Rightarrow> (string \<Rightarrow> bool) \<Rightarrow> time \<Rightarrow> command_capture \<Rightarrow> command_body \<Rightarrow>
    receipt \<Rightarrow> receipt" where
  "finish_receipt sha json_valid now w b r =
     (let r1 = r\<lparr>rcState := Complete, rcStatus := cpStatus w, rcCompletedAt := now\<rparr> in
      if rcStatus r1 = 0 \<or> cpInterrupted w then r1\<lparr>rcState := UnknownState, rcStatus := 0\<rparr>
      else let r2 = (if bdComplete b then r1\<lparr>rcFingerprint := body_fingerprint sha b, rcBodyBytes := body_count b\<rparr>
                     else r1);
               ok = (bdComplete b \<and> \<not> cpStreamed w \<and> \<not> cpOverflow w \<and>
                     (length (cpData w) = 0 \<or> json_valid (cpData w))) in
        if ok then r2\<lparr>rcReplayable := ok, rcResponse := cpData w\<rparr> else r2\<lparr>rcReplayable := ok\<rparr>)"

definition finish :: "(string \<Rightarrow> string) \<Rightarrow> (string \<Rightarrow> bool) \<Rightarrow> time \<Rightarrow> command_capture \<Rightarrow> command_body \<Rightarrow>
    receipt_key \<Rightarrow> commands \<Rightarrow> commands" where
  "finish sha json_valid now w b k c =
     c\<lparr>cmReceipts := map (\<lambda>r. if rcKey r = k then finish_receipt sha json_valid now w b r else r) (cmReceipts c)\<rparr>"

text \<open>The one-slot lane: \<open>acquire\<close> gets it only when it is free.\<close>

definition acquire :: "commands \<Rightarrow> (commands) option" where
  "acquire c = (if cmSerial c then None else Some (c\<lparr>cmSerial := True\<rparr>))"

definition release_lane :: "commands \<Rightarrow> commands" where
  "release_lane c = c\<lparr>cmSerial := False\<rparr>"

section \<open>Replays\<close>

text \<open>
  \<open>matches\<close> reads at most one byte more than the recorded size, and then compares.
\<close>

definition body_matches :: "(string \<Rightarrow> string) \<Rightarrow> receipt \<Rightarrow> command_body \<Rightarrow> command_body \<times> bool" where
  "body_matches sha r b =
     (if rcFingerprint r = [] then (b, False)
      else let b1 = (if \<not> bdComplete b then body_Read (rcBodyBytes r - body_count b + 1) b else b) in
        (b1, bdComplete b1 \<and> body_count b1 = rcBodyBytes r \<and> body_fingerprint sha b1 = rcFingerprint r))"

datatype replay = ReplayRefused | DifferentRequest | Replayed int string

definition replayControlCommand :: "(string \<Rightarrow> string) \<Rightarrow> string \<Rightarrow> string \<Rightarrow> command_body \<Rightarrow> receipt \<Rightarrow> replay" where
  "replayControlCommand sha reqMethod uri b r =
     (if rcState r \<noteq> Complete \<or> \<not> rcReplayable r then ReplayRefused
      else if rcMethod r \<noteq> reqMethod \<or> rcRoute r \<noteq> uri \<or> \<not> snd (body_matches sha r b) then DifferentRequest
      else Replayed (rcStatus r) (rcResponse r))"

section \<open>Admission of a control command\<close>

record control_request =
  rqMethod :: string
  rqURI :: string
  rqPath :: string
  rqCommandID :: string
  rqSequence :: "nat option"
  rqTicket :: string
  rqCancelled :: bool

datatype admission =
    URITooLong
  | BadCommandID
  | EarlierGeneration
  | Replay replay
  | LaneBusy
  | TicketExpired
  | RequestCancelled
  | Refused begin_error
  | Admitted receipt

definition commandID_ok :: "control_request \<Rightarrow> bool" where
  "commandID_ok rq =
     (let i = trimSpace (rqCommandID rq) in
      (case rqSequence rq of None \<Rightarrow> False | Some n \<Rightarrow> 0 < n \<and> int n \<le> 9007199254740991) \<and>
      8 \<le> length i \<and> length i \<le> 120 \<and> cleanControllerClientID i = i)"

definition newReceipt :: "identity \<Rightarrow> controller_snapshot \<Rightarrow> control_request \<Rightarrow> receipt" where
  "newReceipt actor snap rq =
     \<lparr>rcKey = (idSession actor, idClient actor, trimSpace (rqCommandID rq)), rcEpoch = snEpoch snap,
      rcGeneration = snGeneration snap, rcSequence = the (rqSequence rq), rcState = Pending, rcStatus = 0,
      rcReplayable = False, rcResponse = [], rcCreatedAt = zero_time, rcCompletedAt = zero_time,
      rcFingerprint = [], rcBodyBytes = 0, rcMethod = rqMethod rq, rcRoute = rqURI rq\<rparr>"

text \<open>
  The last part of \<open>admitControlCommand\<close>, when the wait for the lane is over: ownership and ticket
  are checked under the controller's lock, and \<open>begin\<close> runs inside it.
\<close>

definition admit_begin :: "time \<Rightarrow> identity \<Rightarrow> controller_snapshot \<Rightarrow> control_request \<Rightarrow>
    controller \<times> commands \<Rightarrow> (controller \<times> commands) \<times> admission" where
  "admit_begin now actor snap rq st =
     (case admitCommand now actor (snGeneration snap) (rqTicket rq) (fst st) of
        (ctl1, ok) \<Rightarrow>
          if \<not> ok then ((ctl1, snd st), TicketExpired)
          else if rqCancelled rq then ((ctl1, snd st), RequestCancelled)
          else (case begin_command now (actor, snGeneration snap) (newReceipt actor snap rq) (snd st) of
            (c3, Some e) \<Rightarrow> ((ctl1, c3), Refused e)
          | (c3, None) \<Rightarrow> ((ctl1, c3), Admitted (newReceipt actor snap rq))))"

text \<open>
  \<open>admitControlCommand\<close> for a tracked request without a receipt.  \<open>laneFree\<close> says how the wait for
  the lane ended (in time or not).  A refused request gives the lane back when its handler returns,
  and so does a deferred command as soon as it is admitted; any other admitted command keeps it.
\<close>

definition admitControlCommand :: "(string \<Rightarrow> string) \<Rightarrow> time \<Rightarrow> identity \<Rightarrow> controller_snapshot \<Rightarrow> bool \<Rightarrow>
    control_request \<Rightarrow> command_body \<Rightarrow> controller \<times> commands \<Rightarrow> (controller \<times> commands) \<times> admission" where
  "admitControlCommand sha now actor snap laneFree rq b st =
     (if 2048 < length (rqURI rq) then (st, URITooLong)
      else if \<not> commandID_ok rq then (st, BadCommandID)
      else case lookup now (rcKey (newReceipt actor snap rq)) (snd st) of
        (c1, Some r) \<Rightarrow>
          if rcEpoch r \<noteq> snEpoch snap \<or> rcGeneration r \<noteq> snGeneration snap then ((fst st, c1), EarlierGeneration)
          else ((fst st, c1), Replay (replayControlCommand sha (rqMethod rq) (rqURI rq) b r))
      | (c1, None) \<Rightarrow>
          if serialControlRequest (rqPath rq) \<or> deferredMotionCommand (rqPath rq) then
            (case (if laneFree then acquire c1 else None) of
               None \<Rightarrow> ((fst st, c1), LaneBusy)
             | Some c2 \<Rightarrow> (case admit_begin now actor snap rq (fst st, c2) of
                 ((ctl1, c3), Admitted r) \<Rightarrow>
                   ((ctl1, if deferredMotionCommand (rqPath rq) then release_lane c3 else c3), Admitted r)
               | ((ctl1, c3), out) \<Rightarrow> ((ctl1, release_lane c3), out)))
          else admit_begin now actor snap rq (fst st, c1))"

text \<open>\<open>beginDeferredMotion\<close>: may the model's reply still move the device?\<close>

definition deferred_current :: "scope \<Rightarrow> nat \<Rightarrow> commands \<Rightarrow> bool" where
  "deferred_current s n c \<longleftrightarrow> cmScope c = s \<and> cmMotionSequence c = n"

section \<open>Invariant of the receipts\<close>

definition cmd_inv :: "commands \<Rightarrow> bool" where
  "cmd_inv c \<longleftrightarrow> distinct (map rcKey (cmReceipts c)) \<and> length (cmReceipts c) \<le> maxCommandReceipts"

lemma pruneLocked_fields [simp]:
  "cmScope (pruneLocked now b c) = cmScope c" "cmSequence (pruneLocked now b c) = cmSequence c"
  "cmMotionSequence (pruneLocked now b c) = cmMotionSequence c" "cmSerial (pruneLocked now b c) = cmSerial c"
  by (simp_all add: pruneLocked_def Let_def split: option.split)

lemma prune_filter: "\<exists>P. cmReceipts (pruneLocked now b c) = filter P (cmReceipts c)"
  by (simp add: pruneLocked_def Let_def split: option.split) blast

lemma cmd_inv_filter: "cmd_inv c \<Longrightarrow> cmReceipts d = filter P (cmReceipts c) \<Longrightarrow> cmd_inv d"
  by (auto simp: cmd_inv_def distinct_map_filter intro: le_trans [OF length_filter_le])

lemma cmd_inv_prune: "cmd_inv c \<Longrightarrow> cmd_inv (pruneLocked now b c)"
  using prune_filter [of now b c] cmd_inv_filter by blast

lemma oldest_not_pending:
  "oldest_receipt rs best = Some r \<Longrightarrow> (\<And>q. best = Some q \<Longrightarrow> rcState q \<noteq> Pending) \<Longrightarrow> rcState r \<noteq> Pending"
  by (induction rs arbitrary: best) (auto split: if_splits option.splits)

lemma oldest_member:
  "oldest_receipt rs best = Some r \<Longrightarrow> r \<in> set rs \<or> best = Some r"
  by (induction rs arbitrary: best) (fastforce split: if_splits option.splits)+

lemma prune_pending:
  assumes "cmd_inv c" "r \<in> set (cmReceipts c)" "rcState r = Pending"
  shows "r \<in> set (cmReceipts (pruneLocked now b c))"
proof -
  let ?kept = "filter (\<lambda>r. \<not> stale_receipt now r) (cmReceipts c)"
  have k: "r \<in> set ?kept" using assms(2,3) by (simp add: stale_receipt_def)
  have "rcKey r \<noteq> rcKey o1" if "oldest_receipt ?kept None = Some o1" for o1
  proof
    assume eq: "rcKey r = rcKey o1"
    have "o1 \<in> set (cmReceipts c)" using oldest_member [OF that] by simp
    then have "o1 = r" using assms(1,2) eq by (auto simp: cmd_inv_def distinct_map inj_on_def)
    then show False using oldest_not_pending [OF that] assms(3) by simp
  qed
  with k show ?thesis by (auto simp: pruneLocked_def Let_def split: option.split)
qed

lemma find_receipt_None: "find_receipt k rs = None \<longleftrightarrow> k \<notin> rcKey ` set rs"
  by (auto simp: find_receipt_def find_None_iff)

lemma find_receipt_Some: "find_receipt k rs = Some r \<Longrightarrow> r \<in> set rs \<and> rcKey r = k"
  by (auto simp: find_receipt_def find_Some_iff)

lemma begin_ok:
  assumes "begin_command now s r c = (d, None)"
  shows "cmScope d = s \<and> cmSequence d = rcSequence r \<and>
    (cmScope c = s \<longrightarrow> cmSequence c < rcSequence r) \<and>
    cmMotionSequence d = (if motionCommandRoute (rcRoute r) then rcSequence r
                          else if cmScope c = s then cmMotionSequence c else 0) \<and>
    rcKey r \<notin> rcKey ` set (cmReceipts (pruneLocked now True c)) \<and>
    cmReceipts d = cmReceipts (pruneLocked now True c) @ [r\<lparr>rcCreatedAt := now, rcState := Pending\<rparr>] \<and>
    length (cmReceipts (pruneLocked now True c)) < maxCommandReceipts"
  using assms by (auto simp: begin_command_def Let_def find_receipt_None split: if_splits)

lemma begin_refused: "begin_command now s r c = (d, Some e) \<Longrightarrow> d = pruneLocked now True c"
  by (auto simp: begin_command_def Let_def split: if_splits)

lemma cmd_inv_begin: "cmd_inv c \<Longrightarrow> begin_command now s r c = (d, e) \<Longrightarrow> cmd_inv d"
proof (cases e)
  case None
  assume "cmd_inv c" "begin_command now s r c = (d, e)"
  then show ?thesis
    using begin_ok [of now s r c d] cmd_inv_prune [of c now True] None by (auto simp: cmd_inv_def)
next
  case (Some x)
  assume "cmd_inv c" "begin_command now s r c = (d, e)"
  then show ?thesis using begin_refused [of now s r c d x] Some by (simp add: cmd_inv_prune)
qed

lemma finish_key [simp]: "rcKey (finish_receipt sha jv now w b r) = rcKey r"
  by (simp add: finish_receipt_def Let_def)

lemma finish_keys: "map rcKey (cmReceipts (finish sha jv now w b k c)) = map rcKey (cmReceipts c)"
  by (simp add: finish_def)

lemma cmd_inv_finish: "cmd_inv c \<Longrightarrow> cmd_inv (finish sha jv now w b k c)"
  using finish_keys [of sha jv now w b k c] unfolding cmd_inv_def by (metis length_map)

section \<open>Lease and receipts together\<close>

text \<open>
  The system: the lease, the receipts, and the log of the commands admitted so far, each with its
  scope, sequence and route.
\<close>

type_synonym log_entry = "scope \<times> nat \<times> string"
type_synonym system = "controller \<times> commands \<times> log_entry list"

datatype system_op =
    SysLease time string lease_op
  | SysAdmit time identity controller_snapshot bool control_request command_body
  | SysFinish time command_capture command_body receipt_key
  | SysLookup time receipt_key
  | SysShuffle "receipt list"
  | SysAcquire
  | SysRelease

definition log_admitted :: "identity \<Rightarrow> nat \<Rightarrow> admission \<Rightarrow> log_entry list" where
  "log_admitted actor g r = (case r of Admitted q \<Rightarrow> [((actor, g), rcSequence q, rcRoute q)] | _ \<Rightarrow> [])"

definition shuffle :: "receipt list \<Rightarrow> commands \<Rightarrow> commands" where
  "shuffle rs c = (if mset rs = mset (cmReceipts c) then c\<lparr>cmReceipts := rs\<rparr> else c)"

fun sys_exec :: "(string \<Rightarrow> string) \<Rightarrow> (string \<Rightarrow> bool) \<Rightarrow> system_op \<Rightarrow> system \<Rightarrow> system" where
  "sys_exec sha jv (SysLease now fresh x) (ctl, c, lg) = (lease_exec now fresh x ctl, c, lg)"
| "sys_exec sha jv (SysAdmit now actor snap free rq b) (ctl, c, lg) =
     (let (st, r) = admitControlCommand sha now actor snap free rq b (ctl, c) in
      (fst st, snd st, lg @ log_admitted actor (snGeneration snap) r))"
| "sys_exec sha jv (SysFinish now w b k) (ctl, c, lg) = (ctl, finish sha jv now w b k c, lg)"
| "sys_exec sha jv (SysLookup now k) (ctl, c, lg) = (ctl, fst (lookup now k c), lg)"
| "sys_exec sha jv (SysShuffle rs) (ctl, c, lg) = (ctl, shuffle rs c, lg)"
| "sys_exec sha jv SysAcquire (ctl, c, lg) = (ctl, case acquire c of Some d \<Rightarrow> d | None \<Rightarrow> c, lg)"
| "sys_exec sha jv SysRelease (ctl, c, lg) = (ctl, release_lane c, lg)"

fun sys_run :: "(string \<Rightarrow> string) \<Rightarrow> (string \<Rightarrow> bool) \<Rightarrow> system_op list \<Rightarrow> system \<Rightarrow> system" where
  "sys_run sha jv [] s = s"
| "sys_run sha jv (x # xs) s = sys_run sha jv xs (sys_exec sha jv x s)"

definition newSystem :: "string \<Rightarrow> system" where
  "newSystem epoch = (newControllerRuntime epoch, newCommandRuntime, [])"

text \<open>One admitted command comes after another.\<close>

definition later :: "log_entry \<Rightarrow> log_entry \<Rightarrow> bool" where
  "later x y \<longleftrightarrow> snd (fst x) < snd (fst y) \<or> fst x = fst y \<and> fst (snd x) < fst (snd y)"

definition sys_inv :: "system \<Rightarrow> bool" where
  "sys_inv s = (case s of (ctl, c, lg) \<Rightarrow>
     cmd_inv c \<and> sorted_wrt later lg \<and>
     (\<forall>x \<in> set lg. snd (fst x) \<le> snd (cmScope c) \<and>
        (snd (fst x) = snd (cmScope c) \<longrightarrow> fst x = cmScope c \<and> fst (snd x) \<le> cmSequence c \<and>
           (motionCommandRoute (snd (snd x)) \<longrightarrow> fst (snd x) \<le> cmMotionSequence c))) \<and>
     (lg \<noteq> [] \<longrightarrow> snd (cmScope c) \<le> crGeneration ctl \<and>
        (snd (cmScope c) = crGeneration ctl \<longrightarrow> crActive ctl = fst (cmScope c))))"

lemma admitCommand_ok:
  assumes "admitCommand now a g v ctl = (ctl1, True)"
  shows "crActive ctl = a \<and> g = crGeneration ctl \<and> crActive ctl1 = crActive ctl \<and> crGeneration ctl1 = crGeneration ctl"
  using assms by (auto simp: admitCommand_def split_beta activeLocked_def)

lemma admitCommand_frame:
  "admitCommand now a g v ctl = (ctl1, r) \<Longrightarrow> crActive ctl1 = crActive ctl \<and> crGeneration ctl1 = crGeneration ctl"
  by (auto simp: admitCommand_def split_beta)

text \<open>
  What \<open>admitControlCommand\<close> can do, whatever the request: refuse and at most prune, or begin.
\<close>

definition pruned :: "commands \<Rightarrow> commands \<Rightarrow> bool" where
  "pruned c d \<longleftrightarrow> cmScope d = cmScope c \<and> cmSequence d = cmSequence c \<and> cmMotionSequence d = cmMotionSequence c \<and>
     (\<exists>P. cmReceipts d = filter P (cmReceipts c))"

lemma pruned_refl [simp]: "pruned c c"
  unfolding pruned_def by (intro conjI refl exI [of _ "\<lambda>_. True"]) simp

lemma pruned_prune [simp]: "pruned c (pruneLocked now b c)"
  using prune_filter [of now b c] by (simp add: pruned_def)

lemma pruned_serial [simp]: "pruned c (d\<lparr>cmSerial := b\<rparr>) = pruned c d"
  by (simp add: pruned_def)

lemma pruned_trans: "pruned c d \<Longrightarrow> pruned d e \<Longrightarrow> pruned c e"
  by (auto simp: pruned_def)

lemma pruned_release [simp]: "pruned c (release_lane d) = pruned c d"
  by (simp add: release_lane_def)

lemma admit_begin_cases:
  assumes "admit_begin now actor snap rq (ctl, c) = ((ctl1, d), r)"
  shows "crActive ctl1 = crActive ctl \<and> crGeneration ctl1 = crGeneration ctl \<and>
    ((\<forall>q. r \<noteq> Admitted q) \<and> pruned c d \<or>
     r = Admitted (newReceipt actor snap rq) \<and> crActive ctl = actor \<and> snGeneration snap = crGeneration ctl \<and>
     begin_command now (actor, snGeneration snap) (newReceipt actor snap rq) c = (d, None))"
proof -
  obtain ctl2 ok where a: "admitCommand now actor (snGeneration snap) (rqTicket rq) ctl = (ctl2, ok)"
    by (cases "admitCommand now actor (snGeneration snap) (rqTicket rq) ctl")
  obtain c3 e where b: "begin_command now (actor, snGeneration snap) (newReceipt actor snap rq) c = (c3, e)"
    by (cases "begin_command now (actor, snGeneration snap) (newReceipt actor snap rq) c")
  show ?thesis
    using assms a b admitCommand_frame [OF a] admitCommand_ok [of now actor "snGeneration snap" "rqTicket rq" ctl ctl2]
      begin_refused [of now "(actor, snGeneration snap)" "newReceipt actor snap rq" c c3]
    by (cases ok; cases e) (auto simp: admit_begin_def split: if_splits)
qed

lemma admit_cases:
  assumes "admitControlCommand sha now actor snap free rq b (ctl, c) = ((ctl1, d), r)"
  shows "crActive ctl1 = crActive ctl \<and> crGeneration ctl1 = crGeneration ctl \<and>
    ((\<forall>q. r \<noteq> Admitted q) \<and> pruned c d \<or>
     r = Admitted (newReceipt actor snap rq) \<and> crActive ctl = actor \<and> snGeneration snap = crGeneration ctl \<and>
     (\<exists>c2 d2. pruned c c2 \<and> begin_command now (actor, snGeneration snap) (newReceipt actor snap rq) c2 = (d2, None) \<and>
        pruned d2 d \<and> cmReceipts d = cmReceipts d2))"
proof -
  obtain c1 found where l: "lookup now (rcKey (newReceipt actor snap rq)) c = (c1, found)"
    by (cases "lookup now (rcKey (newReceipt actor snap rq)) c")
  then have p: "pruned c c1" by (auto simp: lookup_def Let_def)
  have q: "pruned c c2" if "acquire c1 = Some c2" for c2
    using that p by (auto simp: acquire_def split: if_splits)
  obtain x y z where ab: "admit_begin now actor snap rq (ctl, c1) = ((x, y), z)"
    by (metis prod.exhaust)
  note ab1 = admit_begin_cases [OF ab]
  show ?thesis
  proof (cases "acquire c1")
    case None
    then show ?thesis
      using assms p l ab ab1 pruned_trans [OF p]
      by (auto simp: admitControlCommand_def split: if_splits option.splits) (metis p pruned_refl)+
  next
    case (Some c2)
    obtain x2 y2 z2 where ab': "admit_begin now actor snap rq (ctl, c2) = ((x2, y2), z2)"
      by (metis prod.exhaust)
    note ab2 = admit_begin_cases [OF ab']
    show ?thesis
      using assms p l ab ab1 ab2 ab' Some pruned_trans [OF p] pruned_trans [OF q [OF Some]] q [OF Some]
      by (auto simp: admitControlCommand_def release_lane_def split: if_splits option.splits admission.splits)
         (metis p pruned_refl)+
  qed
qed
lemma cmd_inv_pruned: "cmd_inv c \<Longrightarrow> pruned c d \<Longrightarrow> cmd_inv d"
  using cmd_inv_filter [of c d] by (auto simp: pruned_def)

lemma sys_inv_lease: "sys_inv (ctl, c, lg) \<Longrightarrow> sys_inv (lease_exec now f x ctl, c, lg)"
  using lease_gen [of ctl now f x] lease_changes [of f x ctl now]
  by (auto simp: sys_inv_def changes_def)

lemma sys_inv_pruned:
  assumes "sys_inv (ctl, c, lg)" "crActive ctl1 = crActive ctl" "crGeneration ctl1 = crGeneration ctl"
    "cmd_inv d" "cmScope d = cmScope c" "cmSequence d = cmSequence c" "cmMotionSequence d = cmMotionSequence c"
  shows "sys_inv (ctl1, d, lg)"
  using assms by (simp add: sys_inv_def)

text \<open>An admitted command comes after every command in the log.\<close>

lemma sys_inv_begin:
  assumes inv: "sys_inv (ctl, c, lg)" and p: "pruned c c2"
    and b: "begin_command now (actor, g) r c2 = (d, None)"
    and own: "crActive ctl = actor" "g = crGeneration ctl"
    and d1: "cmScope d1 = cmScope d" "cmSequence d1 = cmSequence d" "cmMotionSequence d1 = cmMotionSequence d" "cmd_inv d1"
    and ctl1: "crActive ctl1 = crActive ctl" "crGeneration ctl1 = crGeneration ctl"
  shows "sys_inv (ctl1, d1, lg @ [((actor, g), rcSequence r, rcRoute r)])"
proof -
  let ?new = "((actor, g), rcSequence r, rcRoute r)"
  note ok = begin_ok [OF b]
  have same: "cmScope c = (actor, g) \<or> snd (cmScope c) < g" if "lg \<noteq> []"
    using inv that own by (cases "cmScope c") (auto simp: sys_inv_def)
  have after: "later x ?new" if "x \<in> set lg" for x
  proof -
    have "lg \<noteq> []" using that by auto
    from same [OF this] show ?thesis
      using inv that ok p by (fastforce simp: sys_inv_def later_def pruned_def)
  qed
  have "snd (fst x) \<le> g \<and> (snd (fst x) = g \<longrightarrow> fst x = (actor, g) \<and> fst (snd x) \<le> rcSequence r \<and>
      (motionCommandRoute (snd (snd x)) \<longrightarrow> fst (snd x) \<le> cmMotionSequence d))" if "x \<in> set lg" for x
  proof -
    have ne: "lg \<noteq> []" using that by auto
    have x: "snd (fst x) \<le> snd (cmScope c)" "snd (fst x) = snd (cmScope c) \<Longrightarrow> fst x = cmScope c \<and>
        fst (snd x) \<le> cmSequence c \<and> (motionCommandRoute (snd (snd x)) \<longrightarrow> fst (snd x) \<le> cmMotionSequence c)"
      using inv that by (auto simp: sys_inv_def)
    show ?thesis
      using same [OF ne] x ok p after [OF that] by (auto simp: pruned_def later_def)
  qed
  then show ?thesis
    using inv after ok own d1 ctl1 by (auto simp: sys_inv_def sorted_wrt_append)
qed

lemma mset_eq_cmd_inv: "cmd_inv c \<Longrightarrow> mset rs = mset (cmReceipts c) \<Longrightarrow> cmd_inv (c\<lparr>cmReceipts := rs\<rparr>)"
  by (simp add: cmd_inv_def) (metis mset_eq_imp_distinct_iff mset_map size_mset)

lemma sys_inv_exec: "sys_inv s \<Longrightarrow> sys_inv (sys_exec sha jv x s)"
proof (cases s)
  case (fields ctl c lg)
  assume "sys_inv s"
  then have inv: "sys_inv (ctl, c, lg)" and ci: "cmd_inv c" by (simp_all add: fields sys_inv_def)
  show ?thesis
  proof (cases x)
    case (SysAdmit now actor snap free rq b)
    obtain ctl1 d r where a: "admitControlCommand sha now actor snap free rq b (ctl, c) = ((ctl1, d), r)"
      by (metis prod.exhaust)
    note cs = admit_cases [OF a]
    then consider "\<forall>q. r \<noteq> Admitted q" "pruned c d"
      | c2 d2 where "r = Admitted (newReceipt actor snap rq)" "crActive ctl = actor"
        "snGeneration snap = crGeneration ctl" "pruned c c2" "pruned d2 d" "cmReceipts d = cmReceipts d2"
        "begin_command now (actor, snGeneration snap) (newReceipt actor snap rq) c2 = (d2, None)"
      by blast
    then show ?thesis
    proof cases
      case 1
      then have "log_admitted actor (snGeneration snap) r = []" by (cases r) (auto simp: log_admitted_def)
      then show ?thesis
        using sys_inv_pruned [OF inv, of ctl1 d] cs 1(2) cmd_inv_pruned [OF ci]
        by (simp add: fields SysAdmit a pruned_def)
    next
      case 2
      have "cmd_inv d" using cmd_inv_begin [OF cmd_inv_pruned [OF ci 2(4)] 2(7)] cmd_inv_pruned 2(5) by blast
      then have "sys_inv (ctl1, d, lg @ [((actor, snGeneration snap), rcSequence (newReceipt actor snap rq),
          rcRoute (newReceipt actor snap rq))])"
        using 2 cs by (intro sys_inv_begin [OF inv 2(4,7)]) (simp_all add: pruned_def)
      then show ?thesis by (simp add: fields SysAdmit a log_admitted_def 2(1))
    qed
  next
    case (SysFinish now w b k)
    show ?thesis
      using sys_inv_pruned [OF inv, of ctl "finish sha jv now w b k c"] cmd_inv_finish [OF ci]
      by (simp add: fields SysFinish) (simp add: finish_def)
  next
    case (SysShuffle rs)
    show ?thesis
      using sys_inv_pruned [OF inv, of ctl "shuffle rs c"] mset_eq_cmd_inv [OF ci, of rs] ci
      by (simp add: fields SysShuffle shuffle_def)
  next
    case (SysLookup now k)
    show ?thesis
      using sys_inv_pruned [OF inv, of ctl "pruneLocked now False c"] cmd_inv_prune [OF ci]
      by (simp add: fields SysLookup lookup_def Let_def)
  next
    case SysAcquire
    show ?thesis
      using inv sys_inv_pruned [OF inv, of ctl "c\<lparr>cmSerial := True\<rparr>"] ci
      by (simp add: fields SysAcquire acquire_def cmd_inv_def)
  next
    case SysRelease
    show ?thesis
      using sys_inv_pruned [OF inv, of ctl "c\<lparr>cmSerial := False\<rparr>"] ci
      by (simp add: fields SysRelease release_lane_def cmd_inv_def)
  qed (simp add: fields sys_inv_lease [OF inv])
qed

lemma sys_inv_new: "sys_inv (newSystem epoch)"
  by (simp add: sys_inv_def newSystem_def cmd_inv_def newCommandRuntime_def)

lemma sys_inv_run: "sys_inv s \<Longrightarrow> sys_inv (sys_run sha jv xs s)"
  by (induction xs arbitrary: s) (simp_all add: sys_inv_exec del: sys_exec.simps)

section \<open>Bodies\<close>

definition body_inv :: "string \<Rightarrow> command_body \<Rightarrow> bool" where
  "body_inv body b \<longleftrightarrow> bdRead b @ bdRest b = body \<and> (bdComplete b \<longrightarrow> bdRest b = [])"

lemma body_inv_read: "body_inv body b \<Longrightarrow> body_inv body (body_Read n b)"
  by (auto simp: body_inv_def body_Read_def)

lemma body_inv_new: "body_inv body (newCommandBody reqMethod uri body)"
  by (simp add: body_inv_def newCommandBody_def)

lemma body_head_read [simp]: "bdHead (body_Read n b) = bdHead b"
  by (simp add: body_Read_def)

lemma body_reads:
  "body_inv body b \<Longrightarrow> body_inv body (foldl (\<lambda>b n. body_Read n b) b ns) \<and>
     bdHead (foldl (\<lambda>b n. body_Read n b) b ns) = bdHead b"
  by (induction ns arbitrary: b) (simp_all add: body_inv_read)

lemma matches_exact:
  assumes "body_inv body b"
  shows "snd (body_matches sha r b) \<longleftrightarrow>
    rcFingerprint r \<noteq> [] \<and> length body = rcBodyBytes r \<and> sha (bdHead b @ body) = rcFingerprint r"
proof (cases "bdComplete b")
  case True
  with assms have "bdRead b = body" by (auto simp: body_inv_def)
  with True show ?thesis by (auto simp: body_matches_def Let_def body_count_def body_fingerprint_def)
next
  case False
  let ?n = "rcBodyBytes r - body_count b + 1"
  have len: "length body = length (bdRead b) + length (bdRest b)"
    using assms by (auto simp: body_inv_def)
  show ?thesis
  proof (cases "length (bdRest b) < ?n")
    case True
    then have "bdRead (body_Read ?n b) = body" using assms by (auto simp: body_Read_def body_inv_def)
    with False True show ?thesis
      by (auto simp: body_matches_def Let_def body_count_def body_fingerprint_def body_Read_def)
  next
    case short: False
    then have "rcBodyBytes r < length body" using len by (simp add: body_count_def)
    with False short show ?thesis by (simp add: body_matches_def Let_def body_Read_def)
  qed
qed

section \<open>Properties\<close>

text \<open>
  Property C6.  A control command is admitted at most once, and in order.  In every run of the lease
  and the receipts together (takeovers, stops, retries, pruning, finished replies, in any order), the
  commands admitted so far are strictly increasing: a later one belongs to a later control
  generation, or to the same client in the same generation with a larger sequence number.  No two
  retained receipts share a key, and there are at most 256.
\<close>

theorem commands_admitted_once:
  assumes "sys_run sha jv xs (newSystem epoch) = (ctl, c, lg)"
  shows "(\<forall>i j. i < j \<and> j < length lg \<longrightarrow>
       snd (fst (lg ! i)) < snd (fst (lg ! j)) \<or>
       fst (lg ! i) = fst (lg ! j) \<and> fst (snd (lg ! i)) < fst (snd (lg ! j))) \<and>
    distinct lg \<and> distinct (map rcKey (cmReceipts c)) \<and> length (cmReceipts c) \<le> 256"
proof -
  have "sys_inv (ctl, c, lg)" using sys_inv_run [OF sys_inv_new, of sha jv xs epoch] assms by simp
  then have s: "sorted_wrt later lg" "cmd_inv c" by (simp_all add: sys_inv_def)
  have "distinct lg"
    unfolding distinct_conv_nth
  proof (intro allI impI)
    fix i j assume "i < length lg" "j < length lg" "i \<noteq> j"
    then have "later (lg ! i) (lg ! j) \<or> later (lg ! j) (lg ! i)"
      using sorted_wrt_nth_less [OF s(1)] by (metis linorder_neqE_nat)
    then show "lg ! i \<noteq> lg ! j" by (auto simp: later_def)
  qed
  then show ?thesis
    using s sorted_wrt_nth_less [OF s(1)] by (auto simp: later_def cmd_inv_def maxCommandReceipts_def)
qed

definition tabSnapshot :: controller_snapshot where
  "tabSnapshot = snd (snapshotLocked 6 desktop claimed)"

definition startRequest :: "nat \<Rightarrow> string \<Rightarrow> control_request" where
  "startRequest n cid = \<lparr>rqMethod = ''POST'', rqURI = ''/api/motion/start'', rqPath = ''/api/motion/start'',
     rqCommandID = cid, rqSequence = Some n, rqTicket = ''t1'', rqCancelled = False\<rparr>"

definition emptyBody :: command_body where
  "emptyBody = newCommandBody ''POST'' ''/api/motion/start'' []"

definition sampleOps :: "system_op list" where
  "sampleOps =
     [SysLease 5 ''t1'' (OpHeartbeat desktop 0),
      SysAdmit 7 desktop tabSnapshot True (startRequest 1 ''command-1'') emptyBody, SysRelease,
      SysAdmit 8 desktop tabSnapshot True (startRequest 1 ''command-1'') emptyBody,
      SysAdmit 8 desktop tabSnapshot True (startRequest 1 ''command-2'') emptyBody,
      SysAdmit 9 desktop tabSnapshot True (startRequest 2 ''command-3'') emptyBody]"

lemma commands_admitted_once_witness:
  "map (\<lambda>x. fst (snd x)) (snd (snd (sys_run id (\<lambda>x. True) sampleOps (newSystem ''e'')))) = [1, 2] \<and>
   distinct (snd (snd (sys_run id (\<lambda>x. True) sampleOps (newSystem ''e''))))"
proof -
  let ?s = "sys_run id (\<lambda>x. True) sampleOps (newSystem ''e'')"
  have "?s = (fst ?s, fst (snd ?s), snd (snd ?s))" by simp
  from commands_admitted_once [OF this] have "distinct (snd (snd ?s))" by simp
  moreover have "map (\<lambda>x. fst (snd x)) (snd (snd ?s)) = [1, 2]" by code_simp
  ultimately show ?thesis by simp
qed

text \<open>
  A model's reply moves the device only if nothing newer was accepted.  When the
  deferred check passes for an admitted motion command, no motion command of any client was admitted
  after it.
\<close>

theorem deferred_reply_is_newest:
  assumes "sys_run sha jv xs (newSystem epoch) = (ctl, c, lg)" and "i < length lg" and "lg ! i = (s, n, route)"
    and "motionCommandRoute route" and "deferred_current s n c"
  shows "\<forall>k. i < k \<and> k < length lg \<longrightarrow> \<not> motionCommandRoute (snd (snd (lg ! k)))"
proof (intro allI impI notI)
  fix k assume k: "i < k \<and> k < length lg" and m: "motionCommandRoute (snd (snd (lg ! k)))"
  have inv: "sys_inv (ctl, c, lg)" using sys_inv_run [OF sys_inv_new, of sha jv xs epoch] assms(1) by simp
  have "later (lg ! i) (lg ! k)"
    using inv k sorted_wrt_nth_less [of later lg i k] by (simp add: sys_inv_def)
  moreover have "lg ! k \<in> set lg" using k by simp
  then have "snd (fst (lg ! k)) \<le> snd (cmScope c)" "snd (fst (lg ! k)) = snd (cmScope c) \<longrightarrow>
      fst (lg ! k) = cmScope c \<and> fst (snd (lg ! k)) \<le> cmMotionSequence c"
    using inv m by (auto simp: sys_inv_def)
  ultimately show False
    using assms(3,5) by (auto simp: later_def deferred_current_def)
qed

lemma deferred_reply_is_newest_witness:
  "\<not> deferred_current (desktop, 1) 1 (fst (snd (sys_run id (\<lambda>x. True) sampleOps (newSystem ''e'')))) \<and>
   deferred_current (desktop, 1) 2 (fst (snd (sys_run id (\<lambda>x. True) sampleOps (newSystem ''e'')))) \<and>
   length (snd (snd (sys_run id (\<lambda>x. True) sampleOps (newSystem ''e'')))) = 2"
proof -
  let ?s = "sys_run id (\<lambda>x. True) sampleOps (newSystem ''e'')"
  have eq: "?s = (fst ?s, fst (snd ?s), snd (snd ?s))" by simp
  have l: "length (snd (snd ?s)) = 2" "snd (snd ?s) ! 0 = ((desktop, 1), 1, ''/api/motion/start'')"
    "motionCommandRoute ''/api/motion/start''" "motionCommandRoute (snd (snd (snd (snd ?s) ! 1)))"
    "deferred_current (desktop, 1) 2 (fst (snd ?s))"
    by code_simp+
  then show ?thesis
    using deferred_reply_is_newest [OF eq _ l(2,3)] by auto
qed

text \<open>
  Property C26.  A finished command is answered again with the same reply, and only the same request
  is.  After a complete, bounded, uninterrupted JSON reply the receipt replays exactly its status
  and bytes; and a retry with the command's key is answered from it exactly when its method, URI and
  whole body have the recorded size and hash, however much of the body was read before.
\<close>

theorem replay_same_request_same_reply:
  assumes "rcMethod r0 = reqMethod" and "rcRoute r0 = uri"
    and "b = foldl (\<lambda>b n. body_Read n b) (newCommandBody reqMethod uri body) ns" and "bdComplete b"
    and "r = finish_receipt sha jv now w b r0"
    and "cpStatus w \<noteq> 0" and "\<not> cpInterrupted w" and "\<not> cpStreamed w" and "\<not> cpOverflow w"
    and "jv (cpData w)" and "sha (bdHead b @ body) \<noteq> []"
    and "b' = foldl (\<lambda>b n. body_Read n b) (newCommandBody reqMethod2 uri2 body2) ms"
  shows "replayControlCommand sha reqMethod2 uri2 b' r =
    (if reqMethod2 = reqMethod \<and> uri2 = uri \<and> length body2 = length body \<and>
        sha (bdHead b @ body2) = sha (bdHead b @ body)
     then Replayed (cpStatus w) (cpData w) else DifferentRequest)"
proof -
  have b: "body_inv body b" "bdHead b = reqMethod @ [CHR 0x00] @ uri @ [CHR 0x00]"
    using body_reads [OF body_inv_new] assms(3) by (simp_all add: newCommandBody_def)
  have b': "body_inv body2 b'" "bdHead b' = reqMethod2 @ [CHR 0x00] @ uri2 @ [CHR 0x00]"
    using body_reads [OF body_inv_new] assms(12) by (simp_all add: newCommandBody_def)
  have read: "bdRead b = body" using b(1) assms(4) by (auto simp: body_inv_def)
  have r: "rcState r = Complete" "rcReplayable r" "rcMethod r = reqMethod" "rcRoute r = uri"
    "rcStatus r = cpStatus w" "rcResponse r = cpData w" "rcBodyBytes r = length body"
    "rcFingerprint r = sha (bdHead b @ body)"
    using assms read by (simp_all add: finish_receipt_def Let_def body_count_def body_fingerprint_def)
  show ?thesis
    using matches_exact [OF b'(1), of sha r] assms(11) b(2) b'(2)
    by (auto simp: replayControlCommand_def r)
qed

definition okCapture :: command_capture where
  "okCapture = capture_Write ''{}'' newCapture"

lemma replay_same_request_same_reply_witness:
  "replayControlCommand id ''POST'' ''/api/motion/start'' (newCommandBody ''POST'' ''/api/motion/start'' ''ab'')
     (finish_receipt id (\<lambda>x. True) 9 okCapture (body_Read 5 (newCommandBody ''POST'' ''/api/motion/start'' ''ab''))
        (newReceipt desktop tabSnapshot (startRequest 1 ''command-1''))) = Replayed 200 ''{}''"
proof -
  let ?b = "foldl (\<lambda>b n. body_Read n b) (newCommandBody ''POST'' ''/api/motion/start'' ''ab'') [5]"
  let ?b' = "foldl (\<lambda>b n. body_Read n b) (newCommandBody ''POST'' ''/api/motion/start'' ''ab'') []"
  let ?r0 = "newReceipt desktop tabSnapshot (startRequest 1 ''command-1'')"
  have 1: "rcMethod ?r0 = ''POST''" "rcRoute ?r0 = ''/api/motion/start''"
    by (simp_all add: newReceipt_def startRequest_def)
  have 2: "bdComplete ?b" "id (bdHead ?b @ ''ab'') \<noteq> []" by (simp_all add: body_Read_def newCommandBody_def)
  have 3: "cpStatus okCapture \<noteq> 0" "\<not> cpInterrupted okCapture" "\<not> cpStreamed okCapture" "\<not> cpOverflow okCapture"
    "cpStatus okCapture = 200" "cpData okCapture = ''{}''"
    by code_simp+
  from replay_same_request_same_reply [OF 1 refl 2(1) refl 3(1-4), of "\<lambda>x. True" id ?b' "''POST''"
      "''/api/motion/start''" "''ab''" "[]" 9] 2(2) 3(5,6)
  show ?thesis by simp
qed

text \<open>
  A command under way is never forgotten.  While a receipt is pending, pruning keeps it
  even when the store is full, and no request with its key is admitted: it is refused or answered
  from the receipt.
\<close>

theorem pending_never_repeated:
  assumes "cmd_inv c" and "r \<in> set (cmReceipts c)" and "rcState r = Pending"
    and "rcKey (newReceipt actor snap rq) = rcKey r"
  shows "r \<in> set (cmReceipts (pruneLocked now full c)) \<and>
    (\<forall>q. snd (admitControlCommand sha now actor snap free rq b (ctl, c)) \<noteq> Admitted q) \<and>
    snd (begin_command now s (newReceipt actor snap rq) c) \<noteq> None"
proof -
  have kept: "r \<in> set (cmReceipts (pruneLocked now full c))" for full
    using prune_pending [OF assms(1-3)] .
  have "\<exists>q. snd (lookup now (rcKey (newReceipt actor snap rq)) c) = Some q"
    using find_receipt_None [of "rcKey r" "cmReceipts (pruneLocked now False c)"] kept [of False] assms(4)
    by (force simp: lookup_def Let_def)
  then obtain c1 q where l: "lookup now (rcKey (newReceipt actor snap rq)) c = (c1, Some q)"
    by (metis prod.collapse)
  have "snd (begin_command now s (newReceipt actor snap rq) c) \<noteq> None"
  proof
    assume "snd (begin_command now s (newReceipt actor snap rq) c) = None"
    then have "begin_command now s (newReceipt actor snap rq) c =
        (fst (begin_command now s (newReceipt actor snap rq) c), None)"
      by (metis prod.collapse)
    from begin_ok [OF this] kept [of True] assms(4) show False by force
  qed
  then show ?thesis
    using kept l by (simp add: admitControlCommand_def)
qed

lemma pending_never_repeated_witness:
  "snd (begin_command 8 (desktop, 1) (newReceipt desktop tabSnapshot (startRequest 5 ''command-1''))
      (fst (snd (sys_run id (\<lambda>x. True) (take 3 sampleOps) (newSystem ''e''))))) \<noteq> None"
proof -
  let ?c = "fst (snd (sys_run id (\<lambda>x. True) (take 3 sampleOps) (newSystem ''e'')))"
  let ?r = "cmReceipts ?c ! 0"
  have 1: "cmd_inv ?c"
    using sys_inv_run [OF sys_inv_new, of id "\<lambda>x. True" "take 3 sampleOps" "''e''"]
    by (simp add: sys_inv_def split_beta)
  have n: "length (cmReceipts ?c) = 1" by code_simp
  then have 2: "?r \<in> set (cmReceipts ?c)" by (intro nth_mem) simp
  have 3: "rcState ?r = Pending" "rcKey (newReceipt desktop tabSnapshot (startRequest 5 ''command-1'')) = rcKey ?r"
    by code_simp+
  show ?thesis using pending_never_repeated [OF 1 2 3] by blast
qed

end
