(* ===== verification/MotionTarget.thy ===== *)
theory MotionTarget
  imports Prelude Complex_Main
begin

text \<open>
  What the motion engine normalises before it plans: \<open>normalizeMotionSettings\<close>,
  \<open>normalizeAreaFocus\<close>, \<open>normalizeSoftAnchor\<close> and \<open>clamp\<close> of \<open>internal/motion/target.go\<close>, and the
  envelope check \<open>Validate\<close> of \<open>vibration.go\<close>.  Go's \<open>/\<close> truncates; on the non-negative sums it is
  used on here it is \<open>div\<close>.  A period in seconds is a rational, \<open>None\<close> for NaN and infinities.
\<close>

section \<open>Settings\<close>

record motion_settings =
  msSpeedMin :: int
  msSpeedMax :: int
  msStrokeMin :: int
  msStrokeMax :: int
  msReverse :: bool
  msVideoLimit :: bool
  msStyle :: string
  msHandyModel :: string

definition motion_clamp :: "int \<Rightarrow> int \<Rightarrow> int \<Rightarrow> int" where
  "motion_clamp v lo hi = (if v < lo then lo else if hi < v then hi else v)"

text \<open>The part of \<open>config.DefaultSettings().Motion\<close> that the normalisation reads.\<close>

definition defaultMotion :: motion_settings where
  "defaultMotion =
     \<lparr>msSpeedMin = 20, msSpeedMax = 80, msStrokeMin = 0, msStrokeMax = 100, msReverse = False,
      msVideoLimit = False, msStyle = ''balanced'', msHandyModel = ''handy_original''\<rparr>"

definition normalizeMotionSettings :: "motion_settings \<Rightarrow> motion_settings" where
  "normalizeMotionSettings s0 =
     (let s1 = (if msSpeedMin s0 = 0 then s0\<lparr>msSpeedMin := msSpeedMin defaultMotion\<rparr> else s0);
          s2 = (if msSpeedMax s1 = 0 then s1\<lparr>msSpeedMax := msSpeedMax defaultMotion\<rparr> else s1);
          s3 = (if msStrokeMax s2 = 0 then s2\<lparr>msStrokeMax := msStrokeMax defaultMotion\<rparr> else s2);
          s4 = (if msHandyModel s3 = [] then s3\<lparr>msHandyModel := msHandyModel defaultMotion\<rparr> else s3);
          s5 = s4\<lparr>msSpeedMin := motion_clamp (msSpeedMin s4) 1 100\<rparr>;
          s6 = s5\<lparr>msSpeedMax := motion_clamp (msSpeedMax s5) (msSpeedMin s5) 100\<rparr>;
          s7 = s6\<lparr>msStrokeMin := motion_clamp (msStrokeMin s6) 0 99\<rparr> in
      s7\<lparr>msStrokeMax := motion_clamp (msStrokeMax s7) (msStrokeMin s7 + 1) 100\<rparr>)"

definition settings_ok :: "motion_settings \<Rightarrow> bool" where
  "settings_ok s \<longleftrightarrow> 1 \<le> msSpeedMin s \<and> msSpeedMin s \<le> msSpeedMax s \<and> msSpeedMax s \<le> 100 \<and>
     0 \<le> msStrokeMin s \<and> msStrokeMin s < msStrokeMax s \<and> msStrokeMax s \<le> 100"

section \<open>Area focus and soft anchor\<close>

record area_focus =
  afMin :: int
  afMax :: int

definition minimumFocusWidthPercent :: int where "minimumFocusWidthPercent = 20"

definition normalizeAreaFocus :: "area_focus option \<Rightarrow> int \<Rightarrow> int \<Rightarrow> area_focus option" where
  "normalizeAreaFocus focus outerMin0 outerMax0 =
     (case focus of
        None \<Rightarrow> None
      | Some f \<Rightarrow>
          let outerMin = motion_clamp outerMin0 0 100;
              outerMax = motion_clamp outerMax0 outerMin 100;
              lo = motion_clamp (afMin f) outerMin outerMax;
              hi = motion_clamp (afMax f) outerMin outerMax;
              n = (if hi < lo then \<lparr>afMin = hi, afMax = lo\<rparr> else \<lparr>afMin = lo, afMax = hi\<rparr>) in
          if afMin n \<le> 0 \<and> 100 \<le> afMax n then None
          else let width = min minimumFocusWidthPercent (outerMax - outerMin) in
            if afMax n - afMin n < width
            then let center = (afMin n + afMax n) div 2;
                     m = motion_clamp (center - width div 2) outerMin (outerMax - width) in
              Some \<lparr>afMin = m, afMax = m + width\<rparr>
            else Some n)"

text \<open>\<open>resolveAreaFocus\<close> and \<open>effectiveAreaFocus\<close>: clock-locked media is never focused.\<close>

definition resolveAreaFocus :: "bool \<Rightarrow> area_focus option \<Rightarrow> area_focus option" where
  "resolveAreaFocus media focus = (if media then None else normalizeAreaFocus focus 0 100)"

definition effectiveAreaFocus :: "bool \<Rightarrow> area_focus option \<Rightarrow> area_focus option" where
  "effectiveAreaFocus media focus = (if media then None else normalizeAreaFocus focus 0 100)"

record soft_anchor =
  saPosition :: int
  saWeight :: int

definition normalizeSoftAnchor :: "soft_anchor option \<Rightarrow> soft_anchor option" where
  "normalizeSoftAnchor anchor =
     (case anchor of
        None \<Rightarrow> None
      | Some a \<Rightarrow>
          let n = \<lparr>saPosition = motion_clamp (saPosition a) 0 100, saWeight = motion_clamp (saWeight a) 0 100\<rparr> in
          if saWeight n = 0 then None else Some n)"

section \<open>Vibration envelopes\<close>

record vibration_spec =
  vsMode :: string
  vsMin :: int
  vsMax :: int
  vsPeriod :: "rat option"

definition vibration_valid :: "vibration_spec \<Rightarrow> bool" where
  "vibration_valid s =
     (if vsMin s < 0 \<or> 100 < vsMax s \<or> vsMax s < vsMin s then False
      else case vsPeriod s of
        None \<Rightarrow> False
      | Some p \<Rightarrow>
          if vsMode s = ''follow'' then p = 0
          else if vsMode s = ''off'' then vsMin s = 0 \<and> vsMax s = 0 \<and> p = 0
          else if vsMode s = ''steady'' then vsMin s = vsMax s \<and> p = 0
          else if vsMode s = ''wave'' \<or> vsMode s = ''pulse'' then 1 / 2 \<le> p \<and> p \<le> 30
          else False)"

section \<open>Laws\<close>

lemma clamp_bounds: "lo \<le> hi \<Longrightarrow> lo \<le> motion_clamp v lo hi \<and> motion_clamp v lo hi \<le> hi"
  by (simp add: motion_clamp_def)

lemma clamp_id: "lo \<le> v \<Longrightarrow> v \<le> hi \<Longrightarrow> motion_clamp v lo hi = v"
  by (simp add: motion_clamp_def)

lemmas settings_ifs =
  if_distrib [of msSpeedMin] if_distrib [of msSpeedMax] if_distrib [of msStrokeMin]
  if_distrib [of msStrokeMax] if_distrib [of msHandyModel]

lemma normalize_fields:
  "msSpeedMin (normalizeMotionSettings s) = motion_clamp (if msSpeedMin s = 0 then 20 else msSpeedMin s) 1 100"
  "msSpeedMax (normalizeMotionSettings s) =
     motion_clamp (if msSpeedMax s = 0 then 80 else msSpeedMax s) (msSpeedMin (normalizeMotionSettings s)) 100"
  "msStrokeMin (normalizeMotionSettings s) = motion_clamp (msStrokeMin s) 0 99"
  "msStrokeMax (normalizeMotionSettings s) =
     motion_clamp (if msStrokeMax s = 0 then 100 else msStrokeMax s) (msStrokeMin (normalizeMotionSettings s) + 1) 100"
  "msHandyModel (normalizeMotionSettings s) = (if msHandyModel s = [] then ''handy_original'' else msHandyModel s)"
  by (simp_all add: normalizeMotionSettings_def defaultMotion_def Let_def settings_ifs)

lemma settings_ok_normalize: "settings_ok (normalizeMotionSettings s)"
proof -
  let ?n = "normalizeMotionSettings s"
  have a: "1 \<le> msSpeedMin ?n \<and> msSpeedMin ?n \<le> 100" by (metis normalize_fields(1) clamp_bounds one_le_numeral)
  have b: "msSpeedMin ?n \<le> msSpeedMax ?n \<and> msSpeedMax ?n \<le> 100"
    by (metis a normalize_fields(2) clamp_bounds)
  have c: "0 \<le> msStrokeMin ?n \<and> msStrokeMin ?n \<le> 99" by (metis normalize_fields(3) clamp_bounds zero_le_numeral)
  have d: "msStrokeMin ?n + 1 \<le> msStrokeMax ?n \<and> msStrokeMax ?n \<le> 100"
    using clamp_bounds [of "msStrokeMin ?n + 1" 100] c normalize_fields(4) [of s] by auto
  show ?thesis using a b c d by (simp add: settings_ok_def)
qed

lemma settings_ok_id:
  assumes "settings_ok s" "msHandyModel s \<noteq> []"
  shows "normalizeMotionSettings s = s"
  using assms by (simp add: settings_ok_def normalizeMotionSettings_def Let_def clamp_id)

lemma normalize_model: "msHandyModel (normalizeMotionSettings s) \<noteq> []"
  by (simp add: normalize_fields)

definition focus_ok :: "area_focus \<Rightarrow> bool" where
  "focus_ok f \<longleftrightarrow> 0 \<le> afMin f \<and> afMax f \<le> 100 \<and> 20 \<le> afMax f - afMin f \<and> afMax f - afMin f < 100"

lemma focus_ok_fix: "focus_ok f \<Longrightarrow> normalizeAreaFocus (Some f) 0 100 = Some f"
  by (simp add: focus_ok_def normalizeAreaFocus_def Let_def clamp_id motion_clamp_def minimumFocusWidthPercent_def)

lemma normalize_focus_ok:
  assumes "normalizeAreaFocus focus 0 100 = Some f"
  shows "focus_ok f"
proof -
  obtain g where g: "focus = Some g" using assms by (cases focus) (auto simp: normalizeAreaFocus_def)
  define lo hi where "lo = min (motion_clamp (afMin g) 0 100) (motion_clamp (afMax g) 0 100)"
    and "hi = max (motion_clamp (afMin g) 0 100) (motion_clamp (afMax g) 0 100)"
  have b: "0 \<le> lo" "lo \<le> hi" "hi \<le> 100"
    using clamp_bounds [of 0 100 "afMin g"] clamp_bounds [of 0 100 "afMax g"] by (auto simp: lo_def hi_def)
  have n: "normalizeAreaFocus focus 0 100 =
      (if lo \<le> 0 \<and> 100 \<le> hi then None
       else if hi - lo < 20
       then Some \<lparr>afMin = motion_clamp ((lo + hi) div 2 - 10) 0 80, afMax = motion_clamp ((lo + hi) div 2 - 10) 0 80 + 20\<rparr>
       else Some \<lparr>afMin = lo, afMax = hi\<rparr>)"
    by (simp add: g normalizeAreaFocus_def Let_def minimumFocusWidthPercent_def lo_def hi_def clamp_id add.commute
        min_def max_def)
  show ?thesis
    using assms b clamp_bounds [of 0 80 "(lo + hi) div 2 - 10"] unfolding n by (auto simp: focus_ok_def split: if_splits)
qed

section \<open>Properties\<close>

text \<open>
  Normalising twice is normalising once, and what comes out is safe to plan with.  The
  settings have a speed range inside 1..100 and a stroke window inside 0..100 that is never empty,
  whatever the stored file said; a focus is inside the stroke, at least 20 percent wide and narrower
  than the whole stroke, and is kept as it is by every later normalisation, as is an anchor.
\<close>

theorem normalised_once:
  "normalizeMotionSettings (normalizeMotionSettings s) = normalizeMotionSettings s \<and>
    settings_ok (normalizeMotionSettings s) \<and>
    resolveAreaFocus media (resolveAreaFocus media focus) = resolveAreaFocus media focus \<and>
    (\<forall>f. resolveAreaFocus media focus = Some f \<longrightarrow>
       focus_ok f \<and> effectiveAreaFocus media (Some f) = Some f) \<and>
    normalizeSoftAnchor (normalizeSoftAnchor anchor) = normalizeSoftAnchor anchor"
proof -
  have "normalizeMotionSettings (normalizeMotionSettings s) = normalizeMotionSettings s"
    by (rule settings_ok_id [OF settings_ok_normalize normalize_model])
  moreover have "resolveAreaFocus media (resolveAreaFocus media focus) = resolveAreaFocus media focus"
  proof (cases "resolveAreaFocus media focus")
    case None
    then show ?thesis by (simp add: resolveAreaFocus_def normalizeAreaFocus_def)
  next
    case (Some f)
    then have "\<not> media" "focus_ok f" by (auto simp: resolveAreaFocus_def normalize_focus_ok split: if_splits)
    then show ?thesis using Some by (simp add: resolveAreaFocus_def focus_ok_fix)
  qed
  moreover have "focus_ok f \<and> effectiveAreaFocus media (Some f) = Some f" if "resolveAreaFocus media focus = Some f" for f
    using that by (auto simp: resolveAreaFocus_def effectiveAreaFocus_def normalize_focus_ok focus_ok_fix split: if_splits)
  moreover have "normalizeSoftAnchor (normalizeSoftAnchor anchor) = normalizeSoftAnchor anchor"
    by (auto simp: normalizeSoftAnchor_def Let_def motion_clamp_def split: option.split)
  ultimately show ?thesis by (simp add: settings_ok_normalize)
qed

definition oddSettings :: motion_settings where
  "oddSettings = \<lparr>msSpeedMin = 90, msSpeedMax = 30, msStrokeMin = 100, msStrokeMax = 0, msReverse = True,
     msVideoLimit = False, msStyle = [], msHandyModel = []\<rparr>"

lemma normalised_once_witness:
  "settings_ok (normalizeMotionSettings oddSettings) \<and>
   msStrokeMin (normalizeMotionSettings oddSettings) = 99 \<and>
   resolveAreaFocus False (Some \<lparr>afMin = 98, afMax = 97\<rparr>) = Some \<lparr>afMin = 80, afMax = 100\<rparr> \<and>
   resolveAreaFocus False (resolveAreaFocus False (Some \<lparr>afMin = 98, afMax = 97\<rparr>)) = Some \<lparr>afMin = 80, afMax = 100\<rparr>"
proof -
  have 1: "resolveAreaFocus False (Some \<lparr>afMin = 98, afMax = 97\<rparr>) = Some \<lparr>afMin = 80, afMax = 100\<rparr>"
    "msStrokeMin (normalizeMotionSettings oddSettings) = 99"
    by code_simp+
  show ?thesis
    using normalised_once [of oddSettings False "Some \<lparr>afMin = 98, afMax = 97\<rparr>" None] 1 by simp
qed

end
