(* ===== verification/MotionEngine.thy ===== *)
theory MotionEngine
  imports MotionTarget
begin

text \<open>
  The state of the motion engine and its critical sections: \<open>internal/motion/engine.go\<close>,
  \<open>dispatch.go\<close>, \<open>startup_reset.go\<close> and the locked parts of \<open>vibration.go\<close>.  Every definition here
  is what one stretch of code does to the fields under \<open>Engine.mu\<close>; \<open>EngineRuns\<close> interleaves them
  with the transport, the command lock and the dispatch loop.

  The planner and the sampler compute curves in floating point and are not modelled.  What they
  answer in a step (does the plan compile, where is its phase, is it complete, the times of the
  next samples) is an argument, and a target is its opaque content with the three attributes the
  engine itself reads.  A context and its cancel function are named by the run they belong to, and
  so is the \<open>done\<close> channel of a loop.
\<close>

section \<open>State\<close>

datatype eng_error =
    RunInvalidated
  | StartInvalidated
  | LinearPending
  | RunningOrStopping
  | NotPaused
  | NotRunning
  | StillStarting
  | ContextDone
  | PlanError string
  | BadVibration
  | VibrationUnavailable
  | TransportError string
  | RecoveryStop string
  | NoLeadBuffer
  | NoPrebuffer
  | EmptyChunk
  | StartupReadings
  | StartupMoving
  | StartupArrival
  | StartupUnsafe
  | ResetUnavailable
  | ResetUnconfirmed
  | NoPositionReport
  | SafetyStopFailed eng_error eng_error

record motion_target =
  tgContent :: string
  tgVibration :: "vibration_spec option"
  tgVibrationOnly :: bool
  tgMedia :: bool

record motion_plan =
  plID :: string
  plTarget :: motion_target
  plLoop :: bool
  plPhasePreserved :: bool

record vibration_plan =
  vpSpec :: vibration_spec
  vpFrom :: int
  vpRevision :: nat

record startup_recovery =
  srID :: string
  srKind :: string
  srResetting :: bool

record engine =
  enVibration :: "vibration_plan option"
  enVibrationRevision :: nat
  enVibrationTail :: int
  enLinearStartPending :: bool
  enRunning :: bool
  enStarting :: bool
  enCompleting :: bool
  enPaused :: bool
  enPausedPhase :: rat
  enFrozenPhase :: rat
  enPausedTarget :: motion_target
  enRunMillisAccum :: int
  enGeneration :: nat
  enRunEpoch :: nat
  enStopGeneration :: nat
  enStopBarriers :: nat
  enStreamID :: string
  enPlan :: motion_plan
  enSettings :: motion_settings
  enStartedAt :: time
  enNextSampleMillis :: int
  enLastSample :: "int option" \<comment> \<open>its stream time\<close>
  enCurrentSample :: "int option"
  enLastError :: "eng_error option"
  enRecovery :: "startup_recovery option"
  enResetCancel :: "bool option" \<comment> \<open>whether the reset's context was cancelled through it\<close>
  enLatency :: "int list"
  enTransition :: bool
  enRunCtx :: "nat option"
  enCancel :: "nat option"
  enDone :: "nat option"

text \<open>The options a transport's capabilities set in \<open>NewEngine\<close>.\<close>

record engine_options =
  eoPrefix :: string
  eoDispatchInterval :: duration
  eoMinimumLead :: int
  eoMinimumMediaLead :: int
  eoSampleInterval :: duration
  eoMinimumPointInterval :: int
  eoPreferredPointInterval :: int
  eoSparse :: bool
  eoResolution :: rat
  eoResolutionAfterWindow :: bool
  eoPreserveKnots :: bool
  eoMaximumChunkPoints :: nat
  eoGroup :: "bool list option" \<comment> \<open>the participants of a linked transport\<close>
  eoProvider :: bool \<comment> \<open>the transport reports its physical state\<close>

record plan_answer =
  paError :: "string option"
  paLoop :: bool
  paPhase :: rat
  paComplete :: bool
  paBridge :: bool

record timing_capabilities =
  tcMinimumPointInterval :: duration
  tcMinimumBufferedLead :: duration
  tcMinimumMediaBufferedLead :: duration

record sampling_capabilities =
  smResolutionPercent :: rat
  smAfterStrokeWindow :: bool
  smMaximumPoints :: int
  smPreferredPointInterval :: duration
  smPreferSparse :: bool

definition maximumAdaptiveChunkPoints :: nat where "maximumAdaptiveChunkPoints = 128"
definition defaultDispatchInterval :: duration where "defaultDispatchInterval = 200000000"
definition defaultSampleInterval :: duration where "defaultSampleInterval = 125000000"

text \<open>\<open>applyDefaults\<close>, and the capabilities of the transport over them.\<close>

definition applyDefaults :: "engine_options \<Rightarrow> engine_options" where
  "applyDefaults o1 =
     (let o2 = (if eoDispatchInterval o1 \<le> 0 then o1\<lparr>eoDispatchInterval := defaultDispatchInterval\<rparr> else o1);
          o3 = (if eoSampleInterval o2 \<le> 0 then o2\<lparr>eoSampleInterval := defaultSampleInterval\<rparr>
                else if eoSampleInterval o2 < millisecond then o2\<lparr>eoSampleInterval := millisecond\<rparr> else o2) in
      if eoPrefix o3 = [] then o3\<lparr>eoPrefix := ''motion''\<rparr> else o3)"

definition millis_up :: "duration \<Rightarrow> int" where
  "millis_up d = (d + millisecond - 1) div millisecond"

definition applyTiming :: "timing_capabilities \<Rightarrow> engine_options \<Rightarrow> engine_options" where
  "applyTiming c o1 =
     (let o2 = (if eoSampleInterval o1 < tcMinimumPointInterval c
                then o1\<lparr>eoSampleInterval := tcMinimumPointInterval c\<rparr> else o1);
          o3 = (if 0 < tcMinimumPointInterval c
                then o2\<lparr>eoMinimumPointInterval := millis_up (tcMinimumPointInterval c)\<rparr> else o2);
          o4 = (if 0 < tcMinimumBufferedLead c
                then o3\<lparr>eoMinimumLead := max 1 (to_millis (tcMinimumBufferedLead c))\<rparr> else o3) in
      if 0 < tcMinimumMediaBufferedLead c
      then o4\<lparr>eoMinimumMediaLead := max 1 (to_millis (tcMinimumMediaBufferedLead c))\<rparr> else o4)"

definition applySampling :: "sampling_capabilities \<Rightarrow> engine_options \<Rightarrow> engine_options" where
  "applySampling c o0 =
     (let o1 = o0\<lparr>eoSparse := smPreferSparse c\<rparr>;
          o2 = (if 0 < smPreferredPointInterval c
                then o1\<lparr>eoPreferredPointInterval := millis_up (smPreferredPointInterval c)\<rparr> else o1);
          o3 = (if 0 < smResolutionPercent c \<and> smResolutionPercent c \<le> 100
                then o2\<lparr>eoResolution := smResolutionPercent c, eoResolutionAfterWindow := smAfterStrokeWindow c\<rparr>
                else o2) in
      if 2 \<le> smMaximumPoints c \<and> smMaximumPoints c < int (eoMaximumChunkPoints o3)
      then o3\<lparr>eoMaximumChunkPoints := nat (smMaximumPoints c)\<rparr> else o3)"

definition newEngineOptions :: "string \<Rightarrow> duration \<Rightarrow> duration \<Rightarrow> timing_capabilities option \<Rightarrow>
    sampling_capabilities option \<Rightarrow> bool list option \<Rightarrow> bool \<Rightarrow> engine_options" where
  "newEngineOptions name dispatch sample timing sampling linked provider =
     (let o1 = applyDefaults
            \<lparr>eoPrefix = name, eoDispatchInterval = dispatch, eoMinimumLead = 0, eoMinimumMediaLead = 0,
             eoSampleInterval = sample, eoMinimumPointInterval = 0, eoPreferredPointInterval = 0, eoSparse = False,
             eoResolution = 0, eoResolutionAfterWindow = False, eoPreserveKnots = True,
             eoMaximumChunkPoints = maximumAdaptiveChunkPoints, eoGroup = linked, eoProvider = provider\<rparr>;
          o2 = (case timing of None \<Rightarrow> o1 | Some c \<Rightarrow> applyTiming c o1) in
      case sampling of None \<Rightarrow> o2 | Some c \<Rightarrow> applySampling c o2)"

definition noTarget :: motion_target where
  "noTarget = \<lparr>tgContent = [], tgVibration = None, tgVibrationOnly = False, tgMedia = False\<rparr>"

definition noPlan :: motion_plan where
  "noPlan = \<lparr>plID = [], plTarget = noTarget, plLoop = False, plPhasePreserved = False\<rparr>"

definition noSettings :: motion_settings where
  "noSettings = \<lparr>msSpeedMin = 0, msSpeedMax = 0, msStrokeMin = 0, msStrokeMax = 0, msReverse = False,
     msVideoLimit = False, msStyle = [], msHandyModel = []\<rparr>"

definition newEngine :: engine where
  "newEngine =
     \<lparr>enVibration = None, enVibrationRevision = 0, enVibrationTail = 0, enLinearStartPending = False,
      enRunning = False, enStarting = False, enCompleting = False, enPaused = False, enPausedPhase = 0,
      enFrozenPhase = 0, enPausedTarget = noTarget, enRunMillisAccum = 0, enGeneration = 0, enRunEpoch = 0,
      enStopGeneration = 0, enStopBarriers = 0, enStreamID = [], enPlan = noPlan, enSettings = noSettings,
      enStartedAt = zero_time, enNextSampleMillis = 0, enLastSample = None, enCurrentSample = None,
      enLastError = None, enRecovery = None, enResetCancel = None, enLatency = [], enTransition = False,
      enRunCtx = None, enCancel = None, enDone = None\<rparr>"

section \<open>Helpers under the lock\<close>

definition validateRunLocked :: "nat \<Rightarrow> engine \<Rightarrow> eng_error option" where
  "validateRunLocked ep e = (if \<not> enRunning e \<or> enRunEpoch e \<noteq> ep then Some RunInvalidated else None)"

definition estimatedPlaybackMillisLocked :: "time \<Rightarrow> engine \<Rightarrow> int" where
  "estimatedPlaybackMillisLocked now e =
     (if enStartedAt e = zero_time then 0
      else let elapsed = to_millis (time_sub now (enStartedAt e)) in if elapsed < 0 then 0 else elapsed)"

definition captureCurrentSampleLocked :: "int \<Rightarrow> engine \<Rightarrow> engine" where
  "captureCurrentSampleLocked ms e =
     e\<lparr>enCurrentSample := (if plID (enPlan e) = [] then None else Some ms)\<rparr>"

definition recentCommandLatencyMillisLocked :: "engine \<Rightarrow> int" where
  "recentCommandLatencyMillisLocked e = foldl (\<lambda>recent l. if recent < l then l else recent) 0 (enLatency e)"

definition selectedMinimumBufferedLeadMillisLocked :: "engine_options \<Rightarrow> engine \<Rightarrow> int" where
  "selectedMinimumBufferedLeadMillisLocked opt e =
     (if tgMedia (plTarget (enPlan e)) \<and> 0 < eoMinimumMediaLead opt then eoMinimumMediaLead opt
      else eoMinimumLead opt)"

definition leadSafetyPaddingMillis :: int where "leadSafetyPaddingMillis = 250"
definition minLeadMillis :: int where "minLeadMillis = 500"
definition maxLeadMillis :: int where "maxLeadMillis = 2000"
definition latencySampleLimit :: nat where "latencySampleLimit = 8"

definition leadMillisLocked :: "engine_options \<Rightarrow> engine \<Rightarrow> int" where
  "leadMillisLocked opt e =
     (let lead = recentCommandLatencyMillisLocked e + leadSafetyPaddingMillis + to_millis (eoDispatchInterval opt);
          lead1 = (if lead < minLeadMillis then minLeadMillis else lead);
          lead2 = (if maxLeadMillis < lead1 then maxLeadMillis else lead1);
          low = selectedMinimumBufferedLeadMillisLocked opt e in
      if lead2 < low then low else lead2)"

definition bufferedTailMillisLocked :: "engine \<Rightarrow> int" where
  "bufferedTailMillisLocked e = (case enLastSample e of None \<Rightarrow> 0 | Some t \<Rightarrow> t)"

definition refillTailMillisLocked :: "engine_options \<Rightarrow> int \<Rightarrow> engine \<Rightarrow> int" where
  "refillTailMillisLocked opt requiredTail e =
     (if \<not> tgMedia (plTarget (enPlan e)) \<or> eoMinimumMediaLead opt \<le> 0 then 0
      else requiredTail + min (eoMinimumMediaLead opt div 2) 4000)"

definition playbackStateNeedsRecovery :: "string \<Rightarrow> bool" where
  "playbackStateNeedsRecovery st \<longleftrightarrow>
     toLower (trimSpace st) \<in> set [''not_initialized'', ''stopped'', ''paused'', ''starved'', ''starving'', ''rejected'', ''stale'',
       ''hsp_paused_on_starving'', ''hsp_starving'', ''hsp_state_paused'', ''hsp_state_starving'']"

definition planIDLocked :: "engine \<Rightarrow> string" where
  "planIDLocked e = enStreamID e @ ''-'' @ padded 6 (enGeneration e)"

definition newPlan :: "plan_answer \<Rightarrow> motion_target \<Rightarrow> engine \<Rightarrow> motion_plan" where
  "newPlan pa target e =
     \<lparr>plID = planIDLocked e, plTarget = target, plLoop = paLoop pa, plPhasePreserved = False\<rparr>"

definition setVibrationLocked :: "vibration_spec \<Rightarrow> int \<Rightarrow> engine \<Rightarrow> engine" where
  "setVibrationLocked spec ms e =
     (let r = Suc (enVibrationRevision e) in
      e\<lparr>enVibrationRevision := r, enVibration := Some \<lparr>vpSpec = spec, vpFrom = ms, vpRevision = r\<rparr>,
        enPlan := (enPlan e)\<lparr>plTarget := (plTarget (enPlan e))\<lparr>tgVibration := Some spec\<rparr>\<rparr>\<rparr>)"

text \<open>A fresh envelope for the plan just installed: none, or the target's own.\<close>

definition adoptVibration :: "motion_target \<Rightarrow> engine \<Rightarrow> engine" where
  "adoptVibration target e =
     (let e1 = e\<lparr>enVibration := None, enVibrationTail := 0\<rparr> in
      case tgVibration target of None \<Rightarrow> e1 | Some spec \<Rightarrow> setVibrationLocked spec 0 e1)"

text \<open>\<open>vibrationFrameLocked\<close>: the new tail; the points themselves are floating point.\<close>

definition vibrationFrameLocked :: "int \<Rightarrow> engine \<Rightarrow> engine" where
  "vibrationFrameLocked ms e = (if enVibration e = None then e else e\<lparr>enVibrationTail := ms + 2500\<rparr>)"

definition vibrationNeeded :: "time \<Rightarrow> engine \<Rightarrow> bool" where
  "vibrationNeeded now e =
     (case enVibration e of
        None \<Rightarrow> False
      | Some v \<Rightarrow> vsMode (vpSpec v) \<noteq> ''follow'' \<and>
          enVibrationTail e - estimatedPlaybackMillisLocked now e < 1500)"

definition vibrationLost :: "nat \<Rightarrow> engine \<Rightarrow> engine" where
  "vibrationLost ep e =
     (if enRunEpoch e = ep
      then e\<lparr>enVibration := None, enPlan := (enPlan e)\<lparr>plTarget := (plTarget (enPlan e))\<lparr>tgVibration := None\<rparr>\<rparr>\<rparr>
      else e)"

definition endStopBarrierLocked :: "engine \<Rightarrow> engine" where
  "endStopBarrierLocked e = (if 0 < enStopBarriers e then e\<lparr>enStopBarriers := enStopBarriers e - 1\<rparr> else e)"

definition rememberResult :: "int \<Rightarrow> eng_error option \<Rightarrow> engine \<Rightarrow> engine" where
  "rememberResult latency err e =
     (let e1 = (if 0 < latency
                then let ls = enLatency e @ [latency] in
                  e\<lparr>enLatency := (if latencySampleLimit < length ls then drop (length ls - latencySampleLimit) ls else ls)\<rparr>
                else e) in
      e1\<lparr>enLastError := err\<rparr>)"

definition rememberError :: "eng_error \<Rightarrow> engine \<Rightarrow> engine" where
  "rememberError err e = e\<lparr>enLastError := Some err\<rparr>"

section \<open>Starting\<close>

definition badVibration :: "motion_target \<Rightarrow> bool" where
  "badVibration target = (case tgVibration target of None \<Rightarrow> False | Some spec \<Rightarrow> \<not> vibration_valid spec)"

definition engine_begin :: "engine_options \<Rightarrow> time \<Rightarrow> bool \<Rightarrow> plan_answer \<Rightarrow> motion_target \<Rightarrow> motion_settings \<Rightarrow>
    nat \<Rightarrow> bool \<Rightarrow> engine \<Rightarrow> engine \<times> (eng_error + nat)" where
  "engine_begin opt now ctxErr pa target settings admission promoting e =
     (if ctxErr then (e, Inl ContextDone)
      else if enStopGeneration e \<noteq> admission then (e, Inl StartInvalidated)
      else if enLinearStartPending e \<and> \<not> promoting then (e, Inl LinearPending)
      else if enRunning e \<or> enCompleting e \<or> 0 < enStopBarriers e then (e, Inl RunningOrStopping)
      else if badVibration target then (e, Inl BadVibration)
      else let ep = Suc (enRunEpoch e); gen = Suc (enGeneration e);
               e1 = e\<lparr>enRunEpoch := ep, enGeneration := gen,
                 enStreamID := eoPrefix opt @ ''-'' @ padded 6 gen,
                 enSettings := normalizeMotionSettings settings, enStartedAt := now, enNextSampleMillis := 0,
                 enLastSample := None, enCurrentSample := None, enLastError := None, enLatency := [],
                 enTransition := False, enRecovery := None, enPaused := False, enCompleting := False,
                 enStarting := True, enFrozenPhase := 0, enRunMillisAccum := 0,
                 enCancel := Some ep, enRunCtx := Some ep, enDone := None\<rparr> in
        (case paError pa of
           Some m \<Rightarrow> (e1\<lparr>enRunCtx := None, enCancel := None, enDone := None, enStarting := False,
                       enLastError := Some (PlanError m)\<rparr>, Inl (PlanError m))
         | None \<Rightarrow>
             let e2 = adoptVibration target (e1\<lparr>enPlan := newPlan pa target e1\<rparr>) in
             ((captureCurrentSampleLocked 0 e2)\<lparr>enRunning := True\<rparr>, Inr ep)))"

definition beginResume :: "engine_options \<Rightarrow> time \<Rightarrow> plan_answer \<Rightarrow> engine \<Rightarrow> engine \<times> (eng_error + nat \<times> nat)" where
  "beginResume opt now pa e =
     (if enRunning e \<or> enCompleting e \<or> 0 < enStopBarriers e then (e, Inl RunningOrStopping)
      else if \<not> enPaused e then (e, Inl NotPaused)
      else let ep = Suc (enRunEpoch e); gen = Suc (enGeneration e);
               e1 = e\<lparr>enRunEpoch := ep, enRunCtx := Some ep, enCancel := Some ep, enDone := None,
                 enGeneration := gen, enStreamID := eoPrefix opt @ ''-'' @ padded 6 gen,
                 enStartedAt := now, enNextSampleMillis := 0, enLastError := None, enRecovery := None,
                 enLatency := [], enTransition := False, enFrozenPhase := enPausedPhase e\<rparr> in
        (case paError pa of
           Some m \<Rightarrow> (e1\<lparr>enRunCtx := None, enCancel := None, enDone := None, enLastError := Some (PlanError m)\<rparr>,
                     Inl (PlanError m))
         | None \<Rightarrow>
             let e2 = adoptVibration (enPausedTarget e)
                   (e1\<lparr>enPlan := (newPlan pa (enPausedTarget e) e1)\<lparr>plPhasePreserved := True\<rparr>\<rparr>) in
             ((captureCurrentSampleLocked 0 e2)\<lparr>enPaused := False, enStarting := True, enRunning := True\<rparr>,
              Inr (ep, enStopGeneration e))))"

definition restorePaused :: "nat \<Rightarrow> nat \<Rightarrow> engine \<Rightarrow> engine" where
  "restorePaused ep stopAdmission e =
     (if enRunEpoch e = ep \<and> enStopGeneration e = stopAdmission \<and> \<not> enRunning e \<and> enStopBarriers e = 0
      then e\<lparr>enPaused := True\<rparr> else e)"

text \<open>\<open>startLoop\<close>: whether the loop is launched.\<close>

definition startLoop :: "nat \<Rightarrow> engine \<Rightarrow> engine \<times> bool" where
  "startLoop ep e =
     (if validateRunLocked ep e \<noteq> None then (e, False)
      else (e\<lparr>enStarting := False, enDone := Some ep\<rparr>, True))"

definition alignPlaybackStart :: "nat \<Rightarrow> time option \<Rightarrow> engine \<Rightarrow> engine" where
  "alignPlaybackStart ep start e =
     (case start of
        None \<Rightarrow> e
      | Some t \<Rightarrow> if t = zero_time then e
                 else if validateRunLocked ep e = None then e\<lparr>enStartedAt := t\<rparr> else e)"

section \<open>Ending a run\<close>

text \<open>\<open>stopLoopLocked\<close>: the cancel function and the \<open>done\<close> channel it hands out, and whether a run was active.\<close>

definition stopLoopLocked :: "time \<Rightarrow> plan_answer \<Rightarrow> engine \<Rightarrow> engine \<times> nat option \<times> nat option \<times> bool" where
  "stopLoopLocked now pa e =
     (if enCompleting e then (e, None, enDone e, True)
      else if \<not> enRunning e then (e, None, None, False)
      else let played = estimatedPlaybackMillisLocked now e;
               e1 = captureCurrentSampleLocked played (e\<lparr>enFrozenPhase := paPhase pa\<rparr>) in
        (e1\<lparr>enRunning := False, enStarting := False, enCancel := None, enRunCtx := None, enDone := None\<rparr>,
         enCancel e, enDone e, True))"

definition stop_first :: "time \<Rightarrow> plan_answer \<Rightarrow> engine \<Rightarrow> engine \<times> nat option \<times> nat option \<times> bool" where
  "stop_first now pa e =
     (case stopLoopLocked now pa
             (e\<lparr>enStopGeneration := Suc (enStopGeneration e),
                enResetCancel := map_option (\<lambda>d. True) (enResetCancel e),
                enStopBarriers := Suc (enStopBarriers e)\<rparr>) of
        (e1, cancel, done, active) \<Rightarrow>
          (if active then e1 else e1\<lparr>enPaused := False, enRunMillisAccum := 0\<rparr>, cancel, done, active))"

definition finishStopped :: "eng_error option \<Rightarrow> engine \<Rightarrow> engine" where
  "finishStopped err e = e\<lparr>enLastError := err\<rparr>"

definition stop_last :: "engine \<Rightarrow> engine" where
  "stop_last e = endStopBarrierLocked (e\<lparr>enPaused := False, enRunMillisAccum := 0\<rparr>)"

datatype pause_outcome = PauseAlready | PauseRefused | PauseGoes "nat option" "nat option" nat

definition pause_first :: "time \<Rightarrow> plan_answer \<Rightarrow> engine \<Rightarrow> engine \<times> pause_outcome" where
  "pause_first now pa e =
     (if enPaused e \<and> \<not> enRunning e then (e, PauseAlready)
      else if \<not> enRunning e then (e, PauseRefused)
      else let played = estimatedPlaybackMillisLocked now e;
               e1 = e\<lparr>enPausedPhase := paPhase pa, enFrozenPhase := paPhase pa,
                      enPausedTarget := plTarget (enPlan e),
                      enRunMillisAccum := enRunMillisAccum e + played,
                      enStopBarriers := Suc (enStopBarriers e)\<rparr> in
        (case stopLoopLocked now pa e1 of
           (e2, cancel, done, active) \<Rightarrow> (e2, PauseGoes cancel done (enStopGeneration e))))"

definition pause_last :: "nat \<Rightarrow> engine \<Rightarrow> engine" where
  "pause_last admission e =
     endStopBarrierLocked (if enStopGeneration e = admission then e\<lparr>enPaused := True\<rparr> else e)"

definition complete_first :: "time \<Rightarrow> plan_answer \<Rightarrow> nat \<Rightarrow> engine \<Rightarrow> engine \<times> nat option option" where
  "complete_first now pa ep e =
     (if validateRunLocked ep e \<noteq> None \<or> plLoop (enPlan e) \<or> \<not> paComplete pa then (e, None)
      else let e1 = captureCurrentSampleLocked (estimatedPlaybackMillisLocked now e) e in
        (e1\<lparr>enRunning := False, enStarting := False, enCompleting := True,
            enStopBarriers := Suc (enStopBarriers e1), enCancel := None, enRunCtx := None,
            enFrozenPhase := 1, enRunMillisAccum := 0\<rparr>, Some (enCancel e)))"

definition complete_last :: "engine \<Rightarrow> engine" where
  "complete_last e =
     endStopBarrierLocked (e\<lparr>enCompleting := False, enCancel := None, enRunCtx := None, enDone := None\<rparr>)"

definition prepareRecovery :: "time \<Rightarrow> plan_answer \<Rightarrow> nat \<Rightarrow> string \<Rightarrow> engine \<Rightarrow>
    engine \<times> (eng_error + nat option \<times> nat option)" where
  "prepareRecovery now pa ep message e =
     (if validateRunLocked ep e \<noteq> None then (e, Inl RunInvalidated)
      else let e1 = captureCurrentSampleLocked (estimatedPlaybackMillisLocked now e)
                      (e\<lparr>enStopBarriers := Suc (enStopBarriers e), enFrozenPhase := paPhase pa\<rparr>) in
        (e1\<lparr>enRunning := False, enStarting := False, enCancel := None, enRunCtx := None, enDone := None,
            enLastError := Some (RecoveryStop message)\<rparr>, Inr (enCancel e, enDone e)))"

definition recovery_last :: "string \<Rightarrow> eng_error option \<Rightarrow> engine \<Rightarrow> engine" where
  "recovery_last message err e =
     endStopBarrierLocked (if err = None then e\<lparr>enLastError := Some (RecoveryStop message)\<rparr> else e)"

definition forceStopped :: "time \<Rightarrow> plan_answer \<Rightarrow> nat \<Rightarrow> eng_error option \<Rightarrow> engine \<Rightarrow> engine \<times> nat option option" where
  "forceStopped now pa ep err e =
     (if enRunEpoch e \<noteq> ep \<or> \<not> enRunning e then (e, None)
      else let e1 = captureCurrentSampleLocked (estimatedPlaybackMillisLocked now e)
                      (e\<lparr>enStopBarriers := Suc (enStopBarriers e), enFrozenPhase := paPhase pa\<rparr>);
               e2 = e1\<lparr>enRunning := False, enStarting := False, enCompleting := False, enCancel := None,
                       enRunCtx := None, enDone := None\<rparr> in
        (if err = None then e2 else e2\<lparr>enLastError := err\<rparr>, Some (enCancel e)))"

definition startupRecoveryKind :: "eng_error \<Rightarrow> string" where
  "startupRecoveryKind cause =
     (case cause of
        StartupReadings \<Rightarrow> ''invalid_telemetry''
      | StartupMoving \<Rightarrow> ''moving_after_stop''
      | StartupArrival \<Rightarrow> ''arrival_not_reached''
      | StartupUnsafe \<Rightarrow> ''unsafe_geometry''
      | _ \<Rightarrow> [])"

definition rememberStartupRecoveryLocked :: "string \<Rightarrow> eng_error \<Rightarrow> engine \<Rightarrow> engine" where
  "rememberStartupRecoveryLocked fresh cause e =
     (if startupRecoveryKind cause \<noteq> []
      then e\<lparr>enRecovery := Some \<lparr>srID = fresh, srKind = startupRecoveryKind cause, srResetting = False\<rparr>\<rparr>
      else e)"

definition abort_last :: "string \<Rightarrow> eng_error \<Rightarrow> eng_error option \<Rightarrow> engine \<Rightarrow> engine" where
  "abort_last fresh cause stopErr e =
     endStopBarrierLocked (rememberStartupRecoveryLocked fresh cause
       (e\<lparr>enLastError := Some (case stopErr of None \<Rightarrow> cause | Some s \<Rightarrow> SafetyStopFailed cause s)\<rparr>))"

section \<open>Retargeting\<close>

definition activeRunEpoch :: "string \<Rightarrow> engine \<Rightarrow> eng_error + nat" where
  "activeRunEpoch planID e =
     (if \<not> enRunning e then Inl NotRunning
      else if enStarting e then Inl StillStarting
      else if planID \<noteq> [] \<and> plID (enPlan e) \<noteq> planID then Inl RunInvalidated
      else Inr (enRunEpoch e))"

text \<open>
  The section of \<open>applyTarget\<close> that decides about promotion: from vibration only to linear motion.
  It returns the settings, the admission and the envelope to keep.
\<close>

definition promote_read :: "motion_target \<Rightarrow> engine \<Rightarrow>
    engine \<times> bool \<times> motion_settings \<times> nat \<times> vibration_spec option" where
  "promote_read target e =
     (let promote = (tgVibrationOnly (plTarget (enPlan e)) \<and> \<not> tgVibrationOnly target) in
      (if promote then e\<lparr>enLinearStartPending := True\<rparr> else e, promote, enSettings e, enStopGeneration e,
       tgVibration (plTarget (enPlan e))))"

definition keepVibration :: "vibration_spec option \<Rightarrow> motion_target \<Rightarrow> motion_target" where
  "keepVibration envelope target = (if tgVibration target = None then target\<lparr>tgVibration := envelope\<rparr> else target)"

definition retarget :: "time \<Rightarrow> plan_answer \<Rightarrow> nat \<Rightarrow> motion_target \<Rightarrow> engine \<Rightarrow> engine \<times> eng_error option" where
  "retarget now pa ep target0 e =
     (case validateRunLocked ep e of
        Some err \<Rightarrow> (e, Some err)
      | None \<Rightarrow>
          let estimated = estimatedPlaybackMillisLocked now e;
              previous = enPlan e;
              target1 = keepVibration (tgVibration (plTarget previous)) target0 in
          if badVibration target1 then (e, Some BadVibration)
          else let target = target1\<lparr>tgVibrationOnly := tgVibrationOnly (plTarget previous)\<rparr>;
                   e1 = e\<lparr>enGeneration := Suc (enGeneration e)\<rparr> in
            (case paError pa of
               Some m \<Rightarrow> (e1\<lparr>enLastError := Some (PlanError m)\<rparr>, Some (PlanError m))
             | None \<Rightarrow>
                 let e2 = e1\<lparr>enTransition := paBridge pa, enPlan := newPlan pa target e1\<rparr>;
                     e3 = (case tgVibration target of
                        None \<Rightarrow> e2
                      | Some spec \<Rightarrow>
                          if enVibration e2 = None \<or> vpSpec (the (enVibration e2)) \<noteq> spec
                          then setVibrationLocked spec estimated e2 else e2) in
                 (e3, None)))"

definition runEpochIfActive :: "engine \<Rightarrow> nat \<times> bool" where
  "runEpochIfActive e = (enRunEpoch e, enRunning e \<and> \<not> enStarting e)"

text \<open>The idle branch of \<open>RefreshSettings\<close>.\<close>

definition refresh_idle :: "motion_settings \<Rightarrow> engine \<Rightarrow> engine \<times> eng_error option" where
  "refresh_idle settings e =
     (if \<not> enRunning e then (e\<lparr>enSettings := normalizeMotionSettings settings\<rparr>, None) else (e, Some RunInvalidated))"

definition refreshSettings :: "plan_answer \<Rightarrow> nat \<Rightarrow> motion_settings \<Rightarrow> engine \<Rightarrow> engine \<times> eng_error option" where
  "refreshSettings pa ep settings0 e =
     (case validateRunLocked ep e of
        Some err \<Rightarrow> (e, Some err)
      | None \<Rightarrow>
          let settings = normalizeMotionSettings settings0;
              e1 = e\<lparr>enGeneration := Suc (enGeneration e)\<rparr> in
          (case paError pa of
             Some m \<Rightarrow> (e1\<lparr>enLastError := Some (PlanError m)\<rparr>, Some (PlanError m))
           | None \<Rightarrow>
               (e1\<lparr>enSettings := settings, enTransition := paBridge pa,
                   enPlan := (newPlan pa (plTarget (enPlan e)) e1)\<lparr>plPhasePreserved := True\<rparr>\<rparr>, None)))"

text \<open>The admission of \<open>applyVibration\<close>, under the command lock.\<close>

definition vibration_admit :: "time \<Rightarrow> vibration_spec \<Rightarrow> nat \<Rightarrow> nat option \<Rightarrow> engine \<Rightarrow> engine \<times> (eng_error + nat)" where
  "vibration_admit now spec admission generation e =
     (if \<not> enRunning e \<or> enStarting e \<or> enStopGeneration e \<noteq> admission \<or>
         (case generation of None \<Rightarrow> False | Some g \<Rightarrow> enGeneration e \<noteq> g)
      then (e, Inl RunInvalidated)
      else (setVibrationLocked spec (estimatedPlaybackMillisLocked now e) (e\<lparr>enGeneration := Suc (enGeneration e)\<rparr>),
            Inr (enRunEpoch e)))"

section \<open>The next chunk\<close>

text \<open>
  \<open>nextChunkThrough\<close> without media asks the sampler for one window after another until the target
  tail is reached or a further window would exceed the point limit.  The sampler maps the start of a
  window to the times of its samples and the start of the next window, and never returns no sample.
\<close>

type_synonym sampler = "int \<Rightarrow> eng_error + int list \<times> int"

definition sampleWindow :: "sampler \<Rightarrow> engine \<Rightarrow> engine \<times> (eng_error + int list)" where
  "sampleWindow sm e =
     (case sm (enNextSampleMillis e) of
        Inl err \<Rightarrow> (e, Inl err)
      | Inr (ts, next) \<Rightarrow>
          if ts = [] then (e, Inl EmptyChunk)
          else (e\<lparr>enNextSampleMillis := next, enLastSample := Some (last ts)\<rparr>, Inr ts))"

lemma sampleWindow_nonempty: "sampleWindow sm e = (d, Inr ts) \<Longrightarrow> 1 \<le> length ts"
  by (auto simp: Suc_le_eq sampleWindow_def split: sum.splits if_splits)

function fillChunk :: "engine_options \<Rightarrow> sampler \<Rightarrow> int \<Rightarrow> int list \<Rightarrow> engine \<Rightarrow> engine \<times> (eng_error + int list)" where
  "fillChunk opt sm targetTail ts e =
     (if last ts < targetTail
      then case sampleWindow sm e of
          (d, Inl err) \<Rightarrow> (d, Inl err)
        | (d, Inr extra) \<Rightarrow>
            if eoMaximumChunkPoints opt < length ts + length extra
            then (d\<lparr>enNextSampleMillis := enNextSampleMillis e, enLastSample := enLastSample e\<rparr>, Inr ts)
            else fillChunk opt sm targetTail (ts @ extra) d
      else (e, Inr ts))"
  by pat_completeness auto
termination
  by (relation "measure (\<lambda>(opt, sm, tail, ts, e). eoMaximumChunkPoints opt - length ts)")
     (auto dest!: sym [THEN sampleWindow_nonempty] simp: not_less intro!: diff_less_mono2)

declare fillChunk.simps [simp del]

text \<open>Fixed media is emitted at its own knots, in one window through the target tail.\<close>

definition linearMedia :: "engine_options \<Rightarrow> engine \<Rightarrow> bool" where
  "linearMedia opt e \<longleftrightarrow> tgMedia (plTarget (enPlan e)) \<and> \<not> enTransition e \<and> eoPreserveKnots opt \<and>
     eoMinimumPointInterval opt = 0"

definition nextChunkThrough :: "engine_options \<Rightarrow> sampler \<Rightarrow> (int \<Rightarrow> int \<Rightarrow> eng_error + int list) \<Rightarrow> nat \<Rightarrow> int \<Rightarrow> engine \<Rightarrow>
    engine \<times> (eng_error + string \<times> int list)" where
  "nextChunkThrough opt sm knots ep targetTail e =
     (case validateRunLocked ep e of
        Some err \<Rightarrow> (e, Inl err)
      | None \<Rightarrow>
          let finish = (\<lambda>r. case r of (d, Inl err) \<Rightarrow> (d, Inl err) | (d, Inr ts) \<Rightarrow> (d, Inr (enStreamID d, ts))) in
          if linearMedia opt e
          then finish (case knots (enNextSampleMillis e) targetTail of
              Inl err \<Rightarrow> (e, Inl err)
            | Inr ts \<Rightarrow> if ts = [] then (e, Inl EmptyChunk)
                else (e\<lparr>enNextSampleMillis := last ts + 1, enLastSample := Some (last ts)\<rparr>, Inr ts))
          else finish (case sampleWindow sm e of
              (d, Inl err) \<Rightarrow> (d, Inl err)
            | (d, Inr ts) \<Rightarrow> fillChunk opt sm targetTail ts d))"

section \<open>Position reset\<close>

definition reset_begin :: "bool \<Rightarrow> string \<Rightarrow> nat \<Rightarrow> engine \<Rightarrow> engine \<times> eng_error option" where
  "reset_begin ctxErr failureID admission e =
     (if ctxErr then (e, Some ContextDone)
      else if enStopGeneration e \<noteq> admission \<or>
          (case enRecovery e of None \<Rightarrow> True | Some r \<Rightarrow> srID r \<noteq> failureID \<or> srResetting r) \<or>
          enRunning e \<or> enStarting e \<or> enCompleting e \<or> 0 < enStopBarriers e
      then (e, Some ResetUnavailable)
      else (e\<lparr>enRecovery := map_option (\<lambda>r. r\<lparr>srResetting := True\<rparr>) (enRecovery e),
              enResetCancel := Some False, enStopBarriers := Suc (enStopBarriers e), enPaused := False,
              enRunMillisAccum := 0\<rparr>, None))"

definition reset_ctxErr :: "bool \<Rightarrow> engine \<Rightarrow> bool" where
  "reset_ctxErr ctxErr e \<longleftrightarrow> ctxErr \<or> enResetCancel e = Some True"

definition reset_end :: "bool \<Rightarrow> string \<Rightarrow> nat \<Rightarrow> eng_error option \<Rightarrow> engine \<Rightarrow> engine \<times> eng_error option" where
  "reset_end ctxErr failureID admission err e =
     (let cancelled = reset_ctxErr ctxErr e;
          e1 = endStopBarrierLocked (e\<lparr>enResetCancel := None\<rparr>) in
      case enRecovery e1 of
        None \<Rightarrow> (e1, err)
      | Some r \<Rightarrow>
          if srID r \<noteq> failureID then (e1, err)
          else let e2 = e1\<lparr>enRecovery := Some (r\<lparr>srResetting := False\<rparr>)\<rparr> in
            if enStopGeneration e2 \<noteq> admission \<or> cancelled
            then (e2, Some (case err of None \<Rightarrow> ContextDone | Some x \<Rightarrow> x))
            else (case err of
               Some x \<Rightarrow> (e2\<lparr>enLastError := Some x, enRecovery := Some (r\<lparr>srResetting := False,
                    srKind := (if startupRecoveryKind x \<noteq> [] then startupRecoveryKind x else srKind r)\<rparr>)\<rparr>, Some x)
             | None \<Rightarrow> (e2\<lparr>enRecovery := None, enLastError := None\<rparr>, None)))"

end
