(* ===== verification/EngineRuns.thy ===== *)
theory EngineRuns
  imports MotionEngine
begin

text \<open>
  The goroutines of the motion engine: every public method of \<open>Engine\<close>
  (\<open>internal/motion/engine.go\<close>, \<open>dispatch.go\<close>, \<open>startup.go\<close>, \<open>startup_reset.go\<close>,
  \<open>vibration.go\<close>) and the dispatch loop, interleaved at the grain of their critical sections.

  A goroutine is a script of operations: one operation is one section under \<open>Engine.mu\<close>, the
  acquisition of \<open>commandMu\<close> or \<open>targetMu\<close>, or one call of the transport, in the order of the code; a
  call expands into the script of its body.  An error skips the rest of the script up to the next
  operation that runs regardless: an error handler, a deferred call, or an operation that holds a
  lock or a stop barrier.  The transport's errors, latencies and playback state, the planner, the
  clock and the contexts' deadlines are answered by an environment that changes at every step.
\<close>

section \<open>Scripts\<close>

datatype read_kind = RStationary nat | RArrival nat | RVerify

datatype guarded =
    GStroke bool \<comment> \<open>whether a failure stops the run\<close>
  | GStartupStop
  | GLeadAppend string
  | GLeadPlay string
  | GRead read_kind
  | GAppend int
  | GPlay
  | GVibration

datatype stop_kind = SStop | SPause nat | SProgram | SRecovery string | SAbort eng_error

text \<open>The operations, grouped by the part of the engine they belong to.\<close>

datatype boot_op =
    BootBegin motion_target motion_settings nat bool
  | BootBeginResume
  | BootPrepare
  | BootOwner bool
  | BootBuild
  | BootWaitStartup
  | BootPrebuffer nat
  | BootAlign
  | BootCatch "nat option"
  | BootStartLoop
  | BootForce eng_error
  | BootRestore nat

datatype base_op =
    BaseCtx
  | BaseCheckRun
  | BaseFail eng_error
  | BaseHealthy
  | BaseHealthState bool
  | BaseRecover
  | BaseCancel "nat option"
  | BaseWaitLoop "nat option"

datatype cmd_op =
    CmdLock guarded
  | CmdEnter guarded
  | CmdValidate guarded string "int list"
  | CmdFrame
  | CmdSend nat guarded string "int list"
  | CmdSent guarded
  | CmdRecheck eng_error
  | CmdGiveUp
  | CmdVibAfter eng_error

datatype halt_op =
    HaltStopFirst
  | HaltPauseFirst
  | HaltStopLock stop_kind nat
  | HaltStopSend stop_kind nat
  | HaltStopSent stop_kind nat
  | HaltStopEnd stop_kind "eng_error option"

datatype tick_op =
    TickLoop
  | TickComplete
  | TickLeadCheck
  | TickRemember
  | TickVibLock
  | TickVibCheck
  | TickEnsure nat

datatype edit_op =
    EditTargetLock
  | EditTargetUnlock
  | EditActive string motion_target
  | EditPromote motion_target
  | EditPromoteCheck motion_target motion_settings nat
  | EditPendingClear
  | EditRetarget motion_target
  | EditRefresh motion_settings
  | EditRefreshIdle motion_settings
  | EditRefreshApply motion_settings
  | EditVibApplyLock vibration_spec nat "nat option"
  | EditVibAdmit vibration_spec nat "nat option"

datatype reset_op =
    ResetBegin string nat
  | ResetLock nat
  | ResetStop nat
  | ResetSent
  | ResetRead nat
  | ResetCtx
  | ResetUnlock
  | ResetEnd string nat

datatype op = Boot boot_op | Base base_op | Cmd cmd_op | Halt halt_op | Tick tick_op | Edit edit_op | Reset reset_op

text \<open>Short names for the scripts.\<close>

abbreviation OBegin :: "motion_target \<Rightarrow> motion_settings \<Rightarrow> nat \<Rightarrow> bool \<Rightarrow> op" where "OBegin x1 x2 x3 x4 \<equiv> Boot (BootBegin x1 x2 x3 x4)"
abbreviation OBeginResume :: "op" where "OBeginResume \<equiv> Boot BootBeginResume"
abbreviation OPrepare :: "op" where "OPrepare \<equiv> Boot BootPrepare"
abbreviation OOwner :: "bool \<Rightarrow> op" where "OOwner x1 \<equiv> Boot (BootOwner x1)"
abbreviation OBuild :: "op" where "OBuild \<equiv> Boot BootBuild"
abbreviation OWaitStartup :: "op" where "OWaitStartup \<equiv> Boot BootWaitStartup"
abbreviation OPrebuffer :: "nat \<Rightarrow> op" where "OPrebuffer x1 \<equiv> Boot (BootPrebuffer x1)"
abbreviation OAlign :: "op" where "OAlign \<equiv> Boot BootAlign"
abbreviation OCatch :: "nat option \<Rightarrow> op" where "OCatch x1 \<equiv> Boot (BootCatch x1)"
abbreviation OStartLoop :: "op" where "OStartLoop \<equiv> Boot BootStartLoop"
abbreviation OForce :: "eng_error \<Rightarrow> op" where "OForce x1 \<equiv> Boot (BootForce x1)"
abbreviation ORestore :: "nat \<Rightarrow> op" where "ORestore x1 \<equiv> Boot (BootRestore x1)"
abbreviation OCtx :: "op" where "OCtx \<equiv> Base BaseCtx"
abbreviation OCheckRun :: "op" where "OCheckRun \<equiv> Base BaseCheckRun"
abbreviation OFail :: "eng_error \<Rightarrow> op" where "OFail x1 \<equiv> Base (BaseFail x1)"
abbreviation OHealthy :: "op" where "OHealthy \<equiv> Base BaseHealthy"
abbreviation OHealthState :: "bool \<Rightarrow> op" where "OHealthState x1 \<equiv> Base (BaseHealthState x1)"
abbreviation ORecover :: "op" where "ORecover \<equiv> Base BaseRecover"
abbreviation OCancel :: "nat option \<Rightarrow> op" where "OCancel x1 \<equiv> Base (BaseCancel x1)"
abbreviation OWaitLoop :: "nat option \<Rightarrow> op" where "OWaitLoop x1 \<equiv> Base (BaseWaitLoop x1)"
abbreviation OLock :: "guarded \<Rightarrow> op" where "OLock x1 \<equiv> Cmd (CmdLock x1)"
abbreviation OEnter :: "guarded \<Rightarrow> op" where "OEnter x1 \<equiv> Cmd (CmdEnter x1)"
abbreviation OValidate :: "guarded \<Rightarrow> string \<Rightarrow> int list \<Rightarrow> op" where "OValidate x1 x2 x3 \<equiv> Cmd (CmdValidate x1 x2 x3)"
abbreviation OFrame :: "op" where "OFrame \<equiv> Cmd CmdFrame"
abbreviation OSend :: "nat \<Rightarrow> guarded \<Rightarrow> string \<Rightarrow> int list \<Rightarrow> op" where "OSend x1 x2 x3 x4 \<equiv> Cmd (CmdSend x1 x2 x3 x4)"
abbreviation OSent :: "guarded \<Rightarrow> op" where "OSent x1 \<equiv> Cmd (CmdSent x1)"
abbreviation ORecheck :: "eng_error \<Rightarrow> op" where "ORecheck x1 \<equiv> Cmd (CmdRecheck x1)"
abbreviation OGiveUp :: "op" where "OGiveUp \<equiv> Cmd CmdGiveUp"
abbreviation OVibAfter :: "eng_error \<Rightarrow> op" where "OVibAfter x1 \<equiv> Cmd (CmdVibAfter x1)"
abbreviation OStopFirst :: "op" where "OStopFirst \<equiv> Halt HaltStopFirst"
abbreviation OPauseFirst :: "op" where "OPauseFirst \<equiv> Halt HaltPauseFirst"
abbreviation OStopLock :: "stop_kind \<Rightarrow> nat \<Rightarrow> op" where "OStopLock x1 x2 \<equiv> Halt (HaltStopLock x1 x2)"
abbreviation OStopSend :: "stop_kind \<Rightarrow> nat \<Rightarrow> op" where "OStopSend x1 x2 \<equiv> Halt (HaltStopSend x1 x2)"
abbreviation OStopSent :: "stop_kind \<Rightarrow> nat \<Rightarrow> op" where "OStopSent x1 x2 \<equiv> Halt (HaltStopSent x1 x2)"
abbreviation OStopEnd :: "stop_kind \<Rightarrow> eng_error option \<Rightarrow> op" where "OStopEnd x1 x2 \<equiv> Halt (HaltStopEnd x1 x2)"
abbreviation OLoop :: "op" where "OLoop \<equiv> Tick TickLoop"
abbreviation OComplete :: "op" where "OComplete \<equiv> Tick TickComplete"
abbreviation OLeadCheck :: "op" where "OLeadCheck \<equiv> Tick TickLeadCheck"
abbreviation ORemember :: "op" where "ORemember \<equiv> Tick TickRemember"
abbreviation OVibLock :: "op" where "OVibLock \<equiv> Tick TickVibLock"
abbreviation OVibCheck :: "op" where "OVibCheck \<equiv> Tick TickVibCheck"
abbreviation OEnsure :: "nat \<Rightarrow> op" where "OEnsure x1 \<equiv> Tick (TickEnsure x1)"
abbreviation OTargetLock :: "op" where "OTargetLock \<equiv> Edit EditTargetLock"
abbreviation OTargetUnlock :: "op" where "OTargetUnlock \<equiv> Edit EditTargetUnlock"
abbreviation OActive :: "string \<Rightarrow> motion_target \<Rightarrow> op" where "OActive x1 x2 \<equiv> Edit (EditActive x1 x2)"
abbreviation OPromote :: "motion_target \<Rightarrow> op" where "OPromote x1 \<equiv> Edit (EditPromote x1)"
abbreviation OPromoteCheck :: "motion_target \<Rightarrow> motion_settings \<Rightarrow> nat \<Rightarrow> op" where "OPromoteCheck x1 x2 x3 \<equiv> Edit (EditPromoteCheck x1 x2 x3)"
abbreviation OPendingClear :: "op" where "OPendingClear \<equiv> Edit EditPendingClear"
abbreviation ORetarget :: "motion_target \<Rightarrow> op" where "ORetarget x1 \<equiv> Edit (EditRetarget x1)"
abbreviation ORefresh :: "motion_settings \<Rightarrow> op" where "ORefresh x1 \<equiv> Edit (EditRefresh x1)"
abbreviation ORefreshIdle :: "motion_settings \<Rightarrow> op" where "ORefreshIdle x1 \<equiv> Edit (EditRefreshIdle x1)"
abbreviation ORefreshApply :: "motion_settings \<Rightarrow> op" where "ORefreshApply x1 \<equiv> Edit (EditRefreshApply x1)"
abbreviation OVibApplyLock :: "vibration_spec \<Rightarrow> nat \<Rightarrow> nat option \<Rightarrow> op" where "OVibApplyLock x1 x2 x3 \<equiv> Edit (EditVibApplyLock x1 x2 x3)"
abbreviation OVibAdmit :: "vibration_spec \<Rightarrow> nat \<Rightarrow> nat option \<Rightarrow> op" where "OVibAdmit x1 x2 x3 \<equiv> Edit (EditVibAdmit x1 x2 x3)"
abbreviation OResetBegin :: "string \<Rightarrow> nat \<Rightarrow> op" where "OResetBegin x1 x2 \<equiv> Reset (ResetBegin x1 x2)"
abbreviation OResetLock :: "nat \<Rightarrow> op" where "OResetLock x1 \<equiv> Reset (ResetLock x1)"
abbreviation OResetStop :: "nat \<Rightarrow> op" where "OResetStop x1 \<equiv> Reset (ResetStop x1)"
abbreviation OResetSent :: "op" where "OResetSent \<equiv> Reset ResetSent"
abbreviation OResetRead :: "nat \<Rightarrow> op" where "OResetRead x1 \<equiv> Reset (ResetRead x1)"
abbreviation OResetCtx :: "op" where "OResetCtx \<equiv> Reset ResetCtx"
abbreviation OResetUnlock :: "op" where "OResetUnlock \<equiv> Reset ResetUnlock"
abbreviation OResetEnd :: "string \<Rightarrow> nat \<Rightarrow> op" where "OResetEnd x1 x2 \<equiv> Reset (ResetEnd x1 x2)"

record thread =
  thEpoch :: nat
  thLoop :: bool
  thErr :: "eng_error option"
  thOps :: "op list"

datatype wire_kind = WAppend string "int list" | WPlay string | WStroke | WStartupStop | WFinalStop

record wire_entry =
  weKind :: wire_kind
  weEpoch :: nat

record eworld =
  ewEngine :: engine
  ewCmd :: bool
  ewTarget :: bool
  ewCancelled :: "nat list"
  ewThreads :: "thread list"
  ewWire :: "wire_entry list"

text \<open>What the clock, the contexts, the planner and the transport answer in one step.\<close>

record eenv =
  vNow :: time
  vCtx :: bool
  vPlan :: plan_answer
  vErr :: "eng_error option"
  vLatency :: int
  vState :: string
  vSampler :: sampler
  vKnots :: "int \<Rightarrow> int \<Rightarrow> eng_error + int list"
  vReady :: bool
  vStateErr :: "eng_error option"
  vFinal :: bool
  vStart :: "time option"
  vDone :: bool
  vFresh :: string

definition startupStationaryAttempts :: nat where "startupStationaryAttempts = 3"
definition startupArrivalAttempts :: nat where "startupArrivalAttempts = 6"
definition leadAttempts :: nat where "leadAttempts = 64"

definition dispatchThrough :: "int \<Rightarrow> op list" where
  "dispatchThrough tail = [OHealthy, OLock (GAppend tail)]"

text \<open>
  The body of \<open>startAtGeneration\<close> and \<open>Resume\<close> after a successful begin.  \<open>OCatch\<close> stands for the
  error branches: abort the start-up, and for a resume (with its admission) restore the pause.
\<close>

definition startup_script :: "nat option \<Rightarrow> op list" where
  "startup_script resume =
     OPrepare # dispatchThrough 0 @ [OPrebuffer 0, OLock GPlay, OCtx, OAlign, OCatch resume, OStartLoop]"

definition owner_script :: "string \<Rightarrow> bool \<Rightarrow> op list" where
  "owner_script stream finalReady =
     [OLock (GStroke False), OLock (GLeadAppend stream), OLock (GLeadPlay stream), OWaitStartup,
      OLock (GRead (RArrival 0)), OLock GStartupStop, OLock (GRead RVerify)] @
     (if finalReady then [] else [OLock (GStroke False)])"

definition participants :: "engine_options \<Rightarrow> bool list" where
  "participants opt = (case eoGroup opt of None \<Rightarrow> [eoProvider opt] | Some ps \<Rightarrow> ps)"

text \<open>A tick of the loop that did not complete the program.\<close>

definition tick_script :: "op list" where
  "tick_script = [OHealthy, OLeadCheck, ORemember, OVibLock, ORemember, OLoop]"

text \<open>Operations that run although an error is on its way up.\<close>

fun catches_boot :: "boot_op \<Rightarrow> bool" where
  "catches_boot (BootCatch x1) = True"
| "catches_boot (BootForce x1) = True"
| "catches_boot (BootRestore x1) = True"
| "catches_boot _ = False"

fun catches_base :: "base_op \<Rightarrow> bool" where
  "catches_base (BaseCancel x1) = True"
| "catches_base (BaseWaitLoop x1) = True"
| "catches_base _ = False"

fun catches_cmd :: "cmd_op \<Rightarrow> bool" where
  "catches_cmd (CmdEnter x1) = True"
| "catches_cmd (CmdValidate x1 x2 x3) = True"
| "catches_cmd CmdFrame = True"
| "catches_cmd (CmdSend x1 x2 x3 x4) = True"
| "catches_cmd (CmdSent x1) = True"
| "catches_cmd (CmdRecheck x1) = True"
| "catches_cmd CmdGiveUp = True"
| "catches_cmd _ = False"

fun catches_halt :: "halt_op \<Rightarrow> bool" where
  "catches_halt (HaltStopLock x1 x2) = True"
| "catches_halt (HaltStopSend x1 x2) = True"
| "catches_halt (HaltStopSent x1 x2) = True"
| "catches_halt (HaltStopEnd x1 x2) = True"
| "catches_halt _ = False"

fun catches_tick :: "tick_op \<Rightarrow> bool" where
  "catches_tick TickRemember = True"
| "catches_tick TickVibCheck = True"
| "catches_tick _ = False"

fun catches_edit :: "edit_op \<Rightarrow> bool" where
  "catches_edit EditTargetUnlock = True"
| "catches_edit EditPendingClear = True"
| "catches_edit (EditVibAdmit x1 x2 x3) = True"
| "catches_edit _ = False"

fun catches_reset :: "reset_op \<Rightarrow> bool" where
  "catches_reset (ResetStop x1) = True"
| "catches_reset ResetUnlock = True"
| "catches_reset (ResetEnd x1 x2) = True"
| "catches_reset _ = False"

fun catches :: "op \<Rightarrow> bool" where
  "catches (Boot x) = catches_boot x"
| "catches (Base x) = catches_base x"
| "catches (Cmd x) = catches_cmd x"
| "catches (Halt x) = catches_halt x"
| "catches (Tick x) = catches_tick x"
| "catches (Edit x) = catches_edit x"
| "catches (Reset x) = catches_reset x"

section \<open>Outcomes\<close>

type_synonym outcome = "(eworld \<times> thread) option"

definition goes :: "op list \<Rightarrow> thread \<Rightarrow> eworld \<Rightarrow> outcome" where
  "goes xs th w = Some (w, th\<lparr>thOps := xs @ thOps th\<rparr>)"

definition fails :: "eng_error \<Rightarrow> thread \<Rightarrow> eworld \<Rightarrow> outcome" where
  "fails x th w = Some (w, th\<lparr>thErr := Some x\<rparr>)"

definition returns :: "eng_error option \<Rightarrow> thread \<Rightarrow> eworld \<Rightarrow> outcome" where
  "returns r th w = Some (w, th\<lparr>thErr := r\<rparr>)"

definition setE :: "engine \<Rightarrow> eworld \<Rightarrow> eworld" where
  "setE e w = w\<lparr>ewEngine := e\<rparr>"

definition unlock :: "eworld \<Rightarrow> eworld" where
  "unlock w = w\<lparr>ewCmd := False\<rparr>"

text \<open>Acquiring \<open>commandMu\<close>, and going on with some operations.\<close>

definition locking :: "op list \<Rightarrow> thread \<Rightarrow> eworld \<Rightarrow> outcome" where
  "locking xs th w = (if ewCmd w then None else goes xs th (w\<lparr>ewCmd := True\<rparr>))"

definition emit :: "wire_kind \<Rightarrow> nat \<Rightarrow> eworld \<Rightarrow> eworld" where
  "emit k ep w = w\<lparr>ewWire := ewWire w @ [\<lparr>weKind = k, weEpoch = ep\<rparr>]\<rparr>"

definition recoveryMessage :: string where
  "recoveryMessage = ''motion recovery stopped active stream''"

text \<open>\<open>prepareRecovery\<close> and, when the run was current, \<open>finishRecovery\<close>.\<close>

definition recover :: "eenv \<Rightarrow> thread \<Rightarrow> eworld \<Rightarrow> outcome" where
  "recover v th w =
     (case prepareRecovery (vNow v) (vPlan v) (thEpoch th) recoveryMessage (ewEngine w) of
        (e, Inl x) \<Rightarrow> fails x th (setE e w)
      | (e, Inr (cancel, done)) \<Rightarrow>
          goes ((if cancel = None then []
                 else OCancel cancel # (if thLoop th then [] else [OWaitLoop done])) @
                [OStopLock (SRecovery recoveryMessage) (enRunEpoch e)]) th (setE e w))"

section \<open>Operations\<close>

subsection \<open>Start-up\<close>

definition run_Begin :: "engine_options \<Rightarrow> eenv \<Rightarrow> motion_target \<Rightarrow> motion_settings \<Rightarrow> nat \<Rightarrow> bool \<Rightarrow> thread \<Rightarrow> eworld \<Rightarrow> outcome"
where
  "run_Begin opt v target settings admission promoting th w =
     (case engine_begin opt (vNow v) (vCtx v) (vPlan v) target settings admission promoting (ewEngine w) of
        (e, Inl x) \<Rightarrow> fails x th (setE e w)
      | (e, Inr ep) \<Rightarrow> goes (startup_script None) (th\<lparr>thEpoch := ep\<rparr>) (setE e w))"

definition run_BeginResume :: "engine_options \<Rightarrow> eenv \<Rightarrow> thread \<Rightarrow> eworld \<Rightarrow> outcome" where
  "run_BeginResume opt v th w =
     (case beginResume opt (vNow v) (vPlan v) (ewEngine w) of
        (e, Inl x) \<Rightarrow> fails x th (setE e w)
      | (e, Inr (ep, admission)) \<Rightarrow>
          goes (startup_script (Some admission)) (th\<lparr>thEpoch := ep\<rparr>) (setE e w))"

definition run_Prepare :: "engine_options \<Rightarrow> thread \<Rightarrow> eworld \<Rightarrow> outcome" where
  "run_Prepare opt th w =
     (if tgVibrationOnly (plTarget (enPlan (ewEngine w))) then goes [] th w
      else case eoGroup opt of
        Some ps \<Rightarrow> goes (OLock GStartupStop # map OOwner ps) th w
      | None \<Rightarrow> goes [OOwner (eoProvider opt)] th w)"

definition run_Owner :: "bool \<Rightarrow> thread \<Rightarrow> eworld \<Rightarrow> outcome" where
  "run_Owner provider th w =
     goes (if provider then [OLock GStartupStop, OLock (GRead (RStationary 0)), OBuild]
           else [OCheckRun, OLock (GStroke False)]) th w"

text \<open>\<open>buildStartupMotionProfile\<close>: the geometry is floating point, its outcome an answer.\<close>

definition run_Build :: "eenv \<Rightarrow> thread \<Rightarrow> eworld \<Rightarrow> outcome" where
  "run_Build v th w =
     (case validateRunLocked (thEpoch th) (ewEngine w) of
        Some x \<Rightarrow> fails x th w
      | None \<Rightarrow> (case vStateErr v of
          Some x \<Rightarrow> fails x th w
        | None \<Rightarrow> if vReady v then goes [OLock (GStroke False)] th w
                  else goes (owner_script (enStreamID (ewEngine w) @ ''-startup'') (vFinal v)) th w))"

definition run_Ctx :: "eenv \<Rightarrow> thread \<Rightarrow> eworld \<Rightarrow> outcome" where
  "run_Ctx v th w = (if vCtx v then fails ContextDone th w else goes [] th w)"

definition run_Prebuffer :: "engine_options \<Rightarrow> nat \<Rightarrow> thread \<Rightarrow> eworld \<Rightarrow> outcome" where
  "run_Prebuffer opt n th w =
     (let e = ewEngine w in
      if n = leadAttempts then fails NoPrebuffer th w
      else case validateRunLocked (thEpoch th) e of
        Some x \<Rightarrow> fails x th w
      | None \<Rightarrow>
          let low = selectedMinimumBufferedLeadMillisLocked opt e;
              required = (if 0 < low then leadMillisLocked opt e else low);
              tail = (if tgMedia (plTarget (enPlan e)) then required else 0) in
          if required \<le> 0 \<or> required \<le> bufferedTailMillisLocked e then goes [] th w
          else goes (dispatchThrough tail @ [OPrebuffer (Suc n)]) th w)"

definition run_Catch :: "nat option \<Rightarrow> thread \<Rightarrow> eworld \<Rightarrow> outcome" where
  "run_Catch resume th w =
     (case thErr th of
        None \<Rightarrow> goes [] th w
      | Some x \<Rightarrow>
          goes ((if x = RunInvalidated then [] else [OForce x]) @
                (case resume of None \<Rightarrow> [] | Some admission \<Rightarrow> [ORestore admission])) th w)"

definition run_Force :: "eenv \<Rightarrow> eng_error \<Rightarrow> thread \<Rightarrow> eworld \<Rightarrow> outcome" where
  "run_Force v x th w =
     (case forceStopped (vNow v) (vPlan v) (thEpoch th) (Some x) (ewEngine w) of
        (e, None) \<Rightarrow> goes [] th (setE e w)
      | (e, Some cancel) \<Rightarrow> goes [OCancel cancel, OStopLock (SAbort x) (enRunEpoch e)] th (setE e w))"

definition run_StartLoop :: "thread \<Rightarrow> eworld \<Rightarrow> outcome" where
  "run_StartLoop th w =
     (case startLoop (thEpoch th) (ewEngine w) of
        (e, False) \<Rightarrow> fails RunInvalidated th (setE e w)
      | (e, True) \<Rightarrow>
          goes [] th ((setE e w)\<lparr>ewThreads := ewThreads w @
            [\<lparr>thEpoch = thEpoch th, thLoop = True, thErr = None, thOps = [OLoop]\<rparr>]\<rparr>))"

subsection \<open>Commands under \<open>commandMu\<close>\<close>

definition run_Enter :: "engine_options \<Rightarrow> eenv \<Rightarrow> guarded \<Rightarrow> thread \<Rightarrow> eworld \<Rightarrow> outcome" where
  "run_Enter opt v g th w =
     (case g of
        GAppend tail \<Rightarrow>
          (case nextChunkThrough opt (vSampler v) (vKnots v) (thEpoch th) tail (ewEngine w) of
             (e, Inl x) \<Rightarrow> fails x th (unlock (setE e w))
           | (e, Inr (stream, ts)) \<Rightarrow> goes [OValidate g stream ts] th (setE e w))
      | GPlay \<Rightarrow>
          (case validateRunLocked (thEpoch th) (ewEngine w) of
             Some x \<Rightarrow> fails x th (unlock w)
           | None \<Rightarrow> goes [OValidate g (enStreamID (ewEngine w)) []] th w)
      | GLeadAppend stream \<Rightarrow> goes [OValidate g stream []] th w
      | GLeadPlay stream \<Rightarrow> goes [OValidate g stream []] th w
      | _ \<Rightarrow> goes [OValidate g [] []] th w)"

text \<open>\<open>contextForRun\<close>.\<close>

definition run_Validate :: "guarded \<Rightarrow> string \<Rightarrow> int list \<Rightarrow> thread \<Rightarrow> eworld \<Rightarrow> outcome" where
  "run_Validate g stream ts th w =
     (if validateRunLocked (thEpoch th) (ewEngine w) \<noteq> None \<or> enRunCtx (ewEngine w) = None
      then fails RunInvalidated th (unlock w)
      else goes [if g = GVibration then OFrame else OSend (thEpoch th) g stream ts] th w)"

definition run_Frame :: "eenv \<Rightarrow> thread \<Rightarrow> eworld \<Rightarrow> outcome" where
  "run_Frame v th w =
     (let e = ewEngine w in
      case validateRunLocked (thEpoch th) e of
        Some x \<Rightarrow> fails x th (unlock w)
      | None \<Rightarrow> goes [OSend (thEpoch th) GVibration (enStreamID e) []] th
                  (setE (vibrationFrameLocked (estimatedPlaybackMillisLocked (vNow v) e) e) w))"

definition wire_of :: "guarded \<Rightarrow> string \<Rightarrow> int list \<Rightarrow> wire_kind option" where
  "wire_of g stream ts =
     (case g of
        GStroke r \<Rightarrow> Some WStroke
      | GStartupStop \<Rightarrow> Some WStartupStop
      | GLeadAppend s \<Rightarrow> Some (WAppend s ts)
      | GLeadPlay s \<Rightarrow> Some (WPlay s)
      | GRead k \<Rightarrow> None
      | GAppend tail \<Rightarrow> Some (WAppend stream ts)
      | GPlay \<Rightarrow> Some (WPlay stream)
      | GVibration \<Rightarrow> Some (WAppend stream ts))"

definition run_Send :: "eenv \<Rightarrow> nat \<Rightarrow> guarded \<Rightarrow> string \<Rightarrow> int list \<Rightarrow> thread \<Rightarrow> eworld \<Rightarrow> outcome" where
  "run_Send v n g stream ts th w =
     (let e = ewEngine w;
          w1 = (case g of
             GAppend tail \<Rightarrow> setE (vibrationFrameLocked (estimatedPlaybackMillisLocked (vNow v) e) e) w
           | _ \<Rightarrow> w) in
      goes [OSent g] th (case wire_of g stream ts of None \<Rightarrow> w1 | Some k \<Rightarrow> emit k n w1))"

fun is_append :: "guarded \<Rightarrow> bool" where
  "is_append (GAppend tail) = True"
| "is_append _ = False"

text \<open>What follows a reading of the physical state.\<close>

definition read_next :: "eenv \<Rightarrow> read_kind \<Rightarrow> thread \<Rightarrow> eworld \<Rightarrow> outcome" where
  "read_next v k th w =
     (case k of
        RStationary n \<Rightarrow>
          if vReady v then goes [] th w
          else if Suc n < startupStationaryAttempts
          then goes [OWaitStartup, OLock (GRead (RStationary (Suc n)))] th w
          else fails StartupMoving th w
      | RArrival n \<Rightarrow>
          (case vStateErr v of
             Some x \<Rightarrow> fails x th w
           | None \<Rightarrow>
               if vReady v then goes [] th w
               else if Suc n < startupArrivalAttempts
               then goes [OWaitStartup, OLock (GRead (RArrival (Suc n)))] th w
               else fails StartupArrival th w)
      | RVerify \<Rightarrow>
          (case vStateErr v of
             Some x \<Rightarrow> fails x th w
           | None \<Rightarrow> if vReady v then goes [] th w else fails StartupArrival th w))"

definition run_Sent :: "eenv \<Rightarrow> guarded \<Rightarrow> thread \<Rightarrow> eworld \<Rightarrow> outcome" where
  "run_Sent v g th w =
     (let w1 = setE (rememberResult (vLatency v) (vErr v) (ewEngine w)) w in
      case g of
        GRead k \<Rightarrow>
          (case vErr v of
             Some x \<Rightarrow> fails x th (unlock w1)
           | None \<Rightarrow> read_next v k th (unlock w1))
      | GVibration \<Rightarrow>
          (case vErr v of
             None \<Rightarrow> goes [] th (unlock w1)
           | Some x \<Rightarrow> goes [OVibAfter x] th
               (unlock (setE (rememberResult (vLatency v) (vErr v)
                 (if x = VibrationUnavailable then vibrationLost (thEpoch th) (ewEngine w) else ewEngine w)) w)))
      | _ \<Rightarrow>
          (case vErr v of
             None \<Rightarrow> goes [] th (unlock w1)
           | Some x \<Rightarrow>
               if g = GStroke True \<or> is_append g \<and> x \<noteq> RunInvalidated
               then goes [ORecheck x] th w1
               else fails x th (unlock w1)))"

text \<open>A failed append or window update stops the run, unless it has been invalidated meanwhile.\<close>

definition run_Recheck :: "eng_error \<Rightarrow> thread \<Rightarrow> eworld \<Rightarrow> outcome" where
  "run_Recheck x th w =
     (if validateRunLocked (thEpoch th) (ewEngine w) \<noteq> None then fails x th (unlock w)
      else goes [OGiveUp] th w)"

text \<open>The vibration's own error path, after \<open>commandMu\<close> is released.\<close>

definition run_VibAfter :: "eng_error \<Rightarrow> thread \<Rightarrow> eworld \<Rightarrow> outcome" where
  "run_VibAfter x th w =
     (if x = VibrationUnavailable then (if thLoop th then goes [] th w else fails x th w)
      else if validateRunLocked (thEpoch th) (ewEngine w) \<noteq> None then fails x th w
      else goes [ORecover] th w)"

subsection \<open>Health and recovery\<close>

definition run_Healthy :: "thread \<Rightarrow> eworld \<Rightarrow> outcome" where
  "run_Healthy th w =
     (case validateRunLocked (thEpoch th) (ewEngine w) of
        Some x \<Rightarrow> fails x th w
      | None \<Rightarrow> goes [OHealthState (enStarting (ewEngine w))] th w)"

definition run_HealthState :: "eenv \<Rightarrow> bool \<Rightarrow> thread \<Rightarrow> eworld \<Rightarrow> outcome" where
  "run_HealthState v starting th w =
     (if starting \<and> toLower (trimSpace (vState v)) \<in> set [''not_initialized'', ''stopped''] then goes [] th w
      else if \<not> playbackStateNeedsRecovery (vState v) then goes [] th w
      else goes [ORecover] th w)"

subsection \<open>The unconditional Stop of the transport\<close>

definition run_StopEnd :: "eenv \<Rightarrow> stop_kind \<Rightarrow> eng_error option \<Rightarrow> thread \<Rightarrow> eworld \<Rightarrow> outcome" where
  "run_StopEnd v k err th w =
     (let e = ewEngine w in
      case k of
        SStop \<Rightarrow> returns err th (unlock (setE (stop_last e) w))
      | SPause admission \<Rightarrow> returns err th (unlock (setE (pause_last admission e) w))
      | SProgram \<Rightarrow> goes [] th (unlock (setE (complete_last e) w))
      | SRecovery m \<Rightarrow> returns (Some (case err of None \<Rightarrow> RecoveryStop m | Some x \<Rightarrow> x)) th
                         (unlock (setE (recovery_last m err e) w))
      | SAbort cause \<Rightarrow> goes [] th (unlock (setE (abort_last (vFresh v) cause err e) w)))"

definition run_StopFirst :: "eenv \<Rightarrow> thread \<Rightarrow> eworld \<Rightarrow> outcome" where
  "run_StopFirst v th w =
     (case stop_first (vNow v) (vPlan v) (ewEngine w) of
        (e, cancel, done, active) \<Rightarrow>
          goes ((if active then [OCancel cancel, OWaitLoop done] else []) @ [OStopLock SStop (enRunEpoch e)])
            th (setE e w))"

definition run_PauseFirst :: "eenv \<Rightarrow> thread \<Rightarrow> eworld \<Rightarrow> outcome" where
  "run_PauseFirst v th w =
     (case pause_first (vNow v) (vPlan v) (ewEngine w) of
        (e, PauseAlready) \<Rightarrow> goes [] th (setE e w)
      | (e, PauseRefused) \<Rightarrow> fails NotRunning th (setE e w)
      | (e, PauseGoes cancel done admission) \<Rightarrow>
          goes [OCancel cancel, OWaitLoop done, OStopLock (SPause admission) (enRunEpoch e)] th (setE e w))"

subsection \<open>The dispatch loop\<close>

definition run_Loop :: "eenv \<Rightarrow> thread \<Rightarrow> eworld \<Rightarrow> outcome" where
  "run_Loop v th w =
     (if \<not> vDone v then goes [OComplete] th w
      else if thEpoch th \<in> set (ewCancelled w) then goes [] th w else None)"

definition run_Complete :: "eenv \<Rightarrow> thread \<Rightarrow> eworld \<Rightarrow> outcome" where
  "run_Complete v th w =
     (case complete_first (vNow v) (vPlan v) (thEpoch th) (ewEngine w) of
        (e, None) \<Rightarrow> goes tick_script th (setE e w)
      | (e, Some cancel) \<Rightarrow> goes [OCancel cancel, OStopLock SProgram (enRunEpoch e)] th (setE e w))"

definition run_LeadCheck :: "engine_options \<Rightarrow> eenv \<Rightarrow> thread \<Rightarrow> eworld \<Rightarrow> outcome" where
  "run_LeadCheck opt v th w =
     (let e = ewEngine w; required = estimatedPlaybackMillisLocked (vNow v) e + leadMillisLocked opt e in
      case validateRunLocked (thEpoch th) e of
        Some x \<Rightarrow> fails x th w
      | None \<Rightarrow> if bufferedTailMillisLocked e < required
                then goes (dispatchThrough (refillTailMillisLocked opt required e)) th w
                else goes [] th w)"

definition run_Remember :: "thread \<Rightarrow> eworld \<Rightarrow> outcome" where
  "run_Remember th w =
     (case thErr th of
        None \<Rightarrow> goes [] th w
      | Some x \<Rightarrow> returns None th (setE (rememberError x (ewEngine w)) w))"

definition run_VibCheck :: "eenv \<Rightarrow> thread \<Rightarrow> eworld \<Rightarrow> outcome" where
  "run_VibCheck v th w =
     (if vibrationNeeded (vNow v) (ewEngine w) then goes [OValidate GVibration [] []] th w
      else goes [] th (unlock w))"

subsection \<open>Targets, settings and vibration\<close>

definition run_Ensure :: "engine_options \<Rightarrow> eenv \<Rightarrow> nat \<Rightarrow> thread \<Rightarrow> eworld \<Rightarrow> outcome" where
  "run_Ensure opt v n th w =
     (let e = ewEngine w; required = estimatedPlaybackMillisLocked (vNow v) e + leadMillisLocked opt e in
      case validateRunLocked (thEpoch th) e of
        Some x \<Rightarrow> fails x th w
      | None \<Rightarrow> if required \<le> bufferedTailMillisLocked e then goes [] th w
                else goes (dispatchThrough (if tgMedia (plTarget (enPlan e)) then required else 0) @
                  (if Suc n < leadAttempts then [OHealthy, OEnsure (Suc n)] else [OFail NoLeadBuffer])) th w)"

definition ensureLeadBuffer :: "op list" where
  "ensureLeadBuffer = [OHealthy, OEnsure 0]"

definition run_Active :: "string \<Rightarrow> motion_target \<Rightarrow> thread \<Rightarrow> eworld \<Rightarrow> outcome" where
  "run_Active planID target th w =
     (case activeRunEpoch planID (ewEngine w) of
        Inl x \<Rightarrow> fails x th w
      | Inr ep \<Rightarrow> goes [OCtx, OPromote target] (th\<lparr>thEpoch := ep\<rparr>) w)"

definition run_Promote :: "motion_target \<Rightarrow> thread \<Rightarrow> eworld \<Rightarrow> outcome" where
  "run_Promote target th w =
     (case promote_read target (ewEngine w) of
        (e, promote, settings, admission, envelope) \<Rightarrow>
          if promote
          then goes [OPromoteCheck (keepVibration envelope target) settings admission, OPendingClear] th (setE e w)
          else goes (ensureLeadBuffer @ [OCtx, OCtx, ORetarget target] @ dispatchThrough 0) th (setE e w))"

definition run_PromoteCheck :: "eenv \<Rightarrow> motion_target \<Rightarrow> motion_settings \<Rightarrow> nat \<Rightarrow> thread \<Rightarrow> eworld \<Rightarrow> outcome" where
  "run_PromoteCheck v target settings admission th w =
     (if badVibration target then fails BadVibration th w
      else case paError (vPlan v) of
        Some m \<Rightarrow> fails (PlanError m) th w
      | None \<Rightarrow> goes [OStopFirst, OBegin target settings (Suc admission) True] th w)"

definition run_Retarget :: "eenv \<Rightarrow> motion_target \<Rightarrow> thread \<Rightarrow> eworld \<Rightarrow> outcome" where
  "run_Retarget v target th w =
     (case retarget (vNow v) (vPlan v) (thEpoch th) target (ewEngine w) of
        (e, r) \<Rightarrow> returns r th (setE e w))"

definition run_Refresh :: "motion_settings \<Rightarrow> thread \<Rightarrow> eworld \<Rightarrow> outcome" where
  "run_Refresh settings th w =
     (case runEpochIfActive (ewEngine w) of
        (ep, False) \<Rightarrow> goes [ORefreshIdle settings] th w
      | (ep, True) \<Rightarrow>
          goes (ensureLeadBuffer @ [ORefreshApply settings, OCheckRun, OLock (GStroke True)] @ dispatchThrough 0)
            (th\<lparr>thEpoch := ep\<rparr>) w)"

definition run_RefreshIdle :: "motion_settings \<Rightarrow> thread \<Rightarrow> eworld \<Rightarrow> outcome" where
  "run_RefreshIdle settings th w =
     (case refresh_idle settings (ewEngine w) of (e, r) \<Rightarrow> returns r th (setE e w))"

definition run_RefreshApply :: "eenv \<Rightarrow> motion_settings \<Rightarrow> thread \<Rightarrow> eworld \<Rightarrow> outcome" where
  "run_RefreshApply v settings th w =
     (case refreshSettings (vPlan v) (thEpoch th) settings (ewEngine w) of (e, r) \<Rightarrow> returns r th (setE e w))"

definition run_VibAdmit :: "eenv \<Rightarrow> vibration_spec \<Rightarrow> nat \<Rightarrow> nat option \<Rightarrow> thread \<Rightarrow> eworld \<Rightarrow> outcome" where
  "run_VibAdmit v spec admission generation th w =
     (if vCtx v then fails ContextDone th (unlock w)
      else case vibration_admit (vNow v) spec admission generation (ewEngine w) of
        (e, Inl x) \<Rightarrow> fails x th (unlock (setE e w))
      | (e, Inr ep) \<Rightarrow> goes [OValidate GVibration [] []] (th\<lparr>thEpoch := ep\<rparr>) (setE e w))"

subsection \<open>Position reset\<close>

definition run_ResetBegin :: "eenv \<Rightarrow> string \<Rightarrow> nat \<Rightarrow> thread \<Rightarrow> eworld \<Rightarrow> outcome" where
  "run_ResetBegin v failureID admission th w =
     (case reset_begin (vCtx v) failureID admission (ewEngine w) of
        (e, Some x) \<Rightarrow> fails x th (setE e w)
      | (e, None) \<Rightarrow> goes [OResetLock (enRunEpoch e), OResetEnd failureID admission] th (setE e w))"

definition run_ResetStop :: "eenv \<Rightarrow> nat \<Rightarrow> thread \<Rightarrow> eworld \<Rightarrow> outcome" where
  "run_ResetStop v n th w =
     (if reset_ctxErr (vCtx v) (ewEngine w) then fails ContextDone th (unlock w)
      else goes [OResetSent, OResetUnlock] th (emit WFinalStop n w))"

definition run_ResetSent :: "engine_options \<Rightarrow> eenv \<Rightarrow> thread \<Rightarrow> eworld \<Rightarrow> outcome" where
  "run_ResetSent opt v th w =
     (let r = (case vErr v of Some x \<Rightarrow> Some x | None \<Rightarrow> if vReady v then None else Some ResetUnconfirmed);
          w1 = setE (rememberResult (vLatency v) r (ewEngine w)) w;
          reads = map (\<lambda>p. OResetRead 0) (filter (\<lambda>p. p) (participants opt)) in
      case r of
        Some x \<Rightarrow> fails x th w1
      | None \<Rightarrow> goes (reads @ [if reads = [] then OFail NoPositionReport else OResetCtx]) th w1)"

definition run_ResetRead :: "eenv \<Rightarrow> nat \<Rightarrow> thread \<Rightarrow> eworld \<Rightarrow> outcome" where
  "run_ResetRead v n th w =
     (if reset_ctxErr (vCtx v) (ewEngine w) then fails ContextDone th w
      else let w1 = setE (rememberResult (vLatency v) (vErr v) (ewEngine w)) w in
      case vErr v of
        Some x \<Rightarrow> fails x th w1
      | None \<Rightarrow> (case vStateErr v of
          Some x \<Rightarrow> fails x th w1
        | None \<Rightarrow> if vReady v then goes [] th w1
                  else if Suc n < startupStationaryAttempts
                  then goes [OWaitStartup, OResetRead (Suc n)] th w1
                  else fails StartupMoving th w1))"

definition run_ResetEnd :: "eenv \<Rightarrow> string \<Rightarrow> nat \<Rightarrow> thread \<Rightarrow> eworld \<Rightarrow> outcome" where
  "run_ResetEnd v failureID admission th w =
     (case reset_end (vCtx v) failureID admission (thErr th) (ewEngine w) of
        (e, r) \<Rightarrow> returns r th (setE e w))"

section \<open>One step of a goroutine\<close>

text \<open>The loop whose \<open>done\<close> channel is \<open>d\<close> has not returned yet.\<close>

definition waits_for :: "nat option \<Rightarrow> eworld \<Rightarrow> bool" where
  "waits_for d w = (case d of None \<Rightarrow> False | Some n \<Rightarrow> list_ex (\<lambda>t. thLoop t \<and> thEpoch t = n) (ewThreads w))"

fun run_boot :: "engine_options \<Rightarrow> eenv \<Rightarrow> boot_op \<Rightarrow> thread \<Rightarrow> eworld \<Rightarrow> outcome" where
  "run_boot opt v (BootBegin t s a p) th w = run_Begin opt v t s a p th w"
| "run_boot opt v BootBeginResume th w = run_BeginResume opt v th w"
| "run_boot opt v BootPrepare th w = run_Prepare opt th w"
| "run_boot opt v (BootOwner p) th w = run_Owner p th w"
| "run_boot opt v BootBuild th w = run_Build v th w"
| "run_boot opt v BootWaitStartup th w = run_Ctx v th w"
| "run_boot opt v (BootPrebuffer n) th w = run_Prebuffer opt n th w"
| "run_boot opt v BootAlign th w = goes [] th (setE (alignPlaybackStart (thEpoch th) (vStart v) (ewEngine w)) w)"
| "run_boot opt v (BootCatch r) th w = run_Catch r th w"
| "run_boot opt v BootStartLoop th w = run_StartLoop th w"
| "run_boot opt v (BootForce x) th w = run_Force v x th w"
| "run_boot opt v (BootRestore a) th w = goes [] th (setE (restorePaused (thEpoch th) a (ewEngine w)) w)"

fun run_base :: "engine_options \<Rightarrow> eenv \<Rightarrow> base_op \<Rightarrow> thread \<Rightarrow> eworld \<Rightarrow> outcome" where
  "run_base opt v BaseCtx th w = run_Ctx v th w"
| "run_base opt v BaseCheckRun th w = returns (validateRunLocked (thEpoch th) (ewEngine w)) th w"
| "run_base opt v (BaseFail x) th w = fails x th w"
| "run_base opt v BaseHealthy th w = run_Healthy th w"
| "run_base opt v (BaseHealthState s) th w = run_HealthState v s th w"
| "run_base opt v BaseRecover th w = recover v th w"
| "run_base opt v (BaseCancel c) th w = goes [] th (w\<lparr>ewCancelled := (case c of None \<Rightarrow> ewCancelled w | Some n \<Rightarrow> n # ewCancelled w)\<rparr>)"
| "run_base opt v (BaseWaitLoop d) th w = (if waits_for d w then None else goes [] th w)"

fun run_cmd :: "engine_options \<Rightarrow> eenv \<Rightarrow> cmd_op \<Rightarrow> thread \<Rightarrow> eworld \<Rightarrow> outcome" where
  "run_cmd opt v (CmdLock g) th w = locking [OEnter g] th w"
| "run_cmd opt v (CmdEnter g) th w = run_Enter opt v g th w"
| "run_cmd opt v (CmdValidate g s ts) th w = run_Validate g s ts th w"
| "run_cmd opt v CmdFrame th w = run_Frame v th w"
| "run_cmd opt v (CmdSend n g s ts) th w = run_Send v n g s ts th w"
| "run_cmd opt v (CmdSent g) th w = run_Sent v g th w"
| "run_cmd opt v (CmdRecheck x) th w = run_Recheck x th w"
| "run_cmd opt v CmdGiveUp th w = recover v th (unlock w)"
| "run_cmd opt v (CmdVibAfter x) th w = run_VibAfter x th w"

fun run_halt :: "engine_options \<Rightarrow> eenv \<Rightarrow> halt_op \<Rightarrow> thread \<Rightarrow> eworld \<Rightarrow> outcome" where
  "run_halt opt v HaltStopFirst th w = run_StopFirst v th w"
| "run_halt opt v HaltPauseFirst th w = run_PauseFirst v th w"
| "run_halt opt v (HaltStopLock k n) th w = locking [OStopSend k n] th w"
| "run_halt opt v (HaltStopSend k n) th w = goes [OStopSent k n] th (emit WFinalStop n w)"
| "run_halt opt v (HaltStopSent k n) th w = goes [OStopEnd k (vErr v)] th (setE (finishStopped (vErr v) (ewEngine w)) w)"
| "run_halt opt v (HaltStopEnd k r) th w = run_StopEnd v k r th w"

fun run_tick :: "engine_options \<Rightarrow> eenv \<Rightarrow> tick_op \<Rightarrow> thread \<Rightarrow> eworld \<Rightarrow> outcome" where
  "run_tick opt v TickLoop th w = run_Loop v th w"
| "run_tick opt v TickComplete th w = run_Complete v th w"
| "run_tick opt v TickLeadCheck th w = run_LeadCheck opt v th w"
| "run_tick opt v TickRemember th w = run_Remember th w"
| "run_tick opt v TickVibLock th w = locking [OVibCheck] th w"
| "run_tick opt v TickVibCheck th w = run_VibCheck v th w"
| "run_tick opt v (TickEnsure n) th w = run_Ensure opt v n th w"

fun run_edit :: "engine_options \<Rightarrow> eenv \<Rightarrow> edit_op \<Rightarrow> thread \<Rightarrow> eworld \<Rightarrow> outcome" where
  "run_edit opt v EditTargetLock th w = (if ewTarget w then None else goes [] th (w\<lparr>ewTarget := True\<rparr>))"
| "run_edit opt v EditTargetUnlock th w = goes [] th (w\<lparr>ewTarget := False\<rparr>)"
| "run_edit opt v (EditActive i t) th w = run_Active i t th w"
| "run_edit opt v (EditPromote t) th w = run_Promote t th w"
| "run_edit opt v (EditPromoteCheck t s a) th w = run_PromoteCheck v t s a th w"
| "run_edit opt v EditPendingClear th w = goes [] th (setE ((ewEngine w)\<lparr>enLinearStartPending := False\<rparr>) w)"
| "run_edit opt v (EditRetarget t) th w = run_Retarget v t th w"
| "run_edit opt v (EditRefresh s) th w = run_Refresh s th w"
| "run_edit opt v (EditRefreshIdle s) th w = run_RefreshIdle s th w"
| "run_edit opt v (EditRefreshApply s) th w = run_RefreshApply v s th w"
| "run_edit opt v (EditVibApplyLock sp a g) th w = locking [OVibAdmit sp a g] th w"
| "run_edit opt v (EditVibAdmit sp a g) th w = run_VibAdmit v sp a g th w"

fun run_reset :: "engine_options \<Rightarrow> eenv \<Rightarrow> reset_op \<Rightarrow> thread \<Rightarrow> eworld \<Rightarrow> outcome" where
  "run_reset opt v (ResetBegin i a) th w = run_ResetBegin v i a th w"
| "run_reset opt v (ResetLock n) th w = locking [OResetStop n] th w"
| "run_reset opt v (ResetStop n) th w = run_ResetStop v n th w"
| "run_reset opt v ResetSent th w = run_ResetSent opt v th w"
| "run_reset opt v (ResetRead n) th w = run_ResetRead v n th w"
| "run_reset opt v ResetCtx th w = (if reset_ctxErr (vCtx v) (ewEngine w) then fails ContextDone th w else goes [] th w)"
| "run_reset opt v ResetUnlock th w = goes [] th (unlock w)"
| "run_reset opt v (ResetEnd i a) th w = run_ResetEnd v i a th w"

fun run_op :: "engine_options \<Rightarrow> eenv \<Rightarrow> op \<Rightarrow> thread \<Rightarrow> eworld \<Rightarrow> outcome" where
  "run_op opt v (Boot x) th w = run_boot opt v x th w"
| "run_op opt v (Base x) th w = run_base opt v x th w"
| "run_op opt v (Cmd x) th w = run_cmd opt v x th w"
| "run_op opt v (Halt x) th w = run_halt opt v x th w"
| "run_op opt v (Tick x) th w = run_tick opt v x th w"
| "run_op opt v (Edit x) th w = run_edit opt v x th w"
| "run_op opt v (Reset x) th w = run_reset opt v x th w"

text \<open>A goroutine whose script is empty ends; with an error it skips to the next handler.\<close>

definition advance :: "engine_options \<Rightarrow> eenv \<Rightarrow> thread \<Rightarrow> eworld \<Rightarrow> outcome" where
  "advance opt v th w =
     (case thOps th of
        [] \<Rightarrow> None
      | x # xs \<Rightarrow>
          if thErr th \<noteq> None \<and> \<not> catches x then Some (w, th\<lparr>thOps := xs\<rparr>)
          else run_op opt v x (th\<lparr>thOps := xs\<rparr>) w)"

section \<open>Calls\<close>

datatype engine_call =
    CallStart motion_target motion_settings nat
  | CallResume
  | CallPause
  | CallStop
  | CallApplyTarget string motion_target
  | CallRefreshSettings motion_settings
  | CallApplyVibration vibration_spec nat "nat option"
  | CallReset string nat

definition script :: "engine_call \<Rightarrow> op list" where
  "script call =
     (case call of
        CallStart t s a \<Rightarrow> [OBegin t s a False]
      | CallResume \<Rightarrow> [OCtx, OBeginResume]
      | CallPause \<Rightarrow> [OPauseFirst]
      | CallStop \<Rightarrow> [OStopFirst]
      | CallApplyTarget i t \<Rightarrow> [OTargetLock, OActive i t, OTargetUnlock]
      | CallRefreshSettings s \<Rightarrow> [OTargetLock, ORefresh s, OTargetUnlock]
      | CallApplyVibration sp a g \<Rightarrow>
          if vibration_valid sp then [OTargetLock, OVibApplyLock sp a g, OTargetUnlock] else []
      | CallReset i a \<Rightarrow> [OResetBegin i a])"

definition newThread :: "op list \<Rightarrow> thread" where
  "newThread xs = \<lparr>thEpoch = 0, thLoop = False, thErr = None, thOps = xs\<rparr>"

definition engine_start :: "engine_call \<Rightarrow> eworld \<Rightarrow> eworld" where
  "engine_start call w = w\<lparr>ewThreads := ewThreads w @ [newThread (script call)]\<rparr>"

definition newEWorld :: eworld where
  "newEWorld = \<lparr>ewEngine = newEngine, ewCmd = False, ewTarget = False, ewCancelled = [], ewThreads = [],
     ewWire = []\<rparr>"

inductive eng_step :: "engine_options \<Rightarrow> eworld \<Rightarrow> eworld \<Rightarrow> bool" for opt where
  call: "eng_step opt w (engine_start c w)"
| thread: "ewThreads w = xs @ th # ys \<Longrightarrow>
     advance opt v th (w\<lparr>ewThreads := xs @ ys\<rparr>) = Some (w', th') \<Longrightarrow>
     eng_step opt w (w'\<lparr>ewThreads := th' # ewThreads w'\<rparr>)"
| ended: "ewThreads w = xs @ th # ys \<Longrightarrow> thOps th = [] \<Longrightarrow> eng_step opt w (w\<lparr>ewThreads := xs @ ys\<rparr>)"

inductive_cases eng_stepE: "eng_step opt w w'"

end
