(* ===== verification/EngineSafety.thy ===== *)
theory EngineSafety
  imports EngineRuns
begin

text \<open>
  The invariant of the motion engine's runs.  \<open>core\<close> is the part of the engine that decides who may
  send what; every critical section leaves it alone or makes one of a few moves.  \<open>effect\<close>
  summarises one operation of a goroutine: what it does to the core, the locks, the wire and its own
  script.  \<open>engine_inv\<close> follows from it, and the properties follow from the invariant.
\<close>

section \<open>The core of the engine\<close>

record run_state =
  rsRunning :: bool
  rsEpoch :: nat
  rsBarriers :: nat
  rsPaused :: bool
  rsCompleting :: bool
  rsStops :: nat

definition core :: "engine \<Rightarrow> run_state" where
  "core e = \<lparr>rsRunning = enRunning e, rsEpoch = enRunEpoch e, rsBarriers = enStopBarriers e,
     rsPaused = enPaused e, rsCompleting = enCompleting e, rsStops = enStopGeneration e\<rparr>"

lemma core_sel [simp]:
  "rsRunning (core e) = enRunning e" "rsEpoch (core e) = enRunEpoch e" "rsBarriers (core e) = enStopBarriers e"
  "rsPaused (core e) = enPaused e" "rsCompleting (core e) = enCompleting e" "rsStops (core e) = enStopGeneration e"
  by (simp_all add: core_def)

text \<open>Run \<open>n\<close> is over, and stays so.\<close>

definition dead :: "nat \<Rightarrow> engine \<Rightarrow> bool" where
  "dead n e \<longleftrightarrow> n < enRunEpoch e \<or> n = enRunEpoch e \<and> \<not> enRunning e"

definition live :: "nat \<Rightarrow> engine \<Rightarrow> bool" where
  "live n e \<longleftrightarrow> enRunning e \<and> enRunEpoch e = n"

definition later_run :: "engine \<Rightarrow> engine \<Rightarrow> bool" where
  "later_run e d \<longleftrightarrow> enRunEpoch e \<le> enRunEpoch d \<and> (enRunning d \<and> enRunEpoch d = enRunEpoch e \<longrightarrow> enRunning e) \<and>
     enStopGeneration e \<le> enStopGeneration d"

definition engine_ok :: "engine \<Rightarrow> bool" where
  "engine_ok e \<longleftrightarrow> (enRunning e \<longrightarrow> enStopBarriers e = 0 \<and> \<not> enPaused e \<and> \<not> enCompleting e)"

lemma dead_later: "dead n e \<Longrightarrow> later_run e d \<Longrightarrow> dead n d"
  by (auto simp: dead_def later_run_def)

lemma dead_live: "dead n e \<Longrightarrow> live m e \<Longrightarrow> n < m"
  by (auto simp: dead_def live_def)

lemma later_refl [simp]: "later_run e e"
  by (simp add: later_run_def)

lemma core_same: "core d = core e \<Longrightarrow> later_run e d" "core d = core e \<Longrightarrow> engine_ok d = engine_ok e"
  "core d = core e \<Longrightarrow> dead n d = dead n e" "core d = core e \<Longrightarrow> live n d = live n e"
  by (simp_all add: core_def later_run_def engine_ok_def dead_def live_def)

section \<open>What the critical sections do to the core\<close>

lemma core_simps [simp]:
  "core (captureCurrentSampleLocked ms e) = core e"
  "core (setVibrationLocked spec ms e) = core e"
  "core (adoptVibration t e) = core e"
  "core (vibrationFrameLocked ms e) = core e"
  "core (vibrationLost n e) = core e"
  "core (rememberResult l r e) = core e"
  "core (rememberError x e) = core e"
  "core (alignPlaybackStart n st e) = core e"
  "core (finishStopped r e) = core e"
  "core (rememberStartupRecoveryLocked f x e) = core e"
  by (simp_all add: core_def captureCurrentSampleLocked_def setVibrationLocked_def adoptVibration_def
      vibrationFrameLocked_def vibrationLost_def rememberResult_def rememberError_def alignPlaybackStart_def
      finishStopped_def rememberStartupRecoveryLocked_def Let_def split: option.split)

lemma startLoop_core: "startLoop n e = (d, b) \<Longrightarrow> core d = core e"
  by (auto simp: startLoop_def core_def split: if_splits)

lemma promote_core: "promote_read t e = (d, b, s, n, env) \<Longrightarrow> core d = core e"
  by (auto simp: promote_read_def core_def Let_def split: if_splits)

lemma retarget_core: "retarget now pa n t e = (d, r) \<Longrightarrow> core d = core e"
  by (auto simp: retarget_def Let_def setVibrationLocked_def core_def split: option.splits if_splits)

lemma refresh_core: "refreshSettings pa n s e = (d, r) \<Longrightarrow> core d = core e" "refresh_idle s e = (d, r) \<Longrightarrow> core d = core e"
  by (auto simp: refreshSettings_def refresh_idle_def Let_def core_def split: option.splits if_splits)

lemma vibration_admit_core:
  "vibration_admit now sp a g e = (d, Inl x) \<Longrightarrow> core d = core e"
  "vibration_admit now sp a g e = (d, Inr n) \<Longrightarrow> core d = core e \<and> live n e \<and> enStopGeneration e = a"
  by (auto simp: vibration_admit_def setVibrationLocked_def core_def live_def Let_def split: if_splits)

lemma sampleWindow_core: "sampleWindow sm e = (d, r) \<Longrightarrow> core d = core e"
  by (auto simp: sampleWindow_def core_def split: sum.splits if_splits)

lemma fillChunk_core: "fillChunk opt sm tail ts e = (d, r) \<Longrightarrow> core d = core e"
proof (induction opt sm tail ts e arbitrary: d r rule: fillChunk.induct)
  case (1 opt sm tail ts e)
  show ?case
  proof (cases "last ts < tail")
    case True
    obtain d1 r1 where s: "sampleWindow sm e = (d1, r1)" by (metis prod.exhaust)
    have c: "core d1 = core e" using sampleWindow_core [OF s] .
    show ?thesis
    proof (cases r1)
      case (Inl x)
      then show ?thesis using 1(2) True s c by (subst (asm) fillChunk.simps) auto
    next
      case (Inr extra)
      show ?thesis
      proof (cases "eoMaximumChunkPoints opt < length ts + length extra")
        case True
        have "d = d1\<lparr>enNextSampleMillis := enNextSampleMillis e, enLastSample := enLastSample e\<rparr>"
          using 1(2) \<open>last ts < tail\<close> s Inr True by (subst (asm) fillChunk.simps) auto
        then show ?thesis using c by (simp add: core_def)
      next
        case False
        then have "fillChunk opt sm tail (ts @ extra) d1 = (d, r)"
          using 1(2) \<open>last ts < tail\<close> s Inr by (subst (asm) fillChunk.simps) auto
        then show ?thesis using 1(1) [OF \<open>last ts < tail\<close> s [symmetric] Inr False] c by simp
      qed
    qed
  next
    case False
    then show ?thesis using 1(2) by (subst (asm) fillChunk.simps) auto
  qed
qed

lemma nextChunk_core: "nextChunkThrough opt sm kn n tail e = (d, r) \<Longrightarrow> core d = core e"
  by (auto simp: nextChunkThrough_def core_def Let_def split: option.splits sum.splits prod.splits if_splits
      dest!: sampleWindow_core [unfolded core_def] fillChunk_core [unfolded core_def])

lemma begin_core:
  "engine_begin opt now x pa t s a p e = (d, Inl err) \<Longrightarrow>
     core d = core e \<or> \<not> enRunning e \<and> core d = (core e)\<lparr>rsEpoch := Suc (enRunEpoch e), rsPaused := False, rsCompleting := False\<rparr>"
  "engine_begin opt now x pa t s a p e = (d, Inr n) \<Longrightarrow>
     \<not> enRunning e \<and> enStopBarriers e = 0 \<and> enStopGeneration e = a \<and> n = Suc (enRunEpoch e) \<and>
     core d = (core e)\<lparr>rsRunning := True, rsEpoch := Suc (enRunEpoch e), rsPaused := False, rsCompleting := False\<rparr>"
  by (auto simp: engine_begin_def Let_def core_def captureCurrentSampleLocked_def adoptVibration_def
      setVibrationLocked_def split: if_splits option.splits)

lemma resume_core:
  "beginResume opt now pa e = (d, Inl err) \<Longrightarrow>
     core d = core e \<or> \<not> enRunning e \<and> core d = (core e)\<lparr>rsEpoch := Suc (enRunEpoch e)\<rparr>"
  "beginResume opt now pa e = (d, Inr (n, a)) \<Longrightarrow>
     \<not> enRunning e \<and> \<not> enCompleting e \<and> enStopBarriers e = 0 \<and> enPaused e \<and> enStopGeneration e = a \<and> n = Suc (enRunEpoch e) \<and>
     core d = (core e)\<lparr>rsRunning := True, rsEpoch := Suc (enRunEpoch e), rsPaused := False\<rparr>"
  by (auto simp: beginResume_def Let_def core_def captureCurrentSampleLocked_def adoptVibration_def
      setVibrationLocked_def split: if_splits option.splits)

lemma stopLoop_core:
  "stopLoopLocked now pa e = (d, c, dn, b) \<Longrightarrow>
     core d = (if enCompleting e then core e else (core e)\<lparr>rsRunning := False\<rparr>)"
  by (auto simp: stopLoopLocked_def Let_def core_def captureCurrentSampleLocked_def split: if_splits)

lemma stop_first_core:
  assumes "stop_first now pa e = (d, c, dn, b)" and "engine_ok e"
  shows "\<not> enRunning d \<and> enRunEpoch d = enRunEpoch e \<and> enStopBarriers d = Suc (enStopBarriers e) \<and>
    enStopGeneration d = Suc (enStopGeneration e) \<and> (\<not> enCompleting e \<longrightarrow> \<not> enPaused d) \<and> (enPaused d \<longrightarrow> enPaused e) \<and>
    enCompleting d = enCompleting e"
  using assms
  by (auto simp: stop_first_def stopLoopLocked_def Let_def captureCurrentSampleLocked_def engine_ok_def split: if_splits)

lemma pause_first_core:
  assumes "pause_first now pa e = (d, PauseGoes c dn a)" and "engine_ok e"
  shows "enRunning e \<and> enStopGeneration e = a \<and>
    core d = (core e)\<lparr>rsRunning := False, rsBarriers := Suc (enStopBarriers e)\<rparr>"
  using assms
  by (auto simp: pause_first_def stopLoopLocked_def Let_def captureCurrentSampleLocked_def engine_ok_def core_def
      split: if_splits)

lemma pause_first_none: "pause_first now pa e = (d, PauseAlready) \<Longrightarrow> d = e" "pause_first now pa e = (d, PauseRefused) \<Longrightarrow> d = e"
  by (auto simp: pause_first_def Let_def split: if_splits prod.splits)

lemma complete_core:
  "complete_first now pa n e = (d, None) \<Longrightarrow> d = e"
  "complete_first now pa n e = (d, Some c) \<Longrightarrow> live n e \<and>
     core d = (core e)\<lparr>rsRunning := False, rsBarriers := Suc (enStopBarriers e), rsCompleting := True\<rparr>"
  by (auto simp: complete_first_def Let_def captureCurrentSampleLocked_def core_def live_def validateRunLocked_def
      split: if_splits)

lemma recovery_core:
  "prepareRecovery now pa n m e = (d, Inl x) \<Longrightarrow> d = e"
  "prepareRecovery now pa n m e = (d, Inr cd) \<Longrightarrow> live n e \<and>
     core d = (core e)\<lparr>rsRunning := False, rsBarriers := Suc (enStopBarriers e)\<rparr>"
  by (auto simp: prepareRecovery_def Let_def captureCurrentSampleLocked_def core_def live_def validateRunLocked_def
      split: if_splits)

lemma force_core:
  "forceStopped now pa n x e = (d, None) \<Longrightarrow> d = e"
  "forceStopped now pa n x e = (d, Some c) \<Longrightarrow> live n e \<and>
     core d = (core e)\<lparr>rsRunning := False, rsBarriers := Suc (enStopBarriers e), rsCompleting := False\<rparr>"
  by (auto simp: forceStopped_def Let_def captureCurrentSampleLocked_def core_def live_def split: if_splits)

lemma last_core:
  assumes "0 < enStopBarriers e"
  shows "core (stop_last e) = (core e)\<lparr>rsBarriers := enStopBarriers e - 1, rsPaused := False\<rparr>"
    and "core (pause_last a e) = (core e)\<lparr>rsBarriers := enStopBarriers e - 1,
           rsPaused := (enPaused e \<or> enStopGeneration e = a)\<rparr>"
    and "core (complete_last e) = (core e)\<lparr>rsBarriers := enStopBarriers e - 1, rsCompleting := False\<rparr>"
    and "core (recovery_last m r e) = (core e)\<lparr>rsBarriers := enStopBarriers e - 1\<rparr>"
    and "core (abort_last f x r e) = (core e)\<lparr>rsBarriers := enStopBarriers e - 1\<rparr>"
  using assms
  by (simp_all add: core_def stop_last_def pause_last_def complete_last_def recovery_last_def abort_last_def
      endStopBarrierLocked_def rememberStartupRecoveryLocked_def)

lemma reset_core:
  "reset_begin x i a e = (d, Some err) \<Longrightarrow> d = e"
  "reset_begin x i a e = (d, None) \<Longrightarrow> \<not> enRunning e \<and>
     core d = (core e)\<lparr>rsBarriers := Suc (enStopBarriers e), rsPaused := False\<rparr>"
  "0 < enStopBarriers e \<Longrightarrow> reset_end x i a rr e = (d, r) \<Longrightarrow> core d = (core e)\<lparr>rsBarriers := enStopBarriers e - 1\<rparr>"
  by (auto simp: reset_begin_def reset_end_def endStopBarrierLocked_def core_def Let_def
      split: if_splits option.splits)

lemma restore_core:
  "core (restorePaused n a e) = core e \<or> \<not> enRunning e \<and> enStopGeneration e = a \<and>
     core (restorePaused n a e) = (core e)\<lparr>rsPaused := True\<rparr>"
  by (simp add: restorePaused_def core_def)

section \<open>Locks, barriers and duties of an operation\<close>

definition lockW :: "op \<Rightarrow> nat" where
  "lockW x =
     (case x of
        Cmd c \<Rightarrow> (case c of CmdLock g \<Rightarrow> 0 | CmdVibAfter y \<Rightarrow> 0 | _ \<Rightarrow> 1)
      | Halt h \<Rightarrow> (case h of HaltStopSend k n \<Rightarrow> 1 | HaltStopSent k n \<Rightarrow> 1 | HaltStopEnd k r \<Rightarrow> 1 | _ \<Rightarrow> 0)
      | Tick t \<Rightarrow> (case t of TickVibCheck \<Rightarrow> 1 | _ \<Rightarrow> 0)
      | Edit d \<Rightarrow> (case d of EditVibAdmit sp a g \<Rightarrow> 1 | _ \<Rightarrow> 0)
      | Reset r \<Rightarrow> (case r of ResetStop n \<Rightarrow> 1 | ResetUnlock \<Rightarrow> 1 | _ \<Rightarrow> 0)
      | _ \<Rightarrow> 0)"

definition barrierW :: "op \<Rightarrow> nat" where
  "barrierW x =
     (case x of
        Halt h \<Rightarrow> (case h of HaltStopLock k n \<Rightarrow> 1 | HaltStopSend k n \<Rightarrow> 1 | HaltStopSent k n \<Rightarrow> 1
          | HaltStopEnd k r \<Rightarrow> 1 | _ \<Rightarrow> 0)
      | Reset r \<Rightarrow> (case r of ResetEnd i a \<Rightarrow> 1 | _ \<Rightarrow> 0)
      | _ \<Rightarrow> 0)"

text \<open>The run a Stop on its way ends, and the run a command about to be sent belongs to.\<close>

definition stops_run :: "op \<Rightarrow> nat option" where
  "stops_run x =
     (case x of
        Halt h \<Rightarrow> (case h of HaltStopLock k n \<Rightarrow> Some n | HaltStopSend k n \<Rightarrow> Some n | _ \<Rightarrow> None)
      | Reset r \<Rightarrow> (case r of ResetLock n \<Rightarrow> Some n | ResetStop n \<Rightarrow> Some n | _ \<Rightarrow> None)
      | _ \<Rightarrow> None)"

definition promises :: "op \<Rightarrow> nat option" where
  "promises x =
     (case x of
        Halt h \<Rightarrow> (case h of HaltStopLock k n \<Rightarrow> Some n | HaltStopSend k n \<Rightarrow> Some n | _ \<Rightarrow> None)
      | _ \<Rightarrow> None)"

definition sends_run :: "op \<Rightarrow> nat option" where
  "sends_run x = (case x of Cmd c \<Rightarrow> (case c of CmdSend n g s ts \<Rightarrow> Some n | _ \<Rightarrow> None) | _ \<Rightarrow> None)"

abbreviation weight :: "(op \<Rightarrow> nat) \<Rightarrow> op list \<Rightarrow> nat" where
  "weight f xs \<equiv> sum_list (map f xs)"

lemmas op_weights = lockW_def barrierW_def stops_run_def promises_def sends_run_def

lemma weight_zero: "weight f xs = 0 \<longleftrightarrow> (\<forall>x \<in> set xs. f x = 0)"
  by (induction xs) auto

lemma catches_weights: "\<not> catches x \<Longrightarrow> lockW x = 0 \<and> barrierW x = 0 \<and> promises x = None \<and> sends_run x = None"
  by (cases x) (auto simp: op_weights split: cmd_op.splits halt_op.splits tick_op.splits edit_op.splits reset_op.splits)

section \<open>The effect of one operation\<close>

definition duty_ok :: "engine \<Rightarrow> op \<Rightarrow> bool" where
  "duty_ok e x \<longleftrightarrow> (\<forall>n. stops_run x = Some n \<longrightarrow> dead n e) \<and> (\<forall>n. sends_run x = Some n \<longrightarrow> live n e)"

definition final :: "wire_entry \<Rightarrow> bool" where
  "final x \<longleftrightarrow> weKind x = WFinalStop"

definition stop_entry :: "nat \<Rightarrow> wire_entry" where
  "stop_entry n = \<lparr>weKind = WFinalStop, weEpoch = n\<rparr>"

definition spawned :: "thread list \<Rightarrow> bool" where
  "spawned ts \<longleftrightarrow> (\<forall>t \<in> set ts. thOps t = [OLoop])"

definition wire_step :: "op \<Rightarrow> wire_entry list \<Rightarrow> wire_entry list \<Rightarrow> bool" where
  "wire_step x u u' \<longleftrightarrow>
     u' = u \<and> promises x = None \<or>
     u' = u \<and> (\<exists>k n. x = OStopLock k n) \<or>
     (\<exists>n k. sends_run x = Some n \<and> k \<noteq> WFinalStop \<and> u' = u @ [\<lparr>weKind = k, weEpoch = n\<rparr>]) \<or>
     (\<exists>n. stops_run x = Some n \<and> lockW x = 1 \<and> u' = u @ [stop_entry n])"

definition effect :: "op \<Rightarrow> thread \<Rightarrow> eworld \<Rightarrow> eworld \<Rightarrow> thread \<Rightarrow> bool" where
  "effect x th w w' th' \<longleftrightarrow>
     (\<exists>ys ts. thOps th' = ys @ thOps th \<and> ewThreads w' = ewThreads w @ ts \<and> spawned ts \<and>
        list_all (duty_ok (ewEngine w')) ys \<and>
        of_bool (ewCmd w') + lockW x = of_bool (ewCmd w) + weight lockW ys \<and>
        enStopBarriers (ewEngine w') + barrierW x = enStopBarriers (ewEngine w) + weight barrierW ys \<and>
        later_run (ewEngine w) (ewEngine w') \<and> engine_ok (ewEngine w') \<and>
        (enRunning (ewEngine w) \<and> \<not> live (enRunEpoch (ewEngine w)) (ewEngine w') \<longrightarrow>
           (\<exists>y \<in> set ys. promises y = Some (enRunEpoch (ewEngine w)))) \<and>
        (\<forall>k n. x = OStopLock k n \<longrightarrow> OStopSend k n \<in> set ys) \<and>
        wire_step x (ewWire w) (ewWire w'))"

text \<open>What an operation may rely on: its lock, its barrier and its duty.\<close>

definition ready_op :: "op \<Rightarrow> eworld \<Rightarrow> bool" where
  "ready_op x w \<longleftrightarrow> (0 < lockW x \<longrightarrow> ewCmd w) \<and> (0 < barrierW x \<longrightarrow> 0 < enStopBarriers (ewEngine w)) \<and>
     (\<forall>n. stops_run x = Some n \<longrightarrow> dead n (ewEngine w)) \<and> engine_ok (ewEngine w)"

lemma goes_iff [simp]: "goes xs th w = Some (w', th') \<longleftrightarrow> w' = w \<and> th' = th\<lparr>thOps := xs @ thOps th\<rparr>"
  and fails_iff [simp]: "fails x th w = Some (w', th') \<longleftrightarrow> w' = w \<and> th' = th\<lparr>thErr := Some x\<rparr>"
  and returns_iff [simp]: "returns r th w = Some (w', th') \<longleftrightarrow> w' = w \<and> th' = th\<lparr>thErr := r\<rparr>"
  and locking_iff [simp]: "locking xs th w = Some (w', th') \<longleftrightarrow>
        \<not> ewCmd w \<and> w' = w\<lparr>ewCmd := True\<rparr> \<and> th' = th\<lparr>thOps := xs @ thOps th\<rparr>"
  by (auto simp: goes_def fails_def returns_def locking_def)

lemma setE_sel [simp]:
  "ewEngine (setE e w) = e" "ewCmd (setE e w) = ewCmd w" "ewThreads (setE e w) = ewThreads w" "ewWire (setE e w) = ewWire w"
  "ewEngine (unlock w) = ewEngine w" "\<not> ewCmd (unlock w)" "ewThreads (unlock w) = ewThreads w" "ewWire (unlock w) = ewWire w"
  "ewEngine (emit k n w) = ewEngine w" "ewCmd (emit k n w) = ewCmd w" "ewThreads (emit k n w) = ewThreads w"
  "ewWire (emit k n w) = ewWire w @ [\<lparr>weKind = k, weEpoch = n\<rparr>]"
  by (simp_all add: setE_def unlock_def emit_def)

lemma spawned_Nil [simp]: "spawned []"
  by (simp add: spawned_def)

text \<open>An operation that leaves the core alone and pushes operations without duties.\<close>

definition plain :: "op list \<Rightarrow> bool" where
  "plain ys \<longleftrightarrow> (\<forall>y \<in> set ys. lockW y = 0 \<and> barrierW y = 0 \<and> stops_run y = None \<and> sends_run y = None)"

lemma plain_append [simp]: "plain (xs @ ys) = (plain xs \<and> plain ys)"
  by (auto simp: plain_def)

lemma plain_Nil [simp]: "plain []"
  and plain_Cons [simp]: "plain (y # ys) \<longleftrightarrow>
    lockW y = 0 \<and> barrierW y = 0 \<and> stops_run y = None \<and> sends_run y = None \<and> plain ys"
  by (auto simp: plain_def)

lemma plain_weights: "plain ys \<Longrightarrow> weight lockW ys = 0 \<and> weight barrierW ys = 0 \<and> list_all (duty_ok e) ys"
  by (auto simp: plain_def weight_zero duty_ok_def list_all_iff)

lemma effect_neutral:
  assumes "core (ewEngine w') = core (ewEngine w)" "engine_ok (ewEngine w)"
    and "thOps th' = ys @ thOps th" "ewThreads w' = ewThreads w" "ewWire w' = ewWire w" "promises x = None"
    and "list_all (duty_ok (ewEngine w)) ys" "barrierW x = 0" "weight barrierW ys = 0"
    and "of_bool (ewCmd w') + lockW x = of_bool (ewCmd w) + weight lockW ys"
  shows "effect x th w w' th'"
proof -
  let ?e = "ewEngine w" and ?d = "ewEngine w'"
  have c: "enStopBarriers ?d = enStopBarriers ?e" "enRunning ?d = enRunning ?e" "enRunEpoch ?d = enRunEpoch ?e"
    using assms(1) by (simp_all add: core_def)
  have "list_all (duty_ok ?d) ys"
    using assms(7) core_same(3,4) [OF assms(1)] by (simp add: duty_ok_def list_all_iff)
  moreover have "\<And>k n. x \<noteq> OStopLock k n" using assms(6) by (auto simp: promises_def)
  ultimately show ?thesis
    unfolding effect_def
    using assms core_same(1,2) [OF assms(1)] c by (auto simp: wire_step_def live_def)
qed

lemma effect_plain:
  assumes "core (ewEngine w') = core (ewEngine w)" "engine_ok (ewEngine w)"
    and "thOps th' = ys @ thOps th" "ewThreads w' = ewThreads w" "ewWire w' = ewWire w" "promises x = None"
    and "plain ys" "barrierW x = 0" "of_bool (ewCmd w') + lockW x = of_bool (ewCmd w)"
  shows "effect x th w w' th'"
  using assms plain_weights [OF assms(7)] by (intro effect_neutral) auto

lemma plain_scripts [simp]:
  "plain (dispatchThrough tail)" "plain (startup_script r)" "plain (owner_script s b)" "plain tick_script"
  "plain ensureLeadBuffer" "plain (map OOwner ps)"
  by (auto simp: dispatchThrough_def startup_script_def owner_script_def tick_script_def ensureLeadBuffer_def
      op_weights plain_def)

lemma effect_begin_run:
  assumes "core d = (core e)\<lparr>rsRunning := True, rsEpoch := Suc (enRunEpoch e), rsPaused := False, rsCompleting := c\<rparr>"
    and "\<not> enRunning e" "enStopBarriers e = 0" "\<not> c"
    and "e = ewEngine w" "d = ewEngine w'" "ewCmd w' = ewCmd w" "ewThreads w' = ewThreads w" "ewWire w' = ewWire w"
    and "thOps th' = ys @ thOps th" "plain ys" "plain [x]" "promises x = None"
  shows "effect x th w w' th'"
proof -
  have f: "enRunning d" "enRunEpoch d = Suc (enRunEpoch e)" "enStopBarriers d = 0" "\<not> enPaused d" "\<not> enCompleting d"
    "enStopGeneration d = enStopGeneration e"
    using assms(1-4) by (simp_all add: core_def)
  moreover have "\<And>k n. x \<noteq> OStopLock k n" using assms(13) by (auto simp: promises_def)
  ultimately show ?thesis
    unfolding effect_def using assms plain_weights [OF assms(11)]
    by (auto simp: later_run_def engine_ok_def wire_step_def)
qed

text \<open>The end of a run: the barrier goes up, and the script sends a Stop for the run.\<close>

lemma effect_end_run:
  assumes "\<not> enRunning d" "enRunEpoch d = enRunEpoch e" "enStopBarriers d = Suc (enStopBarriers e)"
    and "enStopGeneration e \<le> enStopGeneration d"
    and "e = ewEngine w" "d = ewEngine w'" "ewThreads w' = ewThreads w" "ewWire w' = ewWire w"
    and "thOps th' = ys @ [OStopLock k (enRunEpoch e)] @ thOps th" "plain ys" "barrierW x = 0" "promises x = None"
    and "of_bool (ewCmd w') + lockW x = of_bool (ewCmd w)"
  shows "effect x th w w' th'"
proof -
  have n: "\<And>k n. x \<noteq> OStopLock k n" using assms(12) by (auto simp: promises_def)
  show ?thesis
    unfolding effect_def
    apply (intro exI [of _ "ys @ [OStopLock k (enRunEpoch e)]"] exI [of _ "[]"])
    using assms plain_weights [OF assms(10)] n
    by (auto simp: later_run_def engine_ok_def wire_step_def duty_ok_def dead_def op_weights)
qed

lemma run_Begin_effect:
  assumes "run_Begin opt v t s a p th w = Some (w', th')" "engine_ok (ewEngine w)"
  shows "effect (OBegin t s a p) th w w' th'"
proof -
  obtain d r where b: "engine_begin opt (vNow v) (vCtx v) (vPlan v) t s a p (ewEngine w) = (d, r)" by (metis prod.exhaust)
  show ?thesis
  proof (cases r)
    case (Inr n)
    show ?thesis
      using assms(1) begin_core(2) [OF b [unfolded Inr]] b Inr
      by (intro effect_begin_run [where e = "ewEngine w" and d = d and c = False and ys = "startup_script None"])
         (auto simp: run_Begin_def op_weights)
  next
    case (Inl x)
    have w: "w' = setE d w" "thOps th' = thOps th" using assms(1) b Inl by (auto simp: run_Begin_def)
    from begin_core(1) [OF b [unfolded Inl]] show ?thesis
    proof
      assume "core d = core (ewEngine w)"
      then show ?thesis using w assms(2) by (intro effect_plain [where ys = "[]"]) (auto simp: op_weights)
    next
      assume i: "\<not> enRunning (ewEngine w) \<and> core d = (core (ewEngine w))
          \<lparr>rsEpoch := Suc (enRunEpoch (ewEngine w)), rsPaused := False, rsCompleting := False\<rparr>"
      then have "\<not> enRunning d" "enRunEpoch d = Suc (enRunEpoch (ewEngine w))" "enStopBarriers d = enStopBarriers (ewEngine w)"
        "enStopGeneration d = enStopGeneration (ewEngine w)"
        by (simp_all add: core_def)
      then show ?thesis
        unfolding effect_def using w i
        by (intro exI [of _ "[]"]) (auto simp: later_run_def engine_ok_def wire_step_def op_weights)
    qed
  qed
qed

lemma run_BeginResume_effect:
  assumes "run_BeginResume opt v th w = Some (w', th')" "engine_ok (ewEngine w)"
  shows "effect OBeginResume th w w' th'"
proof -
  obtain d r where b: "beginResume opt (vNow v) (vPlan v) (ewEngine w) = (d, r)" by (metis prod.exhaust)
  show ?thesis
  proof (cases r)
    case (Inr na)
    obtain n a where na: "na = (n, a)" by fastforce
    have c: "core d = (core (ewEngine w))\<lparr>rsRunning := True, rsEpoch := Suc (enRunEpoch (ewEngine w)), rsPaused := False,
        rsCompleting := False\<rparr>"
      using resume_core(2) [OF b [unfolded Inr na]] by (simp add: core_def)
    show ?thesis
      using assms(1) resume_core(2) [OF b [unfolded Inr na]] c b Inr na
      by (intro effect_begin_run [where e = "ewEngine w" and d = d and c = False and ys = "startup_script (Some a)"])
         (auto simp: run_BeginResume_def op_weights)
  next
    case (Inl x)
    have w: "w' = setE d w" "thOps th' = thOps th" using assms(1) b Inl by (auto simp: run_BeginResume_def)
    from resume_core(1) [OF b [unfolded Inl]] show ?thesis
    proof
      assume "core d = core (ewEngine w)"
      then show ?thesis using w assms(2) by (intro effect_plain [where ys = "[]"]) (auto simp: op_weights)
    next
      assume i: "\<not> enRunning (ewEngine w) \<and> core d = (core (ewEngine w))\<lparr>rsEpoch := Suc (enRunEpoch (ewEngine w))\<rparr>"
      then have "\<not> enRunning d" "enRunEpoch d = Suc (enRunEpoch (ewEngine w))" "enStopBarriers d = enStopBarriers (ewEngine w)"
        "enStopGeneration d = enStopGeneration (ewEngine w)"
        by (simp_all add: core_def)
      then show ?thesis
        unfolding effect_def using w i
        by (intro exI [of _ "[]"]) (auto simp: later_run_def engine_ok_def wire_step_def op_weights)
    qed
  qed
qed

lemma run_Force_effect:
  assumes "run_Force v x th w = Some (w', th')" "engine_ok (ewEngine w)"
  shows "effect (OForce x) th w w' th'"
proof -
  obtain d r where b: "forceStopped (vNow v) (vPlan v) (thEpoch th) (Some x) (ewEngine w) = (d, r)" by (metis prod.exhaust)
  show ?thesis
  proof (cases r)
    case None
    then show ?thesis using assms b force_core(1) [OF b [unfolded None]]
      by (intro effect_plain [where ys = "[]"]) (auto simp: run_Force_def op_weights)
  next
    case (Some c)
    note f = force_core(2) [OF b [unfolded Some]]
    then have "\<not> enRunning d" "enRunEpoch d = enRunEpoch (ewEngine w)"
      "enStopBarriers d = Suc (enStopBarriers (ewEngine w))" "enStopGeneration d = enStopGeneration (ewEngine w)"
      by (simp_all add: core_def)
    then show ?thesis using assms(1) b Some
      by (intro effect_end_run [where ys = "[OCancel c]" and d = d and e = "ewEngine w" and k = "SAbort x"])
         (auto simp: run_Force_def op_weights)
  qed
qed

lemma recover_effect:
  assumes "recover v th w0 = Some (w', th')" "engine_ok (ewEngine w)"
    and "ewEngine w0 = ewEngine w" "ewThreads w0 = ewThreads w" "ewWire w0 = ewWire w"
    and "of_bool (ewCmd w0) + lockW x = of_bool (ewCmd w)" "barrierW x = 0" "promises x = None"
  shows "effect x th w w' th'"
proof -
  obtain d r where b: "prepareRecovery (vNow v) (vPlan v) (thEpoch th) recoveryMessage (ewEngine w) = (d, r)"
    by (metis prod.exhaust)
  show ?thesis
  proof (cases r)
    case (Inl y)
    then show ?thesis using assms b recovery_core(1) [OF b [unfolded Inl]]
      by (intro effect_plain [where ys = "[]"]) (auto simp: recover_def)
  next
    case (Inr cd)
    obtain c dn where cd: "cd = (c, dn)" by fastforce
    note f = recovery_core(2) [OF b [unfolded Inr]]
    then have "\<not> enRunning d" "enRunEpoch d = enRunEpoch (ewEngine w)"
      "enStopBarriers d = Suc (enStopBarriers (ewEngine w))" "enStopGeneration d = enStopGeneration (ewEngine w)"
      by (simp_all add: core_def)
    then show ?thesis using assms b Inr cd
      by (intro effect_end_run [where d = d and e = "ewEngine w" and k = "SRecovery recoveryMessage" and
            ys = "if c = None then [] else OCancel c # (if thLoop th then [] else [OWaitLoop dn])"])
         (auto simp: recover_def op_weights)
  qed
qed

text \<open>Rules for the outcomes that leave the core alone.\<close>

lemma effect_push:
  assumes "core (ewEngine w') = core (ewEngine w)" "engine_ok (ewEngine w)" "ewThreads w' = ewThreads w"
    and "ewWire w' = ewWire w" "promises x = None" "barrierW x = 0" "of_bool (ewCmd w') + lockW x = of_bool (ewCmd w)" "plain ys"
  shows "effect x th w w' (th\<lparr>thOps := ys @ thOps th\<rparr>)"
    and "effect x th w w' (th\<lparr>thEpoch := n, thOps := ys @ thOps th\<rparr>)"
  using assms by (auto intro!: effect_plain)

lemma effect_stay:
  assumes "core (ewEngine w') = core (ewEngine w)" "engine_ok (ewEngine w)" "ewThreads w' = ewThreads w"
    and "ewWire w' = ewWire w" "promises x = None" "barrierW x = 0" "of_bool (ewCmd w') + lockW x = of_bool (ewCmd w)"
  shows "effect x th w w' (th\<lparr>thErr := r\<rparr>)" "effect x th w w' th" "effect x th w w' (th\<lparr>thOps := thOps th\<rparr>)"
  using assms by (auto intro!: effect_plain [where ys = "[]"])

lemmas effect_rules = effect_push effect_stay

lemma run_boot_effect:
  assumes r: "run_boot opt v x th w = Some (w', th')" and e: "engine_ok (ewEngine w)"
  shows "effect (Boot x) th w w' th'"
proof (cases x)
  case BootPrepare
  show ?thesis using r e unfolding BootPrepare
    by (auto simp: run_Prepare_def op_weights simp del: append.simps append_assoc intro!: effect_rules split: if_splits option.splits)
next
  case (BootOwner p)
  show ?thesis using r e unfolding BootOwner
    by (auto simp: run_Owner_def op_weights simp del: append.simps append_assoc intro!: effect_rules split: if_splits)
next
  case BootBuild
  show ?thesis using r e unfolding BootBuild
    by (auto simp: run_Build_def op_weights simp del: append.simps append_assoc intro!: effect_rules split: if_splits option.splits)
next
  case BootWaitStartup
  show ?thesis using r e unfolding BootWaitStartup
    by (auto simp: run_Ctx_def op_weights simp del: append.simps append_assoc intro!: effect_rules split: if_splits)
next
  case (BootPrebuffer n)
  show ?thesis using r e unfolding BootPrebuffer
    by (auto simp: run_Prebuffer_def Let_def op_weights simp del: append.simps append_assoc intro!: effect_rules split: if_splits option.splits)
next
  case BootAlign
  show ?thesis using r e unfolding BootAlign
    by (auto simp: op_weights intro!: effect_plain [where ys = "[]"])
next
  case (BootCatch a)
  show ?thesis using r e unfolding BootCatch
    by (auto simp: run_Catch_def op_weights simp del: append.simps append_assoc intro!: effect_rules split: if_splits option.splits)
next
  case BootStartLoop
  obtain d b where s: "startLoop (thEpoch th) (ewEngine w) = (d, b)" by (metis prod.exhaust)
  note c = startLoop_core [OF s]
  show ?thesis
  proof (cases b)
    case False
    then show ?thesis using r e s c unfolding BootStartLoop
      by (auto simp: run_StartLoop_def op_weights intro!: effect_plain [where ys = "[]"])
  next
    case True
    have f: "enStopBarriers d = enStopBarriers (ewEngine w)" "enRunning d = enRunning (ewEngine w)"
      "enRunEpoch d = enRunEpoch (ewEngine w)" using c by (simp_all add: core_def)
    show ?thesis using r True s f core_same(1,2) [OF c] e unfolding BootStartLoop effect_def
      by (intro exI [of _ "[]"] exI [of _ "[\<lparr>thEpoch = thEpoch th, thLoop = True, thErr = None, thOps = [OLoop]\<rparr>]"])
         (auto simp: run_StartLoop_def spawned_def wire_step_def live_def op_weights)
  qed
next
  case (BootRestore a)
  let ?d = "restorePaused (thEpoch th) a (ewEngine w)"
  have w: "w' = setE ?d w" "thOps th' = thOps th" using r unfolding BootRestore by auto
  from restore_core [of "thEpoch th" a "ewEngine w"] show ?thesis
  proof
    assume "core ?d = core (ewEngine w)"
    then show ?thesis using w e unfolding BootRestore by (intro effect_plain [where ys = "[]"]) (auto simp: op_weights)
  next
    assume i: "\<not> enRunning (ewEngine w) \<and> enStopGeneration (ewEngine w) = a \<and>
      core ?d = (core (ewEngine w))\<lparr>rsPaused := True\<rparr>"
    then have "\<not> enRunning ?d" "enRunEpoch ?d = enRunEpoch (ewEngine w)" "enStopBarriers ?d = enStopBarriers (ewEngine w)"
      "enStopGeneration ?d = enStopGeneration (ewEngine w)"
      by (simp_all add: core_def)
    then show ?thesis
      unfolding effect_def BootRestore using w i
      by (intro exI [of _ "[]"]) (auto simp: later_run_def engine_ok_def wire_step_def op_weights)
  qed
qed (use r e run_Begin_effect run_BeginResume_effect run_Force_effect in auto)
lemma effect_duty:
  assumes "core (ewEngine w') = core (ewEngine w)" "engine_ok (ewEngine w)" "ewThreads w' = ewThreads w"
    and "ewWire w' = ewWire w" "promises x = None" "barrierW x = 0"
    and "of_bool (ewCmd w') + lockW x = of_bool (ewCmd w) + weight lockW ys"
    and "list_all (duty_ok (ewEngine w)) ys" "weight barrierW ys = 0"
  shows "effect x th w w' (th\<lparr>thOps := ys @ thOps th\<rparr>)"
    and "effect x th w w' (th\<lparr>thEpoch := n, thOps := ys @ thOps th\<rparr>)"
  using assms by (auto intro!: effect_neutral)

lemma base_effect:
  assumes r: "run_base opt v x th w = Some (w', th')" and e: "engine_ok (ewEngine w)"
  shows "effect (Base x) th w w' th'"
proof (cases x)
  case BaseRecover
  then show ?thesis using r e recover_effect [of v th w w' th' w "Base x"] by (auto simp: op_weights)
qed (use r e in \<open>auto simp: run_Ctx_def run_Healthy_def run_HealthState_def op_weights simp del: append.simps append_assoc
  intro!: effect_rules split: if_splits option.splits\<close>)

lemma validate_live: "validateRunLocked n e = None \<longleftrightarrow> live n e"
  by (auto simp: validateRunLocked_def live_def)

lemma run_Enter_effect:
  assumes r: "run_Enter opt v g th w = Some (w', th')" and e: "engine_ok (ewEngine w)" and l: "ewCmd w"
  shows "effect (OEnter g) th w w' th'"
proof (cases g)
  case (GAppend tail)
  obtain d q where n: "nextChunkThrough opt (vSampler v) (vKnots v) (thEpoch th) tail (ewEngine w) = (d, q)"
    by (metis prod.exhaust)
  show ?thesis
    using r e l n nextChunk_core [OF n] unfolding GAppend
    by (auto simp: run_Enter_def op_weights duty_ok_def simp del: append.simps append_assoc intro!: effect_stay effect_duty
        split: sum.splits)
qed (use r e l in \<open>auto simp: run_Enter_def op_weights duty_ok_def simp del: append.simps append_assoc
  intro!: effect_stay effect_duty split: option.splits\<close>)

lemma run_Send_effect:
  assumes r: "run_Send v n g s ts th w = Some (w', th')" and e: "engine_ok (ewEngine w)" and l: "ewCmd w"
  shows "effect (OSend n g s ts) th w w' th'"
proof -
  let ?w1 = "case g of GAppend tail \<Rightarrow>
      setE (vibrationFrameLocked (estimatedPlaybackMillisLocked (vNow v) (ewEngine w)) (ewEngine w)) w | _ \<Rightarrow> w"
  have w1: "core (ewEngine ?w1) = core (ewEngine w)" "ewCmd ?w1" "ewThreads ?w1 = ewThreads w" "ewWire ?w1 = ewWire w"
    using l by (simp_all split: guarded.split)
  have o: "thOps th' = [OSent g] @ thOps th" and w': "w' = (case wire_of g s ts of None \<Rightarrow> ?w1 | Some k \<Rightarrow> emit k n ?w1)"
    using r by (simp_all add: run_Send_def Let_def)
  have k: "wire_of g s ts = Some k \<Longrightarrow> k \<noteq> WFinalStop" for k
    by (auto simp: wire_of_def split: guarded.splits)
  have f: "ewEngine w' = ewEngine ?w1" "ewCmd w'" "ewThreads w' = ewThreads w"
    "ewWire w' = ewWire w \<or> (\<exists>k. k \<noteq> WFinalStop \<and> ewWire w' = ewWire w @ [\<lparr>weKind = k, weEpoch = n\<rparr>])"
    using w1 k by (auto simp: w' split: option.split)
  have c: "core (ewEngine w') = core (ewEngine w)" using f(1) w1(1) by simp
  have "enStopBarriers (ewEngine w') = enStopBarriers (ewEngine w)" "enRunning (ewEngine w') = enRunning (ewEngine w)"
      "enRunEpoch (ewEngine w') = enRunEpoch (ewEngine w)"
    using c by (simp_all add: core_def)
  then show ?thesis
    unfolding effect_def using o f e l core_same(1,2) [OF c]
    by (intro exI [of _ "[OSent g]"] exI [of _ "[]"]) (auto simp: op_weights duty_ok_def wire_step_def live_def)
qed

lemma run_Sent_effect:
  assumes r: "run_Sent v g th w = Some (w', th')" and e: "engine_ok (ewEngine w)" and l: "ewCmd w"
  shows "effect (OSent g) th w w' th'"
  using r e l
  by (cases g; cases "vErr v")
     (auto simp: run_Sent_def read_next_def Let_def op_weights duty_ok_def simp del: append.simps append_assoc
       intro!: effect_stay effect_duty split: option.splits if_splits read_kind.splits)

lemma cmd_effect:
  assumes r: "run_cmd opt v x th w = Some (w', th')" and e: "engine_ok (ewEngine w)" and l: "0 < lockW (Cmd x) \<longrightarrow> ewCmd w"
  shows "effect (Cmd x) th w w' th'"
proof (cases x)
  case (CmdEnter g)
  then show ?thesis using r e l run_Enter_effect by (auto simp: op_weights)
next
  case (CmdSend n g s ts)
  then show ?thesis using r e l run_Send_effect by (auto simp: op_weights)
next
  case (CmdSent g)
  then show ?thesis using r e l run_Sent_effect by (auto simp: op_weights)
next
  case CmdGiveUp
  have c: "ewCmd w" using l CmdGiveUp by (simp add: op_weights)
  show ?thesis using r e c CmdGiveUp recover_effect [of v th "unlock w" w' th' w "Cmd x"] by (auto simp: op_weights)
qed (use r e l in \<open>auto simp: run_Validate_def run_Frame_def run_Recheck_def run_VibAfter_def op_weights duty_ok_def validate_live
  Let_def simp del: append.simps append_assoc intro!: effect_stay effect_duty split: if_splits option.splits\<close>)
text \<open>The last section of a Stop: the barrier comes down.\<close>

definition lowered :: "engine \<Rightarrow> engine \<Rightarrow> bool" where
  "lowered e d \<longleftrightarrow> enRunning d = enRunning e \<and> enRunEpoch d = enRunEpoch e \<and> enStopGeneration d = enStopGeneration e \<and>
     enStopBarriers d = enStopBarriers e - 1"

lemma last_lowered:
  assumes "0 < enStopBarriers e"
  shows "lowered e (stop_last e)" "lowered e (pause_last a e)" "lowered e (complete_last e)"
    "lowered e (recovery_last m r e)" "lowered e (abort_last f x r e)"
  using last_core [OF assms] by (simp_all add: lowered_def core_def)

lemma effect_release:
  assumes "lowered (ewEngine w) (ewEngine w')"
    and "0 < enStopBarriers (ewEngine w)" "engine_ok (ewEngine w)"
    and "ewThreads w' = ewThreads w" "ewWire w' = ewWire w" "promises x = None" "barrierW x = 1"
    and "of_bool (ewCmd w') + lockW x = of_bool (ewCmd w)" "thOps th' = thOps th"
  shows "effect x th w w' th'"
proof -
  have "\<And>k n. x \<noteq> OStopLock k n" using assms(6) by (auto simp: promises_def)
  then show ?thesis
    unfolding effect_def using assms
    by (intro exI [of _ "[]"]) (auto simp: lowered_def later_run_def engine_ok_def wire_step_def)
qed

lemma run_StopEnd_effect:
  assumes r: "run_StopEnd v k q th w = Some (w', th')" and e: "engine_ok (ewEngine w)" and l: "ewCmd w"
    and b: "0 < enStopBarriers (ewEngine w)"
  shows "effect (OStopEnd k q) th w w' th'"
proof -
  have "lowered (ewEngine w) (ewEngine w')"
    using r last_lowered [OF b] by (cases k) (auto simp: run_StopEnd_def Let_def)
  moreover have "ewThreads w' = ewThreads w" "ewWire w' = ewWire w" "\<not> ewCmd w'" "thOps th' = thOps th"
    using r by (cases k; auto simp: run_StopEnd_def Let_def)+
  ultimately show ?thesis using e l b by (auto intro!: effect_release simp: op_weights)
qed

lemma run_StopFirst_effect:
  assumes r: "run_StopFirst v th w = Some (w', th')" and e: "engine_ok (ewEngine w)"
  shows "effect OStopFirst th w w' th'"
proof -
  obtain d c dn b where s: "stop_first (vNow v) (vPlan v) (ewEngine w) = (d, c, dn, b)" by (metis prod.exhaust)
  show ?thesis using r s stop_first_core [OF s e]
    by (intro effect_end_run [where d = d and e = "ewEngine w" and k = SStop and
          ys = "if b then [OCancel c, OWaitLoop dn] else []"])
       (auto simp: run_StopFirst_def op_weights)
qed

lemma run_PauseFirst_effect:
  assumes r: "run_PauseFirst v th w = Some (w', th')" and e: "engine_ok (ewEngine w)"
  shows "effect OPauseFirst th w w' th'"
proof -
  obtain d q where s: "pause_first (vNow v) (vPlan v) (ewEngine w) = (d, q)" by (metis prod.exhaust)
  show ?thesis
  proof (cases q)
    case (PauseGoes c dn a)
    from pause_first_core [OF s [unfolded PauseGoes] e]
    have "\<not> enRunning d" "enRunEpoch d = enRunEpoch (ewEngine w)"
      "enStopBarriers d = Suc (enStopBarriers (ewEngine w))" "enStopGeneration d = enStopGeneration (ewEngine w)"
      by (simp_all add: core_def)
    then show ?thesis using r s PauseGoes
      by (intro effect_end_run [where d = d and e = "ewEngine w" and k = "SPause a" and ys = "[OCancel c, OWaitLoop dn]"])
         (auto simp: run_PauseFirst_def op_weights)
  qed (use r e s pause_first_none [of "vNow v" "vPlan v" "ewEngine w" d] in
      \<open>auto simp: run_PauseFirst_def op_weights simp del: append.simps append_assoc intro!: effect_rules\<close>)
qed

lemma run_StopSend_effect:
  assumes r: "run_halt opt v (HaltStopSend k n) th w = Some (w', th')" and e: "engine_ok (ewEngine w)" and l: "ewCmd w"
  shows "effect (OStopSend k n) th w w' th'"
  using r e l unfolding effect_def
  by (intro exI [of _ "[OStopSent k n]"] exI [of _ "[]"])
     (auto simp: op_weights duty_ok_def wire_step_def stop_entry_def live_def)

lemma run_StopLock_effect:
  assumes r: "run_halt opt v (HaltStopLock k n) th w = Some (w', th')" and e: "engine_ok (ewEngine w)"
    and d: "dead n (ewEngine w)"
  shows "effect (OStopLock k n) th w w' th'"
  using r e d unfolding effect_def
  by (intro exI [of _ "[OStopSend k n]"] exI [of _ "[]"])
     (auto simp: op_weights duty_ok_def wire_step_def live_def)

lemma halt_effect:
  assumes r: "run_halt opt v x th w = Some (w', th')" and e: "ready_op (Halt x) w"
  shows "effect (Halt x) th w w' th'"
proof (cases x)
  case (HaltStopSent k n)
  have c: "core (ewEngine w') = core (ewEngine w)" and o: "thOps th' = [OStopEnd k (vErr v)] @ thOps th"
    and w: "ewThreads w' = ewThreads w" "ewWire w' = ewWire w" "ewCmd w' = ewCmd w"
    using r unfolding HaltStopSent by auto
  have "enStopBarriers (ewEngine w') = enStopBarriers (ewEngine w)" "enRunning (ewEngine w') = enRunning (ewEngine w)"
      "enRunEpoch (ewEngine w') = enRunEpoch (ewEngine w)"
    using c by (simp_all add: core_def)
  then show ?thesis
    unfolding effect_def HaltStopSent using o w e core_same(1,2) [OF c]
    by (intro exI [of _ "[OStopEnd k (vErr v)]"] exI [of _ "[]"])
       (auto simp: ready_op_def op_weights duty_ok_def wire_step_def live_def)
qed (use r e run_StopFirst_effect run_PauseFirst_effect run_StopLock_effect [where opt = opt and v = v]
      run_StopSend_effect [where opt = opt and v = v] run_StopEnd_effect
    in \<open>auto simp: ready_op_def op_weights simp del: run_halt.simps(3,4)\<close>)

lemma run_Complete_effect:
  assumes r: "run_Complete v th w = Some (w', th')" and e: "engine_ok (ewEngine w)"
  shows "effect OComplete th w w' th'"
proof -
  obtain d q where s: "complete_first (vNow v) (vPlan v) (thEpoch th) (ewEngine w) = (d, q)" by (metis prod.exhaust)
  show ?thesis
  proof (cases q)
    case None
    then show ?thesis using r e s complete_core(1) [OF s [unfolded None]]
      by (auto simp: run_Complete_def op_weights simp del: append.simps append_assoc intro!: effect_rules)
  next
    case (Some c)
    note f = complete_core(2) [OF s [unfolded Some]]
    then have "\<not> enRunning d" "enRunEpoch d = enRunEpoch (ewEngine w)"
      "enStopBarriers d = Suc (enStopBarriers (ewEngine w))" "enStopGeneration d = enStopGeneration (ewEngine w)"
      by (simp_all add: core_def)
    then show ?thesis using r s Some
      by (intro effect_end_run [where d = d and e = "ewEngine w" and k = SProgram and ys = "[OCancel c]"])
         (auto simp: run_Complete_def op_weights)
  qed
qed

lemma tick_effect:
  assumes r: "run_tick opt v x th w = Some (w', th')" and e: "ready_op (Tick x) w"
  shows "effect (Tick x) th w w' th'"
proof (cases x)
  case TickComplete
  then show ?thesis using r e run_Complete_effect by (auto simp: ready_op_def)
next
  case TickVibCheck
  show ?thesis using r e unfolding TickVibCheck
    by (auto simp: ready_op_def run_VibCheck_def op_weights duty_ok_def simp del: append.simps append_assoc
        intro!: effect_stay effect_duty split: if_splits)
next
  case TickVibLock
  show ?thesis using r e unfolding TickVibLock
    by (auto simp: ready_op_def op_weights duty_ok_def simp del: append.simps append_assoc intro!: effect_duty)
qed (use r e in \<open>auto simp: ready_op_def run_Loop_def run_LeadCheck_def run_Remember_def run_Ensure_def Let_def
    op_weights simp del: append.simps append_assoc intro!: effect_rules
    split: if_splits option.splits\<close>)

lemma run_VibAdmit_effect:
  assumes r: "run_VibAdmit v sp a g th w = Some (w', th')" and e: "engine_ok (ewEngine w)" and l: "ewCmd w"
  shows "effect (OVibAdmit sp a g) th w w' th'"
proof -
  obtain d q where s: "vibration_admit (vNow v) sp a g (ewEngine w) = (d, q)" by (metis prod.exhaust)
  have c: "core d = core (ewEngine w)" using vibration_admit_core s by (cases q) auto
  show ?thesis
    using r e l s c by (cases q)
      (auto simp: run_VibAdmit_def op_weights duty_ok_def simp del: append.simps append_assoc
        intro!: effect_stay effect_duty split: if_splits)
qed

lemma edit_effect:
  assumes r: "run_edit opt v x th w = Some (w', th')" and e: "ready_op (Edit x) w"
  shows "effect (Edit x) th w w' th'"
proof (cases x)
  case (EditPromote t)
  obtain d b s n env where p: "promote_read t (ewEngine w) = (d, b, s, n, env)" by (metis prod.exhaust)
  show ?thesis
    using r e p promote_core [OF p] unfolding EditPromote
    by (auto simp: run_Promote_def ready_op_def op_weights simp del: append.simps append_assoc
        intro!: effect_rules split: if_splits)
next
  case (EditRetarget t)
  then show ?thesis using r e retarget_core
    by (auto simp: run_Retarget_def ready_op_def op_weights simp del: append.simps append_assoc
        intro!: effect_rules split: prod.splits)
next
  case (EditRefreshIdle s)
  then show ?thesis using r e refresh_core
    by (auto simp: run_RefreshIdle_def ready_op_def op_weights simp del: append.simps append_assoc
        intro!: effect_rules split: prod.splits)
next
  case (EditRefreshApply s)
  then show ?thesis using r e refresh_core
    by (auto simp: run_RefreshApply_def ready_op_def op_weights simp del: append.simps append_assoc
        intro!: effect_rules split: prod.splits)
next
  case EditPendingClear
  then show ?thesis using r e
    by (auto simp: ready_op_def op_weights core_def simp del: append.simps append_assoc intro!: effect_rules)
next
  case (EditVibApplyLock sp a g)
  show ?thesis using r e unfolding EditVibApplyLock
    by (auto simp: ready_op_def op_weights duty_ok_def simp del: append.simps append_assoc intro!: effect_duty)
next
  case (EditVibAdmit sp a g)
  then show ?thesis using r e run_VibAdmit_effect by (auto simp: ready_op_def op_weights)
qed (use r e in \<open>auto simp: run_Active_def run_PromoteCheck_def run_Refresh_def ready_op_def runEpochIfActive_def
    op_weights simp del: append.simps append_assoc intro!: effect_rules split: if_splits option.splits sum.splits bool.splits\<close>)

lemma run_ResetBegin_effect:
  assumes r: "run_ResetBegin v i a th w = Some (w', th')" and e: "engine_ok (ewEngine w)"
  shows "effect (OResetBegin i a) th w w' th'"
proof -
  obtain d q where s: "reset_begin (vCtx v) i a (ewEngine w) = (d, q)" by (metis prod.exhaust)
  show ?thesis
  proof (cases q)
    case (Some y)
    then show ?thesis using r e s reset_core(1) [OF s [unfolded Some]]
      by (auto simp: run_ResetBegin_def op_weights simp del: append.simps append_assoc intro!: effect_rules)
  next
    case None
    from reset_core(2) [OF s [unfolded None]]
    have f: "\<not> enRunning (ewEngine w)" "\<not> enRunning d" "enRunEpoch d = enRunEpoch (ewEngine w)"
      "enStopBarriers d = Suc (enStopBarriers (ewEngine w))" "enStopGeneration d = enStopGeneration (ewEngine w)"
      by (simp_all add: core_def)
    show ?thesis
      unfolding effect_def using r e s None f
      by (intro exI [of _ "[OResetLock (enRunEpoch d), OResetEnd i a]"] exI [of _ "[]"])
         (auto simp: run_ResetBegin_def op_weights duty_ok_def later_run_def engine_ok_def wire_step_def dead_def)
  qed
qed

lemma run_ResetStop_effect:
  assumes r: "run_ResetStop v n th w = Some (w', th')" and e: "engine_ok (ewEngine w)" and l: "ewCmd w"
  shows "effect (OResetStop n) th w w' th'"
proof (cases "reset_ctxErr (vCtx v) (ewEngine w)")
  case True
  then show ?thesis using r e l by (auto simp: run_ResetStop_def op_weights intro!: effect_rules)
next
  case False
  then show ?thesis unfolding effect_def using r e l
    by (intro exI [of _ "[OResetSent, OResetUnlock]"] exI [of _ "[]"])
       (auto simp: run_ResetStop_def op_weights duty_ok_def wire_step_def stop_entry_def live_def)
qed

lemma plain_reads [simp]: "plain (map (\<lambda>p. OResetRead 0) ps)"
  by (auto simp: plain_def op_weights)

lemma run_ResetSent_effect:
  assumes r: "run_ResetSent opt v th w = Some (w', th')" and e: "engine_ok (ewEngine w)"
  shows "effect OResetSent th w w' th'"
  using r e
  by (auto simp: run_ResetSent_def Let_def op_weights simp del: append.simps append_assoc
      intro!: effect_rules split: option.splits if_splits)

lemma run_ResetEnd_effect:
  assumes r: "run_ResetEnd v i a th w = Some (w', th')" and e: "engine_ok (ewEngine w)"
    and b: "0 < enStopBarriers (ewEngine w)"
  shows "effect (OResetEnd i a) th w w' th'"
proof -
  obtain d q where s: "reset_end (vCtx v) i a (thErr th) (ewEngine w) = (d, q)" by (metis prod.exhaust)
  have "lowered (ewEngine w) d" using reset_core(3) [OF b s] by (simp add: core_def lowered_def)
  then show ?thesis using r e b s
    by (auto simp: run_ResetEnd_def op_weights intro!: effect_release)
qed

lemma reset_effect:
  assumes r: "run_reset opt v x th w = Some (w', th')" and e: "ready_op (Reset x) w"
  shows "effect (Reset x) th w w' th'"
proof (cases x)
  case (ResetLock n)
  show ?thesis using r e unfolding ResetLock
    by (auto simp: ready_op_def op_weights duty_ok_def simp del: append.simps append_assoc intro!: effect_duty)
next
  case (ResetRead n)
  then show ?thesis using r e
    by (auto simp: run_ResetRead_def Let_def ready_op_def op_weights simp del: append.simps append_assoc
        intro!: effect_rules split: if_splits option.splits)
next
  case (ResetEnd i a)
  then show ?thesis using r e run_ResetEnd_effect by (auto simp: ready_op_def op_weights)
next
  case ResetUnlock
  then show ?thesis using r e
    by (auto simp: ready_op_def op_weights simp del: append.simps append_assoc intro!: effect_rules)
qed (use r e run_ResetBegin_effect run_ResetStop_effect run_ResetSent_effect in
    \<open>auto simp: ready_op_def op_weights simp del: append.simps append_assoc intro!: effect_rules split: if_splits\<close>)

lemma run_op_effect:
  assumes "run_op opt v x th w = Some (w', th')" and "ready_op x w"
  shows "effect x th w w' th'"
  using assms
  by (cases x) (auto intro: run_boot_effect base_effect cmd_effect halt_effect tick_effect edit_effect reset_effect
      simp: ready_op_def)

section \<open>The invariant\<close>

definition tally :: "(op \<Rightarrow> nat) \<Rightarrow> eworld \<Rightarrow> nat" where
  "tally f w = sum_list (map (\<lambda>t. weight f (thOps t)) (ewThreads w))"

definition in_flight :: "op \<Rightarrow> eworld \<Rightarrow> bool" where
  "in_flight x w \<longleftrightarrow> (\<exists>t \<in> set (ewThreads w). x \<in> set (thOps t))"

text \<open>Run \<open>n\<close> is on, or its Stop is on its way, or was sent.\<close>

definition covered :: "nat \<Rightarrow> eworld \<Rightarrow> bool" where
  "covered n w \<longleftrightarrow> live n (ewEngine w) \<or> (\<exists>x m. in_flight x w \<and> promises x = Some m \<and> n \<le> m) \<or>
     (\<exists>u \<in> set (ewWire w). final u \<and> n \<le> weEpoch u)"

definition engine_inv :: "eworld \<Rightarrow> bool" where
  "engine_inv w \<longleftrightarrow>
     engine_ok (ewEngine w) \<and>
     tally lockW w = of_bool (ewCmd w) \<and>
     tally barrierW w = enStopBarriers (ewEngine w) \<and>
     (\<forall>x n. in_flight x w \<and> stops_run x = Some n \<longrightarrow> dead n (ewEngine w)) \<and>
     (\<forall>u \<in> set (ewWire w). final u \<longrightarrow> dead (weEpoch u) (ewEngine w)) \<and>
     (\<forall>x n. in_flight x w \<and> sends_run x = Some n \<longrightarrow>
        covered n w \<and> (\<forall>u \<in> set (ewWire w). final u \<longrightarrow> weEpoch u < n)) \<and>
     (\<forall>u \<in> set (ewWire w). \<not> final u \<longrightarrow> covered (weEpoch u) w) \<and>
     sorted_wrt (\<lambda>i j. final i \<and> \<not> final j \<longrightarrow> weEpoch i < weEpoch j) (ewWire w)"

lemma promises_stops: "promises x = Some n \<Longrightarrow> stops_run x = Some n"
  by (auto simp: op_weights split: op.splits halt_op.splits reset_op.splits)

lemma promise_cases: "promises x = Some n \<Longrightarrow> (\<exists>k. x = OStopLock k n) \<or> (\<exists>k. x = OStopSend k n)"
  by (auto simp: op_weights split: op.splits halt_op.splits)

lemma sends_lock: "sends_run x = Some n \<Longrightarrow> lockW x = 1"
  by (auto simp: op_weights split: op.splits cmd_op.splits)

lemma tally_split:
  "ewThreads w = xs @ th # ys \<Longrightarrow> tally f w = tally f (w\<lparr>ewThreads := xs @ ys\<rparr>) + weight f (thOps th)"
  by (simp add: tally_def)

lemma in_flight_split:
  "ewThreads w = xs @ th # ys \<Longrightarrow> in_flight x w \<longleftrightarrow> in_flight x (w\<lparr>ewThreads := xs @ ys\<rparr>) \<or> x \<in> set (thOps th)"
  by (auto simp: in_flight_def)

lemma weight_ge: "x \<in> set xs \<Longrightarrow> f x \<le> weight f xs"
  by (induction xs) auto

lemma in_flight_tally: "in_flight x w \<Longrightarrow> f x \<le> tally f w"
proof -
  assume "in_flight x w"
  then obtain t where t: "t \<in> set (ewThreads w)" "x \<in> set (thOps t)" by (auto simp: in_flight_def)
  have "f x \<le> weight f (thOps t)" using weight_ge [OF t(2)] .
  also have "\<dots> \<le> tally f w"
    unfolding tally_def using t(1) by (intro member_le_sum_list) auto
  finally show ?thesis .
qed

lemma inv_ready:
  assumes "engine_inv w" "ewThreads w = xs @ th # ys" "thOps th = x # rest"
  shows "ready_op x (w\<lparr>ewThreads := xs @ ys\<rparr>)"
proof -
  have f: "in_flight x w" using assms(2,3) by (auto simp: in_flight_def)
  have "lockW x \<le> of_bool (ewCmd w)" "barrierW x \<le> enStopBarriers (ewEngine w)"
    using in_flight_tally [OF f, of lockW] in_flight_tally [OF f, of barrierW] assms(1) by (simp_all add: engine_inv_def)
  moreover have "engine_ok (ewEngine w)" "\<forall>n. stops_run x = Some n \<longrightarrow> dead n (ewEngine w)"
    using assms(1) f by (auto simp: engine_inv_def)
  ultimately show ?thesis by (cases "ewCmd w") (auto simp: ready_op_def)
qed

text \<open>One operation keeps every run covered.\<close>

lemma covered_step:
  assumes c: "covered n w" and w: "ewThreads w = xs @ th # ys" and th: "thOps th = x # rest"
    and eff: "effect x (th\<lparr>thOps := rest\<rparr>) (w\<lparr>ewThreads := xs @ ys\<rparr>) w' th'"
  shows "covered n (w'\<lparr>ewThreads := th' # ewThreads w'\<rparr>)"
proof -
  from eff obtain zs ts where e: "thOps th' = zs @ rest" "ewThreads w' = (xs @ ys) @ ts"
    and run: "enRunning (ewEngine w) \<and> \<not> live (enRunEpoch (ewEngine w)) (ewEngine w') \<longrightarrow>
           (\<exists>y \<in> set zs. promises y = Some (enRunEpoch (ewEngine w)))"
    and lock: "\<forall>k n. x = OStopLock k n \<longrightarrow> OStopSend k n \<in> set zs"
    and wire: "wire_step x (ewWire w) (ewWire w')"
    by (auto simp: effect_def)
  let ?v = "w'\<lparr>ewThreads := th' # ewThreads w'\<rparr>"
  have fl: "in_flight y ?v" if "y \<in> set zs \<or> in_flight y (w\<lparr>ewThreads := xs @ ys\<rparr>) \<or> y \<in> set rest" for y
    using that e by (auto simp: in_flight_def)
  have sub: "set (ewWire w) \<subseteq> set (ewWire w')" using wire by (auto simp: wire_step_def)
  from c consider "live n (ewEngine w)" | y m where "in_flight y w" "promises y = Some m" "n \<le> m"
    | u where "u \<in> set (ewWire w)" "final u" "n \<le> weEpoch u"
    by (auto simp: covered_def)
  then show ?thesis
  proof cases
    case 1
    show ?thesis
    proof (cases "live n (ewEngine w')")
      case False
      with 1 run obtain y where "y \<in> set zs" "promises y = Some n" by (auto simp: live_def)
      then show ?thesis using fl by (fastforce simp: covered_def)
    qed (simp add: covered_def)
  next
    case 2
    show ?thesis
    proof (cases "in_flight y (w\<lparr>ewThreads := xs @ ys\<rparr>) \<or> y \<in> set rest")
      case True
      then show ?thesis using fl 2 by (fastforce simp: covered_def)
    next
      case False
      then have y: "y = x" using 2(1) in_flight_split [OF w, of y] th by auto
      from promise_cases [OF 2(2)] show ?thesis
      proof
        assume "\<exists>k. y = OStopLock k m"
        then obtain k where "OStopSend k m \<in> set zs" using lock y by auto
        then have "in_flight (OStopSend k m) ?v" using fl by blast
        moreover have "promises (OStopSend k m) = Some m" by (simp add: op_weights)
        ultimately show ?thesis using 2(3) unfolding covered_def by blast
      next
        assume k: "\<exists>k. y = OStopSend k m"
        then have "stop_entry m \<in> set (ewWire w')" using wire y by (auto simp: wire_step_def op_weights)
        moreover have "final (stop_entry m)" "weEpoch (stop_entry m) = m" by (simp_all add: final_def stop_entry_def)
        ultimately show ?thesis using 2(3) by (auto simp: covered_def)
      qed
    qed
  next
    case 3
    then show ?thesis using sub by (auto simp: covered_def)
  qed
qed

lemma other_locks:
  assumes inv: "engine_inv w" and w: "ewThreads w = xs @ th # ys" and th: "thOps th = x # rest" and l: "lockW x = 1"
    and y: "in_flight y (w\<lparr>ewThreads := xs @ ys\<rparr>) \<or> y \<in> set rest"
  shows "lockW y = 0"
proof (rule ccontr)
  assume "lockW y \<noteq> 0"
  then have "1 \<le> tally lockW (w\<lparr>ewThreads := xs @ ys\<rparr>) + weight lockW rest"
    using y in_flight_tally [of y "w\<lparr>ewThreads := xs @ ys\<rparr>" lockW] weight_ge [of y rest lockW] by auto
  then have "2 \<le> tally lockW w" using tally_split [OF w, of lockW] th l by simp
  moreover have "tally lockW w \<le> 1" using inv by (simp add: engine_inv_def)
  ultimately show False by simp
qed

lemma inv_step_op:
  assumes inv: "engine_inv w" and w: "ewThreads w = xs @ th # ys" and th: "thOps th = x # rest"
    and eff: "effect x (th\<lparr>thOps := rest\<rparr>) (w\<lparr>ewThreads := xs @ ys\<rparr>) w' th'"
  shows "engine_inv (w'\<lparr>ewThreads := th' # ewThreads w'\<rparr>)"
proof -
  let ?v = "w'\<lparr>ewThreads := th' # ewThreads w'\<rparr>" and ?w0 = "w\<lparr>ewThreads := xs @ ys\<rparr>"
  from eff obtain zs ts where e: "thOps th' = zs @ rest" "ewThreads w' = (xs @ ys) @ ts" and sp: "spawned ts"
    and duty: "list_all (duty_ok (ewEngine w')) zs"
    and lock: "of_bool (ewCmd w') + lockW x = of_bool (ewCmd w) + weight lockW zs"
    and bar: "enStopBarriers (ewEngine w') + barrierW x = enStopBarriers (ewEngine w) + weight barrierW zs"
    and later: "later_run (ewEngine w) (ewEngine w')" and ok: "engine_ok (ewEngine w')"
    and wire: "wire_step x (ewWire w) (ewWire w')"
    unfolding effect_def by auto
  have ts0: "sum_list (map (\<lambda>t. weight f (thOps t)) ts) = length ts * f OLoop" for f
    using sp by (induction ts) (auto simp: spawned_def)
  have tal: "tally f ?v = tally f ?w0 + weight f zs + weight f rest + length ts * f OLoop" for f
    using e ts0 [of f] by (simp add: tally_def)
  have tw: "tally f w = tally f ?w0 + f x + weight f rest" for f
    using tally_split [OF w, of f] th by simp
  have L: "lockW OLoop = 0" "barrierW OLoop = 0" by (simp_all add: op_weights)
  have i1: "tally lockW ?v = of_bool (ewCmd ?v)" and i2: "tally barrierW ?v = enStopBarriers (ewEngine ?v)"
    using lock bar tal [of lockW] tal [of barrierW] tw [of lockW] tw [of barrierW] L inv
    by (simp_all add: engine_inv_def)
  have fl: "in_flight y ?v \<Longrightarrow> y \<in> set zs \<or> in_flight y ?w0 \<or> y \<in> set rest \<or> y = OLoop" for y
    using e sp by (auto simp: in_flight_def spawned_def)
  have fw: "in_flight y ?w0 \<or> y \<in> set rest \<Longrightarrow> in_flight y w" "in_flight x w" for y
    using in_flight_split [OF w, of y] in_flight_split [OF w, of x] th by auto
  have i3: "dead n (ewEngine ?v)" if "in_flight y ?v" "stops_run y = Some n" for y n
  proof -
    from fl [OF that(1)] consider "y \<in> set zs" | "in_flight y w" | "y = OLoop" using fw by blast
    then show ?thesis
    proof cases
      case 1 then show ?thesis using duty that(2) by (auto simp: list_all_iff duty_ok_def)
    next
      case 2 then show ?thesis using inv that(2) dead_later [OF _ later] by (auto simp: engine_inv_def)
    next
      case 3 then show ?thesis using that(2) by (simp add: op_weights)
    qed
  qed
  have i4: "dead (weEpoch u) (ewEngine ?v)" if "u \<in> set (ewWire ?v)" "final u" for u
  proof (cases "u \<in> set (ewWire w)")
    case True
    then show ?thesis using inv that(2) dead_later [OF _ later] by (auto simp: engine_inv_def)
  next
    case False
    have "\<exists>n. stops_run x = Some n \<and> u = stop_entry n"
      using False that wire by (auto simp: wire_step_def final_def)
    then show ?thesis using inv fw(2) dead_later [OF _ later] by (auto simp: engine_inv_def stop_entry_def)
  qed
  have cov: "covered n ?v" if "covered n w" for n
    using covered_step [OF that w th eff] .
  have i5: "covered n ?v \<and> (\<forall>u \<in> set (ewWire ?v). final u \<longrightarrow> weEpoch u < n)"
    if y: "in_flight y ?v" "sends_run y = Some n" for y n
  proof -
    from fl [OF y(1)] consider "y \<in> set zs" | "in_flight y ?w0 \<or> y \<in> set rest" | "y = OLoop" by blast
    then show ?thesis
    proof cases
      case 1
      then have l: "live n (ewEngine ?v)" using duty y(2) by (auto simp: list_all_iff duty_ok_def)
      then show ?thesis using i4 dead_live by (auto simp: covered_def)
    next
      case 2
      then have "in_flight y w" using fw(1) by blast
      then have old: "covered n w" "\<forall>u \<in> set (ewWire w). final u \<longrightarrow> weEpoch u < n"
        using inv y(2) by (auto simp: engine_inv_def)
      have "ewWire w' = ewWire w \<or> (\<exists>u. ewWire w' = ewWire w @ [u] \<and> \<not> final u)"
      proof (rule ccontr)
        assume "\<not> ?thesis"
        then have "lockW x = 1" using wire by (auto simp: wire_step_def final_def)
        then have "lockW y = 0" using other_locks [OF inv w th _ 2] by blast
        then show False using sends_lock [OF y(2)] by simp
      qed
      then show ?thesis using old cov by auto
    next
      case 3 then show ?thesis using y(2) by (simp add: op_weights)
    qed
  qed
  have i6: "covered (weEpoch u) ?v" if "u \<in> set (ewWire ?v)" "\<not> final u" for u
  proof (cases "u \<in> set (ewWire w)")
    case True then show ?thesis using inv that(2) cov by (auto simp: engine_inv_def)
  next
    case False
    then have "\<exists>n. sends_run x = Some n \<and> weEpoch u = n"
      using that wire by (auto simp: wire_step_def final_def stop_entry_def)
    then show ?thesis using inv fw(2) cov by (auto simp: engine_inv_def)
  qed
  have i7: "sorted_wrt (\<lambda>i j. final i \<and> \<not> final j \<longrightarrow> weEpoch i < weEpoch j) (ewWire ?v)"
  proof -
    have s: "sorted_wrt (\<lambda>i j. final i \<and> \<not> final j \<longrightarrow> weEpoch i < weEpoch j) (ewWire w)"
      using inv by (simp add: engine_inv_def)
    from wire consider "ewWire w' = ewWire w" | n k where "sends_run x = Some n" "ewWire w' = ewWire w @ [\<lparr>weKind = k, weEpoch = n\<rparr>]"
      | n where "ewWire w' = ewWire w @ [stop_entry n]"
      by (auto simp: wire_step_def)
    then show ?thesis
    proof cases
      case 2
      then have "\<forall>u \<in> set (ewWire w). final u \<longrightarrow> weEpoch u < n" using inv fw(2) by (auto simp: engine_inv_def)
      then show ?thesis using s 2(2) by (simp add: sorted_wrt_append)
    next
      case 3
      then show ?thesis using s by (simp add: sorted_wrt_append final_def stop_entry_def)
    qed (use s in simp)
  qed
  show ?thesis unfolding engine_inv_def
  proof (intro conjI)
    show "engine_ok (ewEngine ?v)" using ok by simp
    show "\<forall>y n. in_flight y ?v \<and> stops_run y = Some n \<longrightarrow> dead n (ewEngine ?v)" using i3 by blast
    show "\<forall>y n. in_flight y ?v \<and> sends_run y = Some n \<longrightarrow>
        covered n ?v \<and> (\<forall>u \<in> set (ewWire ?v). final u \<longrightarrow> weEpoch u < n)" using i5 by blast
  qed (use i1 i2 i4 i6 i7 in blast)+
qed

lemma tally_threads [simp]: "tally f (w\<lparr>ewEngine := e\<rparr>) = tally f w" "in_flight x (w\<lparr>ewEngine := e\<rparr>) = in_flight x w"
  by (simp_all add: tally_def in_flight_def)

lemma script_plain: "plain (script c)"
  by (cases c) (auto simp: script_def plain_def op_weights)

text \<open>Threads that carry no lock, barrier or duty may be added and dropped.\<close>

lemma inv_threads:
  assumes inv: "engine_inv w" and n: "\<And>f. f \<in> {lockW, barrierW} \<Longrightarrow> tally f v = tally f w"
    and same: "ewEngine v = ewEngine w" "ewWire v = ewWire w" "ewCmd v = ewCmd w"
    and fl: "\<And>x. promises x \<noteq> None \<Longrightarrow> in_flight x w \<Longrightarrow> in_flight x v"
    and lf: "\<And>x. lockW x \<noteq> 0 \<or> stops_run x \<noteq> None \<Longrightarrow> in_flight x v \<Longrightarrow> in_flight x w"
  shows "engine_inv v"
proof -
  have c: "covered m v = covered m w" for m
  proof -
    have "in_flight x v \<and> promises x = Some k \<longleftrightarrow> in_flight x w \<and> promises x = Some k" for x k
      using fl [of x] lf [of x] promises_stops [of x k] by auto
    then have "in_flight x v \<and> promises x = Some k \<and> P \<longleftrightarrow> in_flight x w \<and> promises x = Some k \<and> P" for x k P
      by blast
    then show ?thesis unfolding covered_def same by simp
  qed
  have s: "in_flight x v \<and> sends_run x = Some k \<Longrightarrow> in_flight x w \<and> sends_run x = Some k" for x k
    using lf [of x] sends_lock [of x k] by auto
  have d: "in_flight x v \<and> stops_run x = Some k \<Longrightarrow> in_flight x w \<and> stops_run x = Some k" for x k
    using lf [of x] by auto
  show ?thesis using inv n s d unfolding engine_inv_def same c by (simp, meson)
qed

lemma inv_call: "engine_inv w \<Longrightarrow> engine_inv (engine_start c w)"
proof (rule inv_threads)
  fix x
  assume "lockW x \<noteq> 0 \<or> stops_run x \<noteq> None" and f: "in_flight x (engine_start c w)"
  then have "x \<notin> set (script c)" using script_plain [of c] by (auto simp: plain_def)
  then show "in_flight x w" using f by (auto simp: in_flight_def engine_start_def newThread_def)
next
  fix x
  show "in_flight x w \<Longrightarrow> in_flight x (engine_start c w)" by (auto simp: in_flight_def engine_start_def)
qed (use plain_weights [OF script_plain [of c]] in \<open>auto simp: tally_def engine_start_def newThread_def\<close>)

lemma inv_ended:
  assumes "engine_inv w" "ewThreads w = xs @ th # ys" "thOps th = []"
  shows "engine_inv (w\<lparr>ewThreads := xs @ ys\<rparr>)"
  by (rule inv_threads [OF assms(1)])
    (use tally_split [OF assms(2)] in_flight_split [OF assms(2)] assms(3) in auto)

text \<open>An operation skipped on the way to a handler held nothing.\<close>

lemma inv_skip:
  assumes "engine_inv w" "ewThreads w = xs @ th # ys" "thOps th = x # rest" "\<not> catches x"
  shows "engine_inv (w\<lparr>ewThreads := th\<lparr>thOps := rest\<rparr> # xs @ ys\<rparr>)"
proof (rule inv_threads [OF assms(1)])
  fix y
  assume y: "promises y \<noteq> None" "in_flight y w"
  then have "y \<noteq> x" using catches_weights [OF assms(4)] by auto
  then show "in_flight y (w\<lparr>ewThreads := th\<lparr>thOps := rest\<rparr> # xs @ ys\<rparr>)"
    using assms(2,3) y(2) by (auto simp: in_flight_def)
next
  fix y
  show "in_flight y (w\<lparr>ewThreads := th\<lparr>thOps := rest\<rparr> # xs @ ys\<rparr>) \<Longrightarrow> in_flight y w"
    using assms(2,3) by (auto simp: in_flight_def)
qed (use catches_weights [OF assms(4)] assms(2,3) in \<open>auto simp: tally_def\<close>)

lemma advance_cases:
  assumes "engine_inv w" "ewThreads w = xs @ th # ys" "advance opt v th (w\<lparr>ewThreads := xs @ ys\<rparr>) = Some (w', th')"
  obtains x rest where "thOps th = x # rest" "\<not> catches x" "w' = w\<lparr>ewThreads := xs @ ys\<rparr>" "th' = th\<lparr>thOps := rest\<rparr>"
  | x rest where "thOps th = x # rest" "run_op opt v x (th\<lparr>thOps := rest\<rparr>) (w\<lparr>ewThreads := xs @ ys\<rparr>) = Some (w', th')"
      "effect x (th\<lparr>thOps := rest\<rparr>) (w\<lparr>ewThreads := xs @ ys\<rparr>) w' th'"
proof -
  obtain x rest where x: "thOps th = x # rest" using assms(3) by (cases "thOps th") (auto simp: advance_def)
  show thesis
  proof (cases "thErr th \<noteq> None \<and> \<not> catches x")
    case True
    then show thesis using that(1) [OF x] assms(3) x by (auto simp: advance_def)
  next
    case False
    then have "run_op opt v x (th\<lparr>thOps := rest\<rparr>) (w\<lparr>ewThreads := xs @ ys\<rparr>) = Some (w', th')"
      using assms(3) x by (auto simp: advance_def)
    then show thesis using that(2) [OF x] run_op_effect inv_ready [OF assms(1,2) x] by blast
  qed
qed

lemma eng_inv_step: "eng_step opt w w' \<Longrightarrow> engine_inv w \<Longrightarrow> engine_inv w'"
proof (induction rule: eng_step.induct)
  case (thread w xs th ys v w' th')
  from advance_cases [OF thread(3,1,2)] show ?case
  proof cases
    case (1 x rest)
    then show ?thesis using inv_skip [OF thread(3,1)] by simp
  next
    case (2 x rest)
    then show ?thesis using inv_step_op [OF thread(3,1)] by blast
  qed
qed (use inv_call inv_ended in auto)

lemma gen_step_engine:
  "eng_step opt w w' \<Longrightarrow> engine_inv w \<Longrightarrow> enStopGeneration (ewEngine w) \<le> enStopGeneration (ewEngine w')"
proof (induction rule: eng_step.induct)
  case (thread w xs th ys v w' th')
  from advance_cases [OF thread(3,1,2)] show ?case
    by cases (auto simp: effect_def later_run_def)
qed (auto simp: engine_start_def)

definition engine_runs :: "engine_options \<Rightarrow> eworld \<Rightarrow> bool" where
  "engine_runs opt w \<longleftrightarrow> (eng_step opt)\<^sup>*\<^sup>* newEWorld w"

lemma inv_new: "engine_inv newEWorld"
  by (simp add: engine_inv_def newEWorld_def engine_ok_def newEngine_def tally_def in_flight_def covered_def)

interpretation motion: fenced_machine "\<lambda>w. w = newEWorld" "eng_step opt" engine_inv "\<lambda>w. enStopGeneration (ewEngine w)"
  for opt
  by unfold_locales (auto simp: inv_new intro: eng_inv_step gen_step_engine)

lemma inv_runs: "engine_runs opt w \<Longrightarrow> engine_inv w"
  unfolding engine_runs_def by (rule motion.reachable_inv) auto

section \<open>Readings of the invariant\<close>

lemma ok_state: "engine_inv w \<Longrightarrow> enRunning (ewEngine w) \<Longrightarrow>
  enStopBarriers (ewEngine w) = 0 \<and> \<not> enPaused (ewEngine w) \<and> \<not> enCompleting (ewEngine w)"
  by (simp add: engine_inv_def engine_ok_def)

lemma promise_barrier: "promises x = Some n \<Longrightarrow> barrierW x = 1"
  by (auto simp: op_weights split: op.splits halt_op.splits)

text \<open>Without a barrier no Stop is on its way.\<close>

lemma no_promise: "engine_inv w \<Longrightarrow> enStopBarriers (ewEngine w) = 0 \<Longrightarrow> in_flight x w \<Longrightarrow> promises x \<noteq> Some n"
  using in_flight_tally [of x w barrierW] promise_barrier [of x n] by (auto simp: engine_inv_def)

lemma covered_quiet:
  assumes "engine_inv w" "enStopBarriers (ewEngine w) = 0" "covered n w"
  shows "live n (ewEngine w) \<or> (\<exists>u \<in> set (ewWire w). final u \<and> n \<le> weEpoch u)"
  using assms no_promise [OF assms(1,2)] unfolding covered_def by metis

lemma wire_order:
  assumes "engine_inv w" "ewWire w = us @ u # vs" "final u" "x \<in> set vs" "\<not> final x"
  shows "weEpoch u < weEpoch x"
  using assms by (auto simp: engine_inv_def sorted_wrt_append)

text \<open>A Stop that ends a run at least as late as a command stands after it.\<close>

lemma stop_is_behind:
  assumes "engine_inv w" "ewWire w = us @ u # vs" "\<not> final u" "x \<in> set (ewWire w)" "final x" "weEpoch u \<le> weEpoch x"
  shows "x \<in> set vs"
proof (rule ccontr)
  assume "x \<notin> set vs"
  moreover have "x \<noteq> u" using assms by auto
  ultimately have "x \<in> set us" using assms(2,4) by auto
  then obtain as bs where "us = as @ x # bs" by (meson split_list)
  then have "ewWire w = as @ x # (bs @ u # vs)" using assms(2) by simp
  then have "weEpoch x < weEpoch u" using wire_order [OF assms(1) _ assms(5)] assms(3) by auto
  then show False using assms(6) by simp
qed

section \<open>Whole windows\<close>

text \<open>\<open>windows sm a b ts\<close>: from \<open>a\<close> on the sampler's consecutive windows hold \<open>ts\<close>, and \<open>b\<close> is the next start.\<close>

inductive windows :: "sampler \<Rightarrow> int \<Rightarrow> int \<Rightarrow> int list \<Rightarrow> bool" for sm where
  none: "windows sm a a []"
| one: "sm a = Inr (ts, b) \<Longrightarrow> ts \<noteq> [] \<Longrightarrow> windows sm b c us \<Longrightarrow> windows sm a c (ts @ us)"

lemma windows_snoc: "windows sm a b ts \<Longrightarrow> sm b = Inr (us, c) \<Longrightarrow> us \<noteq> [] \<Longrightarrow> windows sm a c (ts @ us)"
proof (induction rule: windows.induct)
  case (none a)
  then show ?case using windows.one [of sm a us c c "[]"] windows.none by simp
next
  case (one a ts b d vs)
  then show ?case using windows.one [of sm a ts b c "vs @ us"] by simp
qed

lemma sampleWindow_ok: "sampleWindow sm e = (d, Inr ts) \<Longrightarrow>
    sm (enNextSampleMillis e) = Inr (ts, enNextSampleMillis d) \<and> ts \<noteq> [] \<and> enLastSample d = Some (last ts) \<and>
    enStreamID d = enStreamID e \<and> enPlan d = enPlan e"
  by (auto simp: sampleWindow_def split: sum.splits if_splits)

lemma fillChunk_windows:
  "fillChunk opt sm tail ts e = (d, Inr us) \<Longrightarrow> windows sm a (enNextSampleMillis e) ts \<Longrightarrow> ts \<noteq> [] \<Longrightarrow>
     length ts \<le> m \<Longrightarrow> eoMaximumChunkPoints opt \<le> m \<Longrightarrow> enLastSample e = Some (last ts) \<Longrightarrow>
     windows sm a (enNextSampleMillis d) us \<and> us \<noteq> [] \<and> length us \<le> m \<and> enLastSample d = Some (last us) \<and>
     enStreamID d = enStreamID e \<and>
     (tail \<le> last us \<or> (\<exists>vs next. sm (enNextSampleMillis d) = Inr (vs, next) \<and>
        eoMaximumChunkPoints opt < length us + length vs))"
proof (induction opt sm tail ts e arbitrary: d rule: fillChunk.induct)
  case (1 opt sm tail ts e)
  show ?case
  proof (cases "last ts < tail")
    case False
    then show ?thesis using 1(2-) by (subst (asm) fillChunk.simps) auto
  next
    case True
    obtain d1 r1 where s: "sampleWindow sm e = (d1, r1)" by (metis prod.exhaust)
    obtain extra where r: "r1 = Inr extra"
      using 1(2) True s by (cases r1; subst (asm) fillChunk.simps) auto
    note so = sampleWindow_ok [OF s [unfolded r]]
    show ?thesis
    proof (cases "eoMaximumChunkPoints opt < length ts + length extra")
      case big: True
      have "us = ts \<and> d = d1\<lparr>enNextSampleMillis := enNextSampleMillis e, enLastSample := enLastSample e\<rparr>"
        using 1(2) True s r big by (subst (asm) fillChunk.simps) auto
      then show ?thesis using 1(3-) so big by auto
    next
      case False
      then have "fillChunk opt sm tail (ts @ extra) d1 = (d, Inr us)"
        using 1(2) True s r by (subst (asm) fillChunk.simps) auto
      then show ?thesis
        using 1(1) [OF True s [symmetric] r False, of d] windows_snoc [OF 1(3)] so 1(4-) False by auto
    qed
  qed
qed

section \<open>Driving the engine through a schedule\<close>

datatype emove = MoveCall engine_call | MoveStep nat eenv | MoveEnd nat

definition pick :: "nat \<Rightarrow> eworld \<Rightarrow> eworld" where
  "pick i w = w\<lparr>ewThreads := take i (ewThreads w) @ drop (Suc i) (ewThreads w)\<rparr>"

definition eng_move :: "engine_options \<Rightarrow> emove \<Rightarrow> eworld \<Rightarrow> eworld option" where
  "eng_move opt m w =
     (case m of
        MoveCall c \<Rightarrow> Some (engine_start c w)
      | MoveStep i v \<Rightarrow>
          if i < length (ewThreads w)
          then map_option (\<lambda>(w', th). w'\<lparr>ewThreads := th # ewThreads w'\<rparr>) (advance opt v (ewThreads w ! i) (pick i w))
          else None
      | MoveEnd i \<Rightarrow>
          if i < length (ewThreads w) \<and> thOps (ewThreads w ! i) = [] then Some (pick i w) else None)"

fun eng_drive :: "engine_options \<Rightarrow> emove list \<Rightarrow> eworld \<Rightarrow> eworld option" where
  "eng_drive opt [] w = Some w"
| "eng_drive opt (m # ms) w = Option.bind (eng_move opt m w) (eng_drive opt ms)"

lemma eng_move_step: "eng_move opt m w = Some w' \<Longrightarrow> eng_step opt w w'"
  by (auto simp: eng_move_def pick_def id_take_nth_drop [symmetric] split: emove.splits if_splits
      intro: eng_step.intros eng_step.thread [OF id_take_nth_drop] eng_step.ended [OF id_take_nth_drop])

lemma eng_drive_steps: "eng_drive opt ms w = Some w' \<Longrightarrow> (eng_step opt)\<^sup>*\<^sup>* w w'"
  by (induction opt ms w rule: eng_drive.induct)
     (auto simp: Option.bind_eq_Some_conv intro: converse_rtranclp_into_rtranclp eng_move_step)

definition eng_driven :: "engine_options \<Rightarrow> emove list \<Rightarrow> eworld" where
  "eng_driven opt ms = the (eng_drive opt ms newEWorld)"

lemma eng_driven_runs: "eng_drive opt ms newEWorld \<noteq> None \<Longrightarrow> engine_runs opt (eng_driven opt ms)"
  using eng_drive_steps by (auto simp: eng_driven_def engine_runs_def)

text \<open>A calm environment: every call succeeds, and windows of two points 100 ms apart.\<close>

definition calmEnv :: eenv where
  "calmEnv = \<lparr>vNow = 1000000000, vCtx = False,
     vPlan = \<lparr>paError = None, paLoop = True, paPhase = 0, paComplete = False, paBridge = False\<rparr>,
     vErr = None, vLatency = 20, vState = ''playing'', vSampler = (\<lambda>t. Inr ([t, t + 100], t + 200)),
     vKnots = (\<lambda>a b. Inr [a, b]), vReady = True, vStateErr = None, vFinal = True, vStart = None,
     vDone = False, vFresh = ''r1''\<rparr>"

definition plainOptions :: engine_options where
  "plainOptions = newEngineOptions ''s'' 250000000 0 None
     (Some \<lparr>smResolutionPercent = 1, smAfterStrokeWindow = False, smMaximumPoints = 5, smPreferredPointInterval = 0,
        smPreferSparse = False\<rparr>) None False"

definition steadyTarget :: motion_target where
  "steadyTarget = \<lparr>tgContent = ''cruise'', tgVibration = None, tgVibrationOnly = False, tgMedia = False\<rparr>"

definition startMoves :: "nat \<Rightarrow> emove list" where
  "startMoves a = MoveCall (CallStart steadyTarget defaultMotion a) # replicate 26 (MoveStep 0 calmEnv) @ [MoveEnd 0]"

text \<open>Stop while the loop runs: the loop sees its cancelled context, ends, and Stop goes on.\<close>

definition stopMoves :: "emove list" where
  "stopMoves = [MoveCall CallStop, MoveStep 1 calmEnv, MoveStep 0 calmEnv, MoveStep 1 (calmEnv\<lparr>vDone := True\<rparr>), MoveEnd 0] @
     replicate 5 (MoveStep 0 calmEnv) @ [MoveEnd 0]"

text \<open>What a schedule leads to, evaluated once.\<close>

definition leads_to :: "emove list \<Rightarrow> (eworld \<Rightarrow> bool) \<Rightarrow> bool" where
  "leads_to ms P = (case eng_drive plainOptions ms newEWorld of None \<Rightarrow> False | Some w \<Rightarrow> P w)"

lemma leads_toE:
  "leads_to ms P \<Longrightarrow> engine_runs plainOptions (eng_driven plainOptions ms) \<and> P (eng_driven plainOptions ms)"
  by (auto simp: leads_to_def eng_driven_def split: option.splits intro: eng_driven_runs [unfolded eng_driven_def])
     (metis eng_driven_def eng_driven_runs option.distinct(1) option.sel)

definition restarted :: eworld where
  "restarted = eng_driven plainOptions (startMoves 0 @ stopMoves @ startMoves 1)"

definition stoppedWorld :: eworld where
  "stoppedWorld = eng_driven plainOptions (startMoves 0 @ stopMoves)"

lemma restarted_facts:
  "engine_runs plainOptions restarted"
  "ewWire restarted =
     [\<lparr>weKind = WStroke, weEpoch = 1\<rparr>, \<lparr>weKind = WAppend ''s-000001'' [0, 100], weEpoch = 1\<rparr>,
      \<lparr>weKind = WPlay ''s-000001'', weEpoch = 1\<rparr>] @ \<lparr>weKind = WFinalStop, weEpoch = 1\<rparr> #
     [\<lparr>weKind = WStroke, weEpoch = 2\<rparr>, \<lparr>weKind = WAppend ''s-000002'' [0, 100], weEpoch = 2\<rparr>,
      \<lparr>weKind = WPlay ''s-000002'', weEpoch = 2\<rparr>]"
  "enRunning (ewEngine restarted)"
proof -
  have "leads_to (startMoves 0 @ stopMoves @ startMoves 1) (\<lambda>w. ewWire w =
     [\<lparr>weKind = WStroke, weEpoch = 1\<rparr>, \<lparr>weKind = WAppend ''s-000001'' [0, 100], weEpoch = 1\<rparr>,
      \<lparr>weKind = WPlay ''s-000001'', weEpoch = 1\<rparr>] @ \<lparr>weKind = WFinalStop, weEpoch = 1\<rparr> #
     [\<lparr>weKind = WStroke, weEpoch = 2\<rparr>, \<lparr>weKind = WAppend ''s-000002'' [0, 100], weEpoch = 2\<rparr>,
      \<lparr>weKind = WPlay ''s-000002'', weEpoch = 2\<rparr>] \<and> enRunning (ewEngine w))"
    by code_simp
  from leads_toE [OF this, folded restarted_def] show "engine_runs plainOptions restarted" "ewWire restarted =
     [\<lparr>weKind = WStroke, weEpoch = 1\<rparr>, \<lparr>weKind = WAppend ''s-000001'' [0, 100], weEpoch = 1\<rparr>,
      \<lparr>weKind = WPlay ''s-000001'', weEpoch = 1\<rparr>] @ \<lparr>weKind = WFinalStop, weEpoch = 1\<rparr> #
     [\<lparr>weKind = WStroke, weEpoch = 2\<rparr>, \<lparr>weKind = WAppend ''s-000002'' [0, 100], weEpoch = 2\<rparr>,
      \<lparr>weKind = WPlay ''s-000002'', weEpoch = 2\<rparr>]" "enRunning (ewEngine restarted)"
    by blast+
qed

lemma stopped_facts:
  "engine_runs plainOptions stoppedWorld"
  "ewWire stoppedWorld =
     [\<lparr>weKind = WStroke, weEpoch = 1\<rparr>, \<lparr>weKind = WAppend ''s-000001'' [0, 100], weEpoch = 1\<rparr>] @
     \<lparr>weKind = WPlay ''s-000001'', weEpoch = 1\<rparr> # [\<lparr>weKind = WFinalStop, weEpoch = 1\<rparr>]"
  "enStopBarriers (ewEngine stoppedWorld) = 0 \<and> \<not> enRunning (ewEngine stoppedWorld) \<and>
     enStopGeneration (ewEngine stoppedWorld) = 1"
proof -
  have "leads_to (startMoves 0 @ stopMoves) (\<lambda>w. ewWire w =
     [\<lparr>weKind = WStroke, weEpoch = 1\<rparr>, \<lparr>weKind = WAppend ''s-000001'' [0, 100], weEpoch = 1\<rparr>] @
     \<lparr>weKind = WPlay ''s-000001'', weEpoch = 1\<rparr> # [\<lparr>weKind = WFinalStop, weEpoch = 1\<rparr>] \<and>
     enStopBarriers (ewEngine w) = 0 \<and> \<not> enRunning (ewEngine w) \<and> enStopGeneration (ewEngine w) = 1)"
    by code_simp
  from leads_toE [OF this, folded stoppedWorld_def] show "engine_runs plainOptions stoppedWorld" "ewWire stoppedWorld =
     [\<lparr>weKind = WStroke, weEpoch = 1\<rparr>, \<lparr>weKind = WAppend ''s-000001'' [0, 100], weEpoch = 1\<rparr>] @
     \<lparr>weKind = WPlay ''s-000001'', weEpoch = 1\<rparr> # [\<lparr>weKind = WFinalStop, weEpoch = 1\<rparr>]"
    "enStopBarriers (ewEngine stoppedWorld) = 0 \<and> \<not> enRunning (ewEngine stoppedWorld) \<and>
     enStopGeneration (ewEngine stoppedWorld) = 1"
    by blast+
qed

section \<open>Properties\<close>

text \<open>
  Property C4.  Stop is final.  In every interleaving of starts, stops, pauses, retargets, resets, the
  dispatch loop and its recoveries, whatever the transport answers: once a Stop has been sent for a
  run, no append, play, stroke window or start-up command of that run or an earlier one is sent any
  more; what follows belongs to a run begun later, and the stopped run never comes back.
\<close>

theorem engine_stop_final:
  assumes "engine_runs opt w" and "ewWire w = us @ u # vs" and "weKind u = WFinalStop"
  shows "(\<forall>x \<in> set vs. weKind x \<noteq> WFinalStop \<longrightarrow> weEpoch u < weEpoch x) \<and>
    weEpoch u \<le> enRunEpoch (ewEngine w) \<and> \<not> (enRunning (ewEngine w) \<and> enRunEpoch (ewEngine w) = weEpoch u)"
proof -
  note inv = inv_runs [OF assms(1)]
  have "dead (weEpoch u) (ewEngine w)" using inv assms(2,3) by (auto simp: engine_inv_def final_def)
  then show ?thesis using wire_order [OF inv assms(2)] assms(3) by (auto simp: final_def dead_def)
qed

lemma engine_stop_final_witness:
  "\<not> (enRunning (ewEngine restarted) \<and> enRunEpoch (ewEngine restarted) = 1) \<and> enRunning (ewEngine restarted)"
  using engine_stop_final [OF restarted_facts(1,2)] restarted_facts(3) by simp

text \<open>
  Property C5.  No run ends without a Stop.  Whenever no Stop is under way, every command that was
  ever sent belongs to the run that is on, or a Stop for its run or a later one was sent after it.
  So a run that was aborted, recovered, completed, paused or replaced has been stopped on the wire.
\<close>

theorem engine_always_stops:
  assumes "engine_runs opt w" and "enStopBarriers (ewEngine w) = 0"
    and "ewWire w = us @ u # vs" and "weKind u \<noteq> WFinalStop"
    and "\<not> (enRunning (ewEngine w) \<and> enRunEpoch (ewEngine w) = weEpoch u)"
  shows "\<exists>x \<in> set vs. weKind x = WFinalStop \<and> weEpoch u \<le> weEpoch x"
proof -
  note inv = inv_runs [OF assms(1)]
  have "\<not> final u" "u \<in> set (ewWire w)" using assms(3,4) by (simp_all add: final_def)
  moreover from this have "covered (weEpoch u) w" using inv by (simp add: engine_inv_def)
  ultimately obtain x where x: "x \<in> set (ewWire w)" "final x" "weEpoch u \<le> weEpoch x"
    using covered_quiet [OF inv assms(2)] assms(5) by (auto simp: live_def)
  then have "x \<in> set vs" using stop_is_behind [OF inv assms(3) \<open>\<not> final u\<close>] by simp
  then show ?thesis using x by (auto simp: final_def)
qed

lemma engine_always_stops_witness:
  "\<exists>x \<in> set [\<lparr>weKind = WFinalStop, weEpoch = 1\<rparr>]. weKind x = WFinalStop \<and> 1 \<le> weEpoch x"
  using engine_always_stops [OF stopped_facts(1) _ stopped_facts(2)] stopped_facts(3) by simp

text \<open>
  Property C25.  The stop barrier counts exactly the Stops under way, \<open>commandMu\<close> is held exactly
  when one goroutine is inside a guarded section, and a run is on only when no Stop is under way and
  the engine is neither paused nor completing a program.
\<close>

theorem engine_barriers_exact:
  assumes "engine_runs opt w"
  shows "enStopBarriers (ewEngine w) = (\<Sum>t \<leftarrow> ewThreads w. sum_list (map barrierW (thOps t))) \<and>
    (\<Sum>t \<leftarrow> ewThreads w. sum_list (map lockW (thOps t))) = (if ewCmd w then 1 else 0) \<and>
    (enRunning (ewEngine w) \<longrightarrow>
       enStopBarriers (ewEngine w) = 0 \<and> \<not> enPaused (ewEngine w) \<and> \<not> enCompleting (ewEngine w))"
  using inv_runs [OF assms] ok_state [of w] by (auto simp: engine_inv_def tally_def)

text \<open>Stop has ended the run and waits for the loop.\<close>

lemma engine_barriers_exact_witness:
  "enStopBarriers (ewEngine (eng_driven plainOptions (startMoves 0 @ take 3 stopMoves))) = 1 \<and>
   (\<Sum>t \<leftarrow> ewThreads (eng_driven plainOptions (startMoves 0 @ take 3 stopMoves)). sum_list (map barrierW (thOps t))) = 1"
proof -
  have "leads_to (startMoves 0 @ take 3 stopMoves) (\<lambda>w. enStopBarriers (ewEngine w) = 1)" by code_simp
  from leads_toE [OF this] show ?thesis
    using engine_barriers_exact [of plainOptions "eng_driven plainOptions (startMoves 0 @ take 3 stopMoves)"] by simp
qed

text \<open>
  A start that was admitted before a Stop never begins, at whatever later moment it
  gets to the engine: it fails and leaves the engine exactly as it is.
\<close>

theorem engine_stale_start:
  assumes "engine_runs opt w" and "a < enStopGeneration (ewEngine w)" and "(eng_step opt)\<^sup>*\<^sup>* w w'"
  shows "engine_begin opt now False pa t s a p (ewEngine w') = (ewEngine w', Inl StartInvalidated)"
  using motion.stale_forever [OF assms(3) inv_runs [OF assms(1)] assms(2)] by (simp add: engine_begin_def)

lemma engine_stale_start_witness:
  "engine_begin plainOptions 5 False (vPlan calmEnv) steadyTarget defaultMotion 0 False (ewEngine stoppedWorld) =
     (ewEngine stoppedWorld, Inl StartInvalidated)"
  using engine_stale_start [OF stopped_facts(1)] stopped_facts(3) by simp

text \<open>
  A chunk is whole windows of the plan, consecutive ones, from where the last chunk
  ended: no sample is skipped, repeated or torn out of its window.  It is never empty, holds at most
  the transport's point limit, and ends early only when the next window would not fit, which is then
  left to the next chunk.
\<close>

theorem chunk_is_whole_windows:
  assumes "nextChunkThrough opt sm kn n tail e = (d, Inr (i, ts))" and "\<not> linearMedia opt e"
    and "\<forall>t us next. sm t = Inr (us, next) \<longrightarrow> length us \<le> eoMaximumChunkPoints opt"
  shows "windows sm (enNextSampleMillis e) (enNextSampleMillis d) ts \<and> ts \<noteq> [] \<and>
    length ts \<le> eoMaximumChunkPoints opt \<and> bufferedTailMillisLocked d = last ts \<and> i = enStreamID e \<and>
    (tail \<le> last ts \<or> (\<exists>us next. sm (enNextSampleMillis d) = Inr (us, next) \<and>
       eoMaximumChunkPoints opt < length ts + length us))"
proof -
  obtain d1 r1 where s: "sampleWindow sm e = (d1, r1)" by (metis prod.exhaust)
  obtain us where us: "r1 = Inr us" and f: "fillChunk opt sm tail us d1 = (d, Inr ts)" "i = enStreamID d"
    using assms(1,2) s by (auto simp: nextChunkThrough_def Let_def split: option.splits sum.splits prod.splits)
  note so = sampleWindow_ok [OF s [unfolded us]]
  have w: "windows sm (enNextSampleMillis e) (enNextSampleMillis d1) us"
    using windows.one [of sm "enNextSampleMillis e" us _ _ "[]"] windows.none so by fastforce
  have "length us \<le> eoMaximumChunkPoints opt" using so assms(3) by blast
  then show ?thesis
    using fillChunk_windows [OF f(1) w, of "eoMaximumChunkPoints opt"] so f(2)
    by (auto simp: bufferedTailMillisLocked_def)
qed

lemma chunk_limit: "eoMaximumChunkPoints plainOptions = 5"
  by code_simp

lemma chunk_is_whole_windows_witness:
  "windows (vSampler calmEnv) 0 400 [0, 100, 200, 300]"
proof -
  let ?e = "newEngine\<lparr>enRunning := True, enRunEpoch := 1\<rparr>" and ?sm = "vSampler calmEnv"
  let ?d = "?e\<lparr>enNextSampleMillis := 400, enLastSample := Some 300\<rparr>"
  have "nextChunkThrough plainOptions ?sm (vKnots calmEnv) 1 900 ?e = (?d, Inr ([], [0, 100, 200, 300]))"
    by code_simp
  moreover have "\<forall>t us next. ?sm t = Inr (us, next) \<longrightarrow> length us \<le> eoMaximumChunkPoints plainOptions"
    by (auto simp: calmEnv_def chunk_limit)
  moreover have "\<not> linearMedia plainOptions ?e" by code_simp
  ultimately show ?thesis
    using chunk_is_whole_windows [of plainOptions ?sm "vKnots calmEnv" 1 900 ?e ?d "[]" "[0, 100, 200, 300]"]
    by (simp add: newEngine_def)
qed

end
