(* ===== verification/HandyWire.thy ===== *)
theory HandyWire
  imports Prelude
begin

text \<open>
  The protobuf wire format of \<open>internal/handyble/wire.go\<close>: \<open>appendUint\<close>, \<open>appendBytes\<close>,
  \<open>appendFloat\<close> and \<open>parseFields\<close>, with the variable-length integers of \<open>encoding/binary\<close>.  Bytes are
  8-bit words.  A \<open>uint64\<close> is a natural number; the lemmas bound every parsed value by \<open>2 ^ 64\<close>, so
  no shift or sum of the code wraps.  A \<open>float32\<close> is its 32 bits.
\<close>

section \<open>Variable-length integers\<close>

definition MaxFrameBytes :: nat where "MaxFrameBytes = 512"

fun appendUvarint :: "nat \<Rightarrow> byte list" where
  "appendUvarint x = (if x < 128 then [of_nat x] else of_nat (x mod 128 + 128) # appendUvarint (x div 128))"

declare appendUvarint.simps [simp del]

text \<open>\<open>binary.Uvarint\<close>: value and length, \<open>None\<close> for a length that is not positive.\<close>

fun uvarint_from :: "nat \<Rightarrow> nat \<Rightarrow> byte list \<Rightarrow> (nat \<times> nat) option" where
  "uvarint_from i x [] = None"
| "uvarint_from i x (b # bs) =
     (if i = 10 then None
      else if unat b < 128 then
        (if i = 9 \<and> 1 < unat b then None else Some (x + unat b * 2 ^ (7 * i), Suc i))
      else uvarint_from (Suc i) (x + unat b mod 128 * 2 ^ (7 * i)) bs)"

definition Uvarint :: "byte list \<Rightarrow> (nat \<times> nat) option" where
  "Uvarint bs = uvarint_from 0 0 bs"

section \<open>Writing fields\<close>

definition appendUint :: "byte list \<Rightarrow> nat \<Rightarrow> nat \<Rightarrow> byte list" where
  "appendUint dst field v = dst @ appendUvarint (field * 8) @ appendUvarint v"

definition appendBytes :: "byte list \<Rightarrow> nat \<Rightarrow> byte list \<Rightarrow> byte list" where
  "appendBytes dst field data = dst @ appendUvarint (field * 8 + 2) @ appendUvarint (length data) @ data"

definition littleEndian32 :: "32 word \<Rightarrow> byte list" where
  "littleEndian32 w = map (\<lambda>i. ucast (drop_bit (8 * i) w)) [0, 1, 2, 3]"

definition appendFloat :: "byte list \<Rightarrow> nat \<Rightarrow> 32 word \<Rightarrow> byte list" where
  "appendFloat dst field bits = dst @ appendUvarint (field * 8 + 5) @ littleEndian32 bits"

definition boolUint :: "bool \<Rightarrow> nat" where
  "boolUint v = (if v then 1 else 0)"

section \<open>Parsing fields\<close>

datatype wire_error =
  Oversized | InvalidField | InvalidVarint | TruncatedField | TruncatedFixed | UnsupportedWireType

record wire_field =
  wfNumber :: nat
  wfWire :: nat
  wfValue :: nat
  wfData :: "byte list"

definition fields_uint :: "wire_field list \<Rightarrow> nat \<Rightarrow> nat" where
  "fields_uint fs n =
     (case find (\<lambda>f. wfNumber f = n \<and> wfWire f = 0) (rev fs) of None \<Rightarrow> 0 | Some f \<Rightarrow> wfValue f)"

definition fields_bytes :: "wire_field list \<Rightarrow> nat \<Rightarrow> byte list option" where
  "fields_bytes fs n = map_option wfData (find (\<lambda>f. wfNumber f = n \<and> wfWire f = 2) (rev fs))"

text \<open>One turn of the loop of \<open>parseFields\<close>: the value by its wire type, then the whole field.\<close>

definition parse_value :: "nat \<Rightarrow> nat \<Rightarrow> byte list \<Rightarrow> wire_error + wire_field \<times> byte list" where
  "parse_value number wire data =
     (let f = \<lparr>wfNumber = number, wfWire = wire, wfValue = 0, wfData = []\<rparr> in
      if wire = 0 then
        (case Uvarint data of
           None \<Rightarrow> Inl InvalidVarint
         | Some (v, n) \<Rightarrow> Inr (f\<lparr>wfValue := v\<rparr>, drop n data))
      else if wire = 2 then
        (case Uvarint data of
           None \<Rightarrow> Inl TruncatedField
         | Some (len, n) \<Rightarrow>
             if MaxFrameBytes < len \<or> length (drop n data) < len then Inl TruncatedField
             else Inr (f\<lparr>wfData := take len (drop n data)\<rparr>, drop len (drop n data)))
      else if wire = 1 \<or> wire = 5 then
        (let k = if wire = 1 then 8 else 4 in
         if length data < k then Inl TruncatedFixed
         else Inr (f\<lparr>wfData := take k data\<rparr>, drop k data))
      else Inl UnsupportedWireType)"

definition parse_field :: "byte list \<Rightarrow> wire_error + wire_field \<times> byte list" where
  "parse_field data =
     (case Uvarint data of
        None \<Rightarrow> Inl InvalidField
      | Some (key, n) \<Rightarrow>
          if key div 8 = 0 \<or> 2 ^ 29 - 1 < key div 8 then Inl InvalidField
          else parse_value (key div 8) (key mod 8) (drop n data))"

lemma uvarint_from_bounds:
  "uvarint_from i x bs = Some (v, n) \<Longrightarrow> i \<le> 10 \<Longrightarrow> i < n \<and> n \<le> i + length bs \<and> n \<le> 10"
  by (induction i x bs rule: uvarint_from.induct) (auto split: if_splits)

lemma Uvarint_length: "Uvarint bs = Some (v, n) \<Longrightarrow> 0 < n \<and> n \<le> length bs \<and> n \<le> 10"
  using uvarint_from_bounds [of 0 0 bs v n] by (simp add: Uvarint_def)

lemma parse_value_shorter:
  "parse_value k w data = Inr (f, rest) \<Longrightarrow> length (wfData f) + length rest \<le> length data"
  by (auto simp: parse_value_def Let_def split: option.splits if_splits)

lemma parse_field_shorter:
  assumes "parse_field data = Inr (f, rest)"
  shows "length (wfData f) + length rest < length data"
proof -
  obtain key n where k: "Uvarint data = Some (key, n)" "parse_value (key div 8) (key mod 8) (drop n data) = Inr (f, rest)"
    using assms by (auto simp: parse_field_def split: option.splits if_splits)
  have "length (wfData f) + length rest \<le> length data - n" "0 < n" "n \<le> length data"
    using parse_value_shorter [OF k(2)] Uvarint_length [OF k(1)] by simp_all
  then show ?thesis by linarith
qed

function parse_loop :: "byte list \<Rightarrow> wire_error + wire_field list" where
  "parse_loop data =
     (if data = [] then Inr []
      else case parse_field data of
          Inl e \<Rightarrow> Inl e
        | Inr (f, rest) \<Rightarrow> bindR (parse_loop rest) (\<lambda>fs. Inr (f # fs)))"
  by pat_completeness auto
termination
  by (relation "measure length") (auto dest!: parse_field_shorter)

declare parse_loop.simps [simp del]

definition parseFields :: "byte list \<Rightarrow> wire_error + wire_field list" where
  "parseFields data = (if MaxFrameBytes < length data then Inl Oversized else parse_loop data)"

section \<open>Laws\<close>

lemma unat_small [simp]: "x < 256 \<Longrightarrow> unat (of_nat x :: byte) = x"
  by (simp add: unat_of_nat)

lemma appendUvarint_nonempty: "0 < length (appendUvarint x)"
  by (subst appendUvarint.simps) simp

lemma uvarint_from_append:
  "y * 2 ^ (7 * i) < 2 ^ 64 \<Longrightarrow> i \<le> 9 \<Longrightarrow>
     uvarint_from i a (appendUvarint y @ rest) = Some (a + y * 2 ^ (7 * i), i + length (appendUvarint y))"
proof (induction y arbitrary: i a rule: appendUvarint.induct)
  case (1 y)
  show ?case
  proof (cases "y < 128")
    case True
    have "\<not> (i = 9 \<and> 1 < y)" using 1(2) by auto
    then show ?thesis using True 1(3) by (subst (1 2) appendUvarint.simps) auto
  next
    case False
    have i: "i < 9"
    proof (rule ccontr)
      assume "\<not> i < 9"
      then have "i = 9" using 1(3) by simp
      then have "y * 2 ^ 63 < 2 ^ 64" using 1(2) by simp
      then show False using False by simp
    qed
    have split: "y mod 128 * 2 ^ (7 * i) + y div 128 * 2 ^ (7 * Suc i) = y * 2 ^ (7 * i)"
    proof -
      have "y * 2 ^ (7 * i) = (y div 128 * 128 + y mod 128) * 2 ^ (7 * i)" by simp
      also have "\<dots> = y div 128 * (128 * 2 ^ (7 * i)) + y mod 128 * 2 ^ (7 * i)" by (simp only: distrib_right mult.assoc)
      also have "(128::nat) * 2 ^ (7 * i) = 2 ^ (7 * Suc i)" by (simp add: power_add)
      finally show ?thesis by simp
    qed
    have bound: "y div 128 * 2 ^ (7 * Suc i) < 2 ^ 64" using split 1(2) by linarith
    have small: "y mod 128 + 128 < 256" by (metis add_less_cancel_right mod_less_divisor numeral_Bit0 zero_less_numeral)
    have e: "appendUvarint y = of_nat (y mod 128 + 128) # appendUvarint (y div 128)"
      using False by (subst appendUvarint.simps) simp
    show ?thesis
      unfolding e using 1(1) [OF False bound, of "a + y mod 128 * 2 ^ (7 * i)"] i split unat_small [OF small]
      by (simp del: of_nat_add)
  qed
qed

lemma Uvarint_append [simp]: "x < 2 ^ 64 \<Longrightarrow> Uvarint (appendUvarint x @ rest) = Some (x, length (appendUvarint x))"
  using uvarint_from_append [of x 0 0 rest] by (simp add: Uvarint_def)

lemma uvarint_from_value: "uvarint_from i x bs = Some (v, n) \<Longrightarrow> x < 2 ^ (7 * i) \<Longrightarrow> i \<le> 10 \<Longrightarrow> v < 2 ^ 64"
proof (induction i x bs rule: uvarint_from.induct)
  case (2 i x b bs)
  have i: "i \<noteq> 10" using 2(2) by auto
  show ?case
  proof (cases "unat b < 128")
    case True
    then have v: "v = x + unat b * 2 ^ (7 * i)" "\<not> (i = 9 \<and> 1 < unat b)" using 2(2) i by (auto split: if_splits)
    consider (last) "i = 9" | (before) "i \<le> 8" using 2(4) i by linarith
    then show ?thesis
    proof cases
      case last
      then have "unat b \<le> 1" using v(2) by simp
      then have "unat b * 2 ^ (7 * i) \<le> 2 ^ 63" using last by simp
      then show ?thesis using last v(1) 2(3) by simp
    next
      case before
      have "x + unat b * 2 ^ (7 * i) < 2 ^ (7 * i) + 127 * 2 ^ (7 * i)"
      proof (rule add_less_le_mono)
        show "unat b * 2 ^ (7 * i) \<le> 127 * 2 ^ (7 * i)" using True by simp
      qed (rule 2(3))
      also have "\<dots> = 2 ^ (7 * i + 7)" by (simp add: power_add)
      also have "\<dots> \<le> (2::nat) ^ 63" using before by (intro power_increasing) auto
      finally show ?thesis using v(1) by simp
    qed
  next
    case False
    have "x + unat b mod 128 * 2 ^ (7 * i) < 2 ^ (7 * i) + 127 * 2 ^ (7 * i)"
    proof (rule add_less_le_mono)
      have "unat b mod 128 < 128" by simp
      then show "unat b mod 128 * 2 ^ (7 * i) \<le> 127 * 2 ^ (7 * i)" by (intro mult_right_mono) auto
    qed (rule 2(3))
    also have "\<dots> = 2 ^ (7 * Suc i)" by (simp add: power_add)
    finally show ?thesis using 2(1) [OF i False] 2(2,4) False i by simp
  qed
qed simp

lemma Uvarint_value: "Uvarint bs = Some (v, n) \<Longrightarrow> v < 2 ^ 64"
  using uvarint_from_value [of 0 0 bs v n] by (simp add: Uvarint_def)

text \<open>A field as the encoders write it.\<close>

definition field_ok :: "wire_field \<Rightarrow> bool" where
  "field_ok f \<longleftrightarrow> 1 \<le> wfNumber f \<and> wfNumber f < 2 ^ 29 \<and>
     (wfWire f = 0 \<and> wfValue f < 2 ^ 64 \<and> wfData f = [] \<or>
      wfWire f = 2 \<and> wfValue f = 0 \<and> length (wfData f) \<le> MaxFrameBytes \<or>
      wfWire f = 1 \<and> wfValue f = 0 \<and> length (wfData f) = 8 \<or>
      wfWire f = 5 \<and> wfValue f = 0 \<and> length (wfData f) = 4)"

definition field_bytes :: "wire_field \<Rightarrow> byte list" where
  "field_bytes f =
     appendUvarint (wfNumber f * 8 + wfWire f) @
     (if wfWire f = 0 then appendUvarint (wfValue f)
      else if wfWire f = 2 then appendUvarint (length (wfData f)) @ wfData f else wfData f)"

abbreviation uint_field :: "nat \<Rightarrow> nat \<Rightarrow> wire_field" where
  "uint_field n v \<equiv> \<lparr>wfNumber = n, wfWire = 0, wfValue = v, wfData = []\<rparr>"

abbreviation bytes_field :: "nat \<Rightarrow> byte list \<Rightarrow> wire_field" where
  "bytes_field n d \<equiv> \<lparr>wfNumber = n, wfWire = 2, wfValue = 0, wfData = d\<rparr>"

abbreviation fixed_field :: "nat \<Rightarrow> byte list \<Rightarrow> wire_field" where
  "fixed_field n d \<equiv> \<lparr>wfNumber = n, wfWire = 5, wfValue = 0, wfData = d\<rparr>"

lemma append_fields:
  "appendUint dst n v = dst @ field_bytes (uint_field n v)"
  "appendBytes dst n d = dst @ field_bytes (bytes_field n d)"
  "appendFloat dst n w = dst @ field_bytes (fixed_field n (littleEndian32 w))"
  by (simp_all add: appendUint_def appendBytes_def appendFloat_def field_bytes_def)

definition value_bytes :: "wire_field \<Rightarrow> byte list" where
  "value_bytes f =
     (if wfWire f = 0 then appendUvarint (wfValue f)
      else if wfWire f = 2 then appendUvarint (length (wfData f)) @ wfData f else wfData f)"

lemma parse_value_bytes: "field_ok f \<Longrightarrow> parse_value (wfNumber f) (wfWire f) (value_bytes f @ rest) = Inr (f, rest)"
  by (cases f) (auto simp: field_ok_def parse_value_def value_bytes_def Let_def MaxFrameBytes_def)

lemma parse_field_bytes:
  assumes "field_ok f"
  shows "parse_field (field_bytes f @ rest) = Inr (f, rest)"
proof -
  define n w where "n = wfNumber f" and "w = wfWire f"
  have b: "1 \<le> n" "n < 2 ^ 29" "w < 8" using assms by (auto simp: field_ok_def n_def w_def)
  then have "n * 8 + w < 2 ^ 64" by simp
  then have k: "Uvarint (appendUvarint (n * 8 + w) @ value_bytes f @ rest) =
      Some (n * 8 + w, length (appendUvarint (n * 8 + w)))"
    by (rule Uvarint_append)
  have d: "(n * 8 + w) div 8 = n" "(n * 8 + w) mod 8 = w" using b(3) by simp_all
  have e: "field_bytes f @ rest = appendUvarint (n * 8 + w) @ value_bytes f @ rest"
    by (simp add: field_bytes_def value_bytes_def n_def w_def)
  show ?thesis
    unfolding parse_field_def e k option.case prod.case d append_eq_conv_conj [THEN iffD1, OF refl]
    using parse_value_bytes [OF assms, of rest] b by (simp add: n_def w_def)
qed

definition wire :: "wire_field list \<Rightarrow> byte list" where
  "wire fs = concat (map field_bytes fs)"

lemma wire_simps [simp]: "wire [] = []" "wire (f # fs) = field_bytes f @ wire fs" "wire (fs @ gs) = wire fs @ wire gs"
  by (simp_all add: wire_def)

lemma parse_loop_fields: "list_all field_ok fs \<Longrightarrow> parse_loop (wire fs) = Inr fs"
proof (induction fs)
  case Nil
  then show ?case by (simp add: parse_loop.simps)
next
  case (Cons f fs)
  have "field_bytes f @ wire fs \<noteq> []"
    using appendUvarint_nonempty by (auto simp: field_bytes_def)
  then show ?case using Cons parse_field_bytes [of f] by (subst parse_loop.simps) simp
qed

lemma parse_value_cases:
  assumes "parse_value k w data = Inr (f, rest)"
  obtains (varint) v n where "w = 0" "Uvarint data = Some (v, n)" "f = \<lparr>wfNumber = k, wfWire = w, wfValue = v, wfData = []\<rparr>"
  | (bytes) xs where "w = 2" "length xs \<le> MaxFrameBytes" "f = \<lparr>wfNumber = k, wfWire = w, wfValue = 0, wfData = xs\<rparr>"
  | (fixed) xs where "w = 1 \<and> length xs = 8 \<or> w = 5 \<and> length xs = 4" "f = \<lparr>wfNumber = k, wfWire = w, wfValue = 0, wfData = xs\<rparr>"
proof -
  consider "w = 0" | "w = 2" | "w = 1" | "w = 5" | "w \<notin> {0, 1, 2, 5}" by blast
  then show ?thesis
  proof cases
    case 1
    then show ?thesis using assms varint by (auto simp: parse_value_def split: option.splits)
  next
    case 2
    then obtain len n where u: "Uvarint data = Some (len, n)" using assms by (auto simp: parse_value_def split: option.splits)
    then show ?thesis using assms 2 bytes [of "take len (drop n data)"]
      by (simp add: parse_value_def min_def not_less split: if_splits)
  next
    case 3
    then show ?thesis using assms fixed [of "take 8 data"] by (auto simp: parse_value_def split: if_splits)
  next
    case 4
    then show ?thesis using assms fixed [of "take 4 data"] by (auto simp: parse_value_def split: if_splits)
  qed (use assms in \<open>simp add: parse_value_def\<close>)
qed

lemma parse_value_ok:
  assumes "parse_value k w data = Inr (f, rest)" "1 \<le> k" "k < 2 ^ 29"
  shows "field_ok f"
  using assms(1) by (cases rule: parse_value_cases) (use assms(2,3) Uvarint_value in \<open>auto simp: field_ok_def\<close>)

lemma parse_field_ok:
  assumes "parse_field data = Inr (f, rest)"
  shows "field_ok f"
proof -
  obtain key n where k: "Uvarint data = Some (key, n)" "\<not> (key div 8 = 0 \<or> 2 ^ 29 - 1 < key div 8)"
      "parse_value (key div 8) (key mod 8) (drop n data) = Inr (f, rest)"
    using assms by (auto simp: parse_field_def split: option.splits if_splits)
  have "1 \<le> key div 8" "key div 8 < 2 ^ 29" using k(2) by linarith+
  then show ?thesis using parse_value_ok [OF k(3)] by simp
qed

lemma parse_loop_ok:
  "parse_loop data = Inr fs \<Longrightarrow> length data \<le> MaxFrameBytes \<Longrightarrow>
     list_all field_ok fs \<and> length fs + (\<Sum>f \<leftarrow> fs. length (wfData f)) \<le> length data"
proof (induction data arbitrary: fs rule: parse_loop.induct)
  case (1 data)
  show ?case
  proof (cases "data = []")
    case True
    then show ?thesis using 1(2) by (subst (asm) parse_loop.simps) auto
  next
    case False
    then obtain f rest gs where p: "parse_field data = Inr (f, rest)" "parse_loop rest = Inr gs" "fs = f # gs"
      using 1(2) by (subst (asm) parse_loop.simps) (auto simp: bindR_Inr_iff split: sum.splits)
    note s = parse_field_shorter [OF p(1)]
    then show ?thesis
      using 1(1) [OF False p(1) refl p(2)] parse_field_ok [OF p(1)] 1(3) p(3) by auto
  qed
qed

section \<open>Properties\<close>

text \<open>
  Parsing inverts writing: well-formed fields written one after the other are read back
  exactly, in order, when the frame is within 512 bytes.  Conversely whatever is accepted is
  well-formed (numbers of 29 bits, values of 64, payloads that lie in the frame) and no longer than
  the frame; a longer frame is refused before it is looked at.
\<close>

theorem parse_inverts_wire:
  "(list_all field_ok fs \<and> length (wire fs) \<le> MaxFrameBytes \<longrightarrow> parseFields (wire fs) = Inr fs) \<and>
   (parseFields data = Inr gs \<longrightarrow>
      list_all field_ok gs \<and> length gs + (\<Sum>f \<leftarrow> gs. length (wfData f)) \<le> length data \<and> length data \<le> MaxFrameBytes) \<and>
   (MaxFrameBytes < length data \<longrightarrow> parseFields data = Inl Oversized)"
  using parse_loop_fields [of fs] parse_loop_ok [of data gs] by (auto simp: parseFields_def)

definition twoFields :: "wire_field list" where
  "twoFields = [uint_field 1 300, bytes_field 2 [1, 2]]"

lemma parse_inverts_wire_witness:
  "parseFields [0x08, 0xAC, 0x02, 0x12, 0x02, 1, 2] = Inr twoFields \<and>
   parseFields (replicate 513 0) = Inl Oversized"
proof -
  have "wire twoFields = [0x08, 0xAC, 0x02, 0x12, 0x02, 1, 2]" by code_simp
  moreover have "list_all field_ok twoFields" by (simp add: twoFields_def field_ok_def MaxFrameBytes_def)
  ultimately show ?thesis
    using parse_inverts_wire [of twoFields "replicate 513 0" "[]"] by (simp add: MaxFrameBytes_def)
qed

end
