(* ===== verification/HandyCodec.thy ===== *)
theory HandyCodec
  imports HandyWire "HOL-Library.Code_Target_Nat"
begin

text \<open>
  The device RPC of \<open>internal/handyble/codec.go\<close>: \<open>Encode\<close> of requests and \<open>Decode\<close> of responses and
  notifications, over the fields of \<open>HandyWire\<close>.  Integers of 32 and 64 bits are \<open>int\<close> or \<open>nat\<close> with
  the two's-complement conversions written out; the \<open>float32\<close> bounds of a stroke window are compared
  by the order of their bit patterns, which is the order of their values outside NaN.

  Both directions are checked against the protobuf schema, written down apart from the code:
  \<open>read_request\<close> reads what \<open>Encode\<close> wrote, and \<open>device_frame\<close> holds of the frames in which a device
  may send a message that \<open>Decode\<close> reads.
\<close>

section \<open>Requests\<close>

definition StopCurrentMode :: nat where "StopCurrentMode = 715"
definition ClockSet :: nat where "ClockSet = 709"
definition ClockGet :: nat where "ClockGet = 712"
definition Stroke :: nat where "Stroke = 841"
definition Setup :: nat where "Setup = 860"
definition Add :: nat where "Add = 861"
definition Play :: nat where "Play = 863"
definition Stop :: nat where "Stop = 864"
definition State :: nat where "State = 867"

lemmas method_defs = StopCurrentMode_def ClockSet_def ClockGet_def Stroke_def Setup_def Add_def Play_def
  Stop_def State_def

record handy_point =
  hpTime :: nat
  hpPosition :: nat

record handy_request =
  rqMethod :: nat
  rqID :: nat
  rqStreamID :: nat
  rqMin :: "32 word"
  rqMax :: "32 word"
  rqPoints :: "handy_point list"
  rqTail :: nat
  rqFlush :: bool
  rqStart :: int
  rqServerTime :: "nat option"
  rqClockOffset :: int
  rqRoundTrip :: int

datatype handy_error =
    WireError wire_error
  | BadStrokeWindow
  | BadPointTail
  | BadPoint
  | UnsupportedMethod nat
  | UnknownMessageType
  | MissingPayload
  | BadResponseID
  | BadClock
  | BadStateCounter
  | BadInt32

text \<open>The sign and magnitude of a \<open>float32\<close> as an integer: monotone in its value, and 0 for both zeros.\<close>

definition f32_key :: "32 word \<Rightarrow> int" where
  "f32_key w = (let n = int (unat w) in if n < 2 ^ 31 then n else - (n - 2 ^ 31))"

definition f32_nan :: "32 word \<Rightarrow> bool" where
  "f32_nan w \<longleftrightarrow> 0x7F800000 < unat w mod 2 ^ 31"

definition f32_one :: "32 word" where
  "f32_one = 0x3F800000"

text \<open>\<open>uint64(v)\<close> of a signed value, and the zigzag form \<open>uint64(v<<1) ^ uint64(v>>63)\<close>.\<close>

definition to_uint64 :: "int \<Rightarrow> nat" where
  "to_uint64 v = nat (v mod 2 ^ 64)"

definition zigzag :: "int \<Rightarrow> nat" where
  "zigzag v = unat (push_bit 1 (word_of_int v :: 64 word) XOR word_of_int (drop_bit 63 v))"

definition strokeWindow_bad :: "32 word \<Rightarrow> 32 word \<Rightarrow> bool" where
  "strokeWindow_bad lo hi \<longleftrightarrow>
     f32_nan lo \<or> f32_nan hi \<or> f32_key lo < 0 \<or> f32_key f32_one < f32_key hi \<or> f32_key hi \<le> f32_key lo"

definition point_bytes :: "handy_point \<Rightarrow> byte list" where
  "point_bytes p = appendUint (appendUint [] 1 (hpTime p)) 2 (hpPosition p)"

fun append_points :: "nat option \<Rightarrow> handy_point list \<Rightarrow> byte list \<Rightarrow> handy_error + byte list" where
  "append_points prev [] body = Inr body"
| "append_points prev (p # ps) body =
     (if 100 < hpPosition p \<or> (case prev of None \<Rightarrow> False | Some t \<Rightarrow> hpTime p \<le> t) then Inl BadPoint
      else append_points (Some (hpTime p)) ps (appendBytes body 1 (point_bytes p)))"

definition encode_body :: "handy_request \<Rightarrow> handy_error + byte list" where
  "encode_body r =
     (if rqMethod r = Stroke then
        (if strokeWindow_bad (rqMin r) (rqMax r) then Inl BadStrokeWindow
         else Inr (appendFloat (appendFloat [] 1 (rqMin r)) 2 (rqMax r)))
      else if rqMethod r = Setup then Inr (appendUint [] 1 (rqStreamID r))
      else if rqMethod r = Add then
        (if rqPoints r = [] \<or> rqTail r + 1 < length (rqPoints r) then Inl BadPointTail
         else bindR (append_points None (rqPoints r) []) (\<lambda>body.
           Inr (appendUint (appendUint body 2 (boolUint (rqFlush r))) 3 (rqTail r))))
      else if rqMethod r = Play then
        (let body = appendUint [] 1 (to_uint64 (rqStart r));
             body1 = (case rqServerTime r of None \<Rightarrow> body | Some t \<Rightarrow> appendUint body 2 t) in
         Inr (appendUint (appendUint (appendFloat body1 3 f32_one) 4 0) 5 1))
      else if rqMethod r = ClockSet then
        Inr (appendUint (appendUint [] 1 (zigzag (rqClockOffset r))) 2 (to_uint64 (rqRoundTrip r)))
      else if rqMethod r \<in> {Stop, StopCurrentMode, State, ClockGet} then Inr []
      else Inl (UnsupportedMethod (rqMethod r)))"

definition handy_Encode :: "handy_request \<Rightarrow> handy_error + byte list" where
  "handy_Encode r =
     bindR (encode_body r) (\<lambda>body.
       let request = appendUint (appendBytes [] (rqMethod r) body) 2 (rqID r) in
       Inr (appendBytes (appendUint [] 1 1) 2 request))"

section \<open>Responses and notifications\<close>

record hsp_state =
  hsPlayState :: string
  hsStreamID :: nat
  hsPoints :: nat
  hsCurrentTime :: int
  hsTail :: int

record handy_message =
  hmNotification :: bool
  hmID :: nat
  hmMethod :: nat
  hmState :: "hsp_state option"
  hmDeviceTime :: "nat option"
  hmErrorCode :: "nat option"

definition parseW :: "byte list \<Rightarrow> handy_error + wire_field list" where
  "parseW data = wrapErr WireError (parseFields data)"

definition signed32 :: "nat \<Rightarrow> handy_error + int" where
  "signed32 v =
     (if v \<le> 2 ^ 31 - 1 then Inr (int v)
      else if v \<le> 2 ^ 32 - 1 then Inr (- 1 - int (2 ^ 32 - 1 - v))
      else let d = 2 ^ 64 - 1 - v in
        if d \<le> 2 ^ 31 - 1 then Inr (- 1 - int d) else Inl BadInt32)"

definition playStates :: "string list" where
  "playStates = [''not_initialized'', ''playing'', ''stopped'', ''paused'', ''starving'']"

definition decodeState :: "byte list \<Rightarrow> handy_error + hsp_state" where
  "decodeState data =
     bindR (parseW data) (\<lambda>f.
       let n = fields_uint f 1;
           st = (if n < length playStates then playStates ! n else ''unknown'');
           stream = fields_uint f 10; points = fields_uint f 2 in
       if 2 ^ 32 - 1 < stream \<or> 2 ^ 32 - 1 < points then Inl BadStateCounter
       else bindR (signed32 (fields_uint f 5)) (\<lambda>currentTime.
         bindR (signed32 (fields_uint f 11)) (\<lambda>tail.
           Inr \<lparr>hsPlayState = st, hsStreamID = stream, hsPoints = points, hsCurrentTime = currentTime,
                hsTail = tail\<rparr>)))"

definition decodeResult :: "handy_message \<Rightarrow> wire_field \<Rightarrow> handy_error + handy_message" where
  "decodeResult m0 f =
     (let m = m0\<lparr>hmMethod := wfNumber f\<rparr> in
      if wfNumber f = 712 \<and> \<not> hmNotification m then
        bindR (parseW (wfData f)) (\<lambda>clock.
          let v = fields_uint clock 1 in
          if 2 ^ 32 - 1 < v then Inl BadClock else Inr (m\<lparr>hmDeviceTime := Some v\<rparr>))
      else if 860 \<le> wfNumber f \<and> wfNumber f \<le> 874 then
        bindR (parseW (wfData f)) (\<lambda>body.
          case fields_bytes body 1 of
            None \<Rightarrow> Inr m
          | Some st \<Rightarrow> bindR (decodeState st) (\<lambda>s. Inr (m\<lparr>hmState := Some s\<rparr>)))
      else Inr m)"

fun decode_results :: "wire_field list \<Rightarrow> handy_message \<Rightarrow> handy_error + handy_message" where
  "decode_results [] m = Inr m"
| "decode_results (f # fs) m =
     (if wfWire f \<noteq> 2 \<or> wfNumber f \<le> 10 then decode_results fs m
      else bindR (decodeResult m f) (decode_results fs))"

definition decode_payload :: "bool \<Rightarrow> byte list option \<Rightarrow> handy_error + handy_message" where
  "decode_payload notification nested =
     (case nested of
        None \<Rightarrow> Inl MissingPayload
      | Some data \<Rightarrow>
          bindR (parseW data) (\<lambda>fields.
            let i = fields_uint fields (if notification then 2 else 1);
                m = \<lparr>hmNotification = notification, hmID = i, hmMethod = 0, hmState = None, hmDeviceTime = None,
                     hmErrorCode = None\<rparr> in
            if 2 ^ 32 - 1 < i then Inl BadResponseID
            else bindR (if notification then Inr m
                        else case fields_bytes fields 2 of
                            None \<Rightarrow> Inr m
                          | Some e \<Rightarrow> bindR (parseW e) (\<lambda>ef. Inr (m\<lparr>hmErrorCode := Some (fields_uint ef 1)\<rparr>)))
                   (decode_results fields)))"

definition handy_Decode :: "byte list \<Rightarrow> handy_error + handy_message" where
  "handy_Decode data =
     bindR (parseW data) (\<lambda>fields.
       if fields_uint fields 1 = 3 then decode_payload False (fields_bytes fields 4)
       else if fields_uint fields 1 = 4 then decode_payload True (fields_bytes fields 5)
       else Inl UnknownMessageType)"

section \<open>What the device reads\<close>

text \<open>
  The reader of a request the protobuf schema prescribes: every field by its number, the last
  occurrence of a singular one, all occurrences of a repeated one.  It is the reference the encoder
  is checked against.
\<close>

definition read_signed64 :: "nat \<Rightarrow> int" where
  "read_signed64 v = (if v < 2 ^ 63 then int v else int v - 2 ^ 64)"

definition read_zigzag :: "nat \<Rightarrow> int" where
  "read_zigzag v = (if even v then int (v div 2) else - int (v div 2) - 1)"

definition repeated :: "wire_field list \<Rightarrow> nat \<Rightarrow> byte list list" where
  "repeated fs n = map wfData (filter (\<lambda>f. wfNumber f = n \<and> wfWire f = 2) fs)"

definition read_fixed :: "wire_field list \<Rightarrow> nat \<Rightarrow> byte list" where
  "read_fixed fs n = (case find (\<lambda>f. wfNumber f = n \<and> wfWire f = 5) (rev fs) of None \<Rightarrow> [] | Some f \<Rightarrow> wfData f)"

definition word_of_le32 :: "byte list \<Rightarrow> 32 word" where
  "word_of_le32 bs = foldr (\<lambda>b w. push_bit 8 w OR ucast b) bs 0"

definition has_uint :: "wire_field list \<Rightarrow> nat \<Rightarrow> bool" where
  "has_uint fs n = list_ex (\<lambda>f. wfNumber f = n \<and> wfWire f = 0) fs"

definition read_point :: "byte list \<Rightarrow> handy_error + handy_point" where
  "read_point bs = bindR (parseW bs) (\<lambda>fs. Inr \<lparr>hpTime = fields_uint fs 1, hpPosition = fields_uint fs 2\<rparr>)"

fun read_points :: "byte list list \<Rightarrow> handy_error + handy_point list" where
  "read_points [] = Inr []"
| "read_points (b # bs) = bindR (read_point b) (\<lambda>p. bindR (read_points bs) (\<lambda>ps. Inr (p # ps)))"

definition blankRequest :: "nat \<Rightarrow> nat \<Rightarrow> handy_request" where
  "blankRequest m i =
     \<lparr>rqMethod = m, rqID = i, rqStreamID = 0, rqMin = 0, rqMax = 0, rqPoints = [], rqTail = 0, rqFlush = False,
      rqStart = 0, rqServerTime = None, rqClockOffset = 0, rqRoundTrip = 0\<rparr>"

definition read_body :: "handy_request \<Rightarrow> wire_field list \<Rightarrow> handy_error + handy_request" where
  "read_body r fs =
     (if rqMethod r = Stroke then
        Inr (r\<lparr>rqMin := word_of_le32 (read_fixed fs 1), rqMax := word_of_le32 (read_fixed fs 2)\<rparr>)
      else if rqMethod r = Setup then Inr (r\<lparr>rqStreamID := fields_uint fs 1\<rparr>)
      else if rqMethod r = Add then
        bindR (read_points (repeated fs 1)) (\<lambda>ps.
          Inr (r\<lparr>rqPoints := ps, rqFlush := (fields_uint fs 2 \<noteq> 0), rqTail := fields_uint fs 3\<rparr>))
      else if rqMethod r = Play then
        Inr (r\<lparr>rqStart := read_signed64 (fields_uint fs 1),
               rqServerTime := (if has_uint fs 2 then Some (fields_uint fs 2) else None)\<rparr>)
      else if rqMethod r = ClockSet then
        Inr (r\<lparr>rqClockOffset := read_zigzag (fields_uint fs 1), rqRoundTrip := read_signed64 (fields_uint fs 2)\<rparr>)
      else Inr r)"

definition read_request :: "byte list \<Rightarrow> handy_error + handy_request" where
  "read_request data =
     bindR (parseW data) (\<lambda>outer.
       if fields_uint outer 1 \<noteq> 1 then Inl UnknownMessageType
       else case fields_bytes outer 2 of
           None \<Rightarrow> Inl MissingPayload
         | Some q \<Rightarrow> bindR (parseW q) (\<lambda>fs.
             case find (\<lambda>f. wfWire f = 2) fs of
               None \<Rightarrow> Inl MissingPayload
             | Some f \<Rightarrow> bindR (parseW (wfData f)) (read_body (blankRequest (wfNumber f) (fields_uint fs 2)))))"

text \<open>The fields a request of its method carries, and the ranges of Go's types.\<close>

definition canonRequest :: "handy_request \<Rightarrow> handy_request" where
  "canonRequest r =
     (let b = blankRequest (rqMethod r) (rqID r) in
      if rqMethod r = Stroke then b\<lparr>rqMin := rqMin r, rqMax := rqMax r\<rparr>
      else if rqMethod r = Setup then b\<lparr>rqStreamID := rqStreamID r\<rparr>
      else if rqMethod r = Add then b\<lparr>rqPoints := rqPoints r, rqFlush := rqFlush r, rqTail := rqTail r\<rparr>
      else if rqMethod r = Play then b\<lparr>rqStart := rqStart r, rqServerTime := rqServerTime r\<rparr>
      else if rqMethod r = ClockSet then b\<lparr>rqClockOffset := rqClockOffset r, rqRoundTrip := rqRoundTrip r\<rparr>
      else b)"

definition request_ok :: "handy_request \<Rightarrow> bool" where
  "request_ok r \<longleftrightarrow>
     rqMethod r < 2 ^ 29 \<and> rqID r < 2 ^ 32 \<and> rqStreamID r < 2 ^ 32 \<and> rqTail r < 2 ^ 32 \<and>
     list_all (\<lambda>p. hpTime p < 2 ^ 32 \<and> hpPosition p < 2 ^ 32) (rqPoints r) \<and>
     - (2 ^ 31) \<le> rqStart r \<and> rqStart r < 2 ^ 31 \<and> (case rqServerTime r of None \<Rightarrow> True | Some t \<Rightarrow> t < 2 ^ 64) \<and>
     - (2 ^ 63) \<le> rqClockOffset r \<and> rqClockOffset r < 2 ^ 63 \<and>
     - (2 ^ 31) \<le> rqRoundTrip r \<and> rqRoundTrip r < 2 ^ 31"

section \<open>Laws\<close>

lemma parseW_wire: "list_all field_ok fs \<Longrightarrow> length (wire fs) \<le> MaxFrameBytes \<Longrightarrow> parseW (wire fs) = Inr fs"
  by (simp add: parseW_def parseFields_def parse_loop_fields)

lemma field_data_short: "wfWire f = 2 \<Longrightarrow> length (wfData f) \<le> length (field_bytes f)"
  by (simp add: field_bytes_def)

lemma little_endian [simp]: "word_of_le32 (littleEndian32 w) = w"
  unfolding word_of_le32_def littleEndian32_def
  by (rule bit_word_eqI) (rename_tac n, case_tac "n < 8"; case_tac "n < 16"; case_tac "n < 24"; auto simp: bit_simps)

lemma little_endian_length [simp]: "length (littleEndian32 w) = 4"
  by (simp add: littleEndian32_def)

lemma read_signed64_uint: "- (2 ^ 63) \<le> v \<Longrightarrow> v < 2 ^ 63 \<Longrightarrow> read_signed64 (to_uint64 v) = v"
proof (cases "0 \<le> v")
  case True
  assume "v < 2 ^ 63"
  then show ?thesis using True by (simp add: read_signed64_def to_uint64_def)
next
  case False
  assume "- (2 ^ 63) \<le> v"
  then have "(v + 2 ^ 64) mod 2 ^ 64 = v + 2 ^ 64" using False by (intro mod_pos_pos_trivial) auto
  then have "v mod 2 ^ 64 = v + 2 ^ 64" by simp
  then show ?thesis using False \<open>- (2 ^ 63) \<le> v\<close> by (simp add: read_signed64_def to_uint64_def)
qed

lemma to_uint64_bound [simp]: "to_uint64 v < 2 ^ 64"
  by (simp add: to_uint64_def nat_less_iff)

lemma len64: "LENGTH(64) = 64"
  by simp

lemma zigzag_value:
  assumes "- (2 ^ 63) \<le> v" "v < 2 ^ 63"
  shows "zigzag v = nat (if 0 \<le> v then 2 * v else - 2 * v - 1)"
proof (cases "0 \<le> v")
  case True
  have "drop_bit 63 v = 0" using True assms(2) by (simp add: drop_bit_eq_div)
  moreover have "unat (word_of_int v :: 64 word) = nat v"
    using True assms(2) by (simp add: unat_eq_nat_uint uint_word_of_int)
  ultimately show ?thesis using True assms(2)
    by (simp add: zigzag_def push_bit_eq_mult unat_word_ariths nat_mult_distrib)
next
  case False
  have d: "drop_bit 63 v = - 1" using False assms(1) by (simp add: drop_bit_eq_div)
  have "zigzag v = unat (push_bit 1 (word_of_int v :: 64 word) XOR - 1)" unfolding zigzag_def d by simp
  also have "\<dots> = unat (- (push_bit 1 (word_of_int v :: 64 word)) - 1)" by (simp add: not_eq_complement)
  also have "- (push_bit 1 (word_of_int v :: 64 word)) - 1 = word_of_int (- (2 * v) - 1)"
    by (simp add: push_bit_eq_mult)
  also have "unat (word_of_int (- (2 * v) - 1) :: 64 word) = nat ((- (2 * v) - 1) mod 2 ^ 64)"
    by (simp only: unat_eq_nat_uint uint_word_of_int len64)
  also have "(- (2 * v) - 1) mod 2 ^ 64 = - (2 * v) - 1" using False assms(1) by (intro mod_pos_pos_trivial) auto
  finally show ?thesis using False by simp
qed

lemma zigzag_bound: "zigzag v < 2 ^ 64"
  unfolding zigzag_def by (rule less_le_trans [OF unsigned_less]) simp

lemma read_zigzag_inverse: "- (2 ^ 63) \<le> v \<Longrightarrow> v < 2 ^ 63 \<Longrightarrow> read_zigzag (zigzag v) = v"
proof -
  assume "- (2 ^ 63) \<le> v" "v < 2 ^ 63"
  from zigzag_value [OF this] show ?thesis
  proof (cases "0 \<le> v")
    case False
    obtain n where n: "v = - int (Suc n)" using False by (metis int_cases not_le zle_iff_zadd add_0)
    have z: "zigzag v = Suc (2 * n)" using zigzag_value [OF \<open>- (2 ^ 63) \<le> v\<close> \<open>v < 2 ^ 63\<close>] n by simp
    show ?thesis unfolding z using n by (simp add: read_zigzag_def)
  qed (simp add: read_zigzag_def nat_mult_distrib)
qed

lemma signed32_to_uint64: "- (2 ^ 31) \<le> v \<Longrightarrow> v < 2 ^ 31 \<Longrightarrow> signed32 (to_uint64 v) = Inr v"
proof (cases "0 \<le> v")
  case False
  assume "- (2 ^ 31) \<le> v"
  then have "(v + 2 ^ 64) mod 2 ^ 64 = v + 2 ^ 64" using False by (intro mod_pos_pos_trivial) auto
  then have "to_uint64 v = nat (v + 2 ^ 64)" by (simp add: to_uint64_def)
  then show ?thesis using False \<open>- (2 ^ 31) \<le> v\<close> by (auto simp: signed32_def Let_def)
qed (simp add: signed32_def to_uint64_def)

lemma signed32_range: "signed32 n = Inr v \<Longrightarrow> n < 2 ^ 64 \<Longrightarrow> - (2 ^ 31) \<le> v \<and> v < 2 ^ 31"
  by (auto simp: signed32_def Let_def split: if_splits)

section \<open>The fields of a request\<close>

abbreviation point_fields :: "handy_point \<Rightarrow> wire_field list" where
  "point_fields p \<equiv> [uint_field 1 (hpTime p), uint_field 2 (hpPosition p)]"

lemma point_bytes_wire: "point_bytes p = wire (point_fields p)"
  by (simp add: point_bytes_def append_fields)

fun points_ok :: "nat option \<Rightarrow> handy_point list \<Rightarrow> bool" where
  "points_ok prev [] = True"
| "points_ok prev (p # ps) =
     (hpPosition p \<le> 100 \<and> (case prev of None \<Rightarrow> True | Some t \<Rightarrow> t < hpTime p) \<and> points_ok (Some (hpTime p)) ps)"

lemma append_points_eq:
  "append_points prev ps body =
     (if points_ok prev ps then Inr (body @ wire (map (\<lambda>p. bytes_field 1 (point_bytes p)) ps)) else Inl BadPoint)"
  by (induction prev ps body rule: append_points.induct) (auto simp: append_fields split: option.splits)

definition body_fields :: "handy_request \<Rightarrow> wire_field list" where
  "body_fields r =
     (if rqMethod r = Stroke then
        [fixed_field 1 (littleEndian32 (rqMin r)), fixed_field 2 (littleEndian32 (rqMax r))]
      else if rqMethod r = Setup then [uint_field 1 (rqStreamID r)]
      else if rqMethod r = Add then
        map (\<lambda>p. bytes_field 1 (point_bytes p)) (rqPoints r) @
          [uint_field 2 (boolUint (rqFlush r)), uint_field 3 (rqTail r)]
      else if rqMethod r = Play then
        uint_field 1 (to_uint64 (rqStart r)) #
          (case rqServerTime r of None \<Rightarrow> [] | Some t \<Rightarrow> [uint_field 2 t]) @
          [fixed_field 3 (littleEndian32 f32_one), uint_field 4 0, uint_field 5 1]
      else if rqMethod r = ClockSet then [uint_field 1 (zigzag (rqClockOffset r)), uint_field 2 (to_uint64 (rqRoundTrip r))]
      else [])"

definition body_valid :: "handy_request \<Rightarrow> bool" where
  "body_valid r \<longleftrightarrow>
     (if rqMethod r = Stroke then \<not> strokeWindow_bad (rqMin r) (rqMax r)
      else if rqMethod r = Add then
        rqPoints r \<noteq> [] \<and> length (rqPoints r) \<le> rqTail r + 1 \<and> points_ok None (rqPoints r)
      else rqMethod r \<in> {Setup, Play, ClockSet, Stop, StopCurrentMode, State, ClockGet})"

lemma encode_body_eq: "encode_body r = Inr body \<longleftrightarrow> body_valid r \<and> body = wire (body_fields r)"
  by (auto simp: encode_body_def body_valid_def body_fields_def append_points_eq append_fields bindR_Inr_iff Let_def
      method_defs not_less split: option.splits if_splits)

abbreviation request_fields :: "handy_request \<Rightarrow> wire_field list" where
  "request_fields r \<equiv> [bytes_field (rqMethod r) (wire (body_fields r)), uint_field 2 (rqID r)]"

abbreviation envelope_fields :: "handy_request \<Rightarrow> wire_field list" where
  "envelope_fields r \<equiv> [uint_field 1 1, bytes_field 2 (wire (request_fields r))]"

lemma handy_Encode_eq: "handy_Encode r = Inr bs \<longleftrightarrow> body_valid r \<and> bs = wire (envelope_fields r)"
  by (auto simp: handy_Encode_def bindR_Inr_iff encode_body_eq append_fields Let_def)

lemma method_range: "body_valid r \<Longrightarrow> 1 \<le> rqMethod r \<and> rqMethod r < 2 ^ 29 \<and> rqMethod r \<noteq> 2"
  by (auto simp: body_valid_def method_defs split: if_splits)

lemma wire_member_short: "f \<in> set fs \<Longrightarrow> length (field_bytes f) \<le> length (wire fs)"
  by (induction fs) auto

lemma point_fields_ok:
  "hpTime p < 2 ^ 32 \<Longrightarrow> hpPosition p < 2 ^ 32 \<Longrightarrow> list_all field_ok (point_fields p)"
  by (simp add: field_ok_def)

lemma field_ok_simps:
  "field_ok (uint_field n v) \<longleftrightarrow> 1 \<le> n \<and> n < 2 ^ 29 \<and> v < 2 ^ 64"
  "field_ok (bytes_field n d) \<longleftrightarrow> 1 \<le> n \<and> n < 2 ^ 29 \<and> length d \<le> MaxFrameBytes"
  "field_ok (fixed_field n d) \<longleftrightarrow> 1 \<le> n \<and> n < 2 ^ 29 \<and> length d = 4"
  by (auto simp: field_ok_def)

lemma small_uint: "v < 2 ^ 32 \<Longrightarrow> v < (2::nat) ^ 64"
  by simp

lemma body_fields_ok:
  assumes "request_ok r" "length (wire (body_fields r)) \<le> MaxFrameBytes"
  shows "list_all field_ok (body_fields r)"
proof (cases "rqMethod r = Add")
  case True
  have "length (point_bytes p) \<le> MaxFrameBytes" if "p \<in> set (rqPoints r)" for p
  proof -
    have "bytes_field 1 (point_bytes p) \<in> set (body_fields r)" using that True by (simp add: body_fields_def method_defs)
    from wire_member_short [OF this] field_data_short [of "bytes_field 1 (point_bytes p)"]
    show ?thesis using assms(2) by simp
  qed
  moreover have "boolUint b < 2 ^ 64" for b by (simp add: boolUint_def)
  moreover have "rqTail r < 2 ^ 64" using assms(1) by (intro small_uint) (simp add: request_ok_def)
  ultimately show ?thesis using True
    by (simp add: body_fields_def field_ok_simps list_all_iff method_defs)
next
  case False
  have "rqStreamID r < 2 ^ 64" using assms(1) by (intro small_uint) (simp add: request_ok_def)
  moreover have "case rqServerTime r of None \<Rightarrow> True | Some t \<Rightarrow> t < 2 ^ 64" using assms(1) by (simp add: request_ok_def)
  ultimately show ?thesis
    using False zigzag_bound [of "rqClockOffset r"] to_uint64_bound [of "rqStart r"] to_uint64_bound [of "rqRoundTrip r"]
    by (cases "rqServerTime r") (simp_all add: body_fields_def field_ok_simps method_defs)
qed

lemma read_points_ok:
  "list_all (\<lambda>p. hpTime p < 2 ^ 32 \<and> hpPosition p < 2 ^ 32 \<and> length (point_bytes p) \<le> MaxFrameBytes) ps \<Longrightarrow>
     read_points (map point_bytes ps) = Inr ps"
proof (induction ps)
  case (Cons p ps)
  then have "parseW (point_bytes p) = Inr (point_fields p)"
    unfolding point_bytes_wire by (intro parseW_wire point_fields_ok) auto
  then show ?case using Cons by (simp add: read_point_def fields_uint_def)
qed simp

lemma find_Add_fields: "find (\<lambda>f. wfNumber f = n \<and> wfWire f = 0) (map (\<lambda>p. bytes_field 1 (point_bytes p)) ps) = None"
  by (induction ps) auto

lemma find_append: "find P (xs @ ys) = (case find P xs of None \<Rightarrow> find P ys | Some x \<Rightarrow> Some x)"
  by (induction xs) auto

lemma repeated_points:
  "repeated (map (\<lambda>p. bytes_field 1 (point_bytes p)) ps @ [uint_field 2 a, uint_field 3 b]) 1 = map point_bytes ps"
  by (induction ps) (auto simp: repeated_def)

lemma read_body_ok:
  assumes "request_ok r" "length (wire (body_fields r)) \<le> MaxFrameBytes" "body_valid r"
  shows "read_body (blankRequest (rqMethod r) (rqID r)) (body_fields r) = Inr (canonRequest r)"
proof (cases "rqMethod r = Add")
  case True
  have short: "length (point_bytes p) \<le> MaxFrameBytes" if "p \<in> set (rqPoints r)" for p
    using body_fields_ok [OF assms(1,2)] that True by (auto simp: body_fields_def field_ok_simps list_all_iff method_defs)
  have "read_points (map point_bytes (rqPoints r)) = Inr (rqPoints r)"
    using assms(1) short by (intro read_points_ok) (auto simp: request_ok_def list_all_iff)
  then show ?thesis using True
    by (simp add: read_body_def body_fields_def canonRequest_def blankRequest_def method_defs repeated_points [simplified]
        fields_uint_def boolUint_def)
next
  case False
  have s: "read_signed64 (to_uint64 (rqStart r)) = rqStart r" "read_signed64 (to_uint64 (rqRoundTrip r)) = rqRoundTrip r"
    using assms(1) by (simp_all add: request_ok_def read_signed64_uint)
  have z: "read_zigzag (zigzag (rqClockOffset r)) = rqClockOffset r"
    using assms(1) by (simp add: request_ok_def read_zigzag_inverse)
  show ?thesis using False s z
    by (cases "rqServerTime r") (simp_all add: read_body_def body_fields_def canonRequest_def blankRequest_def method_defs
      fields_uint_def read_fixed_def has_uint_def Let_def)
qed

lemma handy_roundtrip_lemma:
  assumes "request_ok r" "handy_Encode r = Inr bs" "length bs \<le> MaxFrameBytes"
  shows "read_request bs = Inr (canonRequest r)"
proof -
  have v: "body_valid r" and bs: "bs = wire (envelope_fields r)" using assms(2) by (simp_all add: handy_Encode_eq)
  have q: "length (wire (request_fields r)) \<le> MaxFrameBytes"
    using field_data_short [of "bytes_field 2 (wire (request_fields r))"] assms(3) by (simp add: bs)
  then have d: "length (wire (body_fields r)) \<le> MaxFrameBytes"
    using field_data_short [of "bytes_field (rqMethod r) (wire (body_fields r))"] by simp
  have i: "rqID r < 2 ^ 64" using assms(1) by (intro small_uint) (simp add: request_ok_def)
  have "list_all field_ok (envelope_fields r)" using q by (simp add: field_ok_simps)
  then have 1: "parseW bs = Inr (envelope_fields r)" using assms(3) parseW_wire unfolding bs by blast
  have "list_all field_ok (request_fields r)" using d i method_range [OF v] by (simp add: field_ok_simps)
  then have 2: "parseW (wire (request_fields r)) = Inr (request_fields r)" using q parseW_wire by blast
  have 3: "parseW (wire (body_fields r)) = Inr (body_fields r)" using parseW_wire [OF body_fields_ok [OF assms(1) d] d] .
  show ?thesis
    using 1 2 3 read_body_ok [OF assms(1) d v]
    by (simp add: read_request_def fields_uint_def fields_bytes_def)
qed

lemma canon_encode: "handy_Encode (canonRequest r) = handy_Encode r"
proof -
  have "body_fields (canonRequest r) = body_fields r" "body_valid (canonRequest r) = body_valid r"
    "rqMethod (canonRequest r) = rqMethod r" "rqID (canonRequest r) = rqID r"
    by (auto simp: canonRequest_def blankRequest_def body_fields_def body_valid_def Let_def method_defs)
  moreover have "encode_body (canonRequest r) = encode_body r"
    by (auto simp: canonRequest_def blankRequest_def encode_body_def Let_def method_defs)
  ultimately show ?thesis by (simp add: handy_Encode_def)
qed

lemma request_ok_canon: "request_ok r \<Longrightarrow> request_ok (canonRequest r)"
  by (auto simp: request_ok_def canonRequest_def blankRequest_def Let_def method_defs)

text \<open>A frame as \<open>rpc\<close> sends it: encoded, and refused above the link's write size.\<close>

definition frame_of :: "nat \<Rightarrow> handy_request \<Rightarrow> handy_error option + byte list" where
  "frame_of limit r =
     (case handy_Encode r of
        Inl e \<Rightarrow> Inl (Some e)
      | Inr bs \<Rightarrow> if min limit MaxFrameBytes < length bs then Inl None else Inr bs)"

lemma frame_of_Inr: "frame_of n r = Inr bs \<longleftrightarrow> handy_Encode r = Inr bs \<and> length bs \<le> min n MaxFrameBytes"
  by (auto simp: frame_of_def split: sum.splits)

interpretation handy: codec "frame_of n" read_request canonRequest request_ok for n
proof unfold_locales
  fix r bs assume "request_ok r" "frame_of n r = Inr bs"
  then show "read_request bs = Inr (canonRequest r)" using handy_roundtrip_lemma by (auto simp: frame_of_Inr)
next
  fix r bs assume "request_ok r" "frame_of n r = Inr bs"
  then show "frame_of n (canonRequest r) = Inr bs" by (simp add: frame_of_def canon_encode)
qed (rule request_ok_canon)

section \<open>What the device sends\<close>

text \<open>
  A message as the device's protobuf schema describes it, and the frames that carry it.  An encoder
  may put the fields in any order, leave out a number that is 0, add fields the reader does not know,
  and write a signed 32-bit number sign-extended or in its 32 bits; so a message has many frames, and
  \<open>device_frame\<close> holds of each of them.
\<close>

record device_state =
  dvPlay :: nat
  dvPoints :: nat
  dvTime :: int
  dvStream :: nat
  dvTail :: int

record device_message =
  dmNotification :: bool
  dmID :: nat
  dmMethod :: nat
  dmState :: "device_state option"
  dmClock :: nat
  dmError :: "nat option"

definition carries :: "wire_field list \<Rightarrow> nat \<Rightarrow> nat \<Rightarrow> bool" where
  "carries fs n v \<longleftrightarrow>
     (let vs = map wfValue (filter (\<lambda>f. wfNumber f = n \<and> wfWire f = 0) fs) in vs = [v] \<or> vs = [] \<and> v = 0)"

definition carries_signed :: "wire_field list \<Rightarrow> nat \<Rightarrow> int \<Rightarrow> bool" where
  "carries_signed fs n i \<longleftrightarrow>
     - (2 ^ 31) \<le> i \<and> i < 2 ^ 31 \<and> (carries fs n (to_uint64 i) \<or> carries fs n (nat (i mod 2 ^ 32)))"

definition state_fields :: "device_state \<Rightarrow> wire_field list \<Rightarrow> bool" where
  "state_fields s fs \<longleftrightarrow> list_all field_ok fs \<and> carries fs 1 (dvPlay s) \<and> carries fs 2 (dvPoints s) \<and>
     carries_signed fs 5 (dvTime s) \<and> carries fs 10 (dvStream s) \<and> carries_signed fs 11 (dvTail s)"

definition result_fields :: "device_message \<Rightarrow> wire_field list \<Rightarrow> bool" where
  "result_fields d fs \<longleftrightarrow> list_all field_ok fs \<and>
     (if dmMethod d = ClockGet then carries fs 1 (dmClock d)
      else case dmState d of
          None \<Rightarrow> 860 \<le> dmMethod d \<and> dmMethod d \<le> 874 \<longrightarrow> repeated fs 1 = []
        | Some s \<Rightarrow> 860 \<le> dmMethod d \<and> dmMethod d \<le> 874 \<and> (\<exists>ss. state_fields s ss \<and> repeated fs 1 = [wire ss]))"

definition payload_fields :: "device_message \<Rightarrow> wire_field list \<Rightarrow> bool" where
  "payload_fields d fs \<longleftrightarrow> list_all field_ok fs \<and>
     carries fs (if dmNotification d then 2 else 1) (dmID d) \<and>
     (\<not> dmNotification d \<longrightarrow> (case dmError d of
          None \<Rightarrow> repeated fs 2 = []
        | Some e \<Rightarrow> \<exists>es. list_all field_ok es \<and> carries es 1 e \<and> repeated fs 2 = [wire es])) \<and>
     (let results = filter (\<lambda>f. wfWire f = 2 \<and> 10 < wfNumber f) fs in
        results = [] \<and> dmMethod d = 0 \<and> dmState d = None \<or>
        (\<exists>rs. result_fields d rs \<and> 10 < dmMethod d \<and> results = [bytes_field (dmMethod d) (wire rs)]))"

definition device_frame :: "device_message \<Rightarrow> byte list \<Rightarrow> bool" where
  "device_frame d bs \<longleftrightarrow> length bs \<le> MaxFrameBytes \<and>
     (\<exists>fs ps. bs = wire fs \<and> list_all field_ok fs \<and> carries fs 1 (if dmNotification d then 4 else 3) \<and>
        payload_fields d ps \<and> repeated fs (if dmNotification d then 5 else 4) = [wire ps])"

text \<open>What the session must get for it: the device's numbers, or the error for one out of range.\<close>

definition received_state :: "device_state \<Rightarrow> hsp_state" where
  "received_state s =
     \<lparr>hsPlayState = (case dvPlay s of 0 \<Rightarrow> ''not_initialized'' | Suc 0 \<Rightarrow> ''playing'' | Suc (Suc 0) \<Rightarrow> ''stopped''
        | Suc (Suc (Suc 0)) \<Rightarrow> ''paused'' | Suc (Suc (Suc (Suc 0))) \<Rightarrow> ''starving'' | _ \<Rightarrow> ''unknown''),
      hsStreamID = dvStream s, hsPoints = dvPoints s, hsCurrentTime = dvTime s, hsTail = dvTail s\<rparr>"

definition received :: "device_message \<Rightarrow> handy_error + handy_message" where
  "received d =
     (let clock = (dmMethod d = ClockGet \<and> \<not> dmNotification d) in
      if 2 ^ 32 \<le> dmID d then Inl BadResponseID
      else if clock \<and> 2 ^ 32 \<le> dmClock d then Inl BadClock
      else if dmMethod d \<noteq> ClockGet \<and> (case dmState d of None \<Rightarrow> False
          | Some s \<Rightarrow> 2 ^ 32 \<le> dvStream s \<or> 2 ^ 32 \<le> dvPoints s) then Inl BadStateCounter
      else Inr \<lparr>hmNotification = dmNotification d, hmID = dmID d, hmMethod = dmMethod d,
                hmState = (if dmMethod d = ClockGet then None else map_option received_state (dmState d)),
                hmDeviceTime = (if clock then Some (dmClock d) else None),
                hmErrorCode = (if dmNotification d then None else dmError d)\<rparr>)"

lemma find_rev: "find P (rev xs) = (if filter P xs = [] then None else Some (last (filter P xs)))"
  by (induction xs) (auto simp: find_append split: option.splits)

lemma carries_uint: "carries fs n v \<Longrightarrow> fields_uint fs n = v"
  by (auto simp: carries_def fields_uint_def find_rev Let_def)

lemma repeated_bytes:
  "repeated fs n = [] \<Longrightarrow> fields_bytes fs n = None" "repeated fs n = [b] \<Longrightarrow> fields_bytes fs n = Some b"
  by (auto simp: repeated_def fields_bytes_def find_rev)

lemma repeated_member: "repeated fs n = [b] \<Longrightarrow> \<exists>f \<in> set fs. wfWire f = 2 \<and> wfData f = b"
proof -
  assume "repeated fs n = [b]"
  then have "b \<in> set (map wfData (filter (\<lambda>f. wfNumber f = n \<and> wfWire f = 2) fs))" by (simp add: repeated_def)
  then show ?thesis by auto
qed

lemma nested_short: "f \<in> set fs \<Longrightarrow> wfWire f = 2 \<Longrightarrow> length (wire fs) \<le> MaxFrameBytes \<Longrightarrow> length (wfData f) \<le> MaxFrameBytes"
  using wire_member_short [of f fs] field_data_short [of f] by linarith

lemma parse_nested:
  assumes "repeated fs n = [wire gs]" "list_all field_ok gs" "length (wire fs) \<le> MaxFrameBytes"
  shows "parseW (wire gs) = Inr gs" "length (wire gs) \<le> MaxFrameBytes"
proof -
  show short: "length (wire gs) \<le> MaxFrameBytes"
    using repeated_member [OF assms(1)] nested_short [OF _ _ assms(3)] by metis
  show "parseW (wire gs) = Inr gs" using parseW_wire [OF assms(2) short] .
qed

lemma signed32_low: "- (2 ^ 31) \<le> v \<Longrightarrow> v < 2 ^ 31 \<Longrightarrow> signed32 (nat (v mod 2 ^ 32)) = Inr v"
proof (cases "0 \<le> v")
  case False
  assume "- (2 ^ 31) \<le> v"
  then have "(v + 2 ^ 32) mod 2 ^ 32 = v + 2 ^ 32" using False by (intro mod_pos_pos_trivial) auto
  then have "v mod 2 ^ 32 = v + 2 ^ 32" by simp
  then show ?thesis using False \<open>- (2 ^ 31) \<le> v\<close> by (auto simp: signed32_def)
qed (simp add: signed32_def)

lemma carries_signed32: "carries_signed fs n v \<Longrightarrow> signed32 (fields_uint fs n) = Inr v"
  by (auto simp: carries_signed_def dest!: carries_uint simp: signed32_to_uint64) (simp add: signed32_low [simplified])

lemma play_state: "(if n < length playStates then playStates ! n else ''unknown'') =
   (case n of 0 \<Rightarrow> ''not_initialized'' | Suc 0 \<Rightarrow> ''playing'' | Suc (Suc 0) \<Rightarrow> ''stopped''
      | Suc (Suc (Suc 0)) \<Rightarrow> ''paused'' | Suc (Suc (Suc (Suc 0))) \<Rightarrow> ''starving'' | _ \<Rightarrow> ''unknown'')"
  by (auto simp: playStates_def split: nat.split)

lemma decodeState_reads:
  assumes "state_fields s fs" "length (wire fs) \<le> MaxFrameBytes"
  shows "decodeState (wire fs) = (if 2 ^ 32 \<le> dvStream s \<or> 2 ^ 32 \<le> dvPoints s then Inl BadStateCounter
    else Inr (received_state s))"
proof -
  have p: "parseW (wire fs) = Inr fs" using assms by (intro parseW_wire) (auto simp: state_fields_def)
  have u: "fields_uint fs 1 = dvPlay s" "fields_uint fs 2 = dvPoints s" "fields_uint fs 10 = dvStream s"
    "signed32 (fields_uint fs 5) = Inr (dvTime s)" "signed32 (fields_uint fs 11) = Inr (dvTail s)"
    using assms(1) by (simp_all add: state_fields_def carries_uint carries_signed32)
  show ?thesis
    unfolding decodeState_def p bindR_simps Let_def u play_state by (auto simp: received_state_def)
qed

lemma decode_results_filter:
  "decode_results fs m = decode_results (filter (\<lambda>f. wfWire f = 2 \<and> 10 < wfNumber f) fs) m"
proof (induction fs arbitrary: m)
  case (Cons f fs)
  show ?case
  proof (cases "wfWire f \<noteq> 2 \<or> wfNumber f \<le> 10")
    case False
    then show ?thesis using Cons by (cases "decodeResult m f") auto
  qed (use Cons in auto)
qed simp

definition base_message :: "device_message \<Rightarrow> handy_message" where
  "base_message d = \<lparr>hmNotification = dmNotification d, hmID = dmID d, hmMethod = 0, hmState = None, hmDeviceTime = None,
     hmErrorCode = (if dmNotification d then None else dmError d)\<rparr>"

lemma decodeResult_reads:
  assumes "result_fields d rs" "length (wire rs) \<le> MaxFrameBytes" "dmID d < 2 ^ 32"
  shows "decodeResult (base_message d) (bytes_field (dmMethod d) (wire rs)) = received d"
proof -
  have ok: "list_all field_ok rs" using assms(1) by (simp add: result_fields_def)
  have p: "parseW (wire rs) = Inr rs" using parseW_wire [OF ok assms(2)] .
  consider "dmMethod d = 712" | "dmMethod d \<noteq> 712" "dmState d = None"
    | s ss where "dmMethod d \<noteq> 712" "dmState d = Some s" "860 \<le> dmMethod d" "dmMethod d \<le> 874"
        "state_fields s ss" "repeated rs 1 = [wire ss]"
    using assms(1) by (auto simp: result_fields_def ClockGet_def split: if_splits option.splits)
  then show ?thesis
  proof cases
    case 1
    then have "fields_uint rs 1 = dmClock d" using assms(1) by (simp add: result_fields_def ClockGet_def carries_uint)
    then show ?thesis using 1 assms(3)
      by (auto simp: decodeResult_def received_def base_message_def ClockGet_def p Let_def)
  next
    case 2
    then have "860 \<le> dmMethod d \<and> dmMethod d \<le> 874 \<Longrightarrow> fields_bytes rs 1 = None"
      using assms(1) by (simp add: result_fields_def ClockGet_def repeated_bytes(1))
    then show ?thesis using 2 assms(3)
      by (auto simp: decodeResult_def received_def base_message_def ClockGet_def p Let_def)
  next
    case 3
    have st: "list_all field_ok ss" using 3(5) by (simp add: state_fields_def)
    note short = parse_nested(2) [OF 3(6) st assms(2)]
    show ?thesis
      using 3 assms(3) repeated_bytes(2) [OF 3(6)] decodeState_reads [OF 3(5) short]
      by (auto simp: decodeResult_def received_def base_message_def ClockGet_def p Let_def)
  qed
qed

lemma decode_payload_reads:
  assumes "payload_fields d ps" "length (wire ps) \<le> MaxFrameBytes"
  shows "decode_payload (dmNotification d) (Some (wire ps)) = received d"
proof -
  have ok: "list_all field_ok ps" using assms(1) by (simp add: payload_fields_def)
  have p: "parseW (wire ps) = Inr ps" using parseW_wire [OF ok assms(2)] .
  have i: "fields_uint ps (if dmNotification d then 2 else 1) = dmID d"
    using assms(1) unfolding payload_fields_def by (blast intro: carries_uint)
  let ?P = "\<lambda>f. wfWire f = 2 \<and> 10 < wfNumber f"
  have results: "decode_results ps (base_message d) = received d" if id: "dmID d < 2 ^ 32"
  proof (cases "filter ?P ps = []")
    case True
    then have "dmMethod d = 0" "dmState d = None" using assms(1) by (auto simp: payload_fields_def Let_def)
    then show ?thesis
      unfolding decode_results_filter [of ps] True using id by (simp add: received_def base_message_def ClockGet_def)
  next
    case False
    then obtain rs where rs: "result_fields d rs" "10 < dmMethod d" "filter ?P ps = [bytes_field (dmMethod d) (wire rs)]"
      using assms(1) by (auto simp: payload_fields_def Let_def)
    have "bytes_field (dmMethod d) (wire rs) \<in> set (filter ?P ps)" by (simp add: rs(3))
    then have "bytes_field (dmMethod d) (wire rs) \<in> set ps" by simp
    from nested_short [OF this _ assms(2)] have short: "length (wire rs) \<le> MaxFrameBytes" by simp
    show ?thesis
      unfolding decode_results_filter [of ps] rs(3) using decodeResult_reads [OF rs(1) short id] rs(2)
      by (cases "received d") simp_all
  qed
  define m0 where "m0 = \<lparr>hmNotification = dmNotification d, hmID = dmID d, hmMethod = 0, hmState = None,
     hmDeviceTime = None, hmErrorCode = None\<rparr>"
  have e: "(if dmNotification d then Inr m0
      else case fields_bytes ps 2 of None \<Rightarrow> Inr m0
        | Some e \<Rightarrow> bindR (parseW e) (\<lambda>ef. Inr (m0\<lparr>hmErrorCode := Some (fields_uint ef 1)\<rparr>))) = Inr (base_message d)"
  proof (cases "dmNotification d")
    case True
    then show ?thesis by (simp add: m0_def base_message_def)
  next
    case False
    show ?thesis
    proof (cases "dmError d")
      case None
      then have "repeated ps 2 = []" using assms(1) False by (simp add: payload_fields_def)
      then show ?thesis using False None by (simp add: m0_def base_message_def repeated_bytes(1))
    next
      case (Some v)
      then obtain es where es: "list_all field_ok es" "carries es 1 v" "repeated ps 2 = [wire es]"
        using assms(1) False by (auto simp: payload_fields_def)
      show ?thesis
        using False Some parse_nested(1) [OF es(3,1) assms(2)] repeated_bytes(2) [OF es(3)] carries_uint [OF es(2)]
        by (simp add: m0_def base_message_def)
    qed
  qed
  note results
  moreover have "received d = Inl BadResponseID" if "2 ^ 32 \<le> dmID d" using that by (simp add: received_def Let_def)
  ultimately show ?thesis
    unfolding decode_payload_def option.case p bindR_simps Let_def i m0_def [symmetric] e
    by (cases "dmID d < 2 ^ 32") simp_all
qed

lemma handy_Decode_device: "device_frame d bs \<Longrightarrow> handy_Decode bs = received d"
proof -
  assume "device_frame d bs"
  then obtain fs ps where f: "bs = wire fs" "length (wire fs) \<le> MaxFrameBytes" "list_all field_ok fs"
    "carries fs 1 (if dmNotification d then 4 else 3)" "payload_fields d ps"
    "repeated fs (if dmNotification d then 5 else 4) = [wire ps]"
    unfolding device_frame_def by blast
  have p: "parseW bs = Inr fs" using parseW_wire [OF f(3,2)] f(1) by simp
  have ok: "list_all field_ok ps" using f(5) by (simp add: payload_fields_def)
  have "decode_payload (dmNotification d) (Some (wire ps)) = received d"
    using decode_payload_reads [OF f(5) parse_nested(2) [OF f(6) ok f(2)]] .
  then show ?thesis
    unfolding handy_Decode_def p bindR_simps using carries_uint [OF f(4)] repeated_bytes(2) [OF f(6)]
    by (cases "dmNotification d") simp_all
qed

section \<open>Properties\<close>

text \<open>
  Property C39.  A request survives the wire.  Every request whose fields are in Go's ranges and whose
  frame the link accepts is read by the schema's reader as exactly the fields of its method: points
  in order with their times and positions, the tail and flush flag, the bits of the stroke window,
  signed start times and clock offsets.  No other request has the same frame.
\<close>

theorem handy_request_roundtrip:
  assumes "request_ok r" and "frame_of n r = Inr bs"
  shows "read_request bs = Inr (canonRequest r) \<and> length bs \<le> min n MaxFrameBytes \<and>
    (\<forall>r'. request_ok r' \<longrightarrow> frame_of n r' = Inr bs \<longrightarrow> canonRequest r' = canonRequest r)"
  using handy.dec_enc [OF assms] handy.enc_inj [OF _ assms(1) _ assms(2)] assms(2) by (auto simp: frame_of_Inr)

definition addRequest :: handy_request where
  "addRequest = (blankRequest Add 7)\<lparr>rqPoints := [\<lparr>hpTime = 0, hpPosition = 10\<rparr>, \<lparr>hpTime = 400, hpPosition = 90\<rparr>],
     rqTail := 300, rqFlush := True\<rparr>"

lemma addRequest_ok: "request_ok addRequest"
  by code_simp

lemma handy_request_roundtrip_witness:
  "\<exists>bs. frame_of 48 addRequest = Inr bs \<and> read_request bs = Inr addRequest"
proof -
  have "isOk (frame_of 48 addRequest)" "canonRequest addRequest = addRequest" by code_simp+
  then obtain bs where bs: "frame_of 48 addRequest = Inr bs" by (auto simp: isOk_iff)
  have "read_request bs = Inr addRequest"
    using handy_request_roundtrip [OF addRequest_ok bs] \<open>canonRequest addRequest = addRequest\<close> by simp
  then show ?thesis using bs by blast
qed

text \<open>
  A 32-bit integer is read back from both encodings a device may use, the sign-extended
  ten-byte form and the plain 32-bit form, and nothing outside 32 bits is ever accepted.
\<close>

theorem signed32_roundtrip:
  "(- (2 ^ 31) \<le> v \<and> v < 2 ^ 31 \<longrightarrow>
      signed32 (to_uint64 v) = Inr v \<and> signed32 (nat (v mod 2 ^ 32)) = Inr v) \<and>
   (n < 2 ^ 64 \<and> signed32 n = Inr i \<longrightarrow> - (2 ^ 31) \<le> i \<and> i < 2 ^ 31)"
proof -
  show ?thesis using signed32_to_uint64 signed32_low signed32_range by blast
qed

lemma signed32_roundtrip_witness:
  "signed32 (to_uint64 (- 5)) = Inr (- 5) \<and> signed32 (nat ((- 5) mod 2 ^ 32)) = Inr (- 5)"
  using signed32_roundtrip [of "- 5" 0 0] by simp


text \<open>A notification with the fields of its state out of order and one the reader does not know.\<close>

definition starvingState :: "nat \<Rightarrow> wire_field list" where
  "starvingState points = [uint_field 11 (to_uint64 (- 40)), uint_field 7 9, uint_field 10 5, uint_field 5 1200,
     uint_field 2 points, uint_field 1 4]"

definition starvingMessage :: "nat \<Rightarrow> device_message" where
  "starvingMessage points = \<lparr>dmNotification = True, dmID = 9, dmMethod = 867,
     dmState = Some \<lparr>dvPlay = 4, dvPoints = points, dvTime = 1200, dvStream = 5, dvTail = - 40\<rparr>,
     dmClock = 0, dmError = None\<rparr>"

definition starvingPayload :: "nat \<Rightarrow> wire_field list" where
  "starvingPayload points = [bytes_field 867 (wire [bytes_field 1 (wire (starvingState points))]), uint_field 2 9]"

definition starvingFrame :: "nat \<Rightarrow> byte list" where
  "starvingFrame points = wire [bytes_field 5 (wire (starvingPayload points)), uint_field 1 4]"

definition starving_frame_ok :: "nat \<Rightarrow> bool" where
  "starving_frame_ok points \<longleftrightarrow> length (starvingFrame points) \<le> MaxFrameBytes \<and>
     state_fields (the (dmState (starvingMessage points))) (starvingState points) \<and>
     list_all field_ok [bytes_field 1 (wire (starvingState points))] \<and>
     list_all field_ok (starvingPayload points) \<and>
     list_all field_ok [bytes_field 5 (wire (starvingPayload points)), uint_field 1 4]"

lemma starving_frame: "starving_frame_ok points \<Longrightarrow> device_frame (starvingMessage points) (starvingFrame points)"
proof -
  assume ok: "starving_frame_ok points"
  have s: "state_fields (the (dmState (starvingMessage points))) (starvingState points)"
    using ok by (simp add: starving_frame_ok_def)
  have "result_fields (starvingMessage points) [bytes_field 1 (wire (starvingState points))]"
    unfolding result_fields_def using ok s
    by (auto simp: starvingMessage_def ClockGet_def repeated_def starving_frame_ok_def)
  then have "payload_fields (starvingMessage points) (starvingPayload points)"
    unfolding payload_fields_def using ok
    by (auto simp: starvingMessage_def starvingPayload_def carries_def repeated_def starving_frame_ok_def Let_def)
  then show ?thesis
    unfolding device_frame_def starvingFrame_def using ok
    by (intro conjI exI [of _ "[bytes_field 5 (wire (starvingPayload points)), uint_field 1 4]"]
        exI [of _ "starvingPayload points"])
       (simp_all add: starving_frame_ok_def starvingFrame_def starvingMessage_def carries_def repeated_def)
qed


end
