(* ===== verification/HandySession.thy ===== *)
theory HandySession
  imports HandyCodec
begin

text \<open>
  The RPC session over one Bluetooth link: \<open>Session\<close> of \<open>internal/handyble/session.go\<close> and
  \<open>session_rpc.go\<close>.  \<open>Execute\<close>, \<open>Initialize\<close>, \<open>Interrupt\<close>, \<open>Close\<close> and the event reader run as
  goroutines; a goroutine is a script of operations, each one section under \<open>Session.mu\<close>, one
  \<open>select\<close>, or one call of the link, and a call expands into the script of its body.  An error skips
  the script up to the next operation that runs regardless.  A reply channel is the optional message
  in its buffer of one.  What the link, the contexts, the clock and the scheduler's choice in a
  \<open>select\<close> answer is the environment of a step.

  The wire of a world lists the frames written to the link, with the request and the generation of
  the operation they belong to.
\<close>

section \<open>State\<close>

definition maxUint32 :: nat where "maxUint32 = 2 ^ 32 - 1"
definition maxChunkPoints :: nat where "maxChunkPoints = 20"
definition maxRecentRequests :: nat where "maxRecentRequests = 64"

datatype session_error =
    Interrupted
  | LinkClosed
  | ContextDone
  | EncodeError handy_error
  | FrameTooBig
  | PointTooBig
  | IDsExhausted
  | WriteFailed
  | LinkLost
  | Rejected nat nat
  | RpcRejected nat
  | NoResponse
  | SessionEnded
  | BadTail
  | WriteSizeTooSmall
  | NoClockSamples
  | BadRoundTrip

record pending_request =
  pdGeneration :: nat
  pdMethod :: nat
  pdReply :: "handy_message option"

record session =
  seLimit :: nat
  seGeneration :: nat
  seNextID :: nat
  seRecent :: "nat \<rightharpoonup> pending_request"
  seStream :: nat
  seStreamSet :: bool
  seClockSynced :: bool
  sePlaybackState :: string
  seErr :: "session_error option"

definition newSession :: "nat \<Rightarrow> session_error + session" where
  "newSession limit =
     (if limit < 48 then Inl WriteSizeTooSmall
      else Inr \<lparr>seLimit = min limit MaxFrameBytes, seGeneration = 0, seNextID = 0, seRecent = Map.empty,
        seStream = 0, seStreamSet = False, seClockSynced = False, sePlaybackState = ''unknown'', seErr = None\<rparr>)"

text \<open>The clock samples of \<open>syncClock\<close>: the best round trip so far with its offset.\<close>

record clock_best =
  cbOffset :: int
  cbRTT :: "duration option"

datatype session_op =
    XEnter handy_request
  | XGate handy_request
  | XValid
  | XStream handy_request
  | XStreamSet nat
  | XBody handy_request
  | XAdd handy_request nat
  | XRpc handy_request bool
  | XRpcCtx handy_request bool
  | XAssign handy_request bool
  | XWrite "byte list" handy_request bool
  | XFailWith session_error
  | XCtx
  | XReply nat nat bool
  | XStopped
  | XRelease
  | XLastWill
  | XSyncClock
  | XClock nat clock_best
  | XClockAfter nat clock_best int
  | XClockBest clock_best
  | XSynced
  | XIgnore
  | XInitCtx
  | XInitErr
  | XInterrupt
  | XFail session_error
  | XReceive handy_message

record session_thread =
  stGen :: nat
  stReader :: bool
  stErr :: "session_error option"
  stMsg :: "handy_message option"
  stOps :: "session_op list"

record sent_frame =
  sfBytes :: "byte list"
  sfRequest :: handy_request
  sfGen :: nat

record session_world =
  swSession :: session
  swGate :: bool
  swReader :: bool
  swThreads :: "session_thread list"
  swWire :: "sent_frame list"

datatype session_choice = ChooseGate | ChooseCtx | ChooseQuit | ChooseReply | ChooseTimer

record session_env =
  xvCtx :: bool
  xvChoice :: session_choice
  xvWrite :: "session_error option" \<comment> \<open>what the native write returned\<close>
  xvReached :: bool \<comment> \<open>whether a failed write reached the device\<close>
  xvWill :: "session_error option"
  xvMillis :: int
  xvRTT :: duration

section \<open>Outcomes\<close>

type_synonym session_outcome = "(session_world \<times> session_thread) option"

definition s_goes :: "session_op list \<Rightarrow> session_thread \<Rightarrow> session_world \<Rightarrow> session_outcome" where
  "s_goes xs th w = Some (w, th\<lparr>stOps := xs @ stOps th\<rparr>)"

definition s_fails :: "session_error \<Rightarrow> session_thread \<Rightarrow> session_world \<Rightarrow> session_outcome" where
  "s_fails e th w = Some (w, th\<lparr>stErr := Some e\<rparr>)"

definition setS :: "session \<Rightarrow> session_world \<Rightarrow> session_world" where
  "setS s w = w\<lparr>swSession := s\<rparr>"

section \<open>Sections under the lock\<close>

definition session_valid :: "nat \<Rightarrow> session \<Rightarrow> session_error option" where
  "session_valid gen s =
     (case seErr s of Some e \<Rightarrow> Some e | None \<Rightarrow> if gen \<noteq> seGeneration s then Some Interrupted else None)"

definition session_fail :: "session_error \<Rightarrow> session \<Rightarrow> session" where
  "session_fail e s =
     (case seErr s of Some d \<Rightarrow> s | None \<Rightarrow> s\<lparr>seErr := Some e, seGeneration := Suc (seGeneration s)\<rparr>)"

definition session_Interrupt :: "session \<Rightarrow> session" where
  "session_Interrupt s =
     s\<lparr>seGeneration := Suc (seGeneration s), seStreamSet := False, sePlaybackState := ''unknown''\<rparr>"

definition assignID :: "nat \<Rightarrow> nat \<Rightarrow> session \<Rightarrow> (session \<times> nat) option" where
  "assignID gen m s =
     (if seNextID s = maxUint32 - 1 then None
      else let i = Suc (seNextID s);
               recent = (seRecent s)(i \<mapsto> \<lparr>pdGeneration = gen, pdMethod = m, pdReply = None\<rparr>);
               recent1 = (if maxRecentRequests < i then recent(i - maxRecentRequests := None) else recent) in
        Some (s\<lparr>seNextID := i, seRecent := recent1\<rparr>, i))"

text \<open>\<open>receive\<close>: the reply goes into an empty buffer, feedback updates the play state of our stream.\<close>

definition receive_reply :: "handy_message \<Rightarrow> session \<Rightarrow> session" where
  "receive_reply m s =
     (case seRecent s (hmID m) of
        None \<Rightarrow> s
      | Some p \<Rightarrow>
          if \<not> hmNotification m \<and> pdReply p = None
          then s\<lparr>seRecent := (seRecent s)(hmID m \<mapsto> p\<lparr>pdReply := Some m\<rparr>)\<rparr> else s)"

definition receive_state :: "handy_message \<Rightarrow> session \<Rightarrow> session" where
  "receive_state m s =
     (let current = (case seRecent s (hmID m) of None \<Rightarrow> False | Some p \<Rightarrow> pdGeneration p = seGeneration s) in
      case hmState m of
        None \<Rightarrow> s
      | Some st \<Rightarrow>
          if seStreamSet s \<and> hsStreamID st = seStream s \<and> (hmNotification m \<or> current)
          then s\<lparr>sePlaybackState := hsPlayState st\<rparr> else s)"

definition receive_rejects :: "handy_message \<Rightarrow> session \<Rightarrow> session_error option" where
  "receive_rejects m s =
     (case (seRecent s (hmID m), hmErrorCode m) of
        (Some p, Some code) \<Rightarrow>
          if \<not> hmNotification m \<and> pdMethod p \<noteq> ClockGet then Some (Rejected (pdMethod p) code) else None
      | _ \<Rightarrow> None)"

text \<open>The next chunk of an Add: the largest count, at most 20, whose frame fits with the longest ID.\<close>

definition add_chunk :: "handy_request \<Rightarrow> nat \<Rightarrow> nat \<Rightarrow> handy_request" where
  "add_chunk r offset count =
     (let first = rqTail r + 1 - length (rqPoints r) in
      r\<lparr>rqPoints := take count (drop offset (rqPoints r)), rqTail := first + offset + count - 1,
        rqFlush := (rqFlush r \<and> offset = 0), rqID := maxUint32\<rparr>)"

fun chunk_fit :: "nat \<Rightarrow> handy_request \<Rightarrow> nat \<Rightarrow> nat \<Rightarrow> session_error + nat" where
  "chunk_fit limit r offset 0 = Inl PointTooBig"
| "chunk_fit limit r offset (Suc n) =
     (case handy_Encode (add_chunk r offset (Suc n)) of
        Inl e \<Rightarrow> Inl (EncodeError e)
      | Inr bs \<Rightarrow> if length bs \<le> limit then Inr (Suc n) else chunk_fit limit r offset n)"

section \<open>Operations\<close>

definition rpc :: "handy_request \<Rightarrow> bool \<Rightarrow> session_op list" where
  "rpc r wait = [XRpc r wait]"

definition x_Valid :: "session_op list \<Rightarrow> session_thread \<Rightarrow> session_world \<Rightarrow> session_outcome" where
  "x_Valid xs th w =
     (case session_valid (stGen th) (swSession w) of Some e \<Rightarrow> s_fails e th w | None \<Rightarrow> s_goes xs th w)"

definition x_Ctx :: "session_env \<Rightarrow> session_op list \<Rightarrow> session_thread \<Rightarrow> session_world \<Rightarrow> session_outcome" where
  "x_Ctx v xs th w = (if xvCtx v then s_fails ContextDone th w else s_goes xs th w)"

text \<open>The \<open>select\<close> of \<open>Execute\<close>: the operation gate, the caller's context, or the end of the session.\<close>

definition x_Gate :: "session_env \<Rightarrow> handy_request \<Rightarrow> session_thread \<Rightarrow> session_world \<Rightarrow> session_outcome" where
  "x_Gate v r th w =
     (case xvChoice v of
        ChooseGate \<Rightarrow> if swGate w then None
                      else s_goes [XValid, XStream r, XBody r, XRelease] th (w\<lparr>swGate := True\<rparr>)
      | ChooseCtx \<Rightarrow> if xvCtx v then s_fails ContextDone th w else None
      | ChooseQuit \<Rightarrow> if seErr (swSession w) \<noteq> None then s_fails LinkClosed th w else None
      | _ \<Rightarrow> None)"

definition x_Stream :: "handy_request \<Rightarrow> session_thread \<Rightarrow> session_world \<Rightarrow> session_outcome" where
  "x_Stream r th w =
     (let s = swSession w in
      if (rqMethod r = Add \<or> rqMethod r = Play) \<and> (\<not> seStreamSet s \<or> seStream s \<noteq> rqStreamID r)
      then s_goes (rpc ((blankRequest Setup 0)\<lparr>rqStreamID := rqStreamID r\<rparr>) False @ [XStreamSet (rqStreamID r)]) th w
      else s_goes [] th w)"

definition x_StreamSet :: "nat \<Rightarrow> session_thread \<Rightarrow> session_world \<Rightarrow> session_outcome" where
  "x_StreamSet stream th w =
     (let s = swSession w in
      s_goes [] th (setS (s\<lparr>seStream := stream, seStreamSet := (stGen th = seGeneration s)\<rparr>) w))"

definition x_Body :: "session_env \<Rightarrow> handy_request \<Rightarrow> session_thread \<Rightarrow> session_world \<Rightarrow> session_outcome" where
  "x_Body v r th w =
     (let s = swSession w in
      if rqMethod r = Add then
        (if rqPoints r = [] \<or> rqTail r + 1 < length (rqPoints r) then s_fails BadTail th w else s_goes [XAdd r 0] th w)
      else if rqMethod r = Play then
        s_goes (rpc (if seClockSynced s then r\<lparr>rqServerTime := Some (to_uint64 (xvMillis v))\<rparr> else r) False) th
          (setS (s\<lparr>sePlaybackState := ''play_requested''\<rparr>) w)
      else s_goes (rpc r (rqMethod r = State \<or> rqMethod r = ClockGet) @
             (if rqMethod r = Stop \<or> rqMethod r = StopCurrentMode then [XStopped] else [])) th w)"

definition x_Add :: "handy_request \<Rightarrow> nat \<Rightarrow> session_thread \<Rightarrow> session_world \<Rightarrow> session_outcome" where
  "x_Add r offset th w =
     (if length (rqPoints r) \<le> offset then s_goes [] th w
      else case chunk_fit (seLimit (swSession w)) r offset (min maxChunkPoints (length (rqPoints r) - offset)) of
          Inl e \<Rightarrow> s_fails e th w
        | Inr count \<Rightarrow> s_goes (rpc (add_chunk r offset count) False @ [XAdd r (offset + count)]) th w)"

text \<open>The identifier and the frame: encoding and the size check touch nothing that is shared.\<close>

definition x_Assign :: "handy_request \<Rightarrow> bool \<Rightarrow> session_thread \<Rightarrow> session_world \<Rightarrow> session_outcome" where
  "x_Assign r wait th w =
     (case assignID (stGen th) (rqMethod r) (swSession w) of
        None \<Rightarrow> s_fails IDsExhausted th w
      | Some (s, i) \<Rightarrow>
          (let q = r\<lparr>rqID := i\<rparr> in
           case handy_Encode q of
             Inl e \<Rightarrow> s_fails (EncodeError e) th (setS s w)
           | Inr bs \<Rightarrow> if seLimit s < length bs then s_fails FrameTooBig th (setS s w)
                       else s_goes [XWrite bs q wait] th (setS s w)))"

definition x_Write :: "session_env \<Rightarrow> byte list \<Rightarrow> handy_request \<Rightarrow> bool \<Rightarrow> session_thread \<Rightarrow> session_world \<Rightarrow> session_outcome"
where
  "x_Write v bs q wait th w =
     (let sent = w\<lparr>swWire := swWire w @ [\<lparr>sfBytes = bs, sfRequest = q, sfGen = stGen th\<rparr>]\<rparr> in
      case xvWrite v of
        None \<Rightarrow> s_goes [XValid, XCtx, XReply (rqID q) (rqMethod q) wait] th sent
      | Some e \<Rightarrow> s_goes [XFailWith e] th (if xvReached v then sent else w))"

definition replied :: "handy_message \<Rightarrow> session_thread \<Rightarrow> session_world \<Rightarrow> session_outcome" where
  "replied m th w =
     (case hmErrorCode m of
        Some code \<Rightarrow> s_fails (RpcRejected code) (th\<lparr>stMsg := Some m\<rparr>) w
      | None \<Rightarrow> s_goes [] (th\<lparr>stMsg := Some m\<rparr>) w)"

definition plainReply :: "nat \<Rightarrow> nat \<Rightarrow> handy_message" where
  "plainReply i m = \<lparr>hmNotification = False, hmID = i, hmMethod = m, hmState = None, hmDeviceTime = None,
     hmErrorCode = None\<rparr>"

definition x_Reply :: "session_env \<Rightarrow> nat \<Rightarrow> nat \<Rightarrow> bool \<Rightarrow> session_thread \<Rightarrow> session_world \<Rightarrow> session_outcome" where
  "x_Reply v i m wait th w =
     (let s = swSession w; buffered = (case seRecent s i of None \<Rightarrow> None | Some p \<Rightarrow> pdReply p) in
      if \<not> wait then
        (case buffered of Some r \<Rightarrow> replied r th w | None \<Rightarrow> s_goes [] (th\<lparr>stMsg := Some (plainReply i m)\<rparr>) w)
      else case xvChoice v of
          ChooseReply \<Rightarrow> (case buffered of None \<Rightarrow> None | Some r \<Rightarrow> replied r th w)
        | ChooseCtx \<Rightarrow> if xvCtx v then s_fails ContextDone th w else None
        | ChooseQuit \<Rightarrow> if seErr s \<noteq> None then s_fails SessionEnded th w else None
        | ChooseTimer \<Rightarrow> s_fails NoResponse th w
        | ChooseGate \<Rightarrow> None)"

definition x_Stopped :: "session_thread \<Rightarrow> session_world \<Rightarrow> session_outcome" where
  "x_Stopped th w = s_goes [] th (setS ((swSession w)\<lparr>seStreamSet := False, sePlaybackState := ''stop_requested''\<rparr>) w)"

subsection \<open>Clock and initialization\<close>

definition go_div :: "int \<Rightarrow> int \<Rightarrow> int" where
  "go_div a b = sgn a * sgn b * (\<bar>a\<bar> div \<bar>b\<bar>)"

definition noBest :: clock_best where
  "noBest = \<lparr>cbOffset = 0, cbRTT = None\<rparr>"

definition x_Clock :: "session_env \<Rightarrow> nat \<Rightarrow> clock_best \<Rightarrow> session_thread \<Rightarrow> session_world \<Rightarrow> session_outcome" where
  "x_Clock v n best th w =
     (if n = 3 then s_goes [XClockBest best] th w
      else s_goes [XEnter (blankRequest ClockGet 0), XClockAfter n best (xvMillis v)] th w)"

definition x_ClockAfter :: "session_env \<Rightarrow> nat \<Rightarrow> clock_best \<Rightarrow> int \<Rightarrow> session_thread \<Rightarrow> session_world \<Rightarrow> session_outcome"
where
  "x_ClockAfter v n best sent_at th w =
     (let after = xvMillis v; rtt = xvRTT v;
          device = (case stMsg th of None \<Rightarrow> None | Some m \<Rightarrow> hmDeviceTime m);
          best1 = (case device of
             None \<Rightarrow> best
           | Some t \<Rightarrow>
               if 100 \<le> \<bar>(after - sent_at) - to_millis rtt\<bar> then best
               else if (case cbRTT best of None \<Rightarrow> rtt < max_duration | Some d \<Rightarrow> rtt < d)
               then \<lparr>cbOffset = go_div (sent_at + after) 2 - int t, cbRTT = Some rtt\<rparr> else best) in
      s_goes [XClock (Suc n) best1] th w)"

definition x_ClockBest :: "clock_best \<Rightarrow> session_thread \<Rightarrow> session_world \<Rightarrow> session_outcome" where
  "x_ClockBest best th w =
     (case cbRTT best of
        None \<Rightarrow> s_fails NoClockSamples th w
      | Some rtt \<Rightarrow>
          if to_millis rtt < 0 \<or> 2 ^ 31 - 1 < to_millis rtt then s_fails BadRoundTrip th w
          else s_goes [XEnter ((blankRequest ClockSet 0)\<lparr>rqClockOffset := cbOffset best, rqRoundTrip := to_millis rtt\<rparr>),
                 XSynced] th w)"

definition x_Synced :: "session_thread \<Rightarrow> session_world \<Rightarrow> session_outcome" where
  "x_Synced th w = (let s = swSession w in s_goes [] th (setS (s\<lparr>seClockSynced := (seErr s = None)\<rparr>) w))"

text \<open>\<open>SetLastWill\<close> of the link, and the context's check at the end: a failure ends the session.\<close>

definition x_LastWill :: "session_env \<Rightarrow> session_thread \<Rightarrow> session_world \<Rightarrow> session_outcome" where
  "x_LastWill v th w = (case xvWill v of None \<Rightarrow> s_goes [] th w | Some e \<Rightarrow> s_goes [XFailWith e] th w)"

definition x_InitErr :: "session_thread \<Rightarrow> session_world \<Rightarrow> session_outcome" where
  "x_InitErr th w = (case seErr (swSession w) of None \<Rightarrow> s_goes [] th w | Some e \<Rightarrow> s_fails e th w)"

subsection \<open>Ending and events\<close>

definition x_FailWith :: "session_error \<Rightarrow> session_thread \<Rightarrow> session_world \<Rightarrow> session_outcome" where
  "x_FailWith e th w = s_fails e th (setS (session_fail e (swSession w)) w)"

definition x_Receive :: "handy_message \<Rightarrow> session_thread \<Rightarrow> session_world \<Rightarrow> session_outcome" where
  "x_Receive m th w =
     (case receive_rejects m (swSession w) of
        Some e \<Rightarrow> s_goes [XFail e] th w
      | None \<Rightarrow> s_goes [] th (setS (receive_state m (receive_reply m (swSession w))) w))"

fun run_session_op :: "session_env \<Rightarrow> session_op \<Rightarrow> session_thread \<Rightarrow> session_world \<Rightarrow> session_outcome" where
  "run_session_op v (XEnter r) th w = s_goes [XGate r] (th\<lparr>stGen := seGeneration (swSession w)\<rparr>) w"
| "run_session_op v (XGate r) th w = x_Gate v r th w"
| "run_session_op v XValid th w = x_Valid [] th w"
| "run_session_op v (XStream r) th w = x_Stream r th w"
| "run_session_op v (XStreamSet n) th w = x_StreamSet n th w"
| "run_session_op v (XBody r) th w = x_Body v r th w"
| "run_session_op v (XAdd r n) th w = x_Add r n th w"
| "run_session_op v (XRpc r wait) th w = x_Valid [XRpcCtx r wait] th w"
| "run_session_op v (XRpcCtx r wait) th w = x_Ctx v [XAssign r wait] th w"
| "run_session_op v (XAssign r wait) th w = x_Assign r wait th w"
| "run_session_op v (XWrite bs q wait) th w = x_Write v bs q wait th w"
| "run_session_op v (XFailWith e) th w = x_FailWith e th w"
| "run_session_op v XCtx th w = x_Ctx v [] th w"
| "run_session_op v (XReply i m wait) th w = x_Reply v i m wait th w"
| "run_session_op v XStopped th w = x_Stopped th w"
| "run_session_op v XRelease th w = s_goes [] th (w\<lparr>swGate := False\<rparr>)"
| "run_session_op v XLastWill th w = x_LastWill v th w"
| "run_session_op v XSyncClock th w = s_goes [XClock 0 noBest, XIgnore, XInitCtx, XInitErr] th w"
| "run_session_op v (XClock n b) th w = x_Clock v n b th w"
| "run_session_op v (XClockAfter n b sent_at) th w = x_ClockAfter v n b sent_at th w"
| "run_session_op v (XClockBest b) th w = x_ClockBest b th w"
| "run_session_op v XSynced th w = x_Synced th w"
| "run_session_op v XIgnore th w = Some (w, th\<lparr>stErr := None\<rparr>)"
| "run_session_op v XInitCtx th w = (if xvCtx v then s_goes [XFailWith ContextDone] th w else s_goes [] th w)"
| "run_session_op v XInitErr th w = x_InitErr th w"
| "run_session_op v XInterrupt th w = s_goes [] th (setS (session_Interrupt (swSession w)) w)"
| "run_session_op v (XFail e) th w = s_goes [] th (setS (session_fail e (swSession w)) w)"
| "run_session_op v (XReceive m) th w = x_Receive m th w"

fun s_catches :: "session_op \<Rightarrow> bool" where
  "s_catches XRelease = True"
| "s_catches XIgnore = True"
| "s_catches _ = False"

definition s_advance :: "session_env \<Rightarrow> session_thread \<Rightarrow> session_world \<Rightarrow> session_outcome" where
  "s_advance v th w =
     (case stOps th of
        [] \<Rightarrow> None
      | x # xs \<Rightarrow>
          if stErr th \<noteq> None \<and> \<not> s_catches x then Some (w, th\<lparr>stOps := xs\<rparr>)
          else run_session_op v x (th\<lparr>stOps := xs\<rparr>) w)"

section \<open>Calls and events\<close>

datatype session_call = CallExecute handy_request | CallInitialize | CallInterrupt | CallClose

definition session_script :: "session_call \<Rightarrow> session_op list" where
  "session_script c =
     (case c of
        CallExecute r \<Rightarrow> [XEnter r]
      | CallInitialize \<Rightarrow>
          [XEnter (blankRequest StopCurrentMode 0), XLastWill, XSyncClock]
      | CallInterrupt \<Rightarrow> [XInterrupt]
      | CallClose \<Rightarrow> [XFail LinkClosed])"

datatype link_event = EventClosed | EventLost | EventNotification "byte list" | EventOther

definition newSessionThread :: "bool \<Rightarrow> session_op list \<Rightarrow> session_thread" where
  "newSessionThread reader xs = \<lparr>stGen = 0, stReader = reader, stErr = None, stMsg = None, stOps = xs\<rparr>"

text \<open>
  One turn of \<open>readEvents\<close>: the script it works off before the next turn, and whether it goes on.  A
  notification that does not decode is skipped.
\<close>

definition event_script :: "link_event \<Rightarrow> session_op list \<times> bool" where
  "event_script e =
     (case e of
        EventClosed \<Rightarrow> ([XFail LinkClosed], False)
      | EventLost \<Rightarrow> ([XFail LinkLost], False)
      | EventNotification bs \<Rightarrow> ((case handy_Decode bs of Inl x \<Rightarrow> [] | Inr m \<Rightarrow> [XReceive m]), True)
      | EventOther \<Rightarrow> ([], True))"

definition newSessionWorld :: "session \<Rightarrow> session_world" where
  "newSessionWorld s = \<lparr>swSession = s, swGate = False, swReader = True, swThreads = [], swWire = []\<rparr>"

definition add_thread :: "session_thread \<Rightarrow> session_world \<Rightarrow> session_world" where
  "add_thread th w = w\<lparr>swThreads := swThreads w @ [th]\<rparr>"

inductive session_step :: "session_world \<Rightarrow> session_world \<Rightarrow> bool" where
  call: "session_step w (add_thread (newSessionThread False (session_script c)) w)"
| event: "swReader w \<Longrightarrow> list_all (\<lambda>t. \<not> stReader t) (swThreads w) \<Longrightarrow> event_script e = (xs, on) \<Longrightarrow>
     session_step w ((add_thread (newSessionThread True xs) w)\<lparr>swReader := on\<rparr>)"
| quit: "swReader w \<Longrightarrow> list_all (\<lambda>t. \<not> stReader t) (swThreads w) \<Longrightarrow> seErr (swSession w) \<noteq> None \<Longrightarrow>
     session_step w (w\<lparr>swReader := False\<rparr>)"
| thread: "swThreads w = xs @ th # ys \<Longrightarrow>
     s_advance v th (w\<lparr>swThreads := xs @ ys\<rparr>) = Some (w', th') \<Longrightarrow>
     session_step w (w'\<lparr>swThreads := th' # swThreads w'\<rparr>)"
| ended: "swThreads w = xs @ th # ys \<Longrightarrow> stOps th = [] \<Longrightarrow> session_step w (w\<lparr>swThreads := xs @ ys\<rparr>)"

end
