(* ===== verification/HandySafety.thy ===== *)
theory HandySafety
  imports HandySession
begin

text \<open>
  The invariant of the Bluetooth session under all interleavings, and what it gives: an operation writes
  only while it holds the gate, so at most one goroutine is past its generation check; frames are
  numbered, fit the link and never go back to an older generation.  The chunking loop of an Add is
  total on every link a session accepts and loses no point.
\<close>

section \<open>What one operation does\<close>

fun armed :: "session_op \<Rightarrow> bool" where
  "armed (XRpcCtx r wait) = True"
| "armed (XAssign r wait) = True"
| "armed (XWrite bs q wait) = True"
| "armed _ = False"

fun gated :: "session_op \<Rightarrow> bool" where
  "gated (XStream r) = True"
| "gated (XBody r) = True"
| "gated (XAdd r n) = True"
| "gated (XRpc r wait) = True"
| "gated (XRpcCtx r wait) = True"
| "gated (XAssign r wait) = True"
| "gated (XWrite bs q wait) = True"
| "gated _ = False"

text \<open>Everything that leads to a write stands before the release of the gate; what passed the check is next.\<close>

fun shaped :: "session_op list \<Rightarrow> bool" where
  "shaped [] = True"
| "shaped (x # xs) = ((gated x \<longrightarrow> XRelease \<in> set xs) \<and> shaped xs)"

definition releases :: "session_op list \<Rightarrow> nat" where
  "releases xs = length (filter (\<lambda>x. x = XRelease) xs)"

lemma releases_simps [simp]: "releases [] = 0" "releases (x # xs) = of_bool (x = XRelease) + releases xs"
  "releases (xs @ ys) = releases xs + releases ys"
  by (simp_all add: releases_def)

lemma releases_mem: "XRelease \<in> set xs \<Longrightarrow> 1 \<le> releases xs"
  by (induction xs) auto

definition write_of :: "session_op list \<Rightarrow> (byte list \<times> handy_request) option" where
  "write_of xs = (case xs of XWrite bs q wait # ys \<Rightarrow> Some (bs, q) | _ \<Rightarrow> None)"

lemmas s_defs = s_goes_def s_fails_def x_Valid_def x_Ctx_def x_Gate_def x_Stream_def x_StreamSet_def x_Body_def x_Add_def
  x_Assign_def x_Write_def replied_def x_Reply_def x_Stopped_def x_Clock_def x_ClockAfter_def x_ClockBest_def x_Synced_def
  x_LastWill_def x_InitErr_def x_FailWith_def x_Receive_def rpc_def setS_def

lemma session_fields [simp]:
  "seNextID (session_fail e s) = seNextID s" "seLimit (session_fail e s) = seLimit s"
  "seNextID (session_Interrupt s) = seNextID s" "seLimit (session_Interrupt s) = seLimit s"
  "seNextID (receive_reply m s) = seNextID s" "seLimit (receive_reply m s) = seLimit s"
  "seNextID (receive_state m s) = seNextID s" "seLimit (receive_state m s) = seLimit s"
  "seGeneration (receive_reply m s) = seGeneration s" "seGeneration (receive_state m s) = seGeneration s"
  "seGeneration (session_Interrupt s) = Suc (seGeneration s)"
  by (simp_all add: session_fail_def session_Interrupt_def receive_reply_def receive_state_def Let_def split: option.split)

lemma fail_gen: "seGeneration s \<le> seGeneration (session_fail e s)"
  by (simp add: session_fail_def split: option.split)

lemma assign_fields: "assignID g m s = Some (s', i) \<Longrightarrow>
    i = Suc (seNextID s) \<and> seNextID s' = i \<and>
    seLimit s' = seLimit s \<and> seGeneration s' = seGeneration s \<and> seNextID s \<noteq> maxUint32 - 1"
  by (auto simp: assignID_def Let_def split: if_splits)

definition armed_head :: "session_thread \<Rightarrow> bool" where
  "armed_head th \<longleftrightarrow> stOps th \<noteq> [] \<and> armed (hd (stOps th))"

definition session_effect :: "session_op \<Rightarrow> session_thread \<Rightarrow> session_world \<Rightarrow> session_world \<Rightarrow> session_thread \<Rightarrow> bool" where
  "session_effect x th w w' th' \<longleftrightarrow>
     shaped (stOps th') \<and> list_all (\<lambda>y. \<not> armed y) (drop 1 (stOps th')) \<and>
     of_bool (swGate w') + releases (x # stOps th) = of_bool (swGate w) + releases (stOps th') \<and>
     swThreads w' = swThreads w \<and>
     seGeneration (swSession w) \<le> seGeneration (swSession w') \<and> seLimit (swSession w') = seLimit (swSession w) \<and>
     (armed_head th' \<longrightarrow> swWire w' = swWire w \<and>
        (armed x \<and> stGen th' = stGen th \<or> stGen th' = seGeneration (swSession w'))) \<and>
     (swWire w' = swWire w \<or>
        (\<exists>bs q wait. x = XWrite bs q wait \<and> swWire w' = swWire w @ [\<lparr>sfBytes = bs, sfRequest = q, sfGen = stGen th\<rparr>])) \<and>
     (case write_of (stOps th') of
        None \<Rightarrow> seNextID (swSession w') = seNextID (swSession w) \<or>
           seNextID (swSession w') = Suc (seNextID (swSession w)) \<and> seNextID (swSession w) \<noteq> maxUint32 - 1
      | Some (bs, q) \<Rightarrow> gated x \<and> seNextID (swSession w) \<noteq> maxUint32 - 1 \<and>
          seNextID (swSession w') = Suc (seNextID (swSession w)) \<and> rqID q = seNextID (swSession w') \<and>
          handy_Encode q = Inr bs \<and> length bs \<le> seLimit (swSession w))"

lemma write_of_unarmed: "list_all (\<lambda>y. \<not> armed y) xs \<Longrightarrow> write_of xs = None"
  by (auto simp: write_of_def split: list.splits session_op.splits)

lemma write_of_simps [simp]: "write_of [] = None" "write_of (XWrite bs q wait # xs) = Some (bs, q)"
  "\<not> armed x \<Longrightarrow> write_of (x # xs) = None" "write_of (XAssign r wait # xs) = None" "write_of (XRpcCtx r wait # xs) = None"
  by (auto simp: write_of_def split: session_op.splits)

lemma unarmed_drop: "list_all (\<lambda>y. \<not> armed y) xs \<Longrightarrow> list_all (\<lambda>y. \<not> armed y) (drop n xs)"
  by (auto simp: list_all_iff dest: in_set_dropD)

lemma unarmed_hd: "list_all (\<lambda>y. \<not> armed y) xs \<Longrightarrow> xs \<noteq> [] \<Longrightarrow> \<not> armed (hd xs)"
  by (cases xs) auto

text \<open>An operation that pushes unarmed operations and leaves gate, wire and counter alone.\<close>

definition same_base :: "session_world \<Rightarrow> session_world \<Rightarrow> bool" where
  "same_base w v \<longleftrightarrow> swThreads v = swThreads w \<and> swGate v = swGate w \<and> swWire v = swWire w \<and>
     seGeneration (swSession w) \<le> seGeneration (swSession v) \<and> seLimit (swSession v) = seLimit (swSession w) \<and>
     seNextID (swSession v) = seNextID (swSession w)"

lemma same_base_simps [simp]:
  "same_base w w"
  "same_base w (setS s w) \<longleftrightarrow> seGeneration (swSession w) \<le> seGeneration s \<and> seLimit s = seLimit (swSession w) \<and>
     seNextID s = seNextID (swSession w)"
  by (auto simp: same_base_def setS_def)

definition calm :: "session_op \<Rightarrow> session_op list \<Rightarrow> bool" where
  "calm x push \<longleftrightarrow> list_all (\<lambda>y. \<not> armed y \<and> y \<noteq> XRelease \<and> (gated y \<longrightarrow> gated x)) push"

lemma shaped_calm: "shaped (x # rest) \<Longrightarrow> calm x push \<Longrightarrow> shaped (push @ rest)"
  by (induction push) (auto simp: calm_def)

lemma releases_calm: "calm x push \<Longrightarrow> releases push = 0"
  by (induction push) (auto simp: calm_def)

lemma effect_calm:
  assumes "shaped (x # stOps th)" "list_all (\<lambda>y. \<not> armed y) (stOps th)" "x \<noteq> XRelease"
    and "calm x push" "same_base w w'" "stOps th' = push @ stOps th"
  shows "session_effect x th w w' th'"
proof -
  have u: "list_all (\<lambda>y. \<not> armed y) (push @ stOps th)" using assms(2,4) by (auto simp: calm_def list_all_iff)
  then have "stOps th' \<noteq> [] \<longrightarrow> \<not> armed (hd (stOps th'))" "write_of (stOps th') = None"
      "list_all (\<lambda>y. \<not> armed y) (drop 1 (stOps th'))"
    using assms(6) unarmed_hd unarmed_drop write_of_unarmed by auto
  then show ?thesis
    using assms shaped_calm [OF assms(1,4)] releases_calm [OF assms(4)]
    unfolding armed_head_def session_effect_def same_base_def by auto
qed

text \<open>A result that only pushes calm operations, or fails.\<close>

definition calm_result :: "session_op \<Rightarrow> session_thread \<Rightarrow> session_world \<Rightarrow> session_outcome \<Rightarrow> bool" where
  "calm_result x th w out \<longleftrightarrow>
     (\<forall>w' th'. out = Some (w', th') \<longrightarrow> same_base w w' \<and> (\<exists>push. stOps th' = push @ stOps th \<and> calm x push))"

lemma calm_result_simps [simp]:
  "calm_result x th w None"
  "stOps th0 = stOps th \<Longrightarrow> calm_result x th w (s_goes push th0 v) \<longleftrightarrow> same_base w v \<and> calm x push"
  "stOps th0 = stOps th \<Longrightarrow> calm_result x th w (s_fails e th0 v) \<longleftrightarrow> same_base w v"
  by (auto simp: calm_result_def s_goes_def s_fails_def calm_def)

lemma calm_simps [simp]:
  "calm x []" "calm x (y # ys) \<longleftrightarrow> \<not> armed y \<and> y \<noteq> XRelease \<and> (gated y \<longrightarrow> gated x) \<and> calm x ys"
  "calm x (ys @ zs) \<longleftrightarrow> calm x ys \<and> calm x zs"
  by (auto simp: calm_def)

lemma effect_calm_result:
  assumes "run_session_op v x th w = Some (w', th')" "calm_result x th w (run_session_op v x th w)"
    and "shaped (x # stOps th)" "list_all (\<lambda>y. \<not> armed y) (stOps th)" "x \<noteq> XRelease"
  shows "session_effect x th w w' th'"
  using assms(1,2) effect_calm [OF assms(3-5)] by (auto simp: calm_result_def)

lemma calm_ops:
  "calm_result x th w (x_Valid [] th w)" "calm_result x th w (x_StreamSet n th w)"
  "gated x \<Longrightarrow> calm_result x th w (x_Stream r th w)" "gated x \<Longrightarrow> calm_result x th w (x_Body v r th w)"
  "gated x \<Longrightarrow> calm_result x th w (x_Add r n th w)" "calm_result x th w (x_FailWith e th w)"
  "calm_result x th w (x_Ctx v [] th w)" "calm_result x th w (x_Reply v i m wait th w)"
  "calm_result x th w (x_Stopped th w)" "calm_result x th w (x_LastWill v th w)"
  "calm_result x th w (x_Clock v n b th w)" "calm_result x th w (x_ClockAfter v n b t th w)"
  "calm_result x th w (x_ClockBest b th w)" "calm_result x th w (x_Synced th w)"
  "calm_result x th w (x_InitErr th w)" "calm_result x th w (x_Receive msg th w)"
  by (auto simp: x_Valid_def x_StreamSet_def x_Stream_def x_Body_def x_Add_def x_FailWith_def x_Ctx_def x_Reply_def
      replied_def x_Stopped_def x_LastWill_def x_Clock_def x_ClockAfter_def x_ClockBest_def x_Synced_def x_InitErr_def
      x_Receive_def rpc_def fail_gen Let_def split: option.split sum.split session_choice.split)

lemma effect_armed:
  assumes "shaped (x # stOps th)" "list_all (\<lambda>y. \<not> armed y) (stOps th)" "gated x"
    and "stOps th' = y # stOps th" "armed y" "write_of [y] = None" "same_base w w'"
    and "stGen th' = stGen th" "armed x \<or> stGen th = seGeneration (swSession w')"
  shows "session_effect x th w w' th'"
proof -
  have "write_of (y # zs) = None" for zs using assms(6) by (auto simp: write_of_def split: session_op.splits)
  moreover have "x \<noteq> XRelease" "y \<noteq> XRelease" using assms(3,5) by auto
  ultimately show ?thesis using assms by (auto simp: armed_head_def session_effect_def same_base_def)
qed

lemma session_op_effect:
  assumes r: "run_session_op v x th w = Some (w', th')" and s: "shaped (x # stOps th)"
    and a: "list_all (\<lambda>y. \<not> armed y) (stOps th)" and l: "x = XRelease \<longrightarrow> swGate w"
  shows "session_effect x th w w' th'"
proof -
  note rest = unarmed_drop [OF a, of 1] unarmed_hd [OF a] write_of_unarmed [OF a]
  note e = effect_calm_result [OF r _ s a]
  show ?thesis
  proof (cases x)
    case (XRpc q wait)
    have "\<exists>push. stOps th' = push @ stOps th \<and> stGen th' = stGen th \<and> w' = w \<and>
        (push = [] \<or> push = [XRpcCtx q wait] \<and> stGen th = seGeneration (swSession w))"
      using r XRpc by (auto simp: x_Valid_def session_valid_def s_goes_def s_fails_def split: option.splits if_splits)
    then show ?thesis using effect_armed [OF s a, of th' "XRpcCtx q wait" w w'] effect_calm [OF s a, of "[]" w w' th'] XRpc
      by auto
  next
    case (XRpcCtx q wait)
    have "\<exists>push. stOps th' = push @ stOps th \<and> stGen th' = stGen th \<and> w' = w \<and> (push = [] \<or> push = [XAssign q wait])"
      using r XRpcCtx by (auto simp: x_Ctx_def s_goes_def s_fails_def split: if_splits)
    then show ?thesis using effect_armed [OF s a, of th' "XAssign q wait" w w'] effect_calm [OF s a, of "[]" w w' th'] XRpcCtx
      by auto
  next
    case (XAssign q wait)
    show ?thesis
    proof (cases "assignID (stGen th) (rqMethod q) (swSession w)")
      case None
      then show ?thesis using r XAssign effect_calm [OF s a, of "[]" w w' th'] by (auto simp: x_Assign_def s_fails_def)
    next
      case (Some si)
      obtain z i where si: "si = (z, i)" by (cases si)
      note f = assign_fields [OF Some [unfolded si]]
      have "w' = setS z w \<and> stGen th' = stGen th \<and> (stOps th' = stOps th \<or>
          (\<exists>bs. stOps th' = XWrite bs (q\<lparr>rqID := i\<rparr>) wait # stOps th \<and> handy_Encode (q\<lparr>rqID := i\<rparr>) = Inr bs \<and>
             length bs \<le> seLimit (swSession w)))"
        using r XAssign Some f unfolding si
        by (cases "handy_Encode (q\<lparr>rqID := i\<rparr>)")
          (auto simp: x_Assign_def s_goes_def s_fails_def Let_def split: if_splits)
      then show ?thesis using f rest s a XAssign
        by (elim conjE disjE exE) (simp_all add: armed_head_def session_effect_def setS_def)
    qed
  next
    case (XWrite bs q wait)
    then show ?thesis using r s a rest
      by (auto simp: armed_head_def session_effect_def x_Write_def s_goes_def Let_def split: option.splits if_splits)
  next
    case (XGate q)
    then show ?thesis using r s a rest
      by (auto simp: armed_head_def session_effect_def x_Gate_def s_goes_def s_fails_def split: session_choice.splits if_splits)
  next
    case XRelease
    then show ?thesis using r s a l rest by (auto simp: armed_head_def session_effect_def s_goes_def)
  next
    case XIgnore
    then show ?thesis using r effect_calm [OF s a, of "[]" w w' th'] by auto
  qed (use e in \<open>auto simp: calm_ops fail_gen\<close>)
qed

section \<open>The invariant of a session\<close>

definition thread_ok :: "session_world \<Rightarrow> session_thread \<Rightarrow> bool" where
  "thread_ok w th \<longleftrightarrow>
     shaped (stOps th) \<and> list_all (\<lambda>y. \<not> armed y) (drop 1 (stOps th)) \<and>
     (armed_head th \<longrightarrow> stGen th \<le> seGeneration (swSession w) \<and> (\<forall>e \<in> set (swWire w). sfGen e \<le> stGen th)) \<and>
     (\<forall>bs q. write_of (stOps th) = Some (bs, q) \<longrightarrow>
        handy_Encode q = Inr bs \<and> length bs \<le> seLimit (swSession w) \<and> rqID q \<le> seNextID (swSession w) \<and>
        (\<forall>e \<in> set (swWire w). rqID (sfRequest e) < rqID q))"

definition wire_ok :: "session_world \<Rightarrow> bool" where
  "wire_ok w \<longleftrightarrow>
     (\<forall>e \<in> set (swWire w). sfGen e \<le> seGeneration (swSession w) \<and> rqID (sfRequest e) \<le> seNextID (swSession w) \<and>
        handy_Encode (sfRequest e) = Inr (sfBytes e) \<and> length (sfBytes e) \<le> seLimit (swSession w)) \<and>
     sorted_wrt (\<lambda>a b. sfGen a \<le> sfGen b \<and> rqID (sfRequest a) < rqID (sfRequest b)) (swWire w)"

definition gate_count :: "session_thread list \<Rightarrow> nat" where
  "gate_count ts = sum_list (map (\<lambda>t. releases (stOps t)) ts)"

definition session_inv :: "nat \<Rightarrow> session_world \<Rightarrow> bool" where
  "session_inv n w \<longleftrightarrow>
     seLimit (swSession w) = n \<and> seNextID (swSession w) \<le> maxUint32 - 1 \<and> wire_ok w \<and>
     gate_count (swThreads w) = of_bool (swGate w) \<and> (\<forall>th \<in> set (swThreads w). thread_ok w th)"

lemma armed_releases: "thread_ok w th \<Longrightarrow> armed_head th \<Longrightarrow> 1 \<le> releases (stOps th)"
proof -
  assume t: "thread_ok w th" "armed_head th"
  then obtain x xs where x: "stOps th = x # xs" "armed x" by (cases "stOps th") (auto simp: armed_head_def)
  then have "gated x" by (cases x) auto
  then have "XRelease \<in> set xs" using t(1) x(1) by (simp add: thread_ok_def)
  from releases_mem [OF this] show ?thesis by (simp add: x)
qed

lemma write_of_armed: "write_of (stOps th) = Some p \<Longrightarrow> armed_head th"
  by (auto simp: write_of_def armed_head_def split: list.splits session_op.splits)

lemma gate_count_split: "gate_count (xs @ th # ys) = releases (stOps th) + gate_count (xs @ ys)"
  by (simp add: gate_count_def)

lemma gate_count_member: "t \<in> set ts \<Longrightarrow> releases (stOps t) \<le> gate_count ts"
  by (induction ts) (auto simp: gate_count_def)

text \<open>While one goroutine is past its check, no other is.\<close>

lemma armed_alone:
  assumes "session_inv n w" "swThreads w = xs @ th # ys" "armed_head th" "t \<in> set (xs @ ys)"
  shows "\<not> armed_head t"
proof
  assume "armed_head t"
  then have "1 \<le> releases (stOps t)" using assms(1,2,4) armed_releases by (auto simp: session_inv_def)
  then have "1 \<le> gate_count (xs @ ys)" using gate_count_member [OF assms(4)] by simp
  moreover have "1 \<le> releases (stOps th)" using assms armed_releases by (auto simp: session_inv_def)
  moreover have "gate_count (swThreads w) \<le> 1" using assms(1) by (simp add: session_inv_def)
  ultimately show False using gate_count_split assms(2) by simp
qed

lemma session_step_op:
  assumes inv: "session_inv n w" and w: "swThreads w = xs @ th # ys" and x: "stOps th = x # rest"
    and e: "session_effect x (th\<lparr>stOps := rest\<rparr>) (w\<lparr>swThreads := xs @ ys\<rparr>) w' th'"
  shows "session_inv n (w'\<lparr>swThreads := th' # swThreads w'\<rparr>)"
proof -
  let ?v = "w'\<lparr>swThreads := th' # swThreads w'\<rparr>"
  have wire: "wire_ok w" and ok: "thread_ok w th" "\<And>t. t \<in> set (xs @ ys) \<Longrightarrow> thread_ok w t"
    and id: "seNextID (swSession w) \<le> maxUint32 - 1"
    using inv w by (auto simp: session_inv_def)
  have e1: "shaped (stOps th')" "list_all (\<lambda>y. \<not> armed y) (drop 1 (stOps th'))"
      "of_bool (swGate w') + releases (x # rest) = of_bool (swGate w) + releases (stOps th')"
      "swThreads w' = xs @ ys" "seGeneration (swSession w) \<le> seGeneration (swSession w')"
      "seLimit (swSession w') = seLimit (swSession w)"
    and e2: "armed_head th' \<Longrightarrow> swWire w' = swWire w \<and> (armed x \<and> stGen th' = stGen th \<or> stGen th' = seGeneration (swSession w'))"
    and e3: "swWire w' = swWire w \<or>
        (\<exists>bs q wait. x = XWrite bs q wait \<and> swWire w' = swWire w @ [\<lparr>sfBytes = bs, sfRequest = q, sfGen = stGen th\<rparr>])"
    using e by (auto simp: session_effect_def)
  have nid: "seNextID (swSession w) \<le> seNextID (swSession w') \<and> seNextID (swSession w') \<le> maxUint32 - 1"
    using e id by (auto simp: session_effect_def split: option.splits)
  have new: "seNextID (swSession w') = Suc (seNextID (swSession w)) \<and> rqID q = seNextID (swSession w') \<and>
      handy_Encode q = Inr bs \<and> length bs \<le> seLimit (swSession w)" if "write_of (stOps th') = Some (bs, q)" for bs q
    using e that by (auto simp: session_effect_def)
  have mono: "sfGen f \<le> seGeneration (swSession w') \<and> rqID (sfRequest f) \<le> seNextID (swSession w')"
    if "f \<in> set (swWire w)" for f
    using wire that e1(5) nid by (fastforce simp: wire_ok_def)
  have wok: "wire_ok ?v"
    using e3
  proof (elim disjE exE conjE)
    assume "swWire w' = swWire w"
    then show ?thesis using wire e1(6) mono by (auto simp: wire_ok_def)
  next
    fix bs q wait
    assume q: "x = XWrite bs q wait" "swWire w' = swWire w @ [\<lparr>sfBytes = bs, sfRequest = q, sfGen = stGen th\<rparr>]"
    have "handy_Encode q = Inr bs \<and> length bs \<le> seLimit (swSession w) \<and> rqID q \<le> seNextID (swSession w) \<and>
        (\<forall>e \<in> set (swWire w). rqID (sfRequest e) < rqID q)"
      using ok(1) x q(1) by (simp add: thread_ok_def)
    moreover have "stGen th \<le> seGeneration (swSession w) \<and> (\<forall>e \<in> set (swWire w). sfGen e \<le> stGen th)"
      using ok(1) x q(1) by (simp add: thread_ok_def armed_head_def)
    ultimately show ?thesis using wire e1(5,6) nid mono q(2) by (auto simp: wire_ok_def sorted_wrt_append)
  qed
  have th: "thread_ok ?v th'"
  proof -
    have "stGen th' \<le> seGeneration (swSession w') \<and> (\<forall>e \<in> set (swWire w'). sfGen e \<le> stGen th')" if a: "armed_head th'"
      using e2 [OF a]
    proof (elim conjE disjE)
      assume "swWire w' = swWire w" "armed x" "stGen th' = stGen th"
      then show ?thesis using ok(1) x e1(5) by (auto simp: thread_ok_def armed_head_def)
    next
      assume "swWire w' = swWire w" "stGen th' = seGeneration (swSession w')"
      then show ?thesis using wire e1(5) by (auto simp: wire_ok_def)
    qed
    moreover have "\<forall>e \<in> set (swWire w'). rqID (sfRequest e) < rqID q" if r: "write_of (stOps th') = Some (bs, q)" for bs q
    proof
      fix f assume "f \<in> set (swWire w')"
      then have "rqID (sfRequest f) \<le> seNextID (swSession w)"
        using e2 [OF write_of_armed [OF r]] wire by (simp add: wire_ok_def)
      then show "rqID (sfRequest f) < rqID q" using new [OF r] by simp
    qed
    moreover have "handy_Encode q = Inr bs \<and> length bs \<le> seLimit (swSession w') \<and> rqID q \<le> seNextID (swSession w')"
      if "write_of (stOps th') = Some (bs, q)" for bs q
      using new [OF that] e1(6) by simp
    ultimately show ?thesis unfolding thread_ok_def using e1(1,2) by simp
  qed
  have other: "thread_ok ?v t" if t: "t \<in> set (xs @ ys)" for t
  proof (cases "swWire w' = swWire w")
    case True
    then show ?thesis using ok(2) [OF t] e1(5,6) nid by (fastforce simp: thread_ok_def)
  next
    case False
    then have "armed_head th" using e3 x by (auto simp: armed_head_def)
    then have "\<not> armed_head t" using armed_alone [OF inv w _ t] by blast
    moreover from this have "write_of (stOps t) = None" using write_of_armed [of t] by (cases "write_of (stOps t)") auto
    ultimately show ?thesis using ok(2) [OF t] by (simp add: thread_ok_def)
  qed
  have "gate_count (th' # xs @ ys) = of_bool (swGate w')"
    using inv w x e1(3) gate_count_split [of xs th ys] by (simp add: session_inv_def gate_count_def)
  then show ?thesis using inv wok th other e1(4,6) nid by (simp add: session_inv_def)
qed

lemma thread_ok_same: "swSession v = swSession w \<Longrightarrow> swWire v = swWire w \<Longrightarrow> thread_ok v t = thread_ok w t"
  by (simp add: thread_ok_def)

lemma wire_ok_same: "swSession v = swSession w \<Longrightarrow> swWire v = swWire w \<Longrightarrow> wire_ok v = wire_ok w"
  by (simp add: wire_ok_def)

definition fresh_script :: "session_op list \<Rightarrow> bool" where
  "fresh_script xs \<longleftrightarrow> list_all (\<lambda>y. \<not> gated y \<and> \<not> armed y \<and> y \<noteq> XRelease) xs"

lemma fresh_shaped: "fresh_script xs \<Longrightarrow> shaped xs \<and> releases xs = 0 \<and> list_all (\<lambda>y. \<not> armed y) xs"
  by (induction xs) (auto simp: fresh_script_def)

lemma fresh_ok: "fresh_script (stOps t) \<Longrightarrow> thread_ok w t"
  using fresh_shaped [of "stOps t"] unarmed_drop [of "stOps t" 1] write_of_unarmed [of "stOps t"] unarmed_hd [of "stOps t"]
  by (auto simp: thread_ok_def armed_head_def)

lemma inv_add_thread:
  assumes "session_inv n w" "fresh_script xs"
  shows "session_inv n (add_thread (newSessionThread b xs) w)"
  using assms fresh_shaped [OF assms(2)] fresh_ok [of "newSessionThread b xs"]
  by (auto simp: session_inv_def add_thread_def gate_count_def newSessionThread_def thread_ok_same [of "swThreads_update f w" w for f]
      wire_ok_same [of "swThreads_update f w" w for f])

lemma script_fresh: "fresh_script (session_script c)" "event_script e = (xs, on) \<Longrightarrow> fresh_script xs"
  by (auto simp: fresh_script_def session_script_def event_script_def split: session_call.split link_event.splits sum.splits)

lemma inv_reader: "session_inv n (w\<lparr>swReader := b\<rparr>) = session_inv n w"
  by (simp add: session_inv_def thread_ok_def wire_ok_def)

lemma release_gate:
  assumes "session_inv n w" "swThreads w = xs @ th # ys" "stOps th = XRelease # rest"
  shows "swGate w"
  using assms gate_count_split [of xs th ys] by (cases "swGate w") (simp_all add: session_inv_def)

lemma session_inv_skip:
  assumes inv: "session_inv n w" and w: "swThreads w = xs @ th # ys" and x: "stOps th = x # rest" "x \<noteq> XRelease"
  shows "session_inv n (w\<lparr>swThreads := th\<lparr>stOps := rest\<rparr> # xs @ ys\<rparr>)"
proof -
  have ok: "thread_ok w th" "\<forall>t \<in> set (xs @ ys). thread_ok w t" using inv w by (auto simp: session_inv_def)
  have "thread_ok w (th\<lparr>stOps := rest\<rparr>)"
    using ok(1) x(1) unarmed_drop [of rest 1] unarmed_hd [of rest] write_of_unarmed [of rest]
    by (auto simp: thread_ok_def armed_head_def)
  then show ?thesis
    using inv w x ok(2) gate_count_split [of xs th ys]
    by (simp add: session_inv_def gate_count_def thread_ok_same [of "w\<lparr>swThreads := th\<lparr>stOps := rest\<rparr> # xs @ ys\<rparr>" w]
        wire_ok_same [of "w\<lparr>swThreads := th\<lparr>stOps := rest\<rparr> # xs @ ys\<rparr>" w])
qed

text \<open>A step of a goroutine is a skipped operation or one with its effect.\<close>

lemma s_advance_cases:
  assumes a: "s_advance v th (w\<lparr>swThreads := xs @ ys\<rparr>) = Some (w', th')"
    and inv: "session_inv n w" and w: "swThreads w = xs @ th # ys"
  obtains (skip) x rest where "stOps th = x # rest" "x \<noteq> XRelease" "w' = w\<lparr>swThreads := xs @ ys\<rparr>" "th' = th\<lparr>stOps := rest\<rparr>"
  | (op) x rest where "stOps th = x # rest"
      "run_session_op v x (th\<lparr>stOps := rest\<rparr>) (w\<lparr>swThreads := xs @ ys\<rparr>) = Some (w', th')"
      "session_effect x (th\<lparr>stOps := rest\<rparr>) (w\<lparr>swThreads := xs @ ys\<rparr>) w' th'"
proof -
  obtain x rest where x: "stOps th = x # rest" using a by (cases "stOps th") (auto simp: s_advance_def)
  show ?thesis
  proof (cases "stErr th \<noteq> None \<and> \<not> s_catches x")
    case True
    then have "x \<noteq> XRelease" by auto
    then show ?thesis using skip [of x rest] a x True by (auto simp: s_advance_def)
  next
    case False
    then have r: "run_session_op v x (th\<lparr>stOps := rest\<rparr>) (w\<lparr>swThreads := xs @ ys\<rparr>) = Some (w', th')"
      using a x by (auto simp: s_advance_def)
    have "thread_ok w th" using inv w by (simp add: session_inv_def)
    then have s: "shaped (x # stOps (th\<lparr>stOps := rest\<rparr>))" "list_all (\<lambda>y. \<not> armed y) (stOps (th\<lparr>stOps := rest\<rparr>))"
      by (simp_all add: thread_ok_def x)
    have g: "x = XRelease \<longrightarrow> swGate (w\<lparr>swThreads := xs @ ys\<rparr>)" using release_gate [OF inv w] x by auto
    show ?thesis by (rule op [OF x r session_op_effect [OF r s g]])
  qed
qed

lemma session_inv_ended:
  assumes "session_inv n w" "swThreads w = xs @ th # ys" "stOps th = []"
  shows "session_inv n (w\<lparr>swThreads := xs @ ys\<rparr>)"
  using assms gate_count_split [of xs th ys]
  by (simp add: session_inv_def thread_ok_same [of "w\<lparr>swThreads := xs @ ys\<rparr>" w] wire_ok_same [of "w\<lparr>swThreads := xs @ ys\<rparr>" w])

lemma session_inv_step: "session_step w v \<Longrightarrow> session_inv n w \<Longrightarrow> session_inv n v"
proof (induction rule: session_step.induct)
  case (call w c)
  then show ?case by (rule inv_add_thread) (rule script_fresh)
next
  case (event w e xs on)
  then show ?case using inv_add_thread [of n w xs True] script_fresh(2) by (simp add: inv_reader)
next
  case (quit w)
  then show ?case by (simp add: inv_reader)
next
  case (thread w xs th ys v w' th')
  from thread(2,3,1) show ?case
  proof (cases rule: s_advance_cases)
    case (skip x rest)
    then show ?thesis using session_inv_skip [OF thread(3,1)] by simp
  next
    case (op x rest)
    then show ?thesis using session_step_op [OF thread(3,1)] by blast
  qed
next
  case (ended w xs th ys)
  then show ?case by (simp add: session_inv_ended)
qed

lemma session_inv_new:
  assumes "newSession limit = Inr s"
  shows "session_inv (min limit MaxFrameBytes) (newSessionWorld s)"
  using assms by (auto simp: newSession_def session_inv_def newSessionWorld_def wire_ok_def gate_count_def split: if_splits)

lemma session_gen_step: "session_inv n w \<Longrightarrow> session_step w v \<Longrightarrow> seGeneration (swSession w) \<le> seGeneration (swSession v)"
proof (erule session_step.cases, goal_cases)
  case (4 u xs th ys e w' th')
  then have "session_inv n u" by simp
  from 4(5) this 4(4) show ?case using 4 by (cases rule: s_advance_cases) (auto simp: session_effect_def)
qed (simp_all add: add_thread_def)

interpretation session: fenced_machine "\<lambda>w. \<exists>s limit. newSession limit = Inr s \<and> w = newSessionWorld s"
  session_step "\<lambda>w. \<exists>n. session_inv n w" "\<lambda>w. seGeneration (swSession w)"
  by unfold_locales (auto intro: session_inv_new session_inv_step session_gen_step)

section \<open>At most one frame of an interrupted operation\<close>

definition stale_armed :: "nat \<Rightarrow> session_thread list \<Rightarrow> nat" where
  "stale_armed g ts = length (filter (\<lambda>t. armed_head t \<and> stGen t < g) ts)"

definition stale_frames :: "nat \<Rightarrow> sent_frame list \<Rightarrow> nat" where
  "stale_frames g es = length (filter (\<lambda>e. sfGen e < g) es)"

lemma stale_split:
  "stale_armed g (xs @ th # ys) = of_bool (armed_head th \<and> stGen th < g) + stale_armed g (xs @ ys)"
  by (simp add: stale_armed_def)

lemma stale_cons: "stale_armed g (th # ys) = of_bool (armed_head th \<and> stGen th < g) + stale_armed g ys"
  by (simp add: stale_armed_def)

lemma stale_armed_le: assumes "session_inv n w" shows "stale_armed g (swThreads w) \<le> 1"
proof -
  have "stale_armed g ts \<le> gate_count ts" if "\<forall>t \<in> set ts. thread_ok w t" for ts
    using that
  proof (induction ts)
    case (Cons t ts)
    then show ?case using armed_releases [of w t] by (auto simp: stale_armed_def gate_count_def)
  qed (simp add: stale_armed_def gate_count_def)
  moreover have "gate_count (swThreads w) \<le> 1" "\<forall>t \<in> set (swThreads w). thread_ok w t"
    using assms by (auto simp: session_inv_def)
  ultimately show ?thesis by fastforce
qed

lemma fresh_unarmed: "fresh_script xs \<Longrightarrow> \<not> armed_head (newSessionThread b xs)"
  by (cases xs) (auto simp: armed_head_def newSessionThread_def fresh_script_def)

lemma stale_step:
  assumes inv: "session_inv n w" and step: "session_step w v" and g: "g \<le> seGeneration (swSession w)"
  shows "stale_frames g (swWire v) + stale_armed g (swThreads v) \<le> stale_frames g (swWire w) + stale_armed g (swThreads w) \<and>
    (\<exists>es. swWire v = swWire w @ es)"
  using step
proof cases
  case (call c)
  then show ?thesis using fresh_unarmed [OF script_fresh(1)] by (simp add: add_thread_def stale_armed_def)
next
  case (event e xs on)
  then show ?thesis using fresh_unarmed [OF script_fresh(2)] by (simp add: add_thread_def stale_armed_def)
next
  case quit
  then show ?thesis by simp
next
  case (ended xs th ys)
  then show ?thesis by (simp add: stale_split)
next
  case (thread xs th ys e w' th')
  from thread(3) inv thread(2) show ?thesis
  proof (cases rule: s_advance_cases)
    case (skip x rest)
    have "thread_ok w th" using inv thread(2) by (simp add: session_inv_def)
    then have "\<not> armed_head th'" using skip unarmed_hd [of rest] by (auto simp: thread_ok_def armed_head_def)
    then show ?thesis using thread skip by (simp add: stale_split stale_cons)
  next
    case (op x rest)
    let ?th = "th\<lparr>stOps := rest\<rparr>"
    have ts: "swThreads w' = xs @ ys" and
      a: "armed_head th' \<Longrightarrow> swWire w' = swWire w \<and> (armed x \<and> stGen th' = stGen th \<or> stGen th' = seGeneration (swSession w'))" and
      gen: "seGeneration (swSession w) \<le> seGeneration (swSession w')" and
      wire: "swWire w' = swWire w \<or>
        (\<exists>bs q wait. x = XWrite bs q wait \<and> swWire w' = swWire w @ [\<lparr>sfBytes = bs, sfRequest = q, sfGen = stGen th\<rparr>])"
      using op(3) by (auto simp: session_effect_def)
    have armed: "armed x \<Longrightarrow> armed_head th" using op(1) by (simp add: armed_head_def)
    show ?thesis
    proof (cases "armed_head th'")
      case True
      then have "armed_head th' \<and> stGen th' < g \<longrightarrow> armed_head th \<and> stGen th < g" using a armed gen g by fastforce
      then show ?thesis using thread ts a [OF True] by (auto simp: stale_split stale_cons)
    next
      case False
      from wire show ?thesis
      proof (elim disjE exE conjE)
        assume "swWire w' = swWire w"
        then show ?thesis using False thread ts by (simp add: stale_split stale_cons)
      next
        fix bs q wait
        assume x: "x = XWrite bs q wait" "swWire w' = swWire w @ [\<lparr>sfBytes = bs, sfRequest = q, sfGen = stGen th\<rparr>]"
        then show ?thesis using False thread ts armed by (simp add: stale_split stale_cons stale_frames_def)
      qed
    qed
  qed
qed

lemma stale_steps:
  assumes "session_step\<^sup>*\<^sup>* w v" "session_inv n w" "g \<le> seGeneration (swSession w)"
  shows "stale_frames g (swWire v) + stale_armed g (swThreads v) \<le> stale_frames g (swWire w) + stale_armed g (swThreads w) \<and>
    (\<exists>es. swWire v = swWire w @ es) \<and> session_inv n v \<and> g \<le> seGeneration (swSession v)"
  using assms
proof (induction rule: rtranclp_induct)
  case base
  then show ?case by simp
next
  case (step u v)
  then have u: "session_inv n u" "g \<le> seGeneration (swSession u)" by simp_all
  have "seGeneration (swSession u) \<le> seGeneration (swSession v)" by (rule session_gen_step [OF u(1) step(2)])
  then show ?case using stale_step [OF u(1) step(2) u(2)] session_inv_step [OF step(2) u(1)] u(2) step by fastforce
qed

lemma sorted_stale_head:
  "sorted_wrt (\<lambda>a b. sfGen a \<le> sfGen b) es \<Longrightarrow> stale_frames g es \<le> 1 \<Longrightarrow> \<forall>e \<in> set (drop 1 es). g \<le> sfGen e"
proof (cases es)
  case (Cons a as)
  assume s: "sorted_wrt (\<lambda>a b. sfGen a \<le> sfGen b) es" "stale_frames g es \<le> 1"
  have "\<not> sfGen e < g" if e: "e \<in> set as" for e
  proof
    assume l: "sfGen e < g"
    then have "sfGen a < g" using s(1) e Cons by fastforce
    moreover have "filter (\<lambda>e. sfGen e < g) as \<noteq> []" using e l by (auto simp: filter_empty_conv)
    ultimately show False using s(2) Cons by (cases "filter (\<lambda>e. sfGen e < g) as") (auto simp: stale_frames_def)
  qed
  then show ?thesis using Cons by (auto simp: not_less)
qed simp

lemma frames_after:
  assumes inv: "session_inv n w" and steps: "session_step\<^sup>*\<^sup>* w v" and g: "g \<le> seGeneration (swSession w)"
  shows "\<exists>es. swWire v = swWire w @ es \<and> (\<forall>e \<in> set (drop 1 es). g \<le> sfGen e)"
proof -
  from stale_steps [OF steps inv g] obtain es where es: "swWire v = swWire w @ es"
    and le: "stale_frames g (swWire w @ es) + stale_armed g (swThreads v) \<le> stale_frames g (swWire w) + stale_armed g (swThreads w)"
    and v: "session_inv n v" by auto
  have "stale_frames g es \<le> 1" using le stale_armed_le [OF inv, of g] by (simp add: stale_frames_def)
  moreover have "sorted_wrt (\<lambda>a b. sfGen a \<le> sfGen b) es"
    using v es by (auto simp: session_inv_def wire_ok_def sorted_wrt_append elim: sorted_wrt_mono_rel [rotated])
  ultimately show ?thesis using es sorted_stale_head by blast
qed

section \<open>The chunks of an Add\<close>

text \<open>The loop of \<open>add\<close> when every call succeeds: the requests it sends, before they get their IDs.\<close>

lemma chunk_fit_ok:
  "chunk_fit limit r offset n = Inr k \<Longrightarrow> 1 \<le> k \<and> k \<le> n \<and>
     (\<exists>bs. handy_Encode (add_chunk r offset k) = Inr bs \<and> length bs \<le> limit)"
  by (induction limit r offset n rule: chunk_fit.induct) (fastforce split: sum.splits if_splits)+

function add_plan :: "nat \<Rightarrow> handy_request \<Rightarrow> nat \<Rightarrow> session_error + handy_request list" where
  "add_plan limit r offset =
     (if length (rqPoints r) \<le> offset then Inr []
      else case chunk_fit limit r offset (min maxChunkPoints (length (rqPoints r) - offset)) of
          Inl e \<Rightarrow> Inl e
        | Inr count \<Rightarrow>
            (case add_plan limit r (offset + count) of
               Inl e \<Rightarrow> Inl e
             | Inr cs \<Rightarrow> Inr (add_chunk r offset count # cs)))"
  by pat_completeness auto
termination
  by (relation "measure (\<lambda>(limit, r, offset). length (rqPoints r) - offset)") (auto dest!: chunk_fit_ok)

declare add_plan.simps [simp del]

text \<open>The operation \<open>XAdd\<close> sends the first chunk of the plan and goes on with the rest.\<close>

lemma x_Add_plan:
  "add_plan (seLimit (swSession w)) r offset = Inr (c # cs) \<Longrightarrow>
    \<exists>k. x_Add r offset th w = s_goes (rpc c False @ [XAdd r (offset + k)]) th w \<and>
      add_plan (seLimit (swSession w)) r (offset + k) = Inr cs"
  by (subst (asm) add_plan.simps) (auto simp: x_Add_def split: if_splits sum.splits)

lemma uvarint_length: "v < 128 * 128 ^ n \<Longrightarrow> length (appendUvarint v) \<le> Suc n"
proof (induction n arbitrary: v)
  case 0
  then show ?case by (simp add: appendUvarint.simps)
next
  case (Suc n)
  then have "v div 128 < 128 * 128 ^ n" by (simp add: less_mult_imp_div_less)
  from Suc.IH [OF this] show ?case by (subst appendUvarint.simps) simp
qed

lemma uvarint_lengths:
  "v < 128 \<Longrightarrow> length (appendUvarint v) \<le> 1" "v < 2 ^ 32 \<Longrightarrow> length (appendUvarint v) \<le> 5"
  "v < 16384 \<Longrightarrow> length (appendUvarint v) \<le> 2"
  using uvarint_length [of v 0] uvarint_length [of v 4] uvarint_length [of v 1] by simp_all

lemma field_lengths:
  "f < 16 \<Longrightarrow> v < 128 \<Longrightarrow> length (field_bytes (uint_field f v)) \<le> 2"
  "f < 16 \<Longrightarrow> v < 2 ^ 32 \<Longrightarrow> length (field_bytes (uint_field f v)) \<le> 6"
  "f < 15 \<Longrightarrow> length bs < 128 \<Longrightarrow> length (field_bytes (bytes_field f bs)) \<le> 2 + length bs"
  "f < 2000 \<Longrightarrow> length bs < 128 \<Longrightarrow> length (field_bytes (bytes_field f bs)) \<le> 3 + length bs"
  using uvarint_lengths(1) [of "f * 8"] uvarint_lengths [of v] uvarint_lengths(1) [of "f * 8 + 2"]
    uvarint_lengths(3) [of "f * 8 + 2"] uvarint_lengths(1) [of "length bs"]
  by (simp_all add: field_bytes_def value_bytes_def)

text \<open>The frame of one point is at most 31 bytes, whatever its ID: the smallest accepted link fits it.\<close>

lemma one_point_frame:
  assumes r: "rqMethod r = Add" "rqPoints r = [p]" "rqTail r < 2 ^ 32" "rqID r < 2 ^ 32"
    and p: "hpTime p < 2 ^ 32" "hpPosition p \<le> 100"
  shows "\<exists>bs. handy_Encode r = Inr bs \<and> length bs \<le> 31"
proof -
  have "length (field_bytes (uint_field 1 (hpTime p))) \<le> 6" "length (field_bytes (uint_field 2 (hpPosition p))) \<le> 2"
    using field_lengths p by simp_all
  then have b: "length (point_bytes p) \<le> 8" by (simp add: point_bytes_wire wire_def)
  have "length (field_bytes (bytes_field 1 (point_bytes p))) \<le> 10"
      "length (field_bytes (uint_field 2 (boolUint (rqFlush r)))) \<le> 2" "length (field_bytes (uint_field 3 (rqTail r))) \<le> 6"
    using field_lengths(3) [of 1 "point_bytes p"] field_lengths(1,2) b r by (simp_all add: boolUint_def)
  then have body: "length (wire (body_fields r)) \<le> 18"
    using r by (simp add: body_fields_def wire_def method_defs)
  have "length (field_bytes (bytes_field (rqMethod r) (wire (body_fields r)))) \<le> 21"
      "length (field_bytes (uint_field 2 (rqID r))) \<le> 6"
    using field_lengths(4) [of "rqMethod r" "wire (body_fields r)"] field_lengths(2) [of 2 "rqID r"] body r
    by (simp_all add: method_defs)
  then have q: "length (wire (request_fields r)) \<le> 27" by (simp add: wire_def)
  have "length (field_bytes (uint_field 1 1)) \<le> 2" "length (field_bytes (bytes_field 2 (wire (request_fields r)))) \<le> 29"
    using field_lengths(3) [of 2 "wire (request_fields r)"] field_lengths(1) q by simp_all
  then have "length (wire (envelope_fields r)) \<le> 31" by (simp add: wire_def)
  moreover have "body_valid r" using r p by (simp add: body_valid_def method_defs)
  ultimately show ?thesis using handy_Encode_eq by blast
qed

lemma uvarint_mono: "a \<le> b \<Longrightarrow> length (appendUvarint a) \<le> length (appendUvarint b)"
proof (induction b arbitrary: a rule: less_induct)
  case (less b)
  then show ?case
    using less.IH [of "b div 128" "a div 128"] by (subst (1 2) appendUvarint.simps) (auto simp: div_le_mono)
qed

text \<open>A smaller ID never makes a frame longer.\<close>

lemma shorter_id:
  assumes e: "handy_Encode r = Inr bs" and i: "i \<le> rqID r"
  shows "\<exists>cs. handy_Encode (r\<lparr>rqID := i\<rparr>) = Inr cs \<and> length cs \<le> length bs"
proof -
  let ?q = "r\<lparr>rqID := i\<rparr>"
  have v: "body_valid ?q = body_valid r" "body_fields ?q = body_fields r" by (simp_all add: body_valid_def body_fields_def)
  have "length (wire (request_fields ?q)) \<le> length (wire (request_fields r))"
    using uvarint_mono [OF i] by (simp add: v wire_def field_bytes_def value_bytes_def)
  then have "length (wire (envelope_fields ?q)) \<le> length (wire (envelope_fields r))"
    using uvarint_mono by (simp add: wire_def field_bytes_def value_bytes_def add_mono)
  then show ?thesis using e v by (simp add: handy_Encode_eq)
qed

lemma points_ok_None: "points_ok prev ps \<Longrightarrow> points_ok None ps"
  by (cases ps) simp_all

lemma points_ok_drop: "points_ok prev ps \<Longrightarrow> points_ok None (drop n ps)"
proof (induction n arbitrary: prev ps)
  case (Suc n)
  then show ?case by (cases ps) auto
qed (simp add: points_ok_None)

lemma points_ok_take: "points_ok prev ps \<Longrightarrow> points_ok prev (take n ps)"
proof (induction n arbitrary: prev ps)
  case (Suc n)
  then show ?case by (cases ps) auto
qed simp

lemma points_ok_position: "points_ok prev ps \<Longrightarrow> p \<in> set ps \<Longrightarrow> hpPosition p \<le> 100"
  by (induction prev ps rule: points_ok.induct) auto

text \<open>What makes an Add sendable.\<close>

definition add_ok :: "handy_request \<Rightarrow> bool" where
  "add_ok r \<longleftrightarrow> rqMethod r = Add \<and> request_ok r \<and> rqPoints r \<noteq> [] \<and> length (rqPoints r) \<le> rqTail r + 1 \<and>
     points_ok None (rqPoints r)"

lemma add_chunk_fields [simp]:
  "rqMethod (add_chunk r offset n) = rqMethod r" "rqID (add_chunk r offset n) = maxUint32"
  "rqPoints (add_chunk r offset n) = take n (drop offset (rqPoints r))"
  "rqFlush (add_chunk r offset n) \<longleftrightarrow> rqFlush r \<and> offset = 0"
  by (simp_all add: add_chunk_def Let_def)

lemma add_chunk_tail:
  assumes "add_ok r" "offset + n \<le> length (rqPoints r)" "1 \<le> n"
  shows "rqTail (add_chunk r offset n) + length (rqPoints r) = rqTail r + offset + n"
  using assms by (simp add: add_chunk_def add_ok_def Let_def)

lemma add_chunk_valid:
  assumes r: "add_ok r" and n: "offset + n \<le> length (rqPoints r)" "1 \<le> n"
  shows "body_valid (add_chunk r offset n)"
proof -
  have "length (take n (drop offset (rqPoints r))) = n" using n by simp
  moreover have "n \<le> rqTail (add_chunk r offset n) + 1" using add_chunk_tail [OF assms] r n by (simp add: add_ok_def)
  moreover have "points_ok None (take n (drop offset (rqPoints r)))"
    using r by (auto simp: add_ok_def intro!: points_ok_take points_ok_drop [of None])
  moreover have "take n (drop offset (rqPoints r)) \<noteq> []" using n by auto
  ultimately show ?thesis using r by (simp add: body_valid_def add_ok_def method_defs)
qed

lemma chunk_fit_total:
  assumes r: "add_ok r" and l: "31 \<le> limit"
  shows "1 \<le> n \<Longrightarrow> offset + n \<le> length (rqPoints r) \<Longrightarrow> \<exists>k. chunk_fit limit r offset n = Inr k"
proof (induction n)
  case (Suc n)
  let ?c = "add_chunk r offset (Suc n)"
  obtain bs where bs: "handy_Encode ?c = Inr bs" using add_chunk_valid [OF r, of offset "Suc n"] Suc handy_Encode_eq by auto
  show ?case
  proof (cases n)
    case 0
    then have p: "rqPoints ?c = [rqPoints r ! offset]" "rqPoints r ! offset \<in> set (rqPoints r)"
      using Suc.prems(2) by (simp_all add: Cons_nth_drop_Suc [symmetric])
    have "rqTail ?c < 2 ^ 32"
      using add_chunk_tail [OF r, of offset "Suc n"] Suc.prems r by (simp add: add_ok_def request_ok_def)
    then have "\<exists>bs. handy_Encode ?c = Inr bs \<and> length bs \<le> 31"
      using p r points_ok_position [of None "rqPoints r" "rqPoints r ! offset"]
      by (intro one_point_frame) (auto simp: add_ok_def request_ok_def maxUint32_def list_all_iff)
    then show ?thesis using 0 l bs by auto
  next
    case (Suc m)
    then show ?thesis using Suc.IH Suc.prems bs by auto
  qed
qed simp

definition chunk_sendable :: "nat \<Rightarrow> handy_request \<Rightarrow> bool" where
  "chunk_sendable limit c \<longleftrightarrow>
     1 \<le> length (rqPoints c) \<and> length (rqPoints c) \<le> maxChunkPoints \<and>
     (\<forall>i < 2 ^ 32. \<exists>bs. handy_Encode (c\<lparr>rqID := i\<rparr>) = Inr bs \<and> length bs \<le> limit)"

lemma add_chunk_sendable:
  assumes "handy_Encode (add_chunk r offset k) = Inr bs" "length bs \<le> limit"
    and "1 \<le> k" "k \<le> min maxChunkPoints (length (rqPoints r) - offset)"
  shows "chunk_sendable limit (add_chunk r offset k)"
proof -
  have "\<exists>cs. handy_Encode ((add_chunk r offset k)\<lparr>rqID := i\<rparr>) = Inr cs \<and> length cs \<le> limit" if "i < 2 ^ 32" for i
    using shorter_id [OF assms(1), of i] that assms(2) by (auto simp: maxUint32_def)
  then show ?thesis using assms(3,4) by (simp add: chunk_sendable_def)
qed

lemma add_plan_ok:
  assumes r: "add_ok r" and l: "31 \<le> limit"
  shows "offset \<le> length (rqPoints r) \<Longrightarrow> \<exists>cs. add_plan limit r offset = Inr cs \<and>
    concat (map rqPoints cs) = drop offset (rqPoints r) \<and> list_all (chunk_sendable limit) cs \<and>
    (\<forall>k < length cs. rqTail (cs ! k) + length (rqPoints r) =
        rqTail r + offset + length (concat (map rqPoints (take (Suc k) cs))) \<and>
      (rqFlush (cs ! k) \<longleftrightarrow> rqFlush r \<and> offset = 0 \<and> k = 0))"
proof (induction "length (rqPoints r) - offset" arbitrary: offset rule: less_induct)
  case less
  let ?n = "min maxChunkPoints (length (rqPoints r) - offset)"
  show ?case
  proof (cases "length (rqPoints r) \<le> offset")
    case True
    then show ?thesis by (subst add_plan.simps) simp
  next
    case False
    then have n: "1 \<le> ?n" "offset + ?n \<le> length (rqPoints r)" by (auto simp: maxChunkPoints_def)
    obtain k where k: "chunk_fit limit r offset ?n = Inr k" using chunk_fit_total [OF r l n] by blast
    note fit = chunk_fit_ok [OF k]
    let ?c = "add_chunk r offset k"
    have le: "offset + k \<le> length (rqPoints r)" "length (rqPoints r) - (offset + k) < length (rqPoints r) - offset"
      using fit n False by linarith+
    obtain cs where cs: "add_plan limit r (offset + k) = Inr cs"
        "concat (map rqPoints cs) = drop (offset + k) (rqPoints r)" "list_all (chunk_sendable limit) cs"
        "\<And>j. j < length cs \<Longrightarrow> rqTail (cs ! j) + length (rqPoints r) =
          rqTail r + (offset + k) + length (concat (map rqPoints (take (Suc j) cs))) \<and> \<not> rqFlush (cs ! j)"
      using less.hyps [OF le(2,1)] fit by fastforce
    have plan: "add_plan limit r offset = Inr (?c # cs)" using False k cs(1) by (subst add_plan.simps) simp
    have "chunk_sendable limit ?c" using fit add_chunk_sendable [of r offset k] by blast
    moreover have "concat (map rqPoints (?c # cs)) = drop offset (rqPoints r)"
      using cs(2) append_take_drop_id [of k "drop offset (rqPoints r)"] by (simp add: add.commute)
    moreover have "rqTail ((?c # cs) ! j) + length (rqPoints r) =
          rqTail r + offset + length (concat (map rqPoints (take (Suc j) (?c # cs)))) \<and>
        (rqFlush ((?c # cs) ! j) \<longleftrightarrow> rqFlush r \<and> offset = 0 \<and> j = 0)" if "j < length (?c # cs)" for j
    proof (cases j)
      case 0
      then show ?thesis using add_chunk_tail [OF r le(1)] fit le(1) by simp
    next
      case (Suc i)
      then show ?thesis using cs(4) [of i] that le(1) by simp
    qed
    ultimately show ?thesis using plan cs(3) by simp
  qed
qed

section \<open>Driving a session through a schedule\<close>

datatype session_move = SCall session_call | SEvent link_event | SRun nat session_env | SEnd nat

definition session_pick :: "nat \<Rightarrow> session_world \<Rightarrow> session_world" where
  "session_pick i w = w\<lparr>swThreads := take i (swThreads w) @ drop (Suc i) (swThreads w)\<rparr>"

definition session_move :: "session_move \<Rightarrow> session_world \<Rightarrow> session_world option" where
  "session_move m w =
     (case m of
        SCall c \<Rightarrow> Some (add_thread (newSessionThread False (session_script c)) w)
      | SEvent e \<Rightarrow>
          if swReader w \<and> list_all (\<lambda>t. \<not> stReader t) (swThreads w)
          then Some ((add_thread (newSessionThread True (fst (event_script e))) w)\<lparr>swReader := snd (event_script e)\<rparr>)
          else None
      | SRun i v \<Rightarrow>
          if i < length (swThreads w)
          then map_option (\<lambda>(w', th). w'\<lparr>swThreads := th # swThreads w'\<rparr>) (s_advance v (swThreads w ! i) (session_pick i w))
          else None
      | SEnd i \<Rightarrow>
          if i < length (swThreads w) \<and> stOps (swThreads w ! i) = [] then Some (session_pick i w) else None)"

fun session_drive :: "session_move list \<Rightarrow> session_world \<Rightarrow> session_world option" where
  "session_drive [] w = Some w"
| "session_drive (m # ms) w = Option.bind (session_move m w) (session_drive ms)"

lemma session_move_step: "session_move m w = Some w' \<Longrightarrow> session_step w w'"
  by (auto simp: session_move_def session_pick_def id_take_nth_drop [symmetric] split: session_move.splits if_splits
      intro: session_step.intros session_step.thread [OF id_take_nth_drop] session_step.ended [OF id_take_nth_drop])

lemma session_drive_steps: "session_drive ms w = Some w' \<Longrightarrow> session_step\<^sup>*\<^sup>* w w'"
  by (induction ms w rule: session_drive.induct)
     (auto simp: Option.bind_eq_Some_conv intro: converse_rtranclp_into_rtranclp session_move_step)

text \<open>Every write and call succeeds; the gate is taken when it is asked for.\<close>

definition calmSession :: session_env where
  "calmSession = \<lparr>xvCtx = False, xvChoice = ChooseGate, xvWrite = None, xvReached = True, xvWill = None, xvMillis = 0,
     xvRTT = 0\<rparr>"

definition startSession :: session where
  "startSession = projr (newSession 48)"

definition sessionAfter :: "session_move list \<Rightarrow> session_world" where
  "sessionAfter ms = the (session_drive ms (newSessionWorld startSession))"

lemma startSession_new: "newSession 48 = Inr startSession"
  by (simp add: startSession_def newSession_def)

lemma sessionAfter_steps:
  "session_drive ms (newSessionWorld startSession) \<noteq> None \<Longrightarrow> session_step\<^sup>*\<^sup>* (newSessionWorld startSession) (sessionAfter ms)"
  using session_drive_steps by (auto simp: sessionAfter_def)

text \<open>
  An Add runs up to its first chunk's write, which has passed its check, when an Interrupt comes; then
  the write goes out, the Add ends, and a Stop of the new generation is sent.
\<close>

definition addMoves :: "session_move list" where
  "addMoves = SCall (CallExecute addRequest) # replicate 17 (SRun 0 calmSession) @ [SCall CallInterrupt]"

definition stopMoves :: "session_move list" where
  "stopMoves = SRun 1 calmSession # replicate 5 (SRun 0 calmSession) @ [SEnd 0] @
     SCall (CallExecute (blankRequest Stop 0)) # SRun 1 calmSession # replicate 8 (SRun 0 calmSession)"

definition interruptedWorld :: session_world where
  "interruptedWorld =
     (let w = sessionAfter addMoves in
      (setS (session_Interrupt (swSession w)) w)\<lparr>swThreads := (swThreads w ! 1)\<lparr>stOps := []\<rparr> # [swThreads w ! 0]\<rparr>)"

section \<open>Properties\<close>

text \<open>
  Property C29.  \<open>Interrupt\<close> fences.  Whatever goroutines are under way, after the section of an
  \<open>Interrupt\<close> at most one more frame of an operation admitted before it reaches the link, a native
  write that had passed its check; it comes before every frame of a later operation, and nothing older
  follows.
\<close>

theorem handy_interrupt_fences:
  assumes "newSession limit = Inr s" and "session_step\<^sup>*\<^sup>* (newSessionWorld s) w"
    and "swThreads w = xs @ th # ys" and "stOps th = XInterrupt # rest" and "stErr th = None"
    and "session_step\<^sup>*\<^sup>* ((setS (session_Interrupt (swSession w)) w)\<lparr>swThreads := th\<lparr>stOps := rest\<rparr> # xs @ ys\<rparr>) v"
  shows "\<exists>es. swWire v = swWire w @ es \<and> (\<forall>e \<in> set (drop 1 es). seGeneration (swSession w) < sfGen e)"
proof -
  let ?u = "(setS (session_Interrupt (swSession w)) w)\<lparr>swThreads := th\<lparr>stOps := rest\<rparr> # xs @ ys\<rparr>"
  obtain n where inv: "session_inv n w" using session.inv_steps [OF assms(2)] session_inv_new [OF assms(1)] by blast
  have "s_advance calmSession th (w\<lparr>swThreads := xs @ ys\<rparr>) =
      Some (setS (session_Interrupt (swSession w)) (w\<lparr>swThreads := xs @ ys\<rparr>), th\<lparr>stOps := rest\<rparr>)"
    by (simp add: s_advance_def assms(4,5) s_goes_def setS_def)
  from session_step.thread [OF assms(3) this] have "session_step w ?u" by (simp add: setS_def)
  then have "session_inv n ?u" by (rule session_inv_step) (rule inv)
  from frames_after [OF this assms(6), of "Suc (seGeneration (swSession w))"] show ?thesis
    by (simp add: setS_def Suc_le_eq)
qed

definition leadsTo :: "session_move list \<Rightarrow> session_world \<Rightarrow> (session_world \<Rightarrow> bool) \<Rightarrow> bool" where
  "leadsTo ms w P = (case session_drive ms w of None \<Rightarrow> False | Some v \<Rightarrow> P v)"

lemma leadsTo_steps: "leadsTo ms w P \<Longrightarrow> \<exists>v. session_step\<^sup>*\<^sup>* w v \<and> P v"
  by (auto simp: leadsTo_def intro: session_drive_steps split: option.splits)

lemma handy_interrupt_fences_witness:
  "\<exists>(v :: session_world) es. swWire v = swWire (sessionAfter addMoves) @ es \<and> map sfGen (swWire v) = [0, 0, 1] \<and>
     (\<forall>e \<in> set (drop 1 es). seGeneration (swSession (sessionAfter addMoves)) < sfGen e)"
proof -
  let ?w = "sessionAfter addMoves"
  have run: "leadsTo addMoves (newSessionWorld startSession) (\<lambda>w. length (swThreads w) = 2 \<and>
      stOps (swThreads w ! 1) = [XInterrupt] \<and> stErr (swThreads w ! 1) = None)"
    by code_simp
  then have w: "session_step\<^sup>*\<^sup>* (newSessionWorld startSession) ?w" "length (swThreads ?w) = 2"
      "stOps (swThreads ?w ! 1) = [XInterrupt]" "stErr (swThreads ?w ! 1) = None"
    by (auto simp: leadsTo_def sessionAfter_def intro: session_drive_steps split: option.splits)
  have ts: "swThreads ?w = [swThreads ?w ! 0] @ swThreads ?w ! 1 # []"
    using w(2) by (cases "swThreads ?w") (auto simp: length_Suc_conv)
  have "leadsTo stopMoves interruptedWorld (\<lambda>v. map sfGen (swWire v) = [0, 0, 1])"
    by code_simp
  from leadsTo_steps [OF this] obtain v
    where v: "session_step\<^sup>*\<^sup>* interruptedWorld v" "map sfGen (swWire v) = [0, 0, 1]" by auto
  then have steps: "session_step\<^sup>*\<^sup>* ((setS (session_Interrupt (swSession ?w)) ?w)\<lparr>swThreads :=
      (swThreads ?w ! 1)\<lparr>stOps := []\<rparr> # [swThreads ?w ! 0] @ []\<rparr>) v"
    by (simp add: interruptedWorld_def Let_def)
  from handy_interrupt_fences [OF startSession_new w(1) ts w(3,4) steps] obtain es
    where "swWire v = swWire ?w @ es" "\<forall>e \<in> set (drop 1 es). seGeneration (swSession ?w) < sfGen e" by (elim exE conjE)
  then show ?thesis using v(2) by (intro exI [of _ v] exI [of _ es] conjI)
qed

text \<open>
  Property C38.  Frames are numbered and fit.  In every reachable world the frames on the wire carry
  strictly increasing request IDs below \<open>2^32 - 1\<close> and generations that never go back, each is the
  encoding of its request, and none is longer than the link accepts.
\<close>

theorem handy_ids_increase:
  assumes "newSession limit = Inr s" and "session_step\<^sup>*\<^sup>* (newSessionWorld s) w"
  shows "sorted_wrt (\<lambda>a b. rqID (sfRequest a) < rqID (sfRequest b) \<and> sfGen a \<le> sfGen b) (swWire w) \<and>
    list_all (\<lambda>e. rqID (sfRequest e) \<le> 2 ^ 32 - 2 \<and> handy_Encode (sfRequest e) = Inr (sfBytes e) \<and>
      length (sfBytes e) \<le> limit \<and> length (sfBytes e) \<le> MaxFrameBytes) (swWire w)"
proof -
  have "session_inv (min limit MaxFrameBytes) w"
    using assms(2) session_inv_new [OF assms(1)] by (induction rule: rtranclp_induct) (auto intro: session_inv_step)
  then show ?thesis
    by (fastforce simp: session_inv_def wire_ok_def maxUint32_def list_all_iff elim: sorted_wrt_mono_rel [rotated])
qed

lemma handy_ids_increase_witness:
  "\<exists>w :: session_world. map (rqID \<circ> sfRequest) (swWire w) = [1] \<and> list_all (\<lambda>e. length (sfBytes e) \<le> 48) (swWire w)"
proof -
  have "leadsTo addMoves (newSessionWorld startSession) (\<lambda>w. map (rqID \<circ> sfRequest) (swWire w) = [1])"
    by code_simp
  from leadsTo_steps [OF this] obtain w
    where w: "session_step\<^sup>*\<^sup>* (newSessionWorld startSession) w" "map (rqID \<circ> sfRequest) (swWire w) = [1]" by auto
  have "list_all (\<lambda>e. length (sfBytes e) \<le> 48) (swWire w)"
    using handy_ids_increase [OF startSession_new w(1)] by (simp add: list_all_iff)
  then show ?thesis using w(2) by (intro exI [of _ w] conjI)
qed

text \<open>
  Property C30.  A long Add arrives whole.  The chunking loop always ends with a plan: on every link a
  session accepts, no valid point is too big; the chunks' points put together are the request's, each
  chunk has 1 to 20 of them and fits the link with any ID it may get, its tail is the stream index of its
  last point, and only the first chunk flushes.
\<close>

theorem handy_add_reassembles:
  assumes "add_ok r" and "48 \<le> limit"
  shows "\<exists>cs. add_plan limit r 0 = Inr cs \<and> concat (map rqPoints cs) = rqPoints r \<and> list_all (chunk_sendable limit) cs \<and>
    (\<forall>k < length cs. rqTail (cs ! k) + length (rqPoints r) = rqTail r + length (concat (map rqPoints (take (Suc k) cs))) \<and>
      (rqFlush (cs ! k) \<longleftrightarrow> rqFlush r \<and> k = 0))"
  using add_plan_ok [OF assms(1), of limit 0] assms(2) by simp

definition longAdd :: handy_request where
  "longAdd = (blankRequest Add 1)\<lparr>rqPoints := map (\<lambda>i. \<lparr>hpTime = 100 * i, hpPosition = 50\<rparr>) [0..<7], rqTail := 6, rqFlush := True\<rparr>"

lemma handy_add_reassembles_witness:
  "\<exists>cs. add_plan 48 longAdd 0 = Inr cs \<and> map (length \<circ> rqPoints) cs = [4, 3] \<and> concat (map rqPoints cs) = rqPoints longAdd"
proof -
  have ok: "add_ok longAdd" by code_simp
  have "case add_plan 48 longAdd 0 of Inl e \<Rightarrow> False | Inr cs \<Rightarrow> map (length \<circ> rqPoints) cs = [4, 3]" by code_simp
  then show ?thesis using handy_add_reassembles [OF ok, of 48] by (auto split: sum.splits)
qed

end
