(* ===== verification/GoText.thy ===== *)
theory GoText
  imports Prelude
begin

text \<open>
  Go's strings where the code looks at characters: \<open>unicode/utf8\<close> and the parts of \<open>strings\<close> that go
  rune by rune.  A string is the list of its bytes, a rune a number.  An invalid byte reads as
  \<open>RuneError\<close> and takes one byte, as \<open>utf8.DecodeRune\<close> has it.
\<close>

section \<open>Runes\<close>

type_synonym rune = nat

definition RuneError :: rune where "RuneError = 0xFFFD"

abbreviation byte_of :: "char \<Rightarrow> nat" where
  "byte_of c \<equiv> of_char c"

definition cont_byte :: "char \<Rightarrow> bool" where
  "cont_byte c \<longleftrightarrow> 0x80 \<le> byte_of c \<and> byte_of c \<le> 0xBF"

text \<open>The range of a second byte after a first byte, and the number of bytes the first byte announces.\<close>

definition second_ok :: "nat \<Rightarrow> char \<Rightarrow> bool" where
  "second_ok b c \<longleftrightarrow>
     (if b = 0xE0 then 0xA0 else if b = 0xF0 then 0x90 else 0x80) \<le> byte_of c \<and>
     byte_of c \<le> (if b = 0xED then 0x9F else if b = 0xF4 then 0x8F else 0xBF)"

definition rune_size :: "nat \<Rightarrow> nat" where
  "rune_size b =
     (if b < 0x80 then 1 else if b < 0xC2 then 0 else if b < 0xE0 then 2 else if b < 0xF0 then 3
      else if b < 0xF5 then 4 else 0)"

fun decode_tail :: "nat \<Rightarrow> char list \<Rightarrow> rune" where
  "decode_tail r [] = r"
| "decode_tail r (c # cs) = decode_tail (r * 64 + (byte_of c - 0x80)) cs"

definition lead_bits :: "nat \<Rightarrow> nat" where
  "lead_bits b = (if b < 0xE0 then b - 0xC0 else if b < 0xF0 then b - 0xE0 else b - 0xF0)"

definition DecodeRune :: "char \<Rightarrow> string \<Rightarrow> rune \<times> nat" where
  "DecodeRune c cs =
     (let b = byte_of c; n = rune_size b; tail = take (n - 1) cs in
      if n = 1 then (b, 1)
      else if n = 0 \<or> length tail < n - 1 \<or> \<not> second_ok b (hd tail) \<or> \<not> list_all cont_byte (drop 1 tail)
      then (RuneError, 1)
      else (decode_tail (lead_bits b) tail, n))"

lemma DecodeRune_size: "1 \<le> snd (DecodeRune c cs)"
  by (simp add: DecodeRune_def Let_def)

text \<open>\<open>AppendRune\<close> on the runes that decoding returns.\<close>

definition encodeRune :: "rune \<Rightarrow> string" where
  "encodeRune r =
     map char_of
       (if r < 0x80 then [r]
        else if r < 0x800 then [0xC0 + r div 64, 0x80 + r mod 64]
        else if r < 0x10000 then [0xE0 + r div 4096, 0x80 + r div 64 mod 64, 0x80 + r mod 64]
        else [0xF0 + r div 262144, 0x80 + r div 4096 mod 64, 0x80 + r div 64 mod 64, 0x80 + r mod 64])"

definition rune_ok :: "rune \<Rightarrow> bool" where
  "rune_ok r \<longleftrightarrow> r < 0xD800 \<or> 0xE000 \<le> r \<and> r < 0x110000"

section \<open>Strings rune by rune\<close>

text \<open>The \<open>range\<close> loop over a string: each rune with its bytes.\<close>

function rune_chunks :: "string \<Rightarrow> (rune \<times> string) list" where
  "rune_chunks [] = []"
| "rune_chunks (c # cs) =
     (case DecodeRune c cs of (r, n) \<Rightarrow> (r, c # take (n - 1) cs) # rune_chunks (drop (n - 1) cs))"
  by pat_completeness auto
termination by (relation "measure length") auto

definition runes :: "string \<Rightarrow> rune list" where
  "runes s = map fst (rune_chunks s)"

definition RuneCount :: "string \<Rightarrow> nat" where
  "RuneCount s = length (rune_chunks s)"

definition ValidString :: "string \<Rightarrow> bool" where
  "ValidString s \<longleftrightarrow> list_all (\<lambda>(r, bs). r \<noteq> RuneError \<or> length bs \<noteq> 1) (rune_chunks s)"

definition IsSpace :: "rune \<Rightarrow> bool" where
  "IsSpace r \<longleftrightarrow>
     r \<in> set [0x09, 0x0A, 0x0B, 0x0C, 0x0D, 0x20, 0x85, 0xA0, 0x1680, 0x2028, 0x2029, 0x202F, 0x205F, 0x3000] \<or>
     0x2000 \<le> r \<and> r \<le> 0x200A"

text \<open>\<open>strings.TrimSpace\<close>: runes of white space at both ends.\<close>

definition TrimSpace :: "string \<Rightarrow> string" where
  "TrimSpace s =
     (let space = (\<lambda>(r, bs). IsSpace r) in
      concat (map snd (rev (dropWhile space (rev (dropWhile space (rune_chunks s)))))))"

text \<open>\<open>string([]rune(s)[:n])\<close> when the string is longer than \<open>n\<close> runes.\<close>

definition clip :: "string \<Rightarrow> nat \<Rightarrow> string" where
  "clip s n = (if RuneCount s \<le> n then s else concat (map encodeRune (take n (runes s))))"

section \<open>Encoding and decoding\<close>

lemma byte_of_char: "n < 256 \<Longrightarrow> byte_of (char_of n) = n"
  by simp

lemma DecodeRune_bytes:
  "byte_of c < 0x80 \<Longrightarrow> DecodeRune c cs = (byte_of c, 1)"
  by (simp add: DecodeRune_def rune_size_def Let_def)

lemma decode_two:
  assumes "0xC2 \<le> a" "a < 0xE0" "0x80 \<le> b" "b < 0xC0"
  shows "DecodeRune (char_of a) (char_of b # cs) = ((a - 0xC0) * 64 + (b - 0x80), 2)"
  using assms by (simp add: DecodeRune_def rune_size_def second_ok_def lead_bits_def byte_of_char Let_def)

lemma decode_three:
  assumes "0xE0 \<le> a" "a < 0xF0" "0x80 \<le> b" "b < 0xC0" "0x80 \<le> c" "c < 0xC0"
    and "a = 0xE0 \<longrightarrow> 0xA0 \<le> b" "a = 0xED \<longrightarrow> b \<le> 0x9F"
  shows "DecodeRune (char_of a) (char_of b # char_of c # cs) = (((a - 0xE0) * 64 + (b - 0x80)) * 64 + (c - 0x80), 3)"
  using assms
  by (simp add: DecodeRune_def rune_size_def second_ok_def lead_bits_def byte_of_char cont_byte_def Let_def)

lemma decode_four:
  assumes "0xF0 \<le> a" "a < 0xF5" "0x80 \<le> b" "b < 0xC0" "0x80 \<le> c" "c < 0xC0" "0x80 \<le> d" "d < 0xC0"
    and "a = 0xF0 \<longrightarrow> 0x90 \<le> b" "a = 0xF4 \<longrightarrow> b \<le> 0x8F"
  shows "DecodeRune (char_of a) (char_of b # char_of c # char_of d # cs) =
    ((((a - 0xF0) * 64 + (b - 0x80)) * 64 + (c - 0x80)) * 64 + (d - 0x80), 4)"
  using assms
  by (simp add: DecodeRune_def rune_size_def second_ok_def lead_bits_def byte_of_char cont_byte_def Let_def)

lemma rune_digit3:
  assumes "rune_ok r" "0x800 \<le> r" "r < 0x10000"
  shows "r div 4096 = 0 \<longrightarrow> 32 \<le> r div 64 mod 64" "r div 4096 = 13 \<longrightarrow> r div 64 mod 64 \<le> 31" "r div 4096 < 16"
proof -
  define q where "q = r div 64"
  have d: "r div 4096 = q div 64" by (simp add: q_def div_mult2_eq [symmetric])
  have q: "32 \<le> q" "q < 1024" using assms by (simp_all add: q_def)
  have m: "q < 864 \<or> 896 \<le> q" using assms(1) unfolding q_def rune_ok_def by auto
  show "r div 4096 = 0 \<longrightarrow> 32 \<le> r div 64 mod 64" using q unfolding d q_def [symmetric] by simp
  show "r div 4096 < 16" using q unfolding d by simp
  show "r div 4096 = 13 \<longrightarrow> r div 64 mod 64 \<le> 31"
    using m div_mult_mod_eq [of q 64] unfolding d q_def [symmetric] by linarith
qed

lemma rune_digit4:
  assumes "rune_ok r" "0x10000 \<le> r"
  shows "r div 262144 = 0 \<longrightarrow> 16 \<le> r div 4096 mod 64" "r div 262144 = 4 \<longrightarrow> r div 4096 mod 64 \<le> 15" "r div 262144 < 5"
proof -
  define q where "q = r div 4096"
  have d: "r div 262144 = q div 64" by (simp add: q_def div_mult2_eq [symmetric])
  have q: "16 \<le> q" "q < 272" using assms by (simp_all add: q_def rune_ok_def)
  show "r div 262144 = 0 \<longrightarrow> 16 \<le> r div 4096 mod 64" using q unfolding d q_def [symmetric] by simp
  show "r div 262144 < 5" using q unfolding d by simp
  show "r div 262144 = 4 \<longrightarrow> r div 4096 mod 64 \<le> 15"
    using q div_mult_mod_eq [of q 64] unfolding d q_def [symmetric] by linarith
qed

lemma encodeRune_cases:
  assumes "rune_ok r"
  obtains (one) c where "encodeRune r = [c]" "\<And>cs. DecodeRune c cs = (r, 1)"
  | (more) c d t where "encodeRune r = c # d # t" "\<And>cs. DecodeRune c (d # t @ cs) = (r, Suc (Suc (length t)))"
proof (cases "r < 0x80")
  case True
  then show ?thesis using one [of "char_of r"] by (simp add: encodeRune_def DecodeRune_bytes byte_of_char)
next
  case a: False
  show ?thesis
  proof (cases "r < 0x800")
    case True
    then have "2 \<le> r div 64" "r div 64 < 32" using a by simp_all
    then have "DecodeRune (char_of (0xC0 + r div 64)) (char_of (0x80 + r mod 64) # cs) = (r, 2)" for cs
      using decode_two [of "0xC0 + r div 64" "0x80 + r mod 64" cs] by simp
    then show ?thesis using more [of "char_of (0xC0 + r div 64)" "char_of (0x80 + r mod 64)" "[]"] a True
      by (simp add: encodeRune_def)
  next
    case b: False
    have sum3: "(r div 4096 * 64 + r div 64 mod 64) * 64 + r mod 64 = r"
      using div_mult_mod_eq [of "r div 64" 64] div_mult_mod_eq [of r 64] by (simp add: div_mult2_eq [symmetric])
    show ?thesis
    proof (cases "r < 0x10000")
      case True
      have q: "r div 4096 = 0 \<longrightarrow> 32 \<le> r div 64 mod 64" "r div 4096 = 13 \<longrightarrow> r div 64 mod 64 \<le> 31" "r div 4096 < 16"
        using rune_digit3 [OF assms] b True by simp_all
      have "DecodeRune (char_of (0xE0 + r div 4096)) (char_of (0x80 + r div 64 mod 64) # char_of (0x80 + r mod 64) # cs) = (r, 3)"
        for cs
        using decode_three [of "0xE0 + r div 4096" "0x80 + r div 64 mod 64" "0x80 + r mod 64" cs] q sum3 by simp
      then show ?thesis using more [of "char_of (0xE0 + r div 4096)" "char_of (0x80 + r div 64 mod 64)" "[char_of (0x80 + r mod 64)]"] a b True
        by (simp add: encodeRune_def)
    next
      case c: False
      have q: "r div 262144 = 0 \<longrightarrow> 16 \<le> r div 4096 mod 64" "r div 262144 = 4 \<longrightarrow> r div 4096 mod 64 \<le> 15" "r div 262144 < 5"
        using rune_digit4 [OF assms] c by simp_all
      have sum4: "((r div 262144 * 64 + r div 4096 mod 64) * 64 + r div 64 mod 64) * 64 + r mod 64 = r"
        using div_mult_mod_eq [of "r div 4096" 64] sum3 by (simp add: div_mult2_eq [symmetric])
      have "DecodeRune (char_of (0xF0 + r div 262144)) (char_of (0x80 + r div 4096 mod 64) # char_of (0x80 + r div 64 mod 64) #
          char_of (0x80 + r mod 64) # cs) = (r, 4)" for cs
        using decode_four [of "0xF0 + r div 262144" "0x80 + r div 4096 mod 64" "0x80 + r div 64 mod 64" "0x80 + r mod 64" cs] q sum4
        by simp
      then show ?thesis using more [of "char_of (0xF0 + r div 262144)" "char_of (0x80 + r div 4096 mod 64)"
          "[char_of (0x80 + r div 64 mod 64), char_of (0x80 + r mod 64)]"] a b c
        by (simp add: encodeRune_def)
    qed
  qed
qed

lemma rune_chunks_encode: "rune_ok r \<Longrightarrow> rune_chunks (encodeRune r @ cs) = (r, encodeRune r) # rune_chunks cs"
  by (erule encodeRune_cases) simp_all

lemma rune_chunks_encodes:
  "list_all rune_ok rs \<Longrightarrow> rune_chunks (concat (map encodeRune rs) @ cs) = map (\<lambda>r. (r, encodeRune r)) rs @ rune_chunks cs"
  by (induction rs) (simp_all add: rune_chunks_encode)

lemma second_bounds: "second_ok b d \<Longrightarrow> 0x80 \<le> byte_of d \<and> byte_of d \<le> 0xBF"
  by (auto simp: second_ok_def split: if_splits)

text \<open>Decoding returns a scalar value, and what it does not report as an error re-encodes to its bytes.\<close>

lemma DecodeRune_cases:
  obtains (error) "DecodeRune c cs = (RuneError, 1)"
  | (one) "byte_of c < 0x80" "DecodeRune c cs = (byte_of c, 1)"
  | (two) d t where "cs = d # t" "0xC2 \<le> byte_of c" "byte_of c < 0xE0" "second_ok (byte_of c) d"
      "DecodeRune c cs = ((byte_of c - 0xC0) * 64 + (byte_of d - 0x80), 2)"
  | (three) d e t where "cs = d # e # t" "0xE0 \<le> byte_of c" "byte_of c < 0xF0" "second_ok (byte_of c) d" "cont_byte e"
      "DecodeRune c cs = (((byte_of c - 0xE0) * 64 + (byte_of d - 0x80)) * 64 + (byte_of e - 0x80), 3)"
  | (four) d e f t where "cs = d # e # f # t" "0xF0 \<le> byte_of c" "byte_of c < 0xF5" "second_ok (byte_of c) d"
      "cont_byte e" "cont_byte f"
      "DecodeRune c cs = ((((byte_of c - 0xF0) * 64 + (byte_of d - 0x80)) * 64 + (byte_of e - 0x80)) * 64 + (byte_of f - 0x80), 4)"
proof -
  let ?b = "byte_of c"
  consider "?b < 0x80" | "0x80 \<le> ?b" "?b < 0xC2 \<or> 0xF5 \<le> ?b" | "0xC2 \<le> ?b" "?b < 0xE0" | "0xE0 \<le> ?b" "?b < 0xF0"
    | "0xF0 \<le> ?b" "?b < 0xF5"
    by linarith
  then show ?thesis
  proof cases
    case 1
    then show ?thesis using one by (simp add: DecodeRune_bytes)
  next
    case 2
    then show ?thesis using error by (auto simp: DecodeRune_def rune_size_def Let_def)
  next
    case 3
    then have n: "rune_size ?b = 2" "lead_bits ?b = ?b - 0xC0" by (simp_all add: rune_size_def lead_bits_def)
    show ?thesis
    proof (cases cs)
      case Nil
      then show ?thesis using error n by (simp add: DecodeRune_def Let_def)
    next
      case (Cons d t)
      then show ?thesis using error two [of d t] n 3
        by (cases "second_ok ?b d") (auto simp: DecodeRune_def Let_def)
    qed
  next
    case 4
    then have n: "rune_size ?b = 3" "lead_bits ?b = ?b - 0xE0" by (simp_all add: rune_size_def lead_bits_def)
    show ?thesis
    proof (cases "take 2 cs")
      case Nil
      then show ?thesis using error n by (simp add: DecodeRune_def Let_def)
    next
      case (Cons d xs)
      show ?thesis
      proof (cases xs)
        case Nil
        then show ?thesis using error n Cons by (simp add: DecodeRune_def Let_def)
      next
        case (Cons e ys)
        then have "ys = []" "cs = d # e # drop 2 cs" using \<open>take 2 cs = d # xs\<close>
          by (cases cs; cases "tl cs"; simp)+
        then show ?thesis
          using error three [of d e "drop 2 cs"] n 4 \<open>take 2 cs = d # xs\<close> Cons
          by (cases "second_ok ?b d \<and> cont_byte e") (auto simp: DecodeRune_def Let_def)
      qed
    qed
  next
    case 5
    then have n: "rune_size ?b = 4" "lead_bits ?b = ?b - 0xF0" by (simp_all add: rune_size_def lead_bits_def)
    show ?thesis
    proof (cases "length (take 3 cs) < 3")
      case True
      then have "length cs < 3" by simp
      then show ?thesis using error n by (simp add: DecodeRune_def Let_def)
    next
      case False
      then have "3 \<le> length cs" by simp
      then obtain d e f t where t: "cs = d # e # f # t"
        by (auto simp: numeral_3_eq_3 Suc_le_length_iff)
      then show ?thesis using error four [of d e f t] n 5
        by (cases "second_ok ?b d \<and> cont_byte e \<and> cont_byte f") (auto simp: DecodeRune_def Let_def)
    qed
  qed
qed

lemma three_ok:
  assumes "x < 16" "y < 64" "z < (64 :: nat)" "x = 13 \<longrightarrow> y \<le> 31"
  shows "rune_ok ((x * 64 + y) * 64 + z)"
proof -
  have "x * 64 + y \<le> 863 \<or> 896 \<le> x * 64 + y" "x * 64 + y < 1024"
    using assms(1,2,4) by (cases "x = 13"; cases "x < 13"; simp)+
  moreover have "rune_ok (a * 64 + z)" if "a \<le> 863 \<or> 896 \<le> a" "a < 1024" for a
    using that assms(3) by (auto simp: rune_ok_def)
  ultimately show ?thesis by blast
qed

lemma four_ok:
  assumes "x < 5" "y < 64" "z < 64" "u < (64 :: nat)" "x = 0 \<longrightarrow> 16 \<le> y" "x = 4 \<longrightarrow> y \<le> 15"
  shows "rune_ok (((x * 64 + y) * 64 + z) * 64 + u)"
proof -
  consider "x = 0" | "1 \<le> x" "x \<le> 3" | "x = 4" using assms(1) by linarith
  then have "0x10000 \<le> ((x * 64 + y) * 64 + z) * 64 + u \<and> ((x * 64 + y) * 64 + z) * 64 + u < 0x110000"
    by cases (use assms in simp_all)
  then show ?thesis by (simp add: rune_ok_def)
qed

lemma DecodeRune_ok: "rune_ok (fst (DecodeRune c cs))"
proof (cases rule: DecodeRune_cases [of c cs])
  case error
  then show ?thesis by (simp add: rune_ok_def RuneError_def)
next
  case one
  then show ?thesis by (simp add: rune_ok_def)
next
  case two
  then show ?thesis using second_bounds [OF two(4)] by (auto simp: rune_ok_def)
next
  case (three d e t)
  have "byte_of c = 0xED \<longrightarrow> byte_of d \<le> 0x9F" using three(4) by (auto simp: second_ok_def split: if_splits)
  then have "byte_of c - 0xE0 < 16" "byte_of d - 0x80 < 64" "byte_of e - 0x80 < 64"
      "byte_of c - 0xE0 = 13 \<longrightarrow> byte_of d - 0x80 \<le> 31"
    using three second_bounds [OF three(4)] by (auto simp: cont_byte_def)
  from three_ok [OF this] show ?thesis unfolding three(6) fst_conv .
next
  case (four d e f t)
  have "byte_of c = 0xF0 \<longrightarrow> 0x90 \<le> byte_of d" "byte_of c = 0xF4 \<longrightarrow> byte_of d \<le> 0x8F"
    using four(4) by (auto simp: second_ok_def split: if_splits)
  then have "byte_of c - 0xF0 < 5" "byte_of d - 0x80 < 64" "byte_of e - 0x80 < 64" "byte_of f - 0x80 < 64"
      "byte_of c - 0xF0 = 0 \<longrightarrow> 16 \<le> byte_of d - 0x80" "byte_of c - 0xF0 = 4 \<longrightarrow> byte_of d - 0x80 \<le> 15"
    using four second_bounds [OF four(4)] by (auto simp: cont_byte_def)
  from four_ok [OF this] show ?thesis unfolding four(7) fst_conv .
qed

lemma runes_ok: "list_all rune_ok (runes s)"
proof -
  have "list_all (\<lambda>(r, bs). rune_ok r) (rune_chunks s)"
  proof (induction s rule: rune_chunks.induct)
    case (2 c cs)
    then show ?case using DecodeRune_ok [of c cs] by (cases "DecodeRune c cs") auto
  qed simp
  then show ?thesis by (auto simp: runes_def list_all_iff)
qed

lemma runes_encode: "list_all rune_ok rs \<Longrightarrow> runes (concat (map encodeRune rs)) = rs"
  using rune_chunks_encodes [of rs "[]"] by (simp add: runes_def comp_def)

lemma clip_runes: "runes (clip s n) = take n (runes s)"
proof (cases "RuneCount s \<le> n")
  case True
  then show ?thesis by (simp add: clip_def RuneCount_def runes_def)
next
  case False
  have "list_all rune_ok (take n (runes s))" using runes_ok [of s] by (auto simp: list_all_iff dest: in_set_takeD)
  then show ?thesis using False by (simp add: clip_def runes_encode)
qed

lemma clip_count: "RuneCount (clip s n) = min (RuneCount s) n"
  using arg_cong [OF clip_runes [of s n], of length] by (simp add: RuneCount_def runes_def min.commute)

lemma clip_clip: "clip (clip s n) n = clip s n"
  using clip_count [of s n] by (subst clip_def) simp

end
