(* ===== verification/RemoteHub.thy ===== *)
theory RemoteHub
  imports GoText "HOL-Library.Word" "HOL-Library.Sublist" "HOL-Library.Code_Target_Nat"
begin

text \<open>
  The relay between a phone and the desktop tab that holds control: \<open>Hub\<close> of \<open>internal/remote/hub.go\<close>
  and \<open>claim.go\<close>.  The hub holds one desktop's presence and a queue of commands; every method is one
  section under \<open>Hub.mu\<close>, a function from hub to hub.  The channel that wakes waiters is closed exactly
  when the revision moves, so it is not a field of its own.  The clock is the argument \<open>now\<close>, and
  \<open>rand.Text\<close> answers with the argument \<open>fresh\<close>.  \<open>StopSequence\<close>, \<open>CanControl\<close> and \<open>Session\<close> of a
  state are filled in by the server, not here.
\<close>

section \<open>Data\<close>

abbreviation (input) PresenceTTL :: duration where
  "PresenceTTL \<equiv> 20 * second"

abbreviation (input) CommandTTL :: duration where
  "CommandTTL \<equiv> 10 * second"

definition MaxChatRunes :: nat where "MaxChatRunes = 1000"
definition maxPending :: nat where "maxPending = 32"
definition maxRecent :: nat where "maxRecent = 16"
definition maxTitle :: nat where "maxTitle = 200"

datatype hub_error =
    NoDesktop
  | OtherAccount
  | InvalidCommand string
  | TargetUnavailable
  | HubBusy
  | CommandUnavailable

record hub_identity =
  hiClient :: string
  hiAccount :: string
  hiSession :: string
  hiDesktop :: string
  hiGrant :: string

definition noHubIdentity :: hub_identity where
  "noHubIdentity = \<lparr>hiClient = [], hiAccount = [], hiSession = [], hiDesktop = [], hiGrant = []\<rparr>"

definition DesktopAccount :: "hub_identity \<Rightarrow> string" where
  "DesktopAccount i = (if hiDesktop i \<noteq> [] then hiDesktop i else hiAccount i)"

record hub_command =
  hcID :: string
  hcSequence :: nat
  hcTarget :: string
  hcAction :: string
  hcVideoID :: string
  hcSessionID :: string
  hcStopSequence :: nat
  hcMillis :: "int option"
  hcValue :: "64 word option"
  hcFlag :: "bool option"
  hcText :: string
  hcSource :: string
  hcIssuedAt :: time
  hcSender :: hub_identity
  hcClaimed :: bool

record hub_outcome =
  hoID :: string
  hoOK :: bool
  hoError :: string
  hoAt :: time

record video_presence =
  vpVideoID :: string
  vpTitle :: string
  vpPlaying :: bool
  vpPosition :: int
  vpDuration :: int
  vpVolume :: "64 word"
  vpMuted :: bool
  vpRate :: "64 word"
  vpSynchronized :: bool
  vpSyncState :: string
  vpReady :: bool
  vpMotionSource :: string
  vpHasScript :: bool

record chat_presence =
  cpSessionID :: string
  cpPersonaName :: string
  cpLatestSeq :: int
  cpRevision :: int
  cpBusy :: bool
  cpReady :: bool

record hub_presence =
  hpRoute :: string
  hpBackground :: bool
  hpVideo :: "video_presence option"
  hpChat :: "chat_presence option"
  hpOutcomes :: "hub_outcome list"

record hub_state =
  hsRevision :: nat
  hsConnected :: bool
  hsOtherAccount :: bool
  hsRoute :: string
  hsBackground :: bool
  hsVideo :: "video_presence option"
  hsChat :: "chat_presence option"
  hsPending :: nat
  hsRecent :: "hub_outcome list"
  hsUpdatedAt :: "time option"

record hub =
  hbExecutor :: hub_identity
  hbPresence :: "hub_presence option"
  hbPresenceAt :: time
  hbRevision :: nat
  hbSequence :: nat
  hbPending :: "hub_command list"
  hbRecent :: "hub_outcome list"

definition NewHub :: hub where
  "NewHub = \<lparr>hbExecutor = noHubIdentity, hbPresence = None, hbPresenceAt = zero_time, hbRevision = 0, hbSequence = 0,
     hbPending = [], hbRecent = []\<rparr>"

section \<open>Validation\<close>

text \<open>The order of \<open>float64\<close> values that are not NaN, as integers.\<close>

definition f64_key :: "64 word \<Rightarrow> int" where
  "f64_key w = (let n = int (unat w) in if n < 2 ^ 63 then n else - (n - 2 ^ 63))"

definition f64_nan :: "64 word \<Rightarrow> bool" where
  "f64_nan w \<longleftrightarrow> 0x7FF0000000000000 < unat w mod 2 ^ 63"

definition f64_less :: "64 word \<Rightarrow> 64 word \<Rightarrow> bool" where
  "f64_less a b \<longleftrightarrow> \<not> f64_nan a \<and> \<not> f64_nan b \<and> f64_key a < f64_key b"

definition f64_one :: "64 word" where "f64_one = 0x3FF0000000000000"
definition f64_quarter :: "64 word" where "f64_quarter = 0x3FD0000000000000"
definition f64_four :: "64 word" where "f64_four = 0x4010000000000000"

definition maxSeekMillis :: int where
  "maxSeekMillis = 30 * 24 * 60 * 60 * 1000"

definition validateLevel :: "hub_command \<Rightarrow> hub_error option" where
  "validateLevel c =
     (let outside = (\<lambda>lo hi. case hcValue c of None \<Rightarrow> True | Some v \<Rightarrow> f64_less v lo \<or> f64_less hi v) in
      if hcAction c = ''volume'' \<and> outside 0 f64_one then Some (InvalidCommand ''volume must be from 0 to 1'')
      else if hcAction c = ''rate'' \<and> outside f64_quarter f64_four
      then Some (InvalidCommand ''the playback rate must be from 0.25 to 4'')
      else if hcAction c = ''mute'' \<and> hcFlag c = None then Some (InvalidCommand ''mute needs a flag'')
      else None)"

definition validateSeek :: "hub_command \<Rightarrow> hub_error option" where
  "validateSeek c =
     (case hcMillis c of
        None \<Rightarrow> Some (InvalidCommand ''a seek needs ms'')
      | Some ms \<Rightarrow>
          if hcAction c = ''seek'' \<and> ms < 0 then Some (InvalidCommand ''a seek position cannot be negative'')
          else if maxSeekMillis < ms \<or> ms < - maxSeekMillis then Some (InvalidCommand ''the seek is out of range'')
          else None)"

definition validateVideo :: "hub_command \<Rightarrow> hub_error option" where
  "validateVideo c =
     (let a = hcAction c in
      if a \<in> {''play'', ''pause'', ''toggle'', ''close''} then None
      else if a \<in> {''seek'', ''seek_by''} then validateSeek c
      else if a \<in> {''volume'', ''rate'', ''mute''} then validateLevel c
      else if a = ''open'' then
        (if TrimSpace (hcVideoID c) = [] \<or> 128 < length (hcVideoID c)
         then Some (InvalidCommand ''open needs a video id'') else None)
      else if a = ''source'' then
        (if hcSource c \<in> {''script'', ''chat'', ''off''} then None
         else Some (InvalidCommand ''the motion source must be script, chat or off''))
      else Some (InvalidCommand ''unknown video action''))"

definition hub_Validate :: "hub_command \<Rightarrow> hub_error option" where
  "hub_Validate c =
     (if hcTarget c = ''video'' then validateVideo c
      else if hcTarget c = ''chat'' then
        (if hcAction c = ''open'' then None
         else if hcAction c \<noteq> ''send'' then Some (InvalidCommand ''unknown chat action'')
         else let text = TrimSpace (hcText c) in
           if text = [] \<or> \<not> ValidString text \<or> MaxChatRunes < RuneCount text
           then Some (InvalidCommand ''a message needs 1 to 1000 characters'') else None)
      else Some (InvalidCommand ''unknown target''))"

definition cleanVideo :: "video_presence option \<Rightarrow> video_presence option" where
  "cleanVideo = map_option (\<lambda>v. v\<lparr>vpVideoID := clip (vpVideoID v) 128, vpTitle := clip (vpTitle v) maxTitle,
     vpSyncState := clip (vpSyncState v) 40, vpMotionSource := clip (vpMotionSource v) 10\<rparr>)"

definition cleanChat :: "chat_presence option \<Rightarrow> chat_presence option" where
  "cleanChat = map_option (\<lambda>c. c\<lparr>cpSessionID := clip (cpSessionID c) 128, cpPersonaName := clip (cpPersonaName c) 80,
     cpLatestSeq := max 0 (cpLatestSeq c), cpRevision := max 0 (cpRevision c)\<rparr>)"

section \<open>Sections under the lock\<close>

definition recordLocked :: "hub_outcome \<Rightarrow> hub \<Rightarrow> hub" where
  "recordLocked out h =
     (let r = hbRecent h @ [out] in
      h\<lparr>hbRecent := (if maxRecent < length r then drop (length r - maxRecent) r else r)\<rparr>)"

definition touchLocked :: "hub \<Rightarrow> hub" where
  "touchLocked h = h\<lparr>hbRevision := Suc (hbRevision h)\<rparr>"

definition failed :: "time \<Rightarrow> string \<Rightarrow> hub_command \<Rightarrow> hub_outcome" where
  "failed now reason c = \<lparr>hoID = hcID c, hoOK = False, hoError = reason, hoAt = now\<rparr>"

definition dropPendingLocked :: "time \<Rightarrow> string \<Rightarrow> hub \<Rightarrow> hub" where
  "dropPendingLocked now reason h =
     (fold (\<lambda>c. recordLocked (failed now reason c)) (hbPending h) h)\<lparr>hbPending := []\<rparr>"

definition completeLocked :: "time \<Rightarrow> hub_outcome \<Rightarrow> hub \<Rightarrow> hub" where
  "completeLocked now out h =
     (let front = takeWhile (\<lambda>c. hcID c \<noteq> hoID out) (hbPending h);
          rest = dropWhile (\<lambda>c. hcID c \<noteq> hoID out) (hbPending h) in
      if rest = [] then h
      else recordLocked (out\<lparr>hoAt := now, hoError := (if hoOK out then [] else clip (hoError out) 300)\<rparr>)
        (h\<lparr>hbPending := front @ tl rest\<rparr>))"

definition tooOld :: "time \<Rightarrow> hub_command \<Rightarrow> bool" where
  "tooOld now c \<longleftrightarrow> CommandTTL < time_sub now (hcIssuedAt c)"

definition expireLocked :: "time \<Rightarrow> hub \<Rightarrow> hub" where
  "expireLocked now h =
     (let old = filter (tooOld now) (hbPending h);
          h1 = (fold (\<lambda>c. recordLocked (failed now ''The desktop did not respond.'' c)) old h)
                 \<lparr>hbPending := filter (\<lambda>c. \<not> tooOld now c) (hbPending h)\<rparr>;
          gone = (hbPresence h \<noteq> None \<and> PresenceTTL < time_sub now (hbPresenceAt h));
          h2 = (if gone then (dropPendingLocked now ''The desktop stopped responding.'' h1)\<lparr>hbPresence := None\<rparr> else h1) in
      if old \<noteq> [] \<or> gone then touchLocked h2 else h2)"

definition presentLocked :: "time \<Rightarrow> hub \<Rightarrow> bool" where
  "presentLocked now h \<longleftrightarrow> hbPresence h \<noteq> None \<and> time_sub now (hbPresenceAt h) \<le> PresenceTTL"

definition noHubState :: hub_state where
  "noHubState = \<lparr>hsRevision = 0, hsConnected = False, hsOtherAccount = False, hsRoute = [], hsBackground = False,
     hsVideo = None, hsChat = None, hsPending = 0, hsRecent = [], hsUpdatedAt = None\<rparr>"

definition stateLocked :: "time \<Rightarrow> hub \<Rightarrow> hub_state" where
  "stateLocked now h =
     (let s = noHubState\<lparr>hsRevision := hbRevision h, hsPending := length (hbPending h), hsRecent := hbRecent h\<rparr> in
      case hbPresence h of
        None \<Rightarrow> s
      | Some p \<Rightarrow>
          if time_sub now (hbPresenceAt h) \<le> PresenceTTL
          then s\<lparr>hsConnected := True, hsRoute := hpRoute p, hsBackground := hpBackground p, hsVideo := hpVideo p,
                 hsChat := hpChat p, hsUpdatedAt := Some (hbPresenceAt h)\<rparr>
          else s)"

definition targetCurrent :: "hub_presence \<Rightarrow> hub_command \<Rightarrow> bool" where
  "targetCurrent p c \<longleftrightarrow>
     (if hcAction c = ''open'' then True
      else if hcTarget c = ''video''
      then (case hpVideo p of None \<Rightarrow> False | Some v \<Rightarrow> hcVideoID c = vpVideoID v)
      else (case hpChat p of None \<Rightarrow> False | Some s \<Rightarrow> hcSessionID c = cpSessionID s))"

text \<open>
  \<open>bindTargetLocked\<close>, after the check that the surface is open: \<open>None\<close> stands for a nil surface, which
  that check has excluded.
\<close>

definition bindTarget :: "hub_presence \<Rightarrow> hub_command \<Rightarrow> hub_error + hub_command" where
  "bindTarget p c =
     (if hcAction c = ''open'' then Inr (c\<lparr>hcText := [], hcSessionID := []\<rparr>)
      else if hcTarget c = ''video'' then
        (case hpVideo p of
           None \<Rightarrow> Inl TargetUnavailable
         | Some v \<Rightarrow>
             if TrimSpace (hcVideoID c) \<noteq> [] \<and> TrimSpace (hcVideoID c) \<noteq> vpVideoID v then Inl TargetUnavailable
             else Inr (c\<lparr>hcVideoID := vpVideoID v, hcSessionID := [], hcText := []\<rparr>))
      else
        (case hpChat p of
           None \<Rightarrow> Inl TargetUnavailable
         | Some s \<Rightarrow>
             if TrimSpace (hcSessionID c) \<noteq> [] \<and> TrimSpace (hcSessionID c) \<noteq> cpSessionID s then Inl TargetUnavailable
             else Inr (c\<lparr>hcSessionID := cpSessionID s, hcVideoID := []\<rparr>)))"

definition claimable :: "hub_presence \<Rightarrow> string \<Rightarrow> hub_command \<Rightarrow> bool" where
  "claimable p i c \<longleftrightarrow> hcID c = i \<and> \<not> hcClaimed c \<and> targetCurrent p c"

definition claimableLocked :: "hub_identity \<Rightarrow> string \<Rightarrow> hub \<Rightarrow> hub_command option" where
  "claimableLocked executor i h =
     (case hbPresence h of
        None \<Rightarrow> None
      | Some p \<Rightarrow> if hbExecutor h \<noteq> executor then None else find (claimable p i) (hbPending h))"

text \<open>Setting the \<open>claimed\<close> flag of the command that was found, the first claimable one.\<close>

fun mark_claimed :: "(hub_command \<Rightarrow> bool) \<Rightarrow> hub_command list \<Rightarrow> hub_command list" where
  "mark_claimed P [] = []"
| "mark_claimed P (c # cs) = (if P c then c\<lparr>hcClaimed := True\<rparr> # cs else c # mark_claimed P cs)"

section \<open>Methods\<close>

definition hub_Report :: "time \<Rightarrow> hub_identity \<Rightarrow> hub_presence \<Rightarrow> hub \<Rightarrow> hub \<times> hub_state" where
  "hub_Report now executor p h =
     (let h1 = expireLocked now h;
          h2 = (if hbPresence h1 \<noteq> None \<and> hbExecutor h1 \<noteq> executor
                then dropPendingLocked now ''The desktop changed; send the command again.'' h1 else h1);
          h3 = (if hiAccount (hbExecutor h2) \<noteq> hiAccount executor then h2\<lparr>hbRecent := []\<rparr> else h2);
          h4 = fold (completeLocked now) (hpOutcomes p) h3;
          h5 = touchLocked (h4\<lparr>hbExecutor := executor, hbPresenceAt := now,
                 hbPresence := Some (p\<lparr>hpOutcomes := [], hpRoute := clip (hpRoute p) 40,
                    hpVideo := cleanVideo (hpVideo p), hpChat := cleanChat (hpChat p)\<rparr>)\<rparr>) in
      (h5, stateLocked now h5))"

definition hub_ExecutorAccount :: "string \<Rightarrow> hub \<Rightarrow> string option" where
  "hub_ExecutorAccount key h =
     (if key = [] \<or> hiSession (hbExecutor h) \<noteq> key then None else Some (hiAccount (hbExecutor h)))"

definition hub_Withdraw :: "time \<Rightarrow> hub_identity \<Rightarrow> string \<Rightarrow> hub \<Rightarrow> hub" where
  "hub_Withdraw now executor reason h =
     (if hbPresence h = None \<or> hbExecutor h \<noteq> executor then h
      else touchLocked ((dropPendingLocked now reason h)\<lparr>hbPresence := None\<rparr>))"

definition hub_Clear :: "time \<Rightarrow> string \<Rightarrow> hub \<Rightarrow> hub" where
  "hub_Clear now reason h = (if hbPending h = [] then h else touchLocked (dropPendingLocked now reason h))"

definition hub_Send :: "time \<Rightarrow> string \<Rightarrow> hub_identity \<Rightarrow> hub_command \<Rightarrow> hub \<Rightarrow> hub \<times> (hub_error + hub_command)" where
  "hub_Send now fresh sender c h =
     (case hub_Validate c of
        Some e \<Rightarrow> (h, Inl e)
      | None \<Rightarrow>
          let h1 = expireLocked now h in
          case hbPresence h1 of
            None \<Rightarrow> (h1, Inl NoDesktop)
          | Some p \<Rightarrow>
              if \<not> presentLocked now h1 then (h1, Inl NoDesktop)
              else if DesktopAccount sender \<noteq> hiAccount (hbExecutor h1) then (h1, Inl OtherAccount)
              else if hcTarget c = ''video'' \<and> hcAction c \<noteq> ''open'' \<and> hpVideo p = None then (h1, Inl TargetUnavailable)
              else if hcTarget c = ''chat'' \<and> hcAction c \<noteq> ''open'' \<and> hpChat p = None then (h1, Inl TargetUnavailable)
              else if maxPending \<le> length (hbPending h1) then (h1, Inl HubBusy)
              else case bindTarget p c of
                  Inl e \<Rightarrow> (h1, Inl e)
                | Inr b \<Rightarrow>
                    let d = b\<lparr>hcText := TrimSpace (hcText b), hcVideoID := TrimSpace (hcVideoID b), hcSender := sender,
                              hcClaimed := False, hcID := fresh, hcSequence := Suc (hbSequence h1), hcIssuedAt := now\<rparr> in
                    (touchLocked (h1\<lparr>hbSequence := Suc (hbSequence h1), hbPending := hbPending h1 @ [d]\<rparr>), Inr d))"

definition hub_Commands :: "time \<Rightarrow> hub_identity \<Rightarrow> nat \<Rightarrow> hub \<Rightarrow> hub \<times> hub_command list" where
  "hub_Commands now executor after h =
     (let h1 = expireLocked now h in
      if hbPresence h1 = None \<or> hbExecutor h1 \<noteq> executor then (h1, [])
      else (h1, filter (\<lambda>c. \<not> hcClaimed c \<and> after < hcSequence c) (hbPending h1)))"

definition hub_State :: "time \<Rightarrow> hub_identity \<Rightarrow> hub \<Rightarrow> hub \<times> hub_state" where
  "hub_State now viewer h =
     (let h1 = expireLocked now h; s = stateLocked now h1 in
      (h1, if DesktopAccount viewer \<noteq> hiAccount (hbExecutor h1)
           then noHubState\<lparr>hsConnected := hsConnected s, hsOtherAccount := hsConnected s\<rparr> else s))"

definition hub_CommandSender :: "time \<Rightarrow> hub_identity \<Rightarrow> string \<Rightarrow> hub \<Rightarrow> hub \<times> hub_identity option" where
  "hub_CommandSender now executor i h =
     (let h1 = expireLocked now h in (h1, map_option hcSender (claimableLocked executor i h1)))"

definition hub_Claim :: "time \<Rightarrow> hub_identity \<Rightarrow> string \<Rightarrow> hub \<Rightarrow> hub \<times> (hub_error + hub_command \<times> duration)" where
  "hub_Claim now executor i h =
     (let h1 = expireLocked now h in
      case claimableLocked executor i h1 of
        None \<Rightarrow> (h1, Inl CommandUnavailable)
      | Some c \<Rightarrow>
          (h1\<lparr>hbPending := mark_claimed (claimable (the (hbPresence h1)) i) (hbPending h1)\<rparr>,
           Inr (c\<lparr>hcClaimed := True\<rparr>, CommandTTL - time_sub now (hcIssuedAt c))))"

definition hub_Cancel :: "time \<Rightarrow> string \<Rightarrow> string \<Rightarrow> hub \<Rightarrow> hub" where
  "hub_Cancel now i reason h =
     touchLocked (completeLocked now \<lparr>hoID = i, hoOK = False, hoError = reason, hoAt = zero_time\<rparr> h)"

section \<open>Runs\<close>

datatype hub_op =
    HReport time hub_identity hub_presence
  | HWithdraw time hub_identity string
  | HClear time string
  | HSend time string hub_identity hub_command
  | HCommands time hub_identity nat
  | HState time hub_identity
  | HSender time hub_identity string
  | HClaim time hub_identity string
  | HCancel time string string

datatype hub_reply =
    ReplyNone
  | ReplyState hub_state
  | ReplySent "hub_error + hub_command"
  | ReplyCommands "hub_command list"
  | ReplySender "hub_identity option"
  | ReplyClaimed "hub_error + hub_command \<times> duration"

fun hub_exec :: "hub_op \<Rightarrow> hub \<Rightarrow> hub \<times> hub_reply" where
  "hub_exec (HReport now ex p) h = apsnd ReplyState (hub_Report now ex p h)"
| "hub_exec (HWithdraw now ex r) h = (hub_Withdraw now ex r h, ReplyNone)"
| "hub_exec (HClear now r) h = (hub_Clear now r h, ReplyNone)"
| "hub_exec (HSend now fresh s c) h = apsnd ReplySent (hub_Send now fresh s c h)"
| "hub_exec (HCommands now ex after) h = apsnd ReplyCommands (hub_Commands now ex after h)"
| "hub_exec (HState now v) h = apsnd ReplyState (hub_State now v h)"
| "hub_exec (HSender now ex i) h = apsnd ReplySender (hub_CommandSender now ex i h)"
| "hub_exec (HClaim now ex i) h = apsnd ReplyClaimed (hub_Claim now ex i h)"
| "hub_exec (HCancel now i r) h = (hub_Cancel now i r h, ReplyNone)"

fun hub_run :: "hub_op list \<Rightarrow> hub \<Rightarrow> hub \<times> hub_reply list" where
  "hub_run [] h = (h, [])"
| "hub_run (x # xs) h = (case hub_exec x h of (h1, r) \<Rightarrow> apsnd ((#) r) (hub_run xs h1))"

definition sent :: "hub_reply list \<Rightarrow> hub_command list" where
  "sent rs = List.map_filter (\<lambda>r. case r of ReplySent (Inr c) \<Rightarrow> Some c | _ \<Rightarrow> None) rs"

definition claims :: "hub_reply list \<Rightarrow> hub_command list" where
  "claims rs = List.map_filter (\<lambda>r. case r of ReplyClaimed (Inr (c, d)) \<Rightarrow> Some c | _ \<Rightarrow> None) rs"

section \<open>What sections keep\<close>

text \<open>Apart from Send, Report and Claim, a section drops commands and records outcomes.\<close>

definition shrinks :: "hub \<Rightarrow> hub \<Rightarrow> bool" where
  "shrinks h h' \<longleftrightarrow> hbSequence h' = hbSequence h \<and> hbExecutor h' = hbExecutor h \<and> subseq (hbPending h') (hbPending h) \<and>
     (hbPresence h' = hbPresence h \<or> hbPending h' = []) \<and> (length (hbRecent h) \<le> maxRecent \<longrightarrow> length (hbRecent h') \<le> maxRecent)"

lemma shrinks_refl [simp]: "shrinks h h"
  by (simp add: shrinks_def)

lemma shrinks_trans: "shrinks h h1 \<Longrightarrow> shrinks h1 h2 \<Longrightarrow> shrinks h h2"
  unfolding shrinks_def by (metis list_emb_Nil2 subseq_order.order_trans)

lemma recordLocked_fields [simp]:
  "hbSequence (recordLocked out h) = hbSequence h" "hbExecutor (recordLocked out h) = hbExecutor h"
  "hbPending (recordLocked out h) = hbPending h" "hbPresence (recordLocked out h) = hbPresence h"
  "hbPresenceAt (recordLocked out h) = hbPresenceAt h"
  "length (hbRecent (recordLocked out h)) \<le> maxRecent"
  by (simp_all add: recordLocked_def maxRecent_def Let_def)

lemma fold_record_fields [simp]:
  "hbSequence (fold (\<lambda>c. recordLocked (f c)) cs h) = hbSequence h"
  "hbExecutor (fold (\<lambda>c. recordLocked (f c)) cs h) = hbExecutor h"
  "hbPending (fold (\<lambda>c. recordLocked (f c)) cs h) = hbPending h"
  "hbPresence (fold (\<lambda>c. recordLocked (f c)) cs h) = hbPresence h"
  "hbPresenceAt (fold (\<lambda>c. recordLocked (f c)) cs h) = hbPresenceAt h"
  by (induction cs arbitrary: h) simp_all

lemma fold_record_recent:
  "length (hbRecent h) \<le> maxRecent \<Longrightarrow> length (hbRecent (fold (\<lambda>c. recordLocked (f c)) cs h)) \<le> maxRecent"
  by (induction cs arbitrary: h) simp_all

lemma touchLocked_fields [simp]:
  "hbSequence (touchLocked h) = hbSequence h" "hbExecutor (touchLocked h) = hbExecutor h"
  "hbPending (touchLocked h) = hbPending h" "hbPresence (touchLocked h) = hbPresence h" "hbRecent (touchLocked h) = hbRecent h"
  "hbPresenceAt (touchLocked h) = hbPresenceAt h"
  by (simp_all add: touchLocked_def)

lemma dropPending_fields [simp]:
  "hbPending (dropPendingLocked now r h) = []" "hbExecutor (dropPendingLocked now r h) = hbExecutor h"
  "hbPresence (dropPendingLocked now r h) = hbPresence h" "hbSequence (dropPendingLocked now r h) = hbSequence h"
  "hbPresenceAt (dropPendingLocked now r h) = hbPresenceAt h"
  by (simp_all add: dropPendingLocked_def)

lemma shrinks_drop: "shrinks h (dropPendingLocked now r h)"
  by (simp add: shrinks_def dropPendingLocked_def fold_record_recent)

lemma shrinks_touch: "shrinks h (touchLocked h')  = shrinks h h'"
  by (simp add: shrinks_def)

lemma tl_subseq: "subseq (tl xs) xs"
  by (cases xs) auto

lemma shrinks_complete: "shrinks h (completeLocked now out h)"
proof -
  let ?P = "\<lambda>c. hcID c \<noteq> hoID out"
  have "subseq (takeWhile ?P (hbPending h) @ tl (dropWhile ?P (hbPending h))) (takeWhile ?P (hbPending h) @ dropWhile ?P (hbPending h))"
    by (intro list_emb_append_mono) (simp_all add: tl_subseq)
  then show ?thesis by (simp add: shrinks_def completeLocked_def Let_def)
qed

lemma shrinks_completes: "shrinks h (fold (completeLocked now) outs h)"
proof (induction outs arbitrary: h)
  case (Cons out outs)
  then show ?case using shrinks_trans [OF shrinks_complete [of h now out]] by simp
qed simp

lemma shrinks_expire: "shrinks h (expireLocked now h)"
proof -
  define h1 where "h1 = (fold (\<lambda>c. recordLocked (failed now ''The desktop did not respond.'' c)) (filter (tooOld now) (hbPending h)) h)
                 \<lparr>hbPending := filter (\<lambda>c. \<not> tooOld now c) (hbPending h)\<rparr>"
  have h1: "shrinks h h1" by (simp add: h1_def shrinks_def fold_record_recent)
  have "shrinks h1 ((dropPendingLocked now r h1)\<lparr>hbPresence := None\<rparr>)" for r
    using shrinks_drop [of h1 now r] by (simp add: shrinks_def)
  then have "shrinks h ((dropPendingLocked now r h1)\<lparr>hbPresence := None\<rparr>)" for r
    using shrinks_trans [OF h1] by blast
  then show ?thesis using h1 unfolding expireLocked_def Let_def h1_def [symmetric] by (simp add: shrinks_touch)
qed

text \<open>After the expiry nothing waits too long, and a desktop that is still there reported in time.\<close>

lemma expire_fresh: "c \<in> set (hbPending (expireLocked now h)) \<Longrightarrow> \<not> tooOld now c"
  by (auto simp: expireLocked_def Let_def split: if_splits)

lemma expire_presence: "hbPresence (expireLocked now h) = (if presentLocked now h then hbPresence h else None)"
  "hbPresenceAt (expireLocked now h) = hbPresenceAt h"
  by (auto simp: expireLocked_def presentLocked_def Let_def)

lemma presentLocked_expire [simp]: "presentLocked now (expireLocked now h) = presentLocked now h"
  using expire_presence [of now h] unfolding presentLocked_def by auto

definition hub_inv :: "hub \<Rightarrow> bool" where
  "hub_inv h \<longleftrightarrow>
     (hbPresence h = None \<longrightarrow> hbPending h = []) \<and> length (hbPending h) \<le> maxPending \<and> length (hbRecent h) \<le> maxRecent \<and>
     sorted_wrt (\<lambda>a b. hcSequence a < hcSequence b) (hbPending h) \<and>
     (\<forall>c \<in> set (hbPending h). hcSequence c \<le> hbSequence h \<and> DesktopAccount (hcSender c) = hiAccount (hbExecutor h))"

lemma subseq_sorted: "subseq xs ys \<Longrightarrow> sorted_wrt P ys \<Longrightarrow> sorted_wrt P xs"
proof (induction rule: list_emb.induct)
  case (list_emb_Cons2 x y xs ys)
  then show ?case using list_emb_set [of "(=)" xs ys] by fastforce
qed auto

lemma subseq_in: "subseq xs ys \<Longrightarrow> x \<in> set xs \<Longrightarrow> x \<in> set ys"
  using list_emb_set [of "(=)" xs ys x] by auto

lemma hub_inv_shrinks:
  assumes "hub_inv h" "shrinks h h'"
  shows "hub_inv h'"
proof -
  have sub: "subseq (hbPending h') (hbPending h)" using assms(2) by (simp add: shrinks_def)
  have "length (hbPending h') \<le> length (hbPending h)" using sub by (rule list_emb_length)
  moreover have "sorted_wrt (\<lambda>a b. hcSequence a < hcSequence b) (hbPending h')"
    using subseq_sorted [OF sub] assms(1) by (simp add: hub_inv_def)
  moreover have "hbPresence h' = None \<longrightarrow> hbPending h' = []" using assms sub by (auto simp: hub_inv_def shrinks_def)
  ultimately show ?thesis using assms subseq_in [OF sub] by (auto simp: hub_inv_def shrinks_def)
qed

lemmas inv_expire [intro] = hub_inv_shrinks [OF _ shrinks_expire]

abbreviation unclaimed :: "hub_command \<Rightarrow> hub_command" where
  "unclaimed c \<equiv> c\<lparr>hcClaimed := False\<rparr>"

lemma mark_claimed_found:
  "find P cs = Some c \<Longrightarrow> \<exists>xs ys. cs = xs @ c # ys \<and> mark_claimed P cs = xs @ c\<lparr>hcClaimed := True\<rparr> # ys \<and> P c"
proof (induction cs)
  case (Cons a cs)
  show ?case
  proof (cases "P a")
    case True
    then show ?thesis using Cons.prems by (auto intro: exI [of _ "[]"])
  next
    case False
    then obtain xs ys where xs: "cs = xs @ c # ys" and m: "mark_claimed P cs = xs @ c\<lparr>hcClaimed := True\<rparr> # ys" and c: "P c"
      using Cons by auto
    have "mark_claimed P (a # cs) = (a # xs) @ c\<lparr>hcClaimed := True\<rparr> # ys" using False m by simp
    moreover have "a # cs = (a # xs) @ c # ys" using xs by simp
    ultimately show ?thesis using c by blast
  qed
qed simp

lemma shrinks_empty: "shrinks h h' \<Longrightarrow> hbPending h = [] \<Longrightarrow> hbPending h' = []"
  by (auto simp: shrinks_def dest: list_emb_Nil2)

lemma shrinks_report:
  assumes "hub_inv h"
  shows "\<exists>h4. shrinks h h4 \<and> hub_Report now ex p h = (let h5 = touchLocked (h4\<lparr>hbExecutor := ex, hbPresenceAt := now,
                 hbPresence := Some (p\<lparr>hpOutcomes := [], hpRoute := clip (hpRoute p) 40,
                    hpVideo := cleanVideo (hpVideo p), hpChat := cleanChat (hpChat p)\<rparr>)\<rparr>) in (h5, stateLocked now h5)) \<and>
    (hbPending h4 = [] \<or> hbExecutor h4 = ex)"
proof -
  define h1 where "h1 = expireLocked now h"
  define h2 where "h2 = (if hbPresence h1 \<noteq> None \<and> hbExecutor h1 \<noteq> ex
      then dropPendingLocked now ''The desktop changed; send the command again.'' h1 else h1)"
  define h3 where "h3 = (if hiAccount (hbExecutor h2) \<noteq> hiAccount ex then h2\<lparr>hbRecent := []\<rparr> else h2)"
  define h4 where "h4 = fold (completeLocked now) (hpOutcomes p) h3"
  have s1: "shrinks h h1" by (simp add: h1_def shrinks_expire)
  have s2: "shrinks h1 h2" by (simp add: h2_def shrinks_drop)
  have s3: "shrinks h2 h3" by (simp add: h3_def shrinks_def)
  have s4: "shrinks h3 h4" by (simp add: h4_def shrinks_completes)
  have i1: "hub_inv h1" by (rule hub_inv_shrinks [OF assms s1])
  have "hbPending h2 = [] \<or> hbExecutor h2 = ex"
    using i1 by (auto simp: h2_def hub_inv_def)
  then have "hbPending h4 = [] \<or> hbExecutor h4 = ex"
    using shrinks_empty [OF shrinks_trans [OF s3 s4]] s3 s4 by (auto simp: shrinks_def)
  moreover have "shrinks h h4" using s1 s2 s3 s4 shrinks_trans by blast
  moreover have "hub_Report now ex p h = (let h5 = touchLocked (h4\<lparr>hbExecutor := ex, hbPresenceAt := now,
                 hbPresence := Some (p\<lparr>hpOutcomes := [], hpRoute := clip (hpRoute p) 40,
                    hpVideo := cleanVideo (hpVideo p), hpChat := cleanChat (hpChat p)\<rparr>)\<rparr>) in (h5, stateLocked now h5))"
    by (simp only: hub_Report_def h1_def h2_def h3_def h4_def Let_def)
  ultimately show ?thesis by blast
qed

text \<open>Every operation: it shrinks the hub, or is a report, an accepted Send or an accepted Claim.\<close>

definition sends :: "hub \<Rightarrow> hub \<Rightarrow> hub_command \<Rightarrow> bool" where
  "sends h h' c \<longleftrightarrow> hcSequence c = Suc (hbSequence h) \<and> hbSequence h' = Suc (hbSequence h) \<and> hbPending h' = hbPending h @ [c] \<and>
     hbExecutor h' = hbExecutor h \<and> hbPresence h' = hbPresence h \<and> hbPresence h \<noteq> None \<and> hbRecent h' = hbRecent h \<and>
     length (hbPending h) < maxPending \<and> \<not> hcClaimed c \<and> DesktopAccount (hcSender c) = hiAccount (hbExecutor h)"

definition claimed :: "hub \<Rightarrow> hub \<Rightarrow> hub_identity \<Rightarrow> hub_command \<Rightarrow> bool" where
  "claimed h h' ex c \<longleftrightarrow> (\<exists>xs ys p. hbPending h = xs @ c # ys \<and> hbPresence h = Some p \<and> hbExecutor h = ex \<and>
     targetCurrent p c \<and> \<not> hcClaimed c \<and> h' = h\<lparr>hbPending := xs @ c\<lparr>hcClaimed := True\<rparr> # ys\<rparr>)"

lemma hub_Send_cases:
  assumes "hub_Send now fresh s c h = (h', r)"
  obtains (no) e where "r = Inl e" "shrinks h h'"
  | (yes) d h1 where "r = Inr d" "shrinks h h1" "sends h1 h' d" "hcSender d = s" "hcIssuedAt d = now" "hcID d = fresh"
proof -
  have e: "shrinks h (expireLocked now h)" by (rule shrinks_expire)
  show ?thesis
  proof (cases r)
    case (Inl e)
    then have "shrinks h h'" using assms shrinks_expire
      by (auto simp: hub_Send_def Let_def split: option.splits if_splits sum.splits)
    then show ?thesis using no Inl by blast
  next
    case (Inr d)
    then have "sends (expireLocked now h) h' d \<and> hcSender d = s \<and> hcIssuedAt d = now \<and> hcID d = fresh" using assms
      by (auto simp: hub_Send_def sends_def Let_def not_le split: option.splits if_splits sum.splits)
    then show ?thesis using yes [OF Inr e] by blast
  qed
qed

lemma hub_Claim_cases:
  assumes "hub_Claim now ex i h = (h', r)"
  obtains (no) e where "r = Inl e" "shrinks h h'"
  | (yes) c h1 where "r = Inr (c\<lparr>hcClaimed := True\<rparr>, CommandTTL - time_sub now (hcIssuedAt c))" "hcID c = i"
      "shrinks h h1" "claimed h1 h' ex c" "\<not> tooOld now c" "presentLocked now h1"
proof (cases "claimableLocked ex i (expireLocked now h)")
  case None
  then show ?thesis using no assms shrinks_expire by (auto simp: hub_Claim_def Let_def)
next
  case (Some c)
  let ?h1 = "expireLocked now h"
  obtain p where p: "hbPresence ?h1 = Some p" "hbExecutor ?h1 = ex" "find (claimable p i) (hbPending ?h1) = Some c"
    using Some by (auto simp: claimableLocked_def split: option.splits if_splits)
  from mark_claimed_found [OF p(3)] obtain xs ys where xs: "hbPending ?h1 = xs @ c # ys"
      "mark_claimed (claimable p i) (hbPending ?h1) = xs @ c\<lparr>hcClaimed := True\<rparr> # ys" "claimable p i c" by blast
  have "\<not> tooOld now c" using expire_fresh [of c now h] xs(1) by simp
  moreover have "presentLocked now ?h1" using p(1) by (simp add: expire_presence split: if_splits)
  moreover have "claimed ?h1 h' ex c" using assms Some p xs by (auto simp: hub_Claim_def claimed_def claimable_def Let_def)
  ultimately show ?thesis using yes [of c ?h1] assms Some xs(3) shrinks_expire
    by (auto simp: hub_Claim_def claimable_def Let_def)
qed

lemma hub_exec_cases:
  assumes "hub_exec x h = (h', r)" "hub_inv h"
  obtains (shrink) "shrinks h h'" "sent [r] = []" "claims [r] = []"
  | (report) now ex p h4 where "x = HReport now ex p" "shrinks h h4" "hbPending h4 = [] \<or> hbExecutor h4 = ex"
      "hbPending h' = hbPending h4" "hbSequence h' = hbSequence h4" "hbRecent h' = hbRecent h4" "hbExecutor h' = ex"
      "hbPresence h' \<noteq> None" "sent [r] = []" "claims [r] = []"
  | (send) c h1 where "shrinks h h1" "sends h1 h' c" "sent [r] = [c]" "claims [r] = []"
  | (claim) c h1 now ex i where "x = HClaim now ex i" "shrinks h h1" "claimed h1 h' ex c" "sent [r] = []"
      "claims [r] = [c\<lparr>hcClaimed := True\<rparr>]"
proof (cases x)
  case (HReport now ex p)
  from shrinks_report [OF assms(2), of now ex p] show ?thesis
    using assms(1) HReport report by (auto simp: Let_def sent_def claims_def map_filter_def)
next
  case (HSend now fresh s c)
  then obtain q where q: "hub_Send now fresh s c h = (h', q)" "r = ReplySent q"
    using assms(1) by (cases "hub_Send now fresh s c h") auto
  from q(1) show ?thesis
    by (cases rule: hub_Send_cases) (use q(2) shrink send in \<open>auto simp: sent_def claims_def map_filter_def\<close>)
next
  case (HClaim now ex i)
  then obtain q where q: "hub_Claim now ex i h = (h', q)" "r = ReplyClaimed q"
    using assms(1) by (cases "hub_Claim now ex i h") auto
  from q(1) show ?thesis
    by (cases rule: hub_Claim_cases) (use HClaim q(2) shrink claim in \<open>auto simp: sent_def claims_def map_filter_def\<close>)
next
  case (HWithdraw now ex reason)
  have "shrinks h ((dropPendingLocked now reason h)\<lparr>hbPresence := None\<rparr>)"
    using shrinks_drop [of h now reason] by (simp add: shrinks_def)
  then show ?thesis
    using assms(1) HWithdraw shrink by (auto simp: hub_Withdraw_def shrinks_touch sent_def claims_def map_filter_def split: if_splits)
next
  case (HClear now reason)
  then show ?thesis using assms(1) shrink shrinks_drop
    by (auto simp: hub_Clear_def shrinks_touch sent_def claims_def map_filter_def split: if_splits)
next
  case (HCancel now i reason)
  then show ?thesis using assms(1) shrink shrinks_complete
    by (auto simp: hub_Cancel_def shrinks_touch sent_def claims_def map_filter_def)
next
  case (HCommands now ex n)
  then show ?thesis using assms(1) shrink shrinks_expire
    by (auto simp: hub_Commands_def Let_def sent_def claims_def map_filter_def split: if_splits)
next
  case (HState now v)
  then show ?thesis using assms(1) shrink shrinks_expire
    by (auto simp: hub_State_def Let_def sent_def claims_def map_filter_def split: if_splits)
next
  case (HSender now ex i)
  then show ?thesis using assms(1) shrink shrinks_expire
    by (auto simp: hub_CommandSender_def Let_def sent_def claims_def map_filter_def)
qed

lemma hub_inv_sends: "hub_inv h \<Longrightarrow> sends h h' c \<Longrightarrow> hub_inv h'"
  by (fastforce simp: hub_inv_def sends_def sorted_wrt_append)

lemma hub_inv_claimed: "hub_inv h \<Longrightarrow> claimed h h' ex c \<Longrightarrow> hub_inv h'"
  by (auto simp: hub_inv_def claimed_def sorted_wrt_append)

lemma hub_inv_exec:
  assumes x: "hub_exec x h = (h', r)" and inv: "hub_inv h"
  shows "hub_inv h'"
  using x inv
proof (cases rule: hub_exec_cases)
  case shrink
  then show ?thesis using hub_inv_shrinks [OF inv] by blast
next
  case (report now ex p h4)
  have "hub_inv h4" by (rule hub_inv_shrinks [OF inv report(2)])
  then show ?thesis using report by (auto simp: hub_inv_def)
next
  case (send c h1)
  then show ?thesis using hub_inv_shrinks [OF inv] hub_inv_sends by blast
next
  case (claim c h1)
  then show ?thesis using hub_inv_shrinks [OF inv] hub_inv_claimed by blast
qed

lemma hub_inv_new: "hub_inv NewHub"
  by (simp add: hub_inv_def NewHub_def)

interpretation hub: machine "\<lambda>h. h = NewHub" "\<lambda>h h'. \<exists>x r. hub_exec x h = (h', r)" hub_inv
  by unfold_locales (auto intro: hub_inv_new hub_inv_exec)

lemma hub_run_inv: "hub_run xs h = (h', rs) \<Longrightarrow> hub_inv h \<Longrightarrow> hub_inv h'"
  by (induction xs h arbitrary: h' rs rule: hub_run.induct)
     (auto simp: apsnd_def map_prod_def split: prod.splits intro: hub_inv_exec)

lemma hub_run_append:
  "hub_run (xs @ ys) h = (case hub_run xs h of (h1, rs) \<Rightarrow> apsnd ((@) rs) (hub_run ys h1))"
  by (induction xs h rule: hub_run.induct) (auto simp: apsnd_def map_prod_def split: prod.splits)

section \<open>Spent commands\<close>

text \<open>The sequence numbers in \<open>D\<close> will never be claimed: they are used up, and none waits unclaimed.\<close>

definition spent :: "nat set \<Rightarrow> hub \<Rightarrow> bool" where
  "spent D h \<longleftrightarrow> (\<forall>q \<in> D. q \<le> hbSequence h) \<and> (\<forall>c \<in> set (hbPending h). hcSequence c \<in> D \<longrightarrow> hcClaimed c)"

text \<open>Everything in the queue is a command of \<open>S\<close>, perhaps claimed since.\<close>

definition known :: "hub_command set \<Rightarrow> hub \<Rightarrow> bool" where
  "known S h \<longleftrightarrow> (\<forall>c \<in> set (hbPending h). unclaimed c \<in> S \<or> hcClaimed c)"

lemma claims_Cons: "claims (r # rs) = claims [r] @ claims rs" "sent (r # rs) = sent [r] @ sent rs"
  by (auto simp: claims_def sent_def map_filter_def)

lemma spent_shrinks: "spent D h \<Longrightarrow> shrinks h h' \<Longrightarrow> spent D h'"
  by (auto simp: spent_def shrinks_def dest: subseq_in)

lemma known_shrinks: "known S h \<Longrightarrow> shrinks h h' \<Longrightarrow> known S h'"
  by (auto simp: known_def shrinks_def dest: subseq_in)

lemma spent_exec:
  assumes x: "hub_exec x h = (h', r)" and inv: "hub_inv h" and d: "spent D h" and k: "known S h"
  shows "spent (D \<union> hcSequence ` set (claims [r])) h'" "hcSequence ` set (claims [r]) \<inter> D = {}"
    "known (S \<union> set (sent [r])) h'" "unclaimed ` set (claims [r]) \<subseteq> S"
    "length (claims [r]) \<le> 1"
proof -
  note cases = hub_exec_cases [OF x inv]
  have "spent (D \<union> hcSequence ` set (claims [r])) h' \<and> hcSequence ` set (claims [r]) \<inter> D = {} \<and>
      known (S \<union> set (sent [r])) h' \<and> unclaimed ` set (claims [r]) \<subseteq> S \<and> length (claims [r]) \<le> 1"
  proof (rule cases, goal_cases)
    case 1
    then show ?case using spent_shrinks [OF d] known_shrinks [OF k] by simp
  next
    case (2 now ex p h4)
    have "spent D h4" "known S h4" using 2 spent_shrinks [OF d] known_shrinks [OF k] by blast+
    then show ?case using 2 by (simp add: spent_def known_def)
  next
    case (3 c h1)
    have "spent D h1" "known S h1" using 3 spent_shrinks [OF d] known_shrinks [OF k] by blast+
    then show ?case using 3 by (fastforce simp: spent_def known_def sends_def)
  next
    case (4 c h1 now ex i)
    have h1: "spent D h1" "known S h1" "hub_inv h1"
      using 4(2) spent_shrinks [OF d] known_shrinks [OF k] hub_inv_shrinks [OF inv] by blast+
    obtain xs ys where p: "hbPending h1 = xs @ c # ys" "\<not> hcClaimed c" "h' = h1\<lparr>hbPending := xs @ c\<lparr>hcClaimed := True\<rparr> # ys\<rparr>"
      using 4(3) by (auto simp: claimed_def)
    have only: "\<forall>e \<in> set xs \<union> set ys. hcSequence e \<noteq> hcSequence c"
      using h1(3) p(1) by (fastforce simp: hub_inv_def sorted_wrt_append)
    have "hcSequence c \<notin> D" "hcSequence c \<le> hbSequence h1" "unclaimed c \<in> S"
      using h1 p(1,2) by (auto simp: spent_def hub_inv_def known_def)
    then show ?case using 4(4,5) h1 p only by (auto simp: spent_def known_def)
  qed
  then show "spent (D \<union> hcSequence ` set (claims [r])) h'" "hcSequence ` set (claims [r]) \<inter> D = {}"
    "known (S \<union> set (sent [r])) h'" "unclaimed ` set (claims [r]) \<subseteq> S" "length (claims [r]) \<le> 1" by blast+
qed

lemma spent_run:
  assumes "hub_run xs h = (h', rs)" "hub_inv h" "spent D h" "known S h"
  shows "distinct (map hcSequence (claims rs)) \<and> hcSequence ` set (claims rs) \<inter> D = {} \<and>
    spent (D \<union> hcSequence ` set (claims rs)) h' \<and> known (S \<union> set (sent rs)) h' \<and>
    unclaimed ` set (claims rs) \<subseteq> S \<union> set (sent rs)"
  using assms
proof (induction xs arbitrary: h rs D S)
  case Nil
  then show ?case by (simp add: claims_def sent_def map_filter_def)
next
  case (Cons x xs)
  obtain h1 r where x: "hub_exec x h = (h1, r)" by (cases "hub_exec x h")
  obtain rs1 where run: "hub_run xs h1 = (h', rs1)" "rs = r # rs1"
    using Cons.prems(1) x by (auto simp: apsnd_def map_prod_def split: prod.splits)
  note s = spent_exec [OF x Cons.prems(2-4)]
  have "distinct (map hcSequence (claims [r]))" using s(5) by (cases "claims [r]") auto
  then show ?case
    using Cons.IH [OF run(1) hub_inv_exec [OF x Cons.prems(2)] s(1,3)] s(2,4) unfolding run(2) claims_Cons [of r rs1]
    by (auto simp: Un_assoc image_Un)
qed

section \<open>What a viewer sees\<close>

lemma stateLocked_connected: "hsConnected (stateLocked now h) = presentLocked now h"
  by (auto simp: stateLocked_def presentLocked_def noHubState_def Let_def split: option.splits)

lemma expire_executor [simp]: "hbExecutor (expireLocked now h) = hbExecutor h"
  using shrinks_expire [of h now] by (simp add: shrinks_def)

lemma hub_State_other:
  "DesktopAccount viewer \<noteq> hiAccount (hbExecutor h) \<Longrightarrow>
    snd (hub_State now viewer h) = noHubState\<lparr>hsConnected := presentLocked now h, hsOtherAccount := presentLocked now h\<rparr>"
  by (simp add: hub_State_def stateLocked_connected Let_def)

lemma targetCurrent_claimed [simp]: "targetCurrent p (c\<lparr>hcClaimed := b\<rparr>) = targetCurrent p c"
  by (cases "hpVideo p"; cases "hpChat p") (simp_all add: targetCurrent_def)

text \<open>
  \<open>Send\<close> trims the video identifier after binding it to the desktop's, which is only clipped: for a desktop
  whose video identifier has white space at an end, an accepted command is never current.
\<close>

lemma untrimmed_video_never_current:
  assumes "hub_Send now fresh s c h = (h', Inr d)" and "hbPresence (expireLocked now h) = Some p"
    and "hcTarget c = ''video''" "hcAction c \<noteq> ''open''" and "hpVideo p = Some v" "TrimSpace (vpVideoID v) \<noteq> vpVideoID v"
  shows "\<not> targetCurrent p d"
  using assms by (auto simp: hub_Send_def bindTarget_def targetCurrent_def Let_def split: option.splits if_splits)

section \<open>Properties\<close>

text \<open>
  Property C33.  A remote command runs at most once, in time, and where it was meant to.  Whatever calls
  reach the hub, a claim that succeeds is of a command that was accepted before, under a sequence number
  that no earlier claim had; it is at most ten seconds old, its sender's desktop account is the
  claimer's account, the claimer is the tab that reported last and is still present, and that tab still
  shows the video or chat the command was sent to.
\<close>

theorem hub_claim_once:
  assumes run: "hub_run xs NewHub = (h, rs)" and claim: "hub_Claim now ex i h = (h', Inr (c, d))"
  shows "unclaimed c \<in> set (sent rs) \<and> hcSequence c \<notin> hcSequence ` set (claims rs) \<and> hcID c = i \<and>
    time_sub now (hcIssuedAt c) \<le> CommandTTL \<and> d = CommandTTL - time_sub now (hcIssuedAt c) \<and>
    DesktopAccount (hcSender c) = hiAccount ex \<and> hbExecutor h' = ex \<and> presentLocked now h' \<and>
    (\<exists>p. hbPresence h' = Some p \<and> targetCurrent p c)"
proof -
  have inv: "hub_inv h" by (rule hub_run_inv [OF run hub_inv_new])
  have "spent {} NewHub" "known {} NewHub" by (simp_all add: spent_def known_def NewHub_def)
  from spent_run [OF run hub_inv_new this]
  have s: "spent (hcSequence ` set (claims rs)) h" "known (set (sent rs)) h" by simp_all
  have x: "hub_exec (HClaim now ex i) h = (h', ReplyClaimed (Inr (c, d)))" using claim by simp
  from spent_exec [OF x inv s] have old: "hcSequence c \<notin> hcSequence ` set (claims rs)" "unclaimed c \<in> set (sent rs)"
    by (auto simp: claims_def map_filter_def)
  from claim show ?thesis
  proof (cases rule: hub_Claim_cases)
    case (yes e h1)
    then obtain vs ys p where e: "hbPending h1 = vs @ e # ys" "hbPresence h1 = Some p" "hbExecutor h1 = ex" "targetCurrent p e"
        "h' = h1\<lparr>hbPending := vs @ e\<lparr>hcClaimed := True\<rparr> # ys\<rparr>"
      by (auto simp: claimed_def)
    have "hub_inv h1" by (rule hub_inv_shrinks [OF inv yes(3)])
    then have "DesktopAccount (hcSender e) = hiAccount ex" using e(1,3) by (simp add: hub_inv_def)
    moreover have "targetCurrent p c" using yes(1) e(4) by simp
    ultimately show ?thesis using yes e old by (simp add: tooOld_def presentLocked_def)
  qed simp
qed

definition deskTab :: hub_identity where
  "deskTab = noHubIdentity\<lparr>hiClient := ''d'', hiAccount := ''a''\<rparr>"

definition phoneTab :: hub_identity where
  "phoneTab = noHubIdentity\<lparr>hiClient := ''p'', hiAccount := ''a''\<rparr>"

definition deskPresence :: hub_presence where
  "deskPresence = \<lparr>hpRoute = ''chat'', hpBackground = False, hpVideo = None,
     hpChat = Some \<lparr>cpSessionID = ''s1'', cpPersonaName = ''x'', cpLatestSeq = 0, cpRevision = 0, cpBusy = False, cpReady = True\<rparr>,
     hpOutcomes = []\<rparr>"

definition chatCommand :: hub_command where
  "chatCommand = \<lparr>hcID = [], hcSequence = 0, hcTarget = ''chat'', hcAction = ''send'', hcVideoID = [], hcSessionID = [],
     hcStopSequence = 0, hcMillis = None, hcValue = None, hcFlag = None, hcText = '' hi '', hcSource = [], hcIssuedAt = 0,
     hcSender = noHubIdentity, hcClaimed = True\<rparr>"

definition chatCalls :: "hub_op list" where
  "chatCalls = [HReport 0 deskTab deskPresence, HSend second ''k'' phoneTab chatCommand]"

lemma hub_claim_once_witness:
  "let (h, rs) = hub_run chatCalls NewHub in
     \<exists>h' c d. hub_Claim (2 * second) deskTab ''k'' h = (h', Inr (c, d)) \<and> hcText c = ''hi'' \<and> hcSessionID c = ''s1'' \<and>
       d = 9 * second \<and> unclaimed c \<in> set (sent rs)"
proof -
  obtain h rs where run: "hub_run chatCalls NewHub = (h, rs)" by (cases "hub_run chatCalls NewHub")
  have "case hub_Claim (2 * second) deskTab ''k'' (fst (hub_run chatCalls NewHub)) of
      (h', Inl e) \<Rightarrow> False | (h', Inr (c, d)) \<Rightarrow> hcText c = ''hi'' \<and> hcSessionID c = ''s1'' \<and> d = 9 * second"
    by code_simp
  then have r: "case hub_Claim (2 * second) deskTab ''k'' h of
      (h', Inl e) \<Rightarrow> False | (h', Inr (c, d)) \<Rightarrow> hcText c = ''hi'' \<and> hcSessionID c = ''s1'' \<and> d = 9 * second"
    by (simp only: run fst_conv)
  obtain h' q where q: "hub_Claim (2 * second) deskTab ''k'' h = (h', q)" by (rule prod.exhaust)
  from r obtain p where "q = Inr p" unfolding q prod.case by (cases q) (simp_all only: sum.case)
  then obtain c d where c: "hub_Claim (2 * second) deskTab ''k'' h = (h', Inr (c, d))" using q by (cases p) simp
  from r have t: "hcText c = ''hi''" "hcSessionID c = ''s1''" "d = 9 * second" unfolding c prod.case sum.case by blast+
  have "unclaimed c \<in> set (sent rs)" using hub_claim_once [OF run c] by blast
  then show ?thesis using c t unfolding run Let_def prod.case by (intro exI [of _ h'] exI [of _ c] exI [of _ d] conjI)
qed

text \<open>
  Property C34.  Stop clears the remote.  Whatever happened before a \<open>Clear\<close> and whatever calls follow
  it, a command that is claimed afterwards was sent after it.
\<close>

theorem hub_clear_fences:
  assumes "hub_run xs NewHub = (h0, rs0)" and "hub_run (HClear now reason # ys) h0 = (h, rs)" and "c \<in> set (claims rs)"
  shows "unclaimed c \<in> set (sent rs) \<and> hbSequence h0 < hcSequence c"
proof -
  have inv: "hub_inv h0" by (rule hub_run_inv [OF assms(1) hub_inv_new])
  define h1 where "h1 = hub_Clear now reason h0"
  have s: "shrinks h0 h1" "hbPending h1 = []"
    using shrinks_drop by (auto simp: h1_def hub_Clear_def shrinks_touch)
  then have h1: "spent {..hbSequence h0} h1" "known {} h1" by (simp_all add: spent_def known_def shrinks_def)
  obtain rs1 where rs1: "hub_run ys h1 = (h, rs1)" "rs = ReplyNone # rs1"
    using assms(2) by (auto simp: h1_def apsnd_def map_prod_def split: prod.splits)
  have c: "claims rs = claims rs1" "sent rs = sent rs1" by (simp_all add: rs1(2) claims_def sent_def map_filter_def)
  from spent_run [OF rs1(1) hub_inv_shrinks [OF inv s(1)] h1] assms(3) show ?thesis
    unfolding c by (force simp: not_le [symmetric])
qed

definition resumedCalls :: "hub_op list" where
  "resumedCalls = [HSend second ''k'' phoneTab chatCommand, HClaim second deskTab ''k'']"

lemma hub_clear_fences_witness:
  "let (h, rs) = hub_run (HClear second ''Stop'' # resumedCalls) (fst (hub_run chatCalls NewHub)) in
     claims rs \<noteq> [] \<and> (\<forall>c \<in> set (claims rs). 1 < hcSequence c)"
proof -
  obtain h0 rs0 where a: "hub_run chatCalls NewHub = (h0, rs0)" by (cases "hub_run chatCalls NewHub")
  obtain h rs where b: "hub_run (HClear second ''Stop'' # resumedCalls) h0 = (h, rs)"
    by (cases "hub_run (HClear second ''Stop'' # resumedCalls) h0")
  have "hbSequence (fst (hub_run chatCalls NewHub)) = 1" by code_simp
  then have "\<forall>c \<in> set (claims rs). 1 < hcSequence c" using hub_clear_fences [OF a b] a by simp
  moreover have "claims (snd (hub_run (HClear second ''Stop'' # resumedCalls) (fst (hub_run chatCalls NewHub)))) \<noteq> []"
    by code_simp
  ultimately show ?thesis using a b by (simp del: hub_run.simps)
qed

text \<open>
  Property C35.  Another account learns nothing.  What a viewer who is not of the desktop's account is
  shown depends on nothing but whether a desktop is present: any two hubs that agree on that show the same.
\<close>

theorem hub_hides_other_account:
  assumes "DesktopAccount viewer \<noteq> hiAccount (hbExecutor h)" and "DesktopAccount viewer \<noteq> hiAccount (hbExecutor g)"
    and "presentLocked now h = presentLocked now g"
  shows "snd (hub_State now viewer h) = snd (hub_State now viewer g)"
  using hub_State_other [OF assms(1), of now] hub_State_other [OF assms(2), of now] assms(3) by simp

lemma hub_hides_other_account_witness:
  "snd (hub_State second (phoneTab\<lparr>hiAccount := ''b''\<rparr>) (fst (hub_run chatCalls NewHub))) =
   snd (hub_State second (phoneTab\<lparr>hiAccount := ''b''\<rparr>) (fst (hub_run (take 1 chatCalls) NewHub))) \<and>
   snd (hub_State second phoneTab (fst (hub_run chatCalls NewHub))) \<noteq>
   snd (hub_State second phoneTab (fst (hub_run (take 1 chatCalls) NewHub)))"
proof
  show "snd (hub_State second (phoneTab\<lparr>hiAccount := ''b''\<rparr>) (fst (hub_run chatCalls NewHub))) =
      snd (hub_State second (phoneTab\<lparr>hiAccount := ''b''\<rparr>) (fst (hub_run (take 1 chatCalls) NewHub)))"
    by (rule hub_hides_other_account) code_simp+
  have "hsPending (snd (hub_State second phoneTab (fst (hub_run chatCalls NewHub)))) \<noteq>
      hsPending (snd (hub_State second phoneTab (fst (hub_run (take 1 chatCalls) NewHub))))" by code_simp
  then show "snd (hub_State second phoneTab (fst (hub_run chatCalls NewHub))) \<noteq>
      snd (hub_State second phoneTab (fst (hub_run (take 1 chatCalls) NewHub)))" by metis
qed

end
