(* ===== verification/LlmScheduler.thy ===== *)
theory LlmScheduler
  imports Prelude
begin

text \<open>
  The coordinator that keeps one language-model stream active at a time: \<open>llmRequestCoordinator\<close> of
  \<open>internal/httpapi/llm_scheduler.go\<close>.  Callers of \<open>acquire\<close> are goroutines that read the generation,
  then take turns under the mutex until they hold the lease, fail, or sleep on the channel \<open>changed\<close>.
  A channel is a number; it is open exactly while it is the coordinator's channel, because
  \<open>signalLocked\<close> closes the old one and makes a new one.  A lease is a number, and its cancel function
  records the cause of its first call.
\<close>

section \<open>State\<close>

datatype llm_priority = Autonomous | Interactive

datatype llm_cause = Preempted | SettingsChanged | RequestEnded

record llm_coordinator =
  lcActive :: bool
  lcPriority :: llm_priority
  lcCancel :: "nat option"
  lcWaiters :: nat
  lcChanged :: "nat option"
  lcGeneration :: nat
  lcChanging :: nat
  lcChannels :: nat \<comment> \<open>channels made so far\<close>
  lcLeases :: nat \<comment> \<open>leases granted so far\<close>
  lcCancelled :: "nat \<rightharpoonup> llm_cause"

definition newCoordinator :: llm_coordinator where
  "newCoordinator = \<lparr>lcActive = False, lcPriority = Autonomous, lcCancel = None, lcWaiters = 0, lcChanged = None,
     lcGeneration = 0, lcChanging = 0, lcChannels = 0, lcLeases = 0, lcCancelled = Map.empty\<rparr>"

datatype acquirer_phase =
    Starting
  | Ready
  | Sleeping nat
  | Leased nat
  | Released
  | Failed llm_cause

record acquirer =
  aqPriority :: llm_priority
  aqGeneration :: nat
  aqRegistered :: bool
  aqPhase :: acquirer_phase

section \<open>Sections under the lock\<close>

definition makeChannel :: "llm_coordinator \<Rightarrow> llm_coordinator" where
  "makeChannel c = c\<lparr>lcChanged := Some (lcChannels c), lcChannels := Suc (lcChannels c)\<rparr>"

text \<open>Closing the old channel and making a new one.\<close>

definition signalLocked :: "llm_coordinator \<Rightarrow> llm_coordinator" where
  "signalLocked c = makeChannel c"

text \<open>The first call of a context's cancel function decides its cause.\<close>

definition cancelLease :: "llm_cause \<Rightarrow> nat option \<Rightarrow> llm_coordinator \<Rightarrow> llm_coordinator" where
  "cancelLease cause l c =
     (case l of
        None \<Rightarrow> c
      | Some k \<Rightarrow> if lcCancelled c k = None then c\<lparr>lcCancelled := (lcCancelled c)(k \<mapsto> cause)\<rparr> else c)"

definition acquire_start :: "llm_coordinator \<Rightarrow> acquirer \<Rightarrow> acquirer" where
  "acquire_start c a = a\<lparr>aqGeneration := lcGeneration c, aqPhase := Ready\<rparr>"

definition acquire_fail :: "llm_cause \<Rightarrow> acquirer \<Rightarrow> llm_coordinator \<Rightarrow> llm_coordinator \<times> acquirer" where
  "acquire_fail e a c =
     (if aqRegistered a then signalLocked (c\<lparr>lcWaiters := lcWaiters c - 1\<rparr>) else c, a\<lparr>aqPhase := Failed e\<rparr>)"

definition acquire_register :: "acquirer \<Rightarrow> llm_coordinator \<Rightarrow> llm_coordinator \<times> acquirer" where
  "acquire_register a c =
     (if aqPriority a = Interactive \<and> \<not> aqRegistered a then
        let c1 = c\<lparr>lcWaiters := Suc (lcWaiters c)\<rparr>;
            c2 = (if lcActive c1 \<and> lcPriority c1 = Autonomous then cancelLease Preempted (lcCancel c1) c1 else c1) in
        (signalLocked c2, a\<lparr>aqRegistered := True\<rparr>)
      else (c, a))"

definition grantable :: "llm_priority \<Rightarrow> llm_coordinator \<Rightarrow> bool" where
  "grantable p c \<longleftrightarrow> \<not> lcActive c \<and> lcChanging c = 0 \<and> (p = Interactive \<or> lcWaiters c = 0)"

definition acquire_grant :: "acquirer \<Rightarrow> llm_coordinator \<Rightarrow> llm_coordinator \<times> acquirer" where
  "acquire_grant a c =
     (let l = lcLeases c;
          c1 = c\<lparr>lcLeases := Suc l, lcActive := True, lcPriority := aqPriority a, lcCancel := Some l,
                 lcWaiters := (if aqRegistered a then lcWaiters c - 1 else lcWaiters c)\<rparr> in
      (signalLocked c1, a\<lparr>aqPhase := Leased l\<rparr>))"

text \<open>One turn of the loop; \<open>ctxErr\<close> says that the caller's context has ended.\<close>

definition acquire_turn :: "bool \<Rightarrow> acquirer \<Rightarrow> llm_coordinator \<Rightarrow> llm_coordinator \<times> acquirer" where
  "acquire_turn ctxErr a c =
     (if aqGeneration a \<noteq> lcGeneration c then acquire_fail SettingsChanged a c
      else if ctxErr then acquire_fail RequestEnded a c
      else
        let c1 = (if lcChanged c = None then makeChannel c else c) in
        case acquire_register a c1 of (c2, b) \<Rightarrow>
          if grantable (aqPriority b) c2 then acquire_grant b c2
          else (c2, b\<lparr>aqPhase := Sleeping (the (lcChanged c2))\<rparr>))"

definition release_lease :: "nat \<Rightarrow> llm_coordinator \<Rightarrow> llm_coordinator" where
  "release_lease l c = signalLocked ((cancelLease RequestEnded (Some l) c)\<lparr>lcActive := False, lcCancel := None\<rparr>)"

definition llm_invalidate :: "llm_coordinator \<Rightarrow> llm_coordinator" where
  "llm_invalidate c =
     signalLocked (cancelLease SettingsChanged (lcCancel c) (c\<lparr>lcGeneration := Suc (lcGeneration c)\<rparr>))"

definition beginChange :: "llm_coordinator \<Rightarrow> llm_coordinator" where
  "beginChange c =
     signalLocked (cancelLease SettingsChanged (lcCancel c)
       (c\<lparr>lcChanging := Suc (lcChanging c), lcGeneration := Suc (lcGeneration c)\<rparr>))"

definition endChange :: "llm_coordinator \<Rightarrow> llm_coordinator" where
  "endChange c = signalLocked (c\<lparr>lcChanging := lcChanging c - 1\<rparr>)"

section \<open>Callers and their interleaving\<close>

record llm_world =
  lwCoordinator :: llm_coordinator
  lwAcquirers :: "acquirer list"
  lwChanges :: nat \<comment> \<open>changes begun and not yet finished\<close>

definition newLlmWorld :: llm_world where
  "newLlmWorld = \<lparr>lwCoordinator = newCoordinator, lwAcquirers = [], lwChanges = 0\<rparr>"

datatype llm_event =
    Call llm_priority
  | Start nat
  | Turn nat bool
  | Wake nat bool
  | EndLease nat
  | Release nat
  | Invalidate
  | BeginChange
  | EndChange

definition set_acquirer :: "nat \<Rightarrow> llm_coordinator \<times> acquirer \<Rightarrow> llm_world \<Rightarrow> llm_world" where
  "set_acquirer i r w = w\<lparr>lwCoordinator := fst r, lwAcquirers := (lwAcquirers w)[i := snd r]\<rparr>"

text \<open>
  \<open>None\<close>: the event is not possible now.  \<open>EndLease\<close> is the end of the caller's own context, or the
  cancellation that opens its release; \<open>Release\<close> is the section that follows.
\<close>

definition llm_event_step :: "llm_event \<Rightarrow> llm_world \<Rightarrow> llm_world option" where
  "llm_event_step x w =
     (let c = lwCoordinator w; as = lwAcquirers w in
      case x of
        Call p \<Rightarrow> Some (w\<lparr>lwAcquirers := as @ [\<lparr>aqPriority = p, aqGeneration = 0, aqRegistered = False, aqPhase = Starting\<rparr>]\<rparr>)
      | Start i \<Rightarrow>
          if i < length as \<and> aqPhase (as ! i) = Starting
          then Some (set_acquirer i (c, acquire_start c (as ! i)) w) else None
      | Turn i ctxErr \<Rightarrow>
          if i < length as \<and> aqPhase (as ! i) = Ready
          then Some (set_acquirer i (acquire_turn ctxErr (as ! i) c) w) else None
      | Wake i ctxDone \<Rightarrow>
          if i < length as then
            (case aqPhase (as ! i) of
               Sleeping k \<Rightarrow> if ctxDone \<or> lcChanged c \<noteq> Some k
                 then Some (set_acquirer i (c, (as ! i)\<lparr>aqPhase := Ready\<rparr>) w) else None
             | _ \<Rightarrow> None)
          else None
      | EndLease i \<Rightarrow>
          if i < length as then
            (case aqPhase (as ! i) of
               Leased l \<Rightarrow> Some (w\<lparr>lwCoordinator := cancelLease RequestEnded (Some l) c\<rparr>)
             | _ \<Rightarrow> None)
          else None
      | Release i \<Rightarrow>
          if i < length as then
            (case aqPhase (as ! i) of
               Leased l \<Rightarrow> Some (set_acquirer i (release_lease l c, (as ! i)\<lparr>aqPhase := Released\<rparr>) w)
             | _ \<Rightarrow> None)
          else None
      | Invalidate \<Rightarrow> Some (w\<lparr>lwCoordinator := llm_invalidate c\<rparr>)
      | BeginChange \<Rightarrow> Some (w\<lparr>lwCoordinator := beginChange c, lwChanges := Suc (lwChanges w)\<rparr>)
      | EndChange \<Rightarrow>
          if 0 < lwChanges w then Some (w\<lparr>lwCoordinator := endChange c, lwChanges := lwChanges w - 1\<rparr>) else None)"

fun llm_run :: "llm_event list \<Rightarrow> llm_world \<Rightarrow> llm_world option" where
  "llm_run [] w = Some w"
| "llm_run (x # xs) w = Option.bind (llm_event_step x w) (llm_run xs)"

section \<open>The invariant\<close>

definition in_loop :: "acquirer \<Rightarrow> bool" where
  "in_loop a \<longleftrightarrow> aqPhase a = Ready \<or> (\<exists>k. aqPhase a = Sleeping k)"

definition waits_registered :: "acquirer \<Rightarrow> bool" where
  "waits_registered a \<longleftrightarrow> aqRegistered a \<and> in_loop a"

definition holds_lease :: "acquirer \<Rightarrow> bool" where
  "holds_lease a \<longleftrightarrow> (\<exists>l. aqPhase a = Leased l)"

text \<open>An acquirer asleep on the open channel: nothing has changed since its turn, and it cannot be served.\<close>

definition rightly_asleep :: "llm_coordinator \<Rightarrow> acquirer \<Rightarrow> bool" where
  "rightly_asleep c a \<longleftrightarrow> aqGeneration a = lcGeneration c \<and> \<not> grantable (aqPriority a) c"

definition acquirer_ok :: "llm_coordinator \<Rightarrow> acquirer \<Rightarrow> bool" where
  "acquirer_ok c a \<longleftrightarrow>
     (aqRegistered a \<longrightarrow> aqPriority a = Interactive \<and> aqPhase a \<noteq> Starting) \<and>
     (\<forall>k. aqPhase a = Sleeping k \<longrightarrow> k < lcChannels c \<and> (aqPriority a = Interactive \<longrightarrow> aqRegistered a) \<and>
        (lcChanged c = Some k \<longrightarrow> rightly_asleep c a)) \<and>
     (\<forall>l. aqPhase a = Leased l \<longrightarrow> lcCancel c = Some l)"

definition llm_inv :: "llm_world \<Rightarrow> bool" where
  "llm_inv w \<longleftrightarrow>
     lcWaiters (lwCoordinator w) = length (filter waits_registered (lwAcquirers w)) \<and>
     of_bool (lcActive (lwCoordinator w)) = length (filter holds_lease (lwAcquirers w)) \<and>
     lcChanging (lwCoordinator w) = lwChanges w \<and>
     (\<forall>k. lcChanged (lwCoordinator w) = Some k \<longrightarrow> k < lcChannels (lwCoordinator w)) \<and>
     (\<forall>a \<in> set (lwAcquirers w). acquirer_ok (lwCoordinator w) a)"

section \<open>Preservation\<close>

lemmas llm_defs = acquire_turn_def acquire_fail_def acquire_register_def acquire_grant_def signalLocked_def makeChannel_def
  cancelLease_def release_lease_def llm_invalidate_def beginChange_def endChange_def

lemma cancelLease_fields [simp]:
  "lcActive (cancelLease e l c) = lcActive c" "lcPriority (cancelLease e l c) = lcPriority c"
  "lcCancel (cancelLease e l c) = lcCancel c" "lcWaiters (cancelLease e l c) = lcWaiters c"
  "lcChanged (cancelLease e l c) = lcChanged c" "lcGeneration (cancelLease e l c) = lcGeneration c"
  "lcChanging (cancelLease e l c) = lcChanging c" "lcChannels (cancelLease e l c) = lcChannels c"
  "lcLeases (cancelLease e l c) = lcLeases c"
  by (simp_all add: cancelLease_def split: option.split)

lemma signal_fields [simp]:
  "lcActive (signalLocked c) = lcActive c" "lcCancel (signalLocked c) = lcCancel c" "lcWaiters (signalLocked c) = lcWaiters c"
  "lcChanged (signalLocked c) = Some (lcChannels c)" "lcGeneration (signalLocked c) = lcGeneration c"
  "lcChanging (signalLocked c) = lcChanging c" "lcChannels (signalLocked c) = Suc (lcChannels c)"
  "lcPriority (signalLocked c) = lcPriority c" "lcLeases (signalLocked c) = lcLeases c"
  by (simp_all add: signalLocked_def makeChannel_def)

lemma make_fields [simp]:
  "lcActive (makeChannel c) = lcActive c" "lcCancel (makeChannel c) = lcCancel c" "lcWaiters (makeChannel c) = lcWaiters c"
  "lcChanged (makeChannel c) = Some (lcChannels c)" "lcGeneration (makeChannel c) = lcGeneration c"
  "lcChanging (makeChannel c) = lcChanging c" "lcChannels (makeChannel c) = Suc (lcChannels c)"
  "lcPriority (makeChannel c) = lcPriority c" "lcLeases (makeChannel c) = lcLeases c"
  by (simp_all add: makeChannel_def)

lemma grantable_cong: "lcActive d = lcActive c \<Longrightarrow> lcChanging d = lcChanging c \<Longrightarrow> lcWaiters d = lcWaiters c \<Longrightarrow>
    grantable p d = grantable p c"
  by (simp add: grantable_def)

text \<open>The coordinator has signalled since: a new channel is open that nobody sleeps on yet.\<close>

definition signalled :: "llm_coordinator \<Rightarrow> llm_coordinator \<Rightarrow> bool" where
  "signalled c d \<longleftrightarrow> lcChannels c \<le> lcChannels d \<and> (\<forall>k. lcChanged d = Some k \<longrightarrow> lcChannels c \<le> k \<and> k < lcChannels d)"

lemma acquirer_ok_signalled:
  "acquirer_ok c a \<Longrightarrow> signalled c d \<Longrightarrow> lcCancel d = lcCancel c \<or> \<not> holds_lease a \<Longrightarrow> acquirer_ok d a"
  by (fastforce simp: acquirer_ok_def signalled_def holds_lease_def)

text \<open>A turn: the counts it moves, and that it signals whatever it changes.\<close>

definition turned :: "llm_coordinator \<Rightarrow> acquirer \<Rightarrow> llm_coordinator \<Rightarrow> acquirer \<Rightarrow> bool" where
  "turned c a d b \<longleftrightarrow>
     lcWaiters d + of_bool (waits_registered a) = lcWaiters c + of_bool (waits_registered b) \<and>
     of_bool (lcActive d) = of_bool (lcActive c) + (of_bool (holds_lease b) :: nat) \<and>
     lcChanging d = lcChanging c \<and> (\<forall>k. lcChanged d = Some k \<longrightarrow> k < lcChannels d) \<and> acquirer_ok d b \<and>
     (d = c \<or> signalled c d) \<and> (lcCancel d = lcCancel c \<or> \<not> lcActive c)"

lemma in_loop_phase [simp]:
  "in_loop (a\<lparr>aqPhase := Failed e\<rparr>) = False" "in_loop (a\<lparr>aqPhase := Leased l\<rparr>) = False"
  "in_loop (a\<lparr>aqPhase := Sleeping k\<rparr>) = True" "in_loop (a\<lparr>aqPhase := Ready\<rparr>) = True"
  "in_loop (a\<lparr>aqPhase := Released\<rparr>) = False"
  by (simp_all add: in_loop_def)

lemma turn_effect:
  assumes t: "acquire_turn e a c = (d, b)" and p: "aqPhase a = Ready" and a: "acquirer_ok c a"
    and k: "\<forall>k. lcChanged c = Some k \<longrightarrow> k < lcChannels c" and w: "aqRegistered a \<longrightarrow> 0 < lcWaiters c"
  shows "turned c a d b"
proof -
  have loop: "in_loop a" "\<not> holds_lease a" using p by (simp_all add: in_loop_def holds_lease_def)
  have fail: "turned c a d b" if "acquire_fail x a c = (d, b)" for x
    using that k w a loop
    by (auto simp: acquire_fail_def turned_def waits_registered_def holds_lease_def acquirer_ok_def signalled_def split: if_splits)
  show ?thesis
  proof (cases "aqGeneration a \<noteq> lcGeneration c \<or> e")
    case True
    then show ?thesis using t fail by (auto simp: acquire_turn_def split: if_splits)
  next
    case False
    define c1 where "c1 = (if lcChanged c = None then makeChannel c else c)"
    obtain c2 b2 where r: "acquire_register a c1 = (c2, b2)" by (cases "acquire_register a c1")
    have go: "(if grantable (aqPriority b2) c2 then acquire_grant b2 c2
        else (c2, b2\<lparr>aqPhase := Sleeping (the (lcChanged c2))\<rparr>)) = (d, b)"
      using t False r by (simp add: acquire_turn_def c1_def Let_def)
    have c1: "lcActive c1 = lcActive c" "lcWaiters c1 = lcWaiters c" "lcChanging c1 = lcChanging c" "lcGeneration c1 = lcGeneration c"
        "lcCancel c1 = lcCancel c" "lcChannels c \<le> lcChannels c1" "\<exists>k. lcChanged c1 = Some k \<and> k < lcChannels c1"
        "c1 = c \<or> signalled c c1"
      using k by (auto simp: c1_def signalled_def)
    have r2: "aqPriority b2 = aqPriority a" "aqGeneration b2 = aqGeneration a" "aqPhase b2 = Ready" "lcActive c2 = lcActive c"
        "lcChanging c2 = lcChanging c" "lcGeneration c2 = lcGeneration c" "lcCancel c2 = lcCancel c"
        "\<exists>k. lcChanged c2 = Some k \<and> k < lcChannels c2" "aqRegistered b2 \<longleftrightarrow> aqPriority a = Interactive"
        "lcWaiters c2 + of_bool (aqRegistered a) = lcWaiters c + of_bool (aqRegistered b2)"
        "c2 = c \<or> signalled c c2" "aqRegistered b2 \<longrightarrow> 0 < lcWaiters c2"
      using r c1 p a w unfolding acquire_register_def Let_def
      by (auto simp: acquirer_ok_def signalled_def split: if_splits)
    show ?thesis
    proof (cases "grantable (aqPriority b2) c2")
      case True
      then have g: "\<not> lcActive c" "d = signalLocked (c2\<lparr>lcLeases := Suc (lcLeases c2), lcActive := True, lcPriority := aqPriority b2,
          lcCancel := Some (lcLeases c2), lcWaiters := (if aqRegistered b2 then lcWaiters c2 - 1 else lcWaiters c2)\<rparr>)"
          "b = b2\<lparr>aqPhase := Leased (lcLeases c2)\<rparr>"
        using go r2 by (auto simp: acquire_grant_def grantable_def Let_def)
      show ?thesis using g r2 loop unfolding turned_def
        by (auto simp: waits_registered_def holds_lease_def acquirer_ok_def signalled_def)
    next
      case False
      then have g: "d = c2" "b = b2\<lparr>aqPhase := Sleeping (the (lcChanged c2))\<rparr>" using go by auto
      then show ?thesis using r2 loop False \<open>\<not> (aqGeneration a \<noteq> lcGeneration c \<or> e)\<close> unfolding turned_def
        by (auto simp: waits_registered_def holds_lease_def acquirer_ok_def rightly_asleep_def)
    qed
  qed
qed

lemma inv_turned:
  assumes inv: "llm_inv w" and i: "i < length (lwAcquirers w)" and t: "turned (lwCoordinator w) (lwAcquirers w ! i) d b"
    and h: "\<not> holds_lease (lwAcquirers w ! i)"
  shows "llm_inv (set_acquirer i (d, b) w)"
proof -
  let ?c = "lwCoordinator w" and ?a = "lwAcquirers w ! i"
  have counts: "lcWaiters ?c = length (filter waits_registered (lwAcquirers w))"
      "of_bool (lcActive ?c) = length (filter holds_lease (lwAcquirers w))" "lcChanging ?c = lwChanges w"
    using inv by (auto simp: llm_inv_def)
  have "lcWaiters d = length (filter waits_registered ((lwAcquirers w)[i := b]))"
    using filter_update [OF i, of waits_registered b] counts(1) t by (simp add: turned_def)
  moreover have "of_bool (lcActive d) = length (filter holds_lease ((lwAcquirers w)[i := b]))"
    using filter_update [OF i, of holds_lease b] counts(2) t h by (simp add: turned_def)
  moreover have "acquirer_ok d x" if "x \<in> set ((lwAcquirers w)[i := b])" for x
  proof -
    have "x = b \<or> x \<in> set (lwAcquirers w)" using that set_update_subset_insert [of "lwAcquirers w" i b] by blast
    then consider "x = b" | "x \<in> set (lwAcquirers w)" by blast
    then show ?thesis
    proof cases
      case 1
      then show ?thesis using t by (simp add: turned_def)
    next
      case 2
      then have x: "acquirer_ok ?c x" using inv by (simp add: llm_inv_def)
      have "holds_lease x \<longrightarrow> lcActive ?c"
        using filter_pos [OF 2, of holds_lease] counts(2) by (cases "lcActive ?c") auto
      then show ?thesis using t x acquirer_ok_signalled [OF x] by (auto simp: turned_def)
    qed
  qed
  ultimately show ?thesis using t counts(3) by (auto simp: llm_inv_def set_acquirer_def turned_def)
qed

lemma llm_inv_signal:
  assumes inv: "llm_inv w" and s: "signalled (lwCoordinator w) d" "lcCancel d = lcCancel (lwCoordinator w)"
    and f: "lcWaiters d = lcWaiters (lwCoordinator w)" "lcActive d = lcActive (lwCoordinator w)"
  shows "llm_inv (w\<lparr>lwCoordinator := d, lwChanges := lcChanging d\<rparr>)"
  using inv s f acquirer_ok_signalled [of "lwCoordinator w" _ d] by (auto simp: llm_inv_def signalled_def)

lemma llm_inv_event:
  assumes inv: "llm_inv w" and e: "llm_event_step x w = Some v"
  shows "llm_inv v"
proof -
  let ?c = "lwCoordinator w" and ?as = "lwAcquirers w"
  have ok: "acquirer_ok ?c (?as ! i)" if "i < length ?as" for i using inv that by (simp add: llm_inv_def)
  have k: "\<forall>k. lcChanged ?c = Some k \<longrightarrow> k < lcChannels ?c" using inv by (simp add: llm_inv_def)
  show ?thesis
  proof (cases x)
    case (Call p)
    then show ?thesis using inv e
      by (auto simp: llm_event_step_def Let_def llm_inv_def acquirer_ok_def waits_registered_def holds_lease_def in_loop_def)
  next
    case (Start i)
    then have i: "i < length ?as" "aqPhase (?as ! i) = Starting" "v = set_acquirer i (?c, acquire_start ?c (?as ! i)) w"
      using e by (auto simp: llm_event_step_def Let_def split: if_splits)
    have "turned ?c (?as ! i) ?c (acquire_start ?c (?as ! i))" using ok [OF i(1)] i(2) k
      by (auto simp: turned_def acquire_start_def waits_registered_def holds_lease_def acquirer_ok_def in_loop_def)
    then show ?thesis using inv_turned [OF inv i(1)] i(2,3) by (simp add: holds_lease_def)
  next
    case (Turn i ctxErr)
    then have i: "i < length ?as" "aqPhase (?as ! i) = Ready" "v = set_acquirer i (acquire_turn ctxErr (?as ! i) ?c) w"
      using e by (auto simp: llm_event_step_def Let_def split: if_splits)
    obtain d b where d: "acquire_turn ctxErr (?as ! i) ?c = (d, b)" by (cases "acquire_turn ctxErr (?as ! i) ?c")
    have "aqRegistered (?as ! i) \<longrightarrow> 0 < lcWaiters ?c"
      using filter_pos [of "?as ! i" ?as waits_registered] i inv by (auto simp: waits_registered_def in_loop_def llm_inv_def)
    from turn_effect [OF d i(2) ok [OF i(1)] k this] show ?thesis
      using inv_turned [OF inv i(1)] i(2,3) d by (simp add: holds_lease_def)
  next
    case (Wake i ctxDone)
    then obtain n where i: "i < length ?as" "aqPhase (?as ! i) = Sleeping n"
        "v = set_acquirer i (?c, (?as ! i)\<lparr>aqPhase := Ready\<rparr>) w"
      using e by (auto simp: llm_event_step_def Let_def split: if_splits acquirer_phase.splits)
    have "turned ?c (?as ! i) ?c ((?as ! i)\<lparr>aqPhase := Ready\<rparr>)" using ok [OF i(1)] i(2) k
      by (auto simp: turned_def waits_registered_def holds_lease_def acquirer_ok_def in_loop_def)
    then show ?thesis using inv_turned [OF inv i(1)] i(2,3) by (simp add: holds_lease_def)
  next
    case (EndLease i)
    then obtain l where v: "v = w\<lparr>lwCoordinator := cancelLease RequestEnded (Some l) ?c\<rparr>"
      using e by (auto simp: llm_event_step_def Let_def split: if_splits acquirer_phase.splits)
    have "acquirer_ok (cancelLease RequestEnded (Some l) ?c) = acquirer_ok ?c"
      by (rule ext) (simp add: acquirer_ok_def rightly_asleep_def grantable_def)
    then show ?thesis using inv v by (simp add: llm_inv_def)
  next
    case (Release i)
    then obtain l where i: "i < length ?as" "aqPhase (?as ! i) = Leased l"
        "v = set_acquirer i (release_lease l ?c, (?as ! i)\<lparr>aqPhase := Released\<rparr>) w"
      using e by (auto simp: llm_event_step_def Let_def split: if_splits acquirer_phase.splits)
    let ?d = "release_lease l ?c" and ?b = "(?as ! i)\<lparr>aqPhase := Released\<rparr>"
    have f: "lcWaiters ?d = lcWaiters ?c" "\<not> lcActive ?d" "lcChanging ?d = lcChanging ?c" "signalled ?c ?d"
      by (simp_all add: release_lease_def signalled_def)
    have w: "of_bool (lcActive ?c) = length (filter holds_lease ?as)" using inv by (simp add: llm_inv_def)
    have h: "holds_lease (?as ! i)" "\<not> waits_registered (?as ! i)" "\<not> holds_lease ?b" "\<not> waits_registered ?b"
      using i(2) by (simp_all add: holds_lease_def waits_registered_def in_loop_def)
    have none: "length (filter holds_lease (?as[i := ?b])) = 0"
    proof -
      have "length (filter holds_lease ?as) \<le> 1" using w by (cases "lcActive ?c") auto
      moreover have "Suc (length (filter holds_lease (?as[i := ?b]))) = length (filter holds_lease ?as)"
        using filter_update [OF i(1), of holds_lease ?b] h by simp
      ultimately show ?thesis by linarith
    qed
    moreover have "acquirer_ok ?d y" if "y \<in> set (?as[i := ?b])" for y
    proof -
      have "\<not> holds_lease y" using none that by (auto simp: filter_empty_conv)
      moreover have "acquirer_ok ?c y"
        using that set_update_subset_insert [of ?as i ?b] inv ok [OF i(1)]
        by (auto simp: llm_inv_def acquirer_ok_def)
      ultimately show ?thesis using acquirer_ok_signalled [OF _ f(4)] by blast
    qed
    ultimately show ?thesis
      using inv i(3) f filter_update [OF i(1), of waits_registered ?b] h
      by (auto simp: llm_inv_def set_acquirer_def signalled_def)
  next
    case Invalidate
    then have v: "v = w\<lparr>lwCoordinator := llm_invalidate ?c\<rparr>" using e by (simp add: llm_event_step_def Let_def)
    have "llm_inv (w\<lparr>lwCoordinator := llm_invalidate ?c, lwChanges := lcChanging (llm_invalidate ?c)\<rparr>)"
      by (rule llm_inv_signal [OF inv]) (simp_all add: llm_invalidate_def signalled_def)
    moreover have "lcChanging (llm_invalidate ?c) = lwChanges w" using inv by (simp add: llm_inv_def llm_invalidate_def)
    ultimately show ?thesis using v by simp
  next
    case BeginChange
    then have v: "v = w\<lparr>lwCoordinator := beginChange ?c, lwChanges := Suc (lwChanges w)\<rparr>"
      using e by (simp add: llm_event_step_def Let_def)
    have "llm_inv (w\<lparr>lwCoordinator := beginChange ?c, lwChanges := lcChanging (beginChange ?c)\<rparr>)"
      by (rule llm_inv_signal [OF inv]) (simp_all add: beginChange_def signalled_def)
    moreover have "lcChanging (beginChange ?c) = Suc (lwChanges w)" using inv by (simp add: llm_inv_def beginChange_def)
    ultimately show ?thesis using v by simp
  next
    case EndChange
    then have v: "v = w\<lparr>lwCoordinator := endChange ?c, lwChanges := lwChanges w - 1\<rparr>"
      using e by (auto simp: llm_event_step_def Let_def split: if_splits)
    have "llm_inv (w\<lparr>lwCoordinator := endChange ?c, lwChanges := lcChanging (endChange ?c)\<rparr>)"
      by (rule llm_inv_signal [OF inv]) (simp_all add: endChange_def signalled_def)
    moreover have "lcChanging (endChange ?c) = lwChanges w - 1" using inv by (simp add: llm_inv_def endChange_def)
    ultimately show ?thesis using v by simp
  qed
qed

lemma llm_inv_new: "llm_inv newLlmWorld"
  by (simp add: llm_inv_def newLlmWorld_def newCoordinator_def)

interpretation llm: machine "\<lambda>w. w = newLlmWorld" "\<lambda>w v. \<exists>x. llm_event_step x w = Some v" llm_inv
  by unfold_locales (auto intro: llm_inv_new llm_inv_event)

lemma llm_run_inv: "llm_run xs w = Some v \<Longrightarrow> llm_inv w \<Longrightarrow> llm_inv v"
  by (induction xs arbitrary: w) (auto simp: Option.bind_eq_Some_conv intro: llm_inv_event)

text \<open>A lease is granted to a caller of the current generation, with nothing in its way.\<close>

lemma turn_grants:
  assumes "acquire_turn e a c = (d, b)" "aqPhase b = Leased l" "aqPhase a = Ready"
  shows "aqGeneration a = lcGeneration c \<and> \<not> lcActive c \<and> lcChanging c = 0 \<and> \<not> e \<and>
    (aqPriority a = Autonomous \<longrightarrow> lcWaiters c = 0)"
  using assms
  by (auto simp: acquire_turn_def acquire_fail_def acquire_register_def acquire_grant_def grantable_def Let_def
      split: if_splits)

section \<open>Properties\<close>

text \<open>
  Property C36.  One stream at a time, and chat first.  Whatever callers come, go, cancel or sleep, at
  most one of them holds the lease, and exactly when the coordinator is active.  A lease is granted only
  to a caller that came after the last change of settings, while no change is under way, and to an
  autonomous caller only while no chat request waits.
\<close>

theorem llm_one_stream:
  assumes run: "llm_run xs newLlmWorld = Some w"
  shows "length (filter holds_lease (lwAcquirers w)) = of_bool (lcActive (lwCoordinator w)) \<and>
    (\<forall>i e. i < length (lwAcquirers w) \<and> aqPhase (lwAcquirers w ! i) = Ready \<and>
        holds_lease (snd (acquire_turn e (lwAcquirers w ! i) (lwCoordinator w))) \<longrightarrow>
      filter holds_lease (lwAcquirers w) = [] \<and> lwChanges w = 0 \<and>
      aqGeneration (lwAcquirers w ! i) = lcGeneration (lwCoordinator w) \<and>
      (aqPriority (lwAcquirers w ! i) = Autonomous \<longrightarrow> filter waits_registered (lwAcquirers w) = []))"
proof -
  have inv: "llm_inv w" by (rule llm_run_inv [OF run llm_inv_new])
  then have c: "lcWaiters (lwCoordinator w) = length (filter waits_registered (lwAcquirers w))"
      "of_bool (lcActive (lwCoordinator w)) = length (filter holds_lease (lwAcquirers w))"
      "lcChanging (lwCoordinator w) = lwChanges w"
    by (simp_all add: llm_inv_def)
  have "filter holds_lease (lwAcquirers w) = [] \<and> lwChanges w = 0 \<and>
      aqGeneration (lwAcquirers w ! i) = lcGeneration (lwCoordinator w) \<and>
      (aqPriority (lwAcquirers w ! i) = Autonomous \<longrightarrow> filter waits_registered (lwAcquirers w) = [])"
    if r: "aqPhase (lwAcquirers w ! i) = Ready" and h: "holds_lease (snd (acquire_turn e (lwAcquirers w ! i) (lwCoordinator w)))"
    for i e
  proof -
    obtain d b where d: "acquire_turn e (lwAcquirers w ! i) (lwCoordinator w) = (d, b)"
      by (cases "acquire_turn e (lwAcquirers w ! i) (lwCoordinator w)")
    then obtain l where "aqPhase b = Leased l" using h by (auto simp: holds_lease_def)
    from turn_grants [OF d this r] show ?thesis using c by auto
  qed
  then show ?thesis using c(2) by auto
qed

text \<open>
  Property C37.  No wake-up is lost.  In every reachable world a caller that sleeps on the channel that is
  still open belongs to the current generation and could not be served if it took its turn now; so
  whenever something changes for a sleeper, its channel has been closed and it can wake.
\<close>

theorem llm_no_lost_wakeup:
  assumes "llm_run xs newLlmWorld = Some w" and "i < length (lwAcquirers w)" and "aqPhase (lwAcquirers w ! i) = Sleeping k"
  shows "llm_event_step (Wake i False) w \<noteq> None \<or>
    aqGeneration (lwAcquirers w ! i) = lcGeneration (lwCoordinator w) \<and>
    \<not> grantable (aqPriority (lwAcquirers w ! i)) (lwCoordinator w) \<and>
    \<not> holds_lease (snd (acquire_turn False (lwAcquirers w ! i) (lwCoordinator w)))"
proof -
  have "llm_inv w" by (rule llm_run_inv [OF assms(1) llm_inv_new])
  then have a: "acquirer_ok (lwCoordinator w) (lwAcquirers w ! i)" using assms(2) by (simp add: llm_inv_def)
  show ?thesis
  proof (cases "lcChanged (lwCoordinator w) = Some k")
    case True
    then have "rightly_asleep (lwCoordinator w) (lwAcquirers w ! i)"
        "aqPriority (lwAcquirers w ! i) = Interactive \<longrightarrow> aqRegistered (lwAcquirers w ! i)"
      using a assms(3) by (simp_all add: acquirer_ok_def)
    then show ?thesis
      using True by (auto simp: rightly_asleep_def acquire_turn_def acquire_register_def holds_lease_def)
  next
    case False
    then show ?thesis using assms(2,3) by (simp add: llm_event_step_def Let_def)
  qed
qed

text \<open>A chat request waits behind an autonomous stream; a change of settings begins, the stream is released, the change ends.\<close>

definition llm_contended :: "llm_event list" where
  "llm_contended = [Call Autonomous, Start 0, Turn 0 False, Call Interactive, Start 1, Turn 1 False, Release 0]"

lemma llm_one_stream_witness:
  "\<exists>w. llm_run llm_contended newLlmWorld = Some w \<and> length (filter holds_lease (lwAcquirers w)) = 0"
proof -
  have ok: "llm_run llm_contended newLlmWorld \<noteq> None \<and>
      \<not> lcActive (lwCoordinator (the (llm_run llm_contended newLlmWorld)))"
    by code_simp
  obtain w where w: "llm_run llm_contended newLlmWorld = Some w" using ok by blast
  then show ?thesis using llm_one_stream [OF w] ok by simp
qed

lemma llm_no_lost_wakeup_witness:
  "\<exists>w. llm_run llm_contended newLlmWorld = Some w \<and> llm_event_step (Wake 1 False) w \<noteq> None"
proof -
  have ok: "llm_run llm_contended newLlmWorld \<noteq> None \<and>
      (let w = the (llm_run llm_contended newLlmWorld) in 1 < length (lwAcquirers w) \<and>
        aqPhase (lwAcquirers w ! 1) = Sleeping 2 \<and> grantable (aqPriority (lwAcquirers w ! 1)) (lwCoordinator w))"
    by code_simp
  obtain w where w: "llm_run llm_contended newLlmWorld = Some w" using ok by blast
  then have "1 < length (lwAcquirers w)" "aqPhase (lwAcquirers w ! 1) = Sleeping 2"
      "grantable (aqPriority (lwAcquirers w ! 1)) (lwCoordinator w)"
    using ok by (simp_all add: Let_def)
  with llm_no_lost_wakeup [OF w, of 1 2] show ?thesis using w by auto
qed

end
