(* ===== verification/StopAdmission.thy ===== *)
theory StopAdmission
  imports Prelude
begin

text \<open>
  How overlapping Stop requests share one dispatch: \<open>stopAdmissionRuntime\<close> of
  \<open>internal/httpapi/stop_admission.go\<close>, its use in \<open>emergencyStopWithAdmission\<close> and
  \<open>dispatchEmergencyStop\<close> of \<open>motion.go\<close>, and what \<open>client_motion.go\<close> reads from the outcome.

  A batch is an index into the list of batches made so far.  A request is a goroutine whose phase says
  where in \<open>emergencyStopWithAdmission\<close> it is; a step is one section under a mutex or one wait that
  ends.  Device answers, timers and panics are the arguments of the events.
\<close>

section \<open>Outcomes\<close>

record stop_result =
  srStop :: bool \<comment> \<open>the kind of the command is Stop\<close>
  srOK :: bool

record stop_outcome =
  soPending :: bool
  soLastResult :: "stop_result option"
  soTransportResult :: stop_result
  soEngineAvailable :: bool
  soTransportAvailable :: bool

datatype stop_error = ConfirmationPending | DeviceError

type_synonym stop_reply = "stop_outcome \<times> stop_error option"

definition zeroResult :: stop_result where
  "zeroResult = \<lparr>srStop = False, srOK = False\<rparr>"

definition zeroOutcome :: stop_outcome where
  "zeroOutcome = \<lparr>soPending = False, soLastResult = None, soTransportResult = zeroResult, soEngineAvailable = False,
     soTransportAvailable = False\<rparr>"

definition pendingReply :: stop_reply where
  "pendingReply = (zeroOutcome\<lparr>soPending := True\<rparr>, Some ConfirmationPending)"

definition stopConfirmation :: "stop_reply \<Rightarrow> bool \<times> bool" where
  "stopConfirmation r =
     (case r of (out, err) \<Rightarrow>
        let result = (if soEngineAvailable out \<and> soLastResult out \<noteq> None then the (soLastResult out) else soTransportResult out) in
        (soEngineAvailable out \<or> soTransportAvailable out, err = None \<and> srStop result \<and> srOK result))"

text \<open>What the public reply says: status, stopped, confirmed.\<close>

definition writePublicStopResult :: "stop_reply \<Rightarrow> int \<times> bool \<times> bool" where
  "writePublicStopResult r =
     (if soPending (fst r) then (503, False, False)
      else case stopConfirmation r of (available, confirmed) \<Rightarrow>
        (if \<not> confirmed \<and> available then 502 else 200, True, confirmed))"

section \<open>The runtime\<close>

abbreviation (input) stopWaiterLimit :: nat where
  "stopWaiterLimit \<equiv> 16"

record stop_batch =
  sbReply :: "stop_reply option" \<comment> \<open>\<open>Some\<close> once \<open>done\<close> is closed\<close>
  sbStoppedAt :: "nat option" \<comment> \<open>starts admitted when the outputs were stopped\<close>

record stop_runtime =
  saActive :: "nat option"
  saWaiting :: nat
  saShared :: nat
  saPending :: nat
  saBatches :: "stop_batch list"

record stop_admission =
  arBatch :: nat
  arLeader :: bool
  arWaiting :: bool

definition newStopRuntime :: stop_runtime where
  "newStopRuntime = \<lparr>saActive = None, saWaiting = 0, saShared = 0, saPending = 0, saBatches = []\<rparr>"

definition stop_enter :: "stop_runtime \<Rightarrow> stop_runtime \<times> stop_admission" where
  "stop_enter s =
     (case saActive s of
        None \<Rightarrow>
          let b = length (saBatches s) in
          (s\<lparr>saActive := Some b, saBatches := saBatches s @ [\<lparr>sbReply = None, sbStoppedAt = None\<rparr>]\<rparr>,
           \<lparr>arBatch = b, arLeader = True, arWaiting = False\<rparr>)
      | Some b \<Rightarrow>
          let s1 = s\<lparr>saShared := Suc (saShared s)\<rparr> in
          if saWaiting s1 < stopWaiterLimit
          then (s1\<lparr>saWaiting := Suc (saWaiting s1)\<rparr>, \<lparr>arBatch = b, arLeader = False, arWaiting = True\<rparr>)
          else (s1\<lparr>saPending := Suc (saPending s1)\<rparr>, \<lparr>arBatch = b, arLeader = False, arWaiting = False\<rparr>))"

definition stop_complete :: "nat \<Rightarrow> stop_reply \<Rightarrow> stop_runtime \<Rightarrow> stop_runtime" where
  "stop_complete b r s =
     (if saActive s \<noteq> Some b then s
      else s\<lparr>saActive := None, saBatches := (saBatches s)[b := (saBatches s ! b)\<lparr>sbReply := Some r\<rparr>]\<rparr>)"

definition stop_release :: "stop_admission \<Rightarrow> stop_runtime \<Rightarrow> stop_runtime" where
  "stop_release a s =
     (if arLeader a then stop_complete (arBatch a) pendingReply s
      else if arWaiting a then s\<lparr>saWaiting := saWaiting s - 1\<rparr> else s)"

section \<open>Requests\<close>

text \<open>
  The leader's phases: before the lifecycle lock, holding it, with the outcome ready, completed but
  not yet unlocked; a follower's: waiting, past its deadline.  \<open>Answering\<close> has its reply and still has to
  release.
\<close>

datatype stop_phase =
    Leading
  | Locked
  | Dispatched stop_reply
  | Completed stop_reply
  | Awaiting
  | TimedOut
  | Answering stop_reply
  | Answered stop_reply

record stop_request =
  sqAdmission :: stop_admission
  sqPhase :: stop_phase
  sqEntered :: nat \<comment> \<open>starts admitted when the request entered\<close>

record stop_world =
  swRuntime :: stop_runtime
  swRequests :: "stop_request list"
  swLifecycle :: "nat option" \<comment> \<open>the request that holds \<open>lifecycleMu\<close>\<close>
  swAdmissions :: nat \<comment> \<open>starts admitted so far\<close>

definition newStopWorld :: stop_world where
  "newStopWorld = \<lparr>swRuntime = newStopRuntime, swRequests = [], swLifecycle = None, swAdmissions = 0\<rparr>"

text \<open>
  What the dispatch hears: with an engine the last result of its state and whether anything it joined
  failed; without one the result of the selected transport, whether it named itself and its error.
\<close>

datatype dispatch_answer =
    EngineAnswer "stop_result option" bool
  | TransportAnswer stop_result bool bool

text \<open>The outcome of \<open>dispatchEmergencyStop\<close>; \<open>others\<close> is an error of the Coyote's zero or of Intiface.\<close>

fun dispatch_outcome :: "dispatch_answer \<Rightarrow> bool \<Rightarrow> stop_reply" where
  "dispatch_outcome (EngineAnswer result failed) others =
     (zeroOutcome\<lparr>soLastResult := result, soEngineAvailable := True\<rparr>, if failed \<or> others then Some DeviceError else None)"
| "dispatch_outcome (TransportAnswer result named failed) others =
     (zeroOutcome\<lparr>soTransportResult := result, soTransportAvailable := (\<not> failed \<or> named)\<rparr>,
      if failed \<or> others then Some DeviceError else None)"

datatype stop_event =
    EnterStop
  | AdmitStart
  | LockLifecycle nat
  | DispatchStop nat dispatch_answer bool
  | PanicDispatch nat bool
  | CompleteStop nat
  | UnlockLifecycle nat
  | AwaitDone nat
  | AwaitTimeout nat
  | CountPending nat
  | ReleaseStop nat
  | PanicEarly nat

definition set_phase :: "nat \<Rightarrow> stop_phase \<Rightarrow> stop_world \<Rightarrow> stop_world" where
  "set_phase i p w = w\<lparr>swRequests := (swRequests w)[i := (swRequests w ! i)\<lparr>sqPhase := p\<rparr>]\<rparr>"

definition at_phase :: "stop_world \<Rightarrow> nat \<Rightarrow> stop_phase \<Rightarrow> bool" where
  "at_phase w i p \<longleftrightarrow> i < length (swRequests w) \<and> sqPhase (swRequests w ! i) = p"

definition batch_of :: "stop_world \<Rightarrow> nat \<Rightarrow> nat" where
  "batch_of w i = arBatch (sqAdmission (swRequests w ! i))"

text \<open>The outputs are stopped under the lifecycle lock.\<close>

definition mark_stopped :: "nat \<Rightarrow> stop_world \<Rightarrow> stop_world" where
  "mark_stopped b w = w\<lparr>swRuntime := (swRuntime w)\<lparr>saBatches :=
     (saBatches (swRuntime w))[b := (saBatches (swRuntime w) ! b)\<lparr>sbStoppedAt := Some (swAdmissions w)\<rparr>]\<rparr>\<rparr>"

text \<open>\<open>await\<close> of a request that is neither leader nor waiting answers at once.\<close>

definition entered_phase :: "stop_admission \<Rightarrow> stop_phase" where
  "entered_phase a = (if arLeader a then Leading else if arWaiting a then Awaiting else Answering pendingReply)"

text \<open>
  \<open>None\<close>: the event is not possible now.  \<open>AdmitStart\<close> is a section under the lifecycle lock that hands
  out an admission generation (\<open>motionEngineForStart\<close>, \<open>motionAdmissionFor\<close>).  A panic of the dispatch
  still runs its deferred calls, with the outcome it had (\<open>PanicDispatch\<close>); one before the lock leaves the
  batch to \<open>release\<close> (\<open>PanicEarly\<close>).  The phases of a panicking leader go on, without a reply to a client.
\<close>

definition stop_step :: "stop_event \<Rightarrow> stop_world \<Rightarrow> stop_world option" where
  "stop_step x w =
     (let s = swRuntime w; rs = swRequests w in
      case x of
        EnterStop \<Rightarrow>
          (case stop_enter s of (s1, a) \<Rightarrow>
             Some (w\<lparr>swRuntime := s1,
               swRequests := rs @ [\<lparr>sqAdmission = a, sqPhase = entered_phase a, sqEntered = swAdmissions w\<rparr>]\<rparr>))
      | AdmitStart \<Rightarrow> if swLifecycle w = None then Some (w\<lparr>swAdmissions := Suc (swAdmissions w)\<rparr>) else None
      | LockLifecycle i \<Rightarrow>
          if at_phase w i Leading \<and> swLifecycle w = None then Some ((set_phase i Locked w)\<lparr>swLifecycle := Some i\<rparr>) else None
      | DispatchStop i answer others \<Rightarrow>
          if at_phase w i Locked
          then Some (set_phase i (Dispatched (dispatch_outcome answer others)) (mark_stopped (batch_of w i) w)) else None
      | PanicDispatch i others \<Rightarrow>
          if at_phase w i Locked
          then Some (set_phase i (Dispatched (zeroOutcome, if others then Some DeviceError else None)) w) else None
      | CompleteStop i \<Rightarrow>
          if i < length rs then
            (case sqPhase (rs ! i) of
               Dispatched r \<Rightarrow> Some ((set_phase i (Completed r) w)\<lparr>swRuntime := stop_complete (batch_of w i) r s\<rparr>)
             | _ \<Rightarrow> None)
          else None
      | UnlockLifecycle i \<Rightarrow>
          if i < length rs then
            (case sqPhase (rs ! i) of
               Completed r \<Rightarrow> Some ((set_phase i (Answering r) w)\<lparr>swLifecycle := None\<rparr>)
             | _ \<Rightarrow> None)
          else None
      | AwaitDone i \<Rightarrow>
          if at_phase w i Awaiting then
            (case sbReply (saBatches s ! batch_of w i) of
               Some r \<Rightarrow> Some (set_phase i (Answering r) w)
             | None \<Rightarrow> None)
          else None
      | AwaitTimeout i \<Rightarrow> if at_phase w i Awaiting then Some (set_phase i TimedOut w) else None
      | CountPending i \<Rightarrow>
          if at_phase w i TimedOut
          then Some ((set_phase i (Answering pendingReply) w)\<lparr>swRuntime := s\<lparr>saPending := Suc (saPending s)\<rparr>\<rparr>) else None
      | ReleaseStop i \<Rightarrow>
          if i < length rs then
            (case sqPhase (rs ! i) of
               Answering r \<Rightarrow> Some ((set_phase i (Answered r) w)\<lparr>swRuntime := stop_release (sqAdmission (rs ! i)) s\<rparr>)
             | _ \<Rightarrow> None)
          else None
      | PanicEarly i \<Rightarrow>
          if at_phase w i Leading then Some (set_phase i (Answering pendingReply) w) else None)"

fun stop_run :: "stop_event list \<Rightarrow> stop_world \<Rightarrow> stop_world option" where
  "stop_run [] w = Some w"
| "stop_run (x # xs) w = Option.bind (stop_step x w) (stop_run xs)"

section \<open>The invariant\<close>

fun holds_lock :: "stop_phase \<Rightarrow> bool" where
  "holds_lock Locked = True"
| "holds_lock (Dispatched r) = True"
| "holds_lock (Completed r) = True"
| "holds_lock _ = False"

fun leads :: "stop_phase \<Rightarrow> bool" where
  "leads Leading = True"
| "leads Locked = True"
| "leads (Dispatched r) = True"
| "leads _ = False"

fun reply_of :: "stop_phase \<Rightarrow> stop_reply option" where
  "reply_of (Completed r) = Some r"
| "reply_of (Answering r) = Some r"
| "reply_of (Answered r) = Some r"
| "reply_of _ = None"

definition confirmed :: "stop_reply \<Rightarrow> bool" where
  "confirmed r \<longleftrightarrow> snd (stopConfirmation r)"

definition holds_slot :: "stop_request \<Rightarrow> bool" where
  "holds_slot q \<longleftrightarrow> arWaiting (sqAdmission q) \<and> (\<forall>r. sqPhase q \<noteq> Answered r)"

definition stop_request_ok :: "stop_runtime \<Rightarrow> nat option \<Rightarrow> nat \<Rightarrow> nat \<Rightarrow> stop_request \<Rightarrow> bool" where
  "stop_request_ok s lock adm i q \<longleftrightarrow>
     (let a = sqAdmission q; b = arBatch a; p = sqPhase q in
      b < length (saBatches s) \<and> sqEntered q \<le> adm \<and> (arLeader a \<longrightarrow> \<not> arWaiting a) \<and>
      (holds_lock p \<longleftrightarrow> lock = Some i) \<and> (leads p \<longrightarrow> saActive s = Some b) \<and>
      (leads p \<or> holds_lock p \<longrightarrow> arLeader a) \<and> (p = Awaiting \<or> p = TimedOut \<longrightarrow> arWaiting a) \<and>
      (\<forall>r. reply_of p = Some r \<longrightarrow> r = pendingReply \<or> sbReply (saBatches s ! b) = Some r) \<and>
      (\<forall>r. p = Dispatched r \<and> confirmed r \<longrightarrow> sbStoppedAt (saBatches s ! b) \<noteq> None) \<and>
      (\<forall>r k. sbReply (saBatches s ! b) = Some r \<and> confirmed r \<and> sbStoppedAt (saBatches s ! b) = Some k \<longrightarrow> sqEntered q \<le> k))"

definition stop_batch_ok :: "stop_world \<Rightarrow> nat \<Rightarrow> bool" where
  "stop_batch_ok w b \<longleftrightarrow>
     (let s = swRuntime w; rs = swRequests w; x = saBatches s ! b in
      (\<forall>r. sbReply x = Some r \<and> confirmed r \<longrightarrow> sbStoppedAt x \<noteq> None) \<and> (sbReply x = None \<longrightarrow> saActive s = Some b) \<and>
      (\<forall>k. sbStoppedAt x = Some k \<longrightarrow> k \<le> swAdmissions w \<and>
         (sbReply x = None \<longrightarrow> k = swAdmissions w \<and>
            (\<exists>i < length rs. leads (sqPhase (rs ! i)) \<and> swLifecycle w = Some i \<and> batch_of w i = b))))"

definition active_ok :: "stop_world \<Rightarrow> bool" where
  "active_ok w \<longleftrightarrow>
     (\<forall>b. saActive (swRuntime w) = Some b \<longrightarrow>
        b < length (saBatches (swRuntime w)) \<and> sbReply (saBatches (swRuntime w) ! b) = None \<and>
        (\<exists>i < length (swRequests w). arLeader (sqAdmission (swRequests w ! i)) \<and> batch_of w i = b \<and>
           (leads (sqPhase (swRequests w ! i)) \<or> sqPhase (swRequests w ! i) = Answering pendingReply)))"

definition leaders_distinct :: "stop_request list \<Rightarrow> bool" where
  "leaders_distinct rs \<longleftrightarrow>
     (\<forall>i < length rs. \<forall>j < length rs. arLeader (sqAdmission (rs ! i)) \<and> arLeader (sqAdmission (rs ! j)) \<and>
        arBatch (sqAdmission (rs ! i)) = arBatch (sqAdmission (rs ! j)) \<longrightarrow> i = j)"

definition stop_inv :: "stop_world \<Rightarrow> bool" where
  "stop_inv w \<longleftrightarrow>
     saWaiting (swRuntime w) = length (filter holds_slot (swRequests w)) \<and> saWaiting (swRuntime w) \<le> stopWaiterLimit \<and>
     (\<forall>i < length (swRequests w). stop_request_ok (swRuntime w) (swLifecycle w) (swAdmissions w) i (swRequests w ! i)) \<and>
     (\<forall>i. swLifecycle w = Some i \<longrightarrow> i < length (swRequests w)) \<and>
     (\<forall>b < length (saBatches (swRuntime w)). stop_batch_ok w b) \<and> active_ok w \<and> leaders_distinct (swRequests w)"

section \<open>Preservation\<close>

lemma confirmed_simps [simp]:
  "\<not> confirmed pendingReply" "\<not> confirmed (zeroOutcome, e)"
  by (simp_all add: confirmed_def stopConfirmation_def pendingReply_def zeroOutcome_def zeroResult_def)

lemma set_phase_fields [simp]:
  "swRuntime (set_phase i p w) = swRuntime w" "swLifecycle (set_phase i p w) = swLifecycle w"
  "swAdmissions (set_phase i p w) = swAdmissions w" "length (swRequests (set_phase i p w)) = length (swRequests w)"
  "swRequests (set_phase i p w) = (swRequests w)[i := (swRequests w ! i)\<lparr>sqPhase := p\<rparr>]"
  by (simp_all add: set_phase_def)

lemma batch_of_phase [simp]: "batch_of (set_phase i p w) j = batch_of w j"
  by (cases "i < length (swRequests w)") (auto simp: batch_of_def nth_list_update not_less list_update_beyond)

text \<open>What the followers of a dispatch that panicked under the lock are told.\<close>

lemma panicked_dispatch_reply: "writePublicStopResult (zeroOutcome, None) = (200, True, False)"
  by (simp add: writePublicStopResult_def stopConfirmation_def zeroOutcome_def zeroResult_def)

text \<open>A request that moves on: what its new phase must satisfy.\<close>

lemma inv_move:
  assumes inv: "stop_inv w" and i: "i < length (swRequests w)" and q: "q = swRequests w ! i"
    and rt: "saActive s = saActive (swRuntime w)" "saBatches s = saBatches (swRuntime w)"
    and ok: "stop_request_ok (swRuntime w) l (swAdmissions w) i (q\<lparr>sqPhase := p\<rparr>)"
    and lock: "l = swLifecycle w \<or> (swLifecycle w = None \<and> l = Some i) \<or> (swLifecycle w = Some i \<and> l = None)"
    and slot: "saWaiting s + of_bool (holds_slot q) = saWaiting (swRuntime w) + of_bool (holds_slot (q\<lparr>sqPhase := p\<rparr>))"
      "holds_slot (q\<lparr>sqPhase := p\<rparr>) \<longrightarrow> holds_slot q"
    and lead: "leads (sqPhase q) \<longrightarrow> leads p \<or> p = Answering pendingReply \<and> sqPhase q = Leading"
    and answer: "sqPhase q \<noteq> Answering pendingReply \<or> \<not> arLeader (sqAdmission q) \<or> saActive s \<noteq> Some (arBatch (sqAdmission q))"
    and locked: "swLifecycle w = Some i \<and> l = None \<longrightarrow> \<not> leads (sqPhase q)"
  shows "stop_inv ((set_phase i p w)\<lparr>swRuntime := s, swLifecycle := l\<rparr>)"
proof -
  let ?w = "(set_phase i p w)\<lparr>swRuntime := s, swLifecycle := l\<rparr>" and ?rs = "(swRequests w)[i := q\<lparr>sqPhase := p\<rparr>]"
  have f: "swRuntime ?w = s" "swRequests ?w = ?rs" "swLifecycle ?w = l" "swAdmissions ?w = swAdmissions w"
      "\<And>j. batch_of ?w j = batch_of w j"
    using q i by (simp_all add: batch_of_def nth_list_update)
  have old: "stop_request_ok (swRuntime w) (swLifecycle w) (swAdmissions w) j (swRequests w ! j)"
    if "j < length (swRequests w)" for j
    using inv that by (simp add: stop_inv_def)
  have "saWaiting s = length (filter holds_slot ?rs)" "saWaiting s \<le> saWaiting (swRuntime w)"
    using filter_update [OF i, of holds_slot "q\<lparr>sqPhase := p\<rparr>"] slot q inv
    by (cases "holds_slot q"; cases "holds_slot (q\<lparr>sqPhase := p\<rparr>)"; simp add: stop_inv_def)+
  moreover have "stop_request_ok s l (swAdmissions w) j (?rs ! j)" if j: "j < length (swRequests w)" for j
  proof (cases "j = i")
    case True
    then show ?thesis using ok i rt by (simp add: stop_request_ok_def)
  next
    case False
    then show ?thesis using old [OF j] lock rt by (auto simp: stop_request_ok_def Let_def)
  qed
  moreover have "stop_batch_ok ?w b" if b: "b < length (saBatches (swRuntime w))" for b
  proof -
    have "stop_batch_ok w b" using inv b by (simp add: stop_inv_def)
    moreover have "\<exists>j < length ?rs. leads (sqPhase (?rs ! j)) \<and> l = Some j \<and> batch_of w j = b"
      if j: "j < length (swRequests w)" "leads (sqPhase (swRequests w ! j))" "swLifecycle w = Some j" "batch_of w j = b" for j
    proof -
      have l: "l = Some j" using lock locked j q by auto
      have "leads (sqPhase (?rs ! j))"
      proof (cases "j = i")
        case True
        then have "sqPhase q \<noteq> Leading" using old [OF j(1)] j(3) q by (auto simp: stop_request_ok_def Let_def)
        then show ?thesis using True lead j(2) q i by auto
      qed (use j(2) in simp)
      then show ?thesis using l j by auto
    qed
    ultimately show ?thesis using rt unfolding stop_batch_ok_def f Let_def by auto
  qed
  moreover have "active_ok ?w"
  proof -
    have "active_ok w" using inv by (simp add: stop_inv_def)
    moreover have "\<exists>j < length ?rs. arLeader (sqAdmission (?rs ! j)) \<and> batch_of w j = b \<and>
        (leads (sqPhase (?rs ! j)) \<or> sqPhase (?rs ! j) = Answering pendingReply)"
      if "saActive s = Some b" "j < length (swRequests w)" "arLeader (sqAdmission (swRequests w ! j))" "batch_of w j = b"
        "leads (sqPhase (swRequests w ! j)) \<or> sqPhase (swRequests w ! j) = Answering pendingReply" for j b
    proof (cases "j = i")
      case True
      then show ?thesis using that lead answer q i by (intro exI [of _ i]) (auto simp: batch_of_def)
    next
      case False
      then show ?thesis using that by (intro exI [of _ j]) simp
    qed
    ultimately show ?thesis using rt unfolding active_ok_def f by (metis length_list_update)
  qed
  moreover have "leaders_distinct ?rs"
  proof -
    have same: "sqAdmission (?rs ! j) = sqAdmission (swRequests w ! j)" for j
      using q i by (cases "j = i") auto
    show ?thesis using inv unfolding leaders_distinct_def same length_list_update by (simp add: stop_inv_def leaders_distinct_def)
  qed
  ultimately show ?thesis using inv i rt lock unfolding stop_inv_def f by auto
qed

lemma inv_old:
  assumes "stop_inv w" and "i < length (swRequests w)"
  shows "stop_request_ok (swRuntime w) (swLifecycle w) (swAdmissions w) i (swRequests w ! i)"
  using assms by (simp add: stop_inv_def)

lemma inv_step_move:
  assumes inv: "stop_inv w" and e: "stop_step x w = Some v"
    and x: "x \<in> {LockLifecycle i, PanicDispatch i b, UnlockLifecycle i, AwaitDone i, AwaitTimeout i, CountPending i, PanicEarly i}"
  shows "stop_inv v"
proof -
  have i: "i < length (swRequests w)"
    using e x by (auto simp: stop_step_def Let_def at_phase_def split: if_splits stop_phase.splits option.splits)
  note old = inv_old [OF inv i, unfolded stop_request_ok_def Let_def]
  have slots: "holds_slot (q\<lparr>sqPhase := p\<rparr>) = holds_slot q" if "\<forall>r. p \<noteq> Answered r" "\<forall>r. sqPhase q \<noteq> Answered r" for q p
    using that by (simp add: holds_slot_def)
  note move = inv_move [OF inv i refl]
  from x consider "x = LockLifecycle i" | "x = PanicDispatch i b" | "x = UnlockLifecycle i" | "x = AwaitDone i" |
      "x = AwaitTimeout i" | "x = CountPending i" | "x = PanicEarly i" by auto
  then show ?thesis
  proof cases
    case 1
    then have p: "sqPhase (swRequests w ! i) = Leading" "swLifecycle w = None" "v = (set_phase i Locked w)\<lparr>swRuntime := swRuntime w, swLifecycle := Some i\<rparr>"
      using e by (auto simp: stop_step_def Let_def at_phase_def set_phase_def split: if_splits)
    show ?thesis unfolding p(3)
      by (rule move) (use old p in \<open>auto simp: stop_request_ok_def Let_def slots\<close>)
  next
    case 2
    define r where "r = (zeroOutcome, if b then Some DeviceError else None)"
    have p: "sqPhase (swRequests w ! i) = Locked" "\<not> confirmed r"
        "v = (set_phase i (Dispatched r) w)\<lparr>swRuntime := swRuntime w, swLifecycle := swLifecycle w\<rparr>"
      using 2 e by (simp_all add: r_def stop_step_def Let_def at_phase_def set_phase_def split: if_splits)
    show ?thesis unfolding p(3)
      by (rule move) (use old p in \<open>auto simp: stop_request_ok_def Let_def slots\<close>)
  next
    case 3
    then obtain r where p: "sqPhase (swRequests w ! i) = Completed r"
        "v = (set_phase i (Answering r) w)\<lparr>swRuntime := swRuntime w, swLifecycle := None\<rparr>"
      using e by (auto simp: stop_step_def Let_def at_phase_def set_phase_def split: if_splits stop_phase.splits)
    show ?thesis unfolding p(2)
      by (rule move) (use old p in \<open>auto simp: stop_request_ok_def Let_def slots\<close>)
  next
    case 4
    then obtain r where p: "sqPhase (swRequests w ! i) = Awaiting" "sbReply (saBatches (swRuntime w) ! batch_of w i) = Some r"
        "v = (set_phase i (Answering r) w)\<lparr>swRuntime := swRuntime w, swLifecycle := swLifecycle w\<rparr>"
      using e by (auto simp: stop_step_def Let_def at_phase_def set_phase_def split: if_splits option.splits)
    show ?thesis unfolding p(3)
      by (rule move) (use old p in \<open>auto simp: stop_request_ok_def Let_def slots batch_of_def\<close>)
  next
    case 5
    then have p: "sqPhase (swRequests w ! i) = Awaiting"
        "v = (set_phase i TimedOut w)\<lparr>swRuntime := swRuntime w, swLifecycle := swLifecycle w\<rparr>"
      using e by (auto simp: stop_step_def Let_def at_phase_def set_phase_def split: if_splits)
    show ?thesis unfolding p(2)
      by (rule move) (use old p in \<open>auto simp: stop_request_ok_def Let_def slots\<close>)
  next
    case 6
    then have p: "sqPhase (swRequests w ! i) = TimedOut"
        "v = (set_phase i (Answering pendingReply) w)\<lparr>swRuntime := (swRuntime w)\<lparr>saPending := Suc (saPending (swRuntime w))\<rparr>,
          swLifecycle := swLifecycle w\<rparr>"
      using e by (auto simp: stop_step_def Let_def at_phase_def set_phase_def split: if_splits)
    show ?thesis unfolding p(2)
      by (rule move) (use old p in \<open>auto simp: stop_request_ok_def Let_def slots\<close>)
  next
    case 7
    then have p: "sqPhase (swRequests w ! i) = Leading"
        "v = (set_phase i (Answering pendingReply) w)\<lparr>swRuntime := swRuntime w, swLifecycle := swLifecycle w\<rparr>"
      using e by (auto simp: stop_step_def Let_def at_phase_def set_phase_def split: if_splits)
    show ?thesis unfolding p(2)
      by (rule move) (use old p in \<open>auto simp: stop_request_ok_def Let_def slots\<close>)
  qed
qed

lemma inv_admit:
  assumes inv: "stop_inv w" and e: "stop_step AdmitStart w = Some v"
  shows "stop_inv v"
proof -
  have v: "swLifecycle w = None" "v = w\<lparr>swAdmissions := Suc (swAdmissions w)\<rparr>"
    using e by (auto simp: stop_step_def Let_def split: if_splits)
  have "stop_request_ok (swRuntime w) (swLifecycle w) (Suc (swAdmissions w)) i (swRequests w ! i)"
    if "i < length (swRequests w)" for i
    using inv_old [OF inv that] by (auto simp: stop_request_ok_def Let_def)
  moreover have "stop_batch_ok v b" if "b < length (saBatches (swRuntime w))" for b
  proof -
    have "stop_batch_ok w b" using inv that by (simp add: stop_inv_def)
    then show ?thesis using v(1) by (auto simp: v(2) stop_batch_ok_def Let_def)
  qed
  moreover have "active_ok v" using inv by (simp add: v(2) stop_inv_def active_ok_def batch_of_def)
  ultimately show ?thesis using inv unfolding stop_inv_def v(2) by simp
qed

lemma inv_release_waiting:
  assumes inv: "stop_inv w" and i: "i < length (swRequests w)" and p: "sqPhase (swRequests w ! i) = Answering r"
    and a: "\<not> arLeader (sqAdmission (swRequests w ! i)) \<or> saActive (swRuntime w) \<noteq> Some (batch_of w i)"
  shows "stop_inv ((set_phase i (Answered r) w)\<lparr>swRuntime := stop_release (sqAdmission (swRequests w ! i)) (swRuntime w)\<rparr>)"
proof -
  let ?q = "swRequests w ! i"
  note old = inv_old [OF inv i, unfolded stop_request_ok_def Let_def]
  have w: "arWaiting (sqAdmission ?q) \<longrightarrow> 0 < saWaiting (swRuntime w)"
    using inv i p by (auto simp: stop_inv_def filter_empty_conv holds_slot_def)
  have "stop_inv ((set_phase i (Answered r) w)\<lparr>swRuntime := stop_release (sqAdmission ?q) (swRuntime w), swLifecycle := swLifecycle w\<rparr>)"
    by (rule inv_move [OF inv i refl])
      (use old p a w in \<open>auto simp: stop_request_ok_def Let_def holds_slot_def stop_release_def stop_complete_def batch_of_def\<close>)
  then show ?thesis by (simp add: set_phase_def)
qed

text \<open>The leader of the active batch completes it.\<close>

lemma inv_complete_batch:
  assumes inv: "stop_inv w" and i: "i < length (swRequests w)" and b: "b = batch_of w i" "saActive (swRuntime w) = Some b"
    and l: "arLeader (sqAdmission (swRequests w ! i))" and c: "confirmed r \<longrightarrow> sbStoppedAt (saBatches (swRuntime w) ! b) \<noteq> None"
    and p: "holds_lock p \<longleftrightarrow> swLifecycle w = Some i" "\<not> leads p" "reply_of p = Some r" 
  shows "stop_inv ((set_phase i p w)\<lparr>swRuntime := stop_complete b r (swRuntime w)\<rparr>)"
proof -
  let ?w = "(set_phase i p w)\<lparr>swRuntime := stop_complete b r (swRuntime w)\<rparr>"
  let ?s = "swRuntime w" and ?q = "swRequests w ! i" and ?rs = "(swRequests w)[i := (swRequests w ! i)\<lparr>sqPhase := p\<rparr>]"
  have act: "b < length (saBatches ?s)" "sbReply (saBatches ?s ! b) = None"
    using inv b by (auto simp: stop_inv_def active_ok_def)
  define bs where "bs = (saBatches ?s)[b := (saBatches ?s ! b)\<lparr>sbReply := Some r\<rparr>]"
  have f: "swRuntime ?w = ?s\<lparr>saActive := None, saBatches := bs\<rparr>" "swRequests ?w = ?rs" "swLifecycle ?w = swLifecycle w"
      "swAdmissions ?w = swAdmissions w" "\<And>j. batch_of ?w j = batch_of w j"
    using b i by (simp_all add: stop_complete_def bs_def batch_of_def nth_list_update)
  have bs: "length bs = length (saBatches ?s)" "\<And>x. x \<noteq> b \<Longrightarrow> bs ! x = saBatches ?s ! x" "sbReply (bs ! b) = Some r"
      "\<And>x. sbStoppedAt (bs ! x) = sbStoppedAt (saBatches ?s ! x)"
    using act by (simp_all add: bs_def nth_list_update)
  have k: "k = swAdmissions w" if "sbStoppedAt (saBatches ?s ! b) = Some k" for k
    using inv act that by (auto simp: stop_inv_def stop_batch_ok_def Let_def)
  have alone: "j = i" if "j < length (swRequests w)" "leads (sqPhase (swRequests w ! j))" for j
  proof -
    have "arLeader (sqAdmission (swRequests w ! j))" "batch_of w j = b"
      using inv_old [OF inv that(1)] that b by (auto simp: stop_request_ok_def Let_def batch_of_def)
    then show ?thesis using inv that(1) i l b unfolding stop_inv_def leaders_distinct_def batch_of_def by metis
  qed
  have same: "sqAdmission (?rs ! j) = sqAdmission (swRequests w ! j)" for j using i by (cases "j = i") auto
  have slots: "length (filter holds_slot ?rs) = length (filter holds_slot (swRequests w))"
    using filter_update [OF i, of holds_slot "?q\<lparr>sqPhase := p\<rparr>"] inv_old [OF inv i] l
    by (auto simp: holds_slot_def stop_request_ok_def Let_def)
  moreover have "stop_request_ok (?s\<lparr>saActive := None, saBatches := bs\<rparr>) (swLifecycle w) (swAdmissions w) j (?rs ! j)"
    if j: "j < length (swRequests w)" for j
  proof (cases "j = i")
    case True
    have "p \<noteq> Awaiting" "p \<noteq> TimedOut" "\<forall>r. p \<noteq> Dispatched r" using p by auto
    then show ?thesis using True inv_old [OF inv i] i l p b k bs by (auto simp: stop_request_ok_def Let_def batch_of_def)
  next
    case False
    then have "\<not> leads (sqPhase (swRequests w ! j))" using alone j by blast
    moreover from this have "\<forall>r. sqPhase (swRequests w ! j) \<noteq> Dispatched r" by auto
    ultimately show ?thesis using False inv_old [OF inv j] k bs act
      by (cases "arBatch (sqAdmission (swRequests w ! j)) = b") (auto simp: stop_request_ok_def Let_def)
  qed
  moreover have "stop_batch_ok ?w x" if x: "x < length bs" for x
  proof -
    have old: "stop_batch_ok w x" using inv x bs(1) by (simp add: stop_inv_def)
    show ?thesis
    proof (cases "x = b")
      case True
      then show ?thesis using old c bs unfolding stop_batch_ok_def f Let_def by auto
    next
      case False
      have "\<forall>k. sbStoppedAt (saBatches ?s ! x) = Some k \<longrightarrow> sbReply (saBatches ?s ! x) \<noteq> None"
      proof (intro allI impI notI)
        fix k assume "sbStoppedAt (saBatches ?s ! x) = Some k" "sbReply (saBatches ?s ! x) = None"
        then obtain j where "j < length (swRequests w)" "leads (sqPhase (swRequests w ! j))" "batch_of w j = x"
          using old unfolding stop_batch_ok_def Let_def by blast
        then show False using alone False b by auto
      qed
      then show ?thesis using old False bs b(2) unfolding stop_batch_ok_def f Let_def by auto
    qed
  qed
  moreover have "active_ok ?w" unfolding active_ok_def f by simp
  moreover have "leaders_distinct ?rs"
    using inv unfolding leaders_distinct_def same length_list_update by (simp add: stop_inv_def leaders_distinct_def)
  ultimately show ?thesis using inv bs(1) unfolding stop_inv_def f by auto
qed

lemma inv_release:
  assumes inv: "stop_inv w" and e: "stop_step (ReleaseStop i) w = Some v"
  shows "stop_inv v"
proof -
  obtain r where i: "i < length (swRequests w)" "sqPhase (swRequests w ! i) = Answering r"
      "v = (set_phase i (Answered r) w)\<lparr>swRuntime := stop_release (sqAdmission (swRequests w ! i)) (swRuntime w)\<rparr>"
    using e by (auto simp: stop_step_def Let_def split: if_splits stop_phase.splits)
  show ?thesis
  proof (cases "arLeader (sqAdmission (swRequests w ! i)) \<and> saActive (swRuntime w) = Some (batch_of w i)")
    case True
    have "sbReply (saBatches (swRuntime w) ! batch_of w i) = None" using inv True by (auto simp: stop_inv_def active_ok_def)
    then have "r = pendingReply" using inv_old [OF inv i(1)] i(2) by (cases r) (auto simp: stop_request_ok_def Let_def batch_of_def)
    then have "stop_inv ((set_phase i (Answered r) w)\<lparr>swRuntime := stop_complete (batch_of w i) pendingReply (swRuntime w)\<rparr>)"
      using inv_complete_batch [OF inv i(1) refl _ _ _ _ _, of pendingReply "Answered r"] True inv_old [OF inv i(1)] i(2)
      by (auto simp: stop_request_ok_def Let_def)
    then show ?thesis using True i(3) by (simp add: stop_release_def batch_of_def)
  next
    case False
    then show ?thesis using inv_release_waiting [OF inv i(1,2)] i(3) by auto
  qed
qed

lemma inv_complete:
  assumes inv: "stop_inv w" and e: "stop_step (CompleteStop i) w = Some v"
  shows "stop_inv v"
proof -
  obtain r where i: "i < length (swRequests w)" "sqPhase (swRequests w ! i) = Dispatched r"
      "v = (set_phase i (Completed r) w)\<lparr>swRuntime := stop_complete (batch_of w i) r (swRuntime w)\<rparr>"
    using e by (auto simp: stop_step_def Let_def split: if_splits stop_phase.splits)
  have "arLeader (sqAdmission (swRequests w ! i))" "saActive (swRuntime w) = Some (batch_of w i)" "swLifecycle w = Some i"
      "confirmed r \<longrightarrow> sbStoppedAt (saBatches (swRuntime w) ! batch_of w i) \<noteq> None"
    using inv_old [OF inv i(1)] i(2) by (cases r, auto simp: stop_request_ok_def Let_def batch_of_def)+
  then show ?thesis unfolding i(3) by (intro inv_complete_batch [OF inv i(1) refl]) simp_all
qed

lemma inv_dispatch:
  assumes inv: "stop_inv w" and e: "stop_step (DispatchStop i x y) w = Some v"
  shows "stop_inv v"
proof -
  define r where "r = dispatch_outcome x y"
  let ?b = "batch_of w i" and ?s = "swRuntime w" and ?rs = "(swRequests w)[i := (swRequests w ! i)\<lparr>sqPhase := Dispatched r\<rparr>]"
  have i: "i < length (swRequests w)" "sqPhase (swRequests w ! i) = Locked" "v = set_phase i (Dispatched r) (mark_stopped ?b w)"
    using e by (auto simp: stop_step_def Let_def at_phase_def r_def split: if_splits)
  note old = inv_old [OF inv i(1), unfolded stop_request_ok_def Let_def]
  define bs where "bs = (saBatches ?s)[?b := (saBatches ?s ! ?b)\<lparr>sbStoppedAt := Some (swAdmissions w)\<rparr>]"
  have f: "swRuntime v = ?s\<lparr>saBatches := bs\<rparr>" "swRequests v = ?rs" "swLifecycle v = swLifecycle w"
      "swAdmissions v = swAdmissions w" "\<And>j. batch_of v j = batch_of w j"
    using i by (simp_all add: mark_stopped_def bs_def batch_of_def set_phase_def nth_list_update)
  have act: "?b < length (saBatches ?s)" "sbReply (saBatches ?s ! ?b) = None" "swLifecycle w = Some i"
      "arLeader (sqAdmission (swRequests w ! i))" "saActive ?s = Some ?b"
    using inv old i(2) by (auto simp: stop_inv_def active_ok_def batch_of_def)
  have bs: "length bs = length (saBatches ?s)" "\<And>x. sbReply (bs ! x) = sbReply (saBatches ?s ! x)"
      "\<And>x. x \<noteq> ?b \<Longrightarrow> sbStoppedAt (bs ! x) = sbStoppedAt (saBatches ?s ! x)" "sbStoppedAt (bs ! ?b) = Some (swAdmissions w)"
    using act by (simp_all add: bs_def nth_list_update)
  have same: "sqAdmission (?rs ! j) = sqAdmission (swRequests w ! j)" for j using i by (cases "j = i") auto
  have "length (filter holds_slot ?rs) = length (filter holds_slot (swRequests w))"
    using filter_update [OF i(1), of holds_slot "(swRequests w ! i)\<lparr>sqPhase := Dispatched r\<rparr>"] old act
    by (auto simp: holds_slot_def)
  moreover have "stop_request_ok (?s\<lparr>saBatches := bs\<rparr>) (swLifecycle w) (swAdmissions w) j (?rs ! j)"
    if j: "j < length (swRequests w)" for j
  proof (cases "j = i")
    case True
    then show ?thesis using old i act bs by (auto simp: stop_request_ok_def Let_def batch_of_def)
  next
    case False
    then show ?thesis using inv_old [OF inv j] bs act(2)
      by (cases "arBatch (sqAdmission (swRequests w ! j)) = ?b") (auto simp: stop_request_ok_def Let_def)
  qed
  moreover have "stop_batch_ok v x" if x: "x < length bs" for x
  proof (cases "x = ?b")
    case True
    then show ?thesis using bs act i unfolding stop_batch_ok_def f Let_def by auto
  next
    case False
    have "stop_batch_ok w x" using inv x bs(1) by (simp add: stop_inv_def)
    then show ?thesis using False act bs unfolding stop_batch_ok_def f Let_def by auto
  qed
  moreover have "active_ok v"
    using act bs i same unfolding active_ok_def f by (auto intro!: exI [of _ i])
  moreover have "leaders_distinct ?rs"
    using inv unfolding leaders_distinct_def same length_list_update by (simp add: stop_inv_def leaders_distinct_def)
  ultimately show ?thesis using inv bs(1) unfolding stop_inv_def f by auto
qed

lemma inv_enter:
  assumes inv: "stop_inv w" and e: "stop_step EnterStop w = Some v"
  shows "stop_inv v"
proof -
  let ?s = "swRuntime w" and ?rs = "swRequests w"
  obtain s1 a where sa: "stop_enter ?s = (s1, a)" by (cases "stop_enter ?s")
  define q where "q = \<lparr>sqAdmission = a, sqPhase = entered_phase a, sqEntered = swAdmissions w\<rparr>"
  have v: "v = w\<lparr>swRuntime := s1, swRequests := ?rs @ [q]\<rparr>" using e sa by (simp add: stop_step_def Let_def q_def)
  have len: "arBatch (sqAdmission (?rs ! j)) < length (saBatches ?s)" if "j < length ?rs" for j
    using inv_old [OF inv that] by (simp add: stop_request_ok_def Let_def)
  have lock: "swLifecycle w \<noteq> Some (length ?rs)" using inv by (auto simp: stop_inv_def)
  have nth: "(?rs @ [q]) ! j = (if j = length ?rs then q else ?rs ! j)" if "j < length (?rs @ [q])" for j
    using that by (auto simp: nth_append)
  show ?thesis
  proof (cases "saActive ?s")
    case None
    define bs where "bs = saBatches ?s @ [\<lparr>sbReply = None, sbStoppedAt = None\<rparr>]"
    have sa': "s1 = ?s\<lparr>saActive := Some (length (saBatches ?s)), saBatches := bs\<rparr>"
        "a = \<lparr>arBatch = length (saBatches ?s), arLeader = True, arWaiting = False\<rparr>"
      using sa None by (simp_all add: stop_enter_def Let_def bs_def)
    have q: "\<not> holds_slot q" "sqPhase q = Leading" "sqAdmission q = a" "sqEntered q = swAdmissions w"
      by (simp_all add: q_def holds_slot_def sa' entered_phase_def)
    have bs: "length bs = Suc (length (saBatches ?s))" "\<And>x. x < length (saBatches ?s) \<Longrightarrow> bs ! x = saBatches ?s ! x"
        "bs ! length (saBatches ?s) = \<lparr>sbReply = None, sbStoppedAt = None\<rparr>"
      by (simp_all add: bs_def nth_append)
    have none: "\<not> leads (sqPhase (?rs ! j))" if "j < length ?rs" for j
      using inv_old [OF inv that] None by (auto simp: stop_request_ok_def Let_def)
    have "stop_request_ok s1 (swLifecycle w) (swAdmissions w) j ((?rs @ [q]) ! j)" if j: "j < length (?rs @ [q])" for j
    proof (cases "j = length ?rs")
      case True
      then show ?thesis using q lock bs by (auto simp: stop_request_ok_def Let_def sa')
    next
      case False
      then have l: "j < length ?rs" using j by simp
      show ?thesis using inv_old [OF inv l] none [OF l] len [OF l] l bs
        by (auto simp: stop_request_ok_def Let_def sa' nth_append)
    qed
    moreover have "stop_batch_ok v x" if x: "x < length bs" for x
    proof (cases "x = length (saBatches ?s)")
      case True
      then show ?thesis using bs by (simp add: stop_batch_ok_def Let_def v sa')
    next
      case False
      then have l: "x < length (saBatches ?s)" using x bs by simp
      then have old: "stop_batch_ok w x" using inv by (simp add: stop_inv_def)
      have "\<forall>k. sbStoppedAt (saBatches ?s ! x) = Some k \<longrightarrow> sbReply (saBatches ?s ! x) \<noteq> None"
      proof (intro allI impI notI)
        fix k assume "sbStoppedAt (saBatches ?s ! x) = Some k" "sbReply (saBatches ?s ! x) = None"
        then obtain j where "j < length ?rs" "leads (sqPhase (?rs ! j))"
          using old unfolding stop_batch_ok_def Let_def by blast
        then show False using none by auto
      qed
      then show ?thesis using old None bs(2) [OF l] by (auto simp: stop_batch_ok_def Let_def v sa')
    qed
    moreover have "active_ok v"
      using bs q unfolding active_ok_def v sa' by (auto simp: batch_of_def intro!: exI [of _ "length ?rs"])
    moreover have "leaders_distinct (?rs @ [q])"
    proof -
      have "leaders_distinct ?rs" using inv by (simp add: stop_inv_def)
      moreover have "arBatch (sqAdmission (?rs ! j)) \<noteq> arBatch (sqAdmission q)" if "j < length ?rs" for j
        using len [OF that] by (simp add: q sa')
      ultimately show ?thesis unfolding leaders_distinct_def
        by (metis length_append_singleton less_Suc_eq nth_append nth_append_length)
    qed
    ultimately show ?thesis using inv q(1) bs(1) by (auto simp: stop_inv_def v sa')
  next
    case (Some b)
    have act: "b < length (saBatches ?s)" "sbReply (saBatches ?s ! b) = None"
      using inv Some by (auto simp: stop_inv_def active_ok_def)
    have sa': "saActive s1 = saActive ?s" "saBatches s1 = saBatches ?s" "arBatch a = b" "\<not> arLeader a"
        "saWaiting s1 = saWaiting ?s + of_bool (arWaiting a)" "arWaiting a \<longrightarrow> saWaiting ?s < stopWaiterLimit"
      using sa Some by (auto simp: stop_enter_def Let_def split: if_splits)
    have q: "holds_slot q \<longleftrightarrow> arWaiting a" "sqPhase q = (if arWaiting a then Awaiting else Answering pendingReply)"
        "sqAdmission q = a" "sqEntered q = swAdmissions w"
      using sa'(4) by (simp_all add: q_def holds_slot_def entered_phase_def)
    have "stop_request_ok s1 (swLifecycle w) (swAdmissions w) j ((?rs @ [q]) ! j)" if j: "j < length (?rs @ [q])" for j
    proof (cases "j = length ?rs")
      case True
      then show ?thesis using q lock act sa' by (auto simp: stop_request_ok_def Let_def)
    next
      case False
      then have l: "j < length ?rs" using j by simp
      show ?thesis using inv_old [OF inv l] l sa' by (auto simp: stop_request_ok_def Let_def nth_append)
    qed
    moreover have "stop_batch_ok v x" if x: "x < length (saBatches ?s)" for x
    proof -
      have "stop_batch_ok w x" using inv x by (simp add: stop_inv_def)
      then show ?thesis using sa' by (fastforce simp: stop_batch_ok_def Let_def v batch_of_def nth_append)
    qed
    moreover have "active_ok v"
    proof -
      have "active_ok w" using inv by (simp add: stop_inv_def)
      then show ?thesis using sa' by (fastforce simp: active_ok_def v batch_of_def nth_append)
    qed
    moreover have "leaders_distinct (?rs @ [q])"
    proof -
      have "leaders_distinct ?rs" using inv by (simp add: stop_inv_def)
      then show ?thesis unfolding leaders_distinct_def using q sa'
        by (metis length_append_singleton less_Suc_eq nth_append nth_append_length)
    qed
    ultimately show ?thesis using inv q(1) sa' by (auto simp: stop_inv_def v)
  qed
qed

lemma stop_inv_step: "stop_step x w = Some v \<Longrightarrow> stop_inv w \<Longrightarrow> stop_inv v"
  by (cases x) (blast intro: inv_enter inv_admit inv_dispatch inv_complete inv_release inv_step_move)+

lemma stop_inv_new: "stop_inv newStopWorld"
  by (simp add: stop_inv_def newStopWorld_def newStopRuntime_def active_ok_def leaders_distinct_def)

interpretation stops: machine "\<lambda>w. w = newStopWorld" "\<lambda>w v. \<exists>x. stop_step x w = Some v" stop_inv
  by unfold_locales (auto intro: stop_inv_new stop_inv_step)

lemma stop_run_inv: "stop_run xs w = Some v \<Longrightarrow> stop_inv w \<Longrightarrow> stop_inv v"
  by (induction xs arbitrary: w) (auto simp: Option.bind_eq_Some_conv intro: stop_inv_step)

lemma leader_moves:
  assumes "j < length (swRequests w)"
    and "holds_lock (sqPhase (swRequests w ! j)) \<or> leads (sqPhase (swRequests w ! j)) \<and> swLifecycle w = None \<or>
      (\<exists>r. sqPhase (swRequests w ! j) = Answering r)"
  shows "\<exists>x \<in> {LockLifecycle j, DispatchStop j answer others, CompleteStop j, UnlockLifecycle j, ReleaseStop j}. stop_step x w \<noteq> None"
  using assms by (cases "sqPhase (swRequests w ! j)") (simp_all add: stop_step_def Let_def at_phase_def)

section \<open>Properties\<close>

text \<open>
  Property C8.  A confirmed reply is current.  However requests, starts, timeouts and panics interleave,
  a request that is answered with a confirmed Stop was answered by its own batch, whose dispatch stopped
  the outputs after every start that had been admitted when the request entered: no start can slip
  between the Stop and a request that shares it.
\<close>

theorem shared_stop_is_current:
  assumes "stop_run xs newStopWorld = Some w" and "i < length (swRequests w)"
    and "reply_of (sqPhase (swRequests w ! i)) = Some r" and "snd (stopConfirmation r)"
  shows "\<exists>k. sbReply (saBatches (swRuntime w) ! batch_of w i) = Some r \<and>
    sbStoppedAt (saBatches (swRuntime w) ! batch_of w i) = Some k \<and> sqEntered (swRequests w ! i) \<le> k \<and> k \<le> swAdmissions w"
proof -
  have inv: "stop_inv w" by (rule stop_run_inv [OF assms(1) stop_inv_new])
  have c: "confirmed r" using assms(4) by (simp add: confirmed_def)
  note old = inv_old [OF inv assms(2), unfolded stop_request_ok_def Let_def]
  have b: "batch_of w i < length (saBatches (swRuntime w))" using old by (simp add: batch_of_def)
  then have ok: "stop_batch_ok w (batch_of w i)" using inv by (simp add: stop_inv_def)
  have r: "sbReply (saBatches (swRuntime w) ! batch_of w i) = Some r"
    using old assms(3) c by (cases r) (auto simp: batch_of_def)
  then obtain k where k: "sbStoppedAt (saBatches (swRuntime w) ! batch_of w i) = Some k"
    using ok c unfolding stop_batch_ok_def Let_def by blast
  then have "sqEntered (swRequests w ! i) \<le> k" using old r c by (cases r) (auto simp: batch_of_def)
  moreover have "k \<le> swAdmissions w" using ok k by (simp add: stop_batch_ok_def Let_def)
  ultimately show ?thesis using r k by blast
qed

text \<open>
  Property C9.  No follower is forgotten.  The waiters are counted exactly and are at most sixteen; and
  while a request waits, either its reply is there, or a leader can take a step: the leader of its batch, or
  the one that holds the lifecycle lock before it.
\<close>

theorem stop_followers_served:
  assumes "stop_run xs newStopWorld = Some w"
  shows "saWaiting (swRuntime w) = length (filter holds_slot (swRequests w)) \<and> saWaiting (swRuntime w) \<le> stopWaiterLimit \<and>
    (\<forall>i. at_phase w i Awaiting \<longrightarrow> stop_step (AwaitDone i) w \<noteq> None \<or>
      (\<exists>j. arLeader (sqAdmission (swRequests w ! j)) \<and>
        (\<exists>x \<in> {LockLifecycle j, DispatchStop j answer others, CompleteStop j, UnlockLifecycle j, ReleaseStop j}. stop_step x w \<noteq> None)))"
proof -
  have inv: "stop_inv w" by (rule stop_run_inv [OF assms stop_inv_new])
  have holder: "arLeader (sqAdmission (swRequests w ! h)) \<and>
      (\<exists>x \<in> {LockLifecycle h, DispatchStop h answer others, CompleteStop h, UnlockLifecycle h, ReleaseStop h}. stop_step x w \<noteq> None)"
    if h: "swLifecycle w = Some h" for h
  proof -
    have l: "h < length (swRequests w)" using inv h by (simp add: stop_inv_def)
    have "holds_lock (sqPhase (swRequests w ! h))" "arLeader (sqAdmission (swRequests w ! h))"
      using inv_old [OF inv l] h by (auto simp: stop_request_ok_def Let_def)
    then show ?thesis using leader_moves [OF l, of answer others] by auto
  qed
  have "stop_step (AwaitDone i) w \<noteq> None \<or>
      (\<exists>j. arLeader (sqAdmission (swRequests w ! j)) \<and>
        (\<exists>x \<in> {LockLifecycle j, DispatchStop j answer others, CompleteStop j, UnlockLifecycle j, ReleaseStop j}. stop_step x w \<noteq> None))"
    if i: "at_phase w i Awaiting" for i
  proof (cases "sbReply (saBatches (swRuntime w) ! batch_of w i)")
    case (Some r)
    then show ?thesis using i by (simp add: stop_step_def Let_def)
  next
    case None
    have l: "i < length (swRequests w)" using i by (simp add: at_phase_def)
    then have "batch_of w i < length (saBatches (swRuntime w))"
      using inv_old [OF inv l] by (simp add: stop_request_ok_def Let_def batch_of_def)
    then have "stop_batch_ok w (batch_of w i)" using inv by (simp add: stop_inv_def)
    then have "saActive (swRuntime w) = Some (batch_of w i)" using None by (simp add: stop_batch_ok_def Let_def)
    then obtain j where j: "j < length (swRequests w)" "arLeader (sqAdmission (swRequests w ! j))"
        "leads (sqPhase (swRequests w ! j)) \<or> sqPhase (swRequests w ! j) = Answering pendingReply"
      using inv unfolding stop_inv_def active_ok_def by blast
    show ?thesis
    proof (cases "swLifecycle w")
      case None
      have "\<exists>x \<in> {LockLifecycle j, DispatchStop j answer others, CompleteStop j, UnlockLifecycle j, ReleaseStop j}. stop_step x w \<noteq> None"
        by (rule leader_moves [OF j(1)]) (use None j(3) in auto)
      then show ?thesis using j(2) by blast
    next
      case (Some h)
      then show ?thesis using holder by blast
    qed
  qed
  then show ?thesis using inv by (simp add: stop_inv_def)
qed

text \<open>
  A Stop is dispatched, a second request joins while the lifecycle lock is held, and both are answered with
  the device's confirmation; a start comes after.
\<close>

definition stop_shared :: "stop_event list" where
  "stop_shared = [AdmitStart, EnterStop, LockLifecycle 0,
     DispatchStop 0 (EngineAnswer (Some \<lparr>srStop = True, srOK = True\<rparr>) False) False, EnterStop]"

definition stop_shared_end :: "stop_event list" where
  "stop_shared_end = stop_shared @ [CompleteStop 0, UnlockLifecycle 0, AdmitStart, AwaitDone 1, ReleaseStop 1]"

lemma shared_stop_is_current_witness:
  "\<exists>w. stop_run stop_shared_end newStopWorld = Some w \<and> swAdmissions w = 2 \<and>
    sbStoppedAt (saBatches (swRuntime w) ! batch_of w 1) = Some 1"
proof -
  let ?r = "(zeroOutcome\<lparr>soLastResult := Some \<lparr>srStop = True, srOK = True\<rparr>, soEngineAvailable := True\<rparr>, None :: stop_error option)"
  have ok: "stop_run stop_shared_end newStopWorld \<noteq> None \<and>
      (let w = the (stop_run stop_shared_end newStopWorld) in length (swRequests w) = 2 \<and> swAdmissions w = 2 \<and>
        reply_of (sqPhase (swRequests w ! 1)) = Some ?r \<and> snd (stopConfirmation ?r) \<and>
        sbStoppedAt (saBatches (swRuntime w) ! batch_of w 1) = Some 1)"
    by code_simp
  obtain w where w: "stop_run stop_shared_end newStopWorld = Some w" using ok by blast
  then have "1 < length (swRequests w)" "reply_of (sqPhase (swRequests w ! 1)) = Some ?r" "snd (stopConfirmation ?r)"
      "swAdmissions w = 2" "sbStoppedAt (saBatches (swRuntime w) ! batch_of w 1) = Some 1"
    using ok by (simp_all add: Let_def)
  with shared_stop_is_current [OF w this(1-3)] show ?thesis using w by auto
qed

lemma stop_followers_served_witness:
  "\<exists>w. stop_run stop_shared newStopWorld = Some w \<and> saWaiting (swRuntime w) = 1 \<and> length (filter holds_slot (swRequests w)) = 1"
proof -
  have ok: "stop_run stop_shared newStopWorld \<noteq> None \<and>
      (let w = the (stop_run stop_shared newStopWorld) in saWaiting (swRuntime w) = 1)"
    by code_simp
  obtain w where w: "stop_run stop_shared newStopWorld = Some w" using ok by blast
  then show ?thesis
    using stop_followers_served [OF w, where answer = "EngineAnswer None False" and others = False] ok by (auto simp: Let_def)
qed

end
