(* ===== verification/FanOut.thy ===== *)
theory FanOut
  imports Prelude
begin

text \<open>
  A linked playback session: \<open>FanOut\<close> of \<open>internal/transport/fanout.go\<close>, which sends the engine's
  commands to several devices, and the lease of \<open>leased.go\<close> that binds a transport to one connection.

  An operation is a task.  A step of a task is one section under the session's mutex, or one call of a
  participant's transport, whose answer is an argument of the event; between two steps of a task any
  other task may move.  The calls that the code starts as goroutines form a list of pending calls,
  of which any may be next.  Latencies and the diagnostic summary are left out.
\<close>

section \<open>State\<close>

record participant =
  paID :: string
  paLabel :: string
  paAlignedPlayer :: bool
  paAligner :: bool

record fanout =
  foParticipants :: "participant list"
  foVibrationOnly :: bool
  foPlaying :: bool
  foPlaybackStartedAt :: time
  foFault :: "string option" \<comment> \<open>the label latched with the fault\<close>
  foContinueHealthy :: bool
  foRetired :: "bool list"
  foWarnings :: string
  foFaultStopped :: bool

definition NewLinkedSession :: "participant list \<Rightarrow> bool \<Rightarrow> fanout" where
  "NewLinkedSession ps continue =
     \<lparr>foParticipants = ps, foVibrationOnly = False, foPlaying = False, foPlaybackStartedAt = zero_time, foFault = None,
      foContinueHealthy = continue, foRetired = replicate (length ps) False, foWarnings = [], foFaultStopped = False\<rparr>"

definition is_vibrator :: "fanout \<Rightarrow> nat \<Rightarrow> bool" where
  "is_vibrator f i \<longleftrightarrow> paID (foParticipants f ! i) = ''vibrator''"

abbreviation label_of :: "fanout \<Rightarrow> nat \<Rightarrow> string" where
  "label_of f i \<equiv> paLabel (foParticipants f ! i)"

definition inactiveSnapshotLocked :: "fanout \<Rightarrow> bool list" where
  "inactiveSnapshotLocked f =
     map (\<lambda>i. foRetired f ! i \<or> foVibrationOnly f \<and> \<not> is_vibrator f i) [0..<length (foParticipants f)]"

definition healthyOthersLocked :: "fanout \<Rightarrow> nat \<Rightarrow> nat" where
  "healthyOthersLocked f index =
     length (filter (\<lambda>i. i \<noteq> index \<and> \<not> foRetired f ! i \<and> (\<not> foVibrationOnly f \<or> is_vibrator f i)) [0..<length (foRetired f)])"

definition latch :: "string \<Rightarrow> fanout \<Rightarrow> fanout" where
  "latch l f = (if foFault f = None then f\<lparr>foFault := Some l\<rparr> else f)"

text \<open>The section of \<open>retire\<close>; the flags say whether it applies and whether the participant was retired already.\<close>

definition retire_locked :: "nat \<Rightarrow> fanout \<Rightarrow> fanout \<times> bool \<times> bool" where
  "retire_locked i f =
     (if \<not> foPlaying f \<or> \<not> foContinueHealthy f \<or> healthyOthersLocked f i = 0 then (f, False, False)
      else (f\<lparr>foRetired := (foRetired f)[i := True],
              foWarnings := label_of f i @ '' failed; continuing on the other devices. Reconnect and start again to rejoin.''\<rparr>,
            True, foRetired f ! i))"

definition stop_reset :: "fanout \<Rightarrow> fanout" where
  "stop_reset f = f\<lparr>foPlaying := False, foVibrationOnly := False, foPlaybackStartedAt := zero_time\<rparr>"

definition stop_fault :: "bool \<Rightarrow> fanout \<Rightarrow> bool" where
  "stop_fault fault f \<longleftrightarrow> fault \<or> foFault f \<noteq> None \<and> \<not> foFaultStopped f"

section \<open>Operations as tasks\<close>

datatype device_command =
    DStop bool
  | DWindow
  | DAppend
  | DPlay
  | DPlayAligned time
  | DAlign time

datatype fan_result =
    FanOK
  | FanStopped
  | FanFault string \<comment> \<open>the latched fault, nothing was sent\<close>
  | FanFailed string \<comment> \<open>a participant failed and the session was stopped\<close>
  | FanCancelled
  | FanNoVibrator
  | FanNoClock
  | FanStopFailed

type_synonym fan_call = "nat \<times> device_command \<times> device_command option"

text \<open>
  \<open>Calls\<close> waits for its pending calls and remembers who failed; \<open>Judge\<close> goes through the errors in order;
  \<open>Retiring\<close> stops a retired participant and then goes on.
\<close>

datatype fan_task =
    Calls "fan_call list" "nat list" fan_after
  | Judge "nat list" "nat list" fan_after
  | Clock "nat list" device_command
  | ClockFailed nat "nat list"
  | Retiring nat fan_task
  | FailedCommand nat
  | FailedStop nat
  | Dispatch bool device_command
  | Watch "nat list"
  | Finished fan_result
and fan_after =
    AfterStop bool "nat option"
  | AfterDispatch bool
  | AfterPlay time

datatype fan_operation =
    OpStop bool
  | OpSetStrokeWindow
  | OpAppendPoints bool bool bool \<comment> \<open>has points, has vibration, vibration only\<close>
  | OpPlay bool
  | OpReadMotionStartupState bool \<comment> \<open>the read failed\<close>
  | OpDiagnostics "(bool \<times> string) list" \<comment> \<open>what each participant reports: connected, playback state\<close>

definition stop_calls :: "bool \<Rightarrow> fanout \<Rightarrow> fan_call list" where
  "stop_calls fault f = map (\<lambda>i. (i, DStop fault, None)) [0..<length (foParticipants f)]"

text \<open>The first section of \<open>Stop\<close>.\<close>

definition stop_section :: "bool \<Rightarrow> nat option \<Rightarrow> fanout \<Rightarrow> fanout \<times> fan_task" where
  "stop_section fault cause f =
     (let flt = stop_fault fault f in (stop_reset f, Calls (stop_calls flt f) [] (AfterStop flt cause)))"

definition dispatch_section :: "bool \<Rightarrow> device_command \<Rightarrow> fanout \<Rightarrow> fanout \<times> fan_task" where
  "dispatch_section scalarOnly c f =
     (f, case foFault f of
           Some l \<Rightarrow> Finished (FanFault l)
         | None \<Rightarrow>
             let n = length (foParticipants f); retired = inactiveSnapshotLocked f;
                 targets = filter (\<lambda>i. \<not> (retired ! i \<or> scalarOnly \<and> \<not> is_vibrator f i)) [0..<n] in
             if scalarOnly \<and> targets = [] then Finished FanNoVibrator
             else Calls (map (\<lambda>i. (i, c, None)) targets) [] (AfterDispatch scalarOnly))"

definition play_section :: "bool \<Rightarrow> fanout \<Rightarrow> fanout \<times> fan_task" where
  "play_section vibrationOnly f =
     (let f1 = f\<lparr>foVibrationOnly := vibrationOnly\<rparr> in
      (f1, case foFault f1 of
             Some l \<Rightarrow> Finished (FanFault l)
           | None \<Rightarrow> Clock (filter (\<lambda>i. \<not> inactiveSnapshotLocked f1 ! i) [0..<length (foParticipants f1)]) DPlay))"

text \<open>What \<open>playCompanion\<close> calls.\<close>

definition playCompanion :: "fanout \<Rightarrow> time \<Rightarrow> nat \<Rightarrow> fan_call" where
  "playCompanion f origin i =
     (let p = foParticipants f ! i in
      if paAlignedPlayer p \<and> origin \<noteq> zero_time then (i, DPlayAligned origin, None)
      else (i, DPlay, if origin \<noteq> zero_time \<and> paAligner p then Some (DAlign origin) else None))"

definition unhealthyStates :: "string list" where
  "unhealthyStates = [''idle'', ''disconnected'', ''not_initialized'', ''stopped'', ''paused'', ''starved'', ''starving'',
     ''rejected'', ''stale'', ''hsp_paused_on_starving'', ''hsp_starving'', ''hsp_state_paused'', ''hsp_state_starving'']"

definition linkedPlaybackUnhealthy :: "string \<Rightarrow> bool" where
  "linkedPlaybackUnhealthy s \<longleftrightarrow> toLower (trimSpace s) \<in> set unhealthyStates"

definition diagnostics_section :: "(bool \<times> string) list \<Rightarrow> fanout \<Rightarrow> fan_task" where
  "diagnostics_section states f =
     (let retired = inactiveSnapshotLocked f; n = length (foParticipants f);
          stopping = (\<exists>i \<in> set [0..<n]. \<not> retired ! i \<and> snd (states ! i) = ''stopping'') in
      if foFault f = None \<and> foPlaying f \<and> \<not> stopping
      then Watch (filter (\<lambda>i. \<not> retired ! i \<and> (\<not> fst (states ! i) \<or> linkedPlaybackUnhealthy (snd (states ! i)))) [0..<n])
      else Watch [])"

definition fan_begin :: "fan_operation \<Rightarrow> fanout \<Rightarrow> fanout \<times> fan_task" where
  "fan_begin op f =
     (case op of
        OpStop fault \<Rightarrow> stop_section fault None f
      | OpSetStrokeWindow \<Rightarrow> dispatch_section False DWindow f
      | OpAppendPoints points vibration vibrationOnly \<Rightarrow>
          (if points then (f\<lparr>foVibrationOnly := vibrationOnly\<rparr>, Dispatch False DAppend)
           else dispatch_section vibration DAppend f)
      | OpPlay vibrationOnly \<Rightarrow> play_section vibrationOnly f
      | OpReadMotionStartupState failed \<Rightarrow>
          (if failed \<and> foParticipants f \<noteq> [] then latch (label_of f 0) f else f, Finished FanOK)
      | OpDiagnostics states \<Rightarrow> (f, diagnostics_section states f))"

text \<open>What a task does with a failure it may retire: go on, stop the participant and go on, or fail.\<close>

definition on_failure :: "nat \<Rightarrow> fan_task \<Rightarrow> fanout \<Rightarrow> fanout \<times> fan_task" where
  "on_failure i rest f =
     (case retire_locked i f of
        (f1, False, _) \<Rightarrow> (f1, FailedCommand i)
      | (f1, True, already) \<Rightarrow> (f1, if already then rest else Retiring i rest))"

text \<open>
  One step of a task.  \<open>k\<close> picks the next of the pending calls, \<open>failed\<close> is the answer of a call,
  \<open>now\<close> the playback origin that the clock reports, \<open>ctxErr\<close> whether the caller's context has ended.
  The calls made come back in order.
\<close>

record fan_env =
  feIndex :: nat
  feFailed :: bool
  feOrigin :: time
  feCtxErr :: bool

fun fan_step :: "fan_env \<Rightarrow> fan_task \<Rightarrow> fanout \<Rightarrow> fanout \<times> fan_task \<times> (nat \<times> device_command) list" where
  "fan_step e (Calls [] errs (AfterStop fault cause)) f =
     (let r = (case cause of None \<Rightarrow> if errs = [] then FanStopped else FanStopFailed | Some i \<Rightarrow> FanFailed (label_of f i)) in
      if errs \<noteq> [] then (latch ''linked Stop'' f, Finished r, [])
      else if fault then (f\<lparr>foFaultStopped := True\<rparr>, Finished r, [])
      else (f, Finished r, []))"
| "fan_step e (Calls [] errs after) f = (f, Judge [0..<length (foParticipants f)] errs after, [])"
| "fan_step e (Calls (c # cs) errs after) f =
     (let calls = c # cs; k = feIndex e mod length calls; (i, cmd, follow) = calls ! k in
      (f, Calls (take k calls @ drop (Suc k) calls) (if feFailed e then i # errs else errs) after,
       if feFailed e then [(i, cmd)] else (i, cmd) # (case follow of None \<Rightarrow> [] | Some d \<Rightarrow> [(i, d)])))"
| "fan_step e (Judge [] errs (AfterPlay origin)) f =
     (f\<lparr>foPlaying := True, foPlaybackStartedAt := origin\<rparr>, Finished FanOK, [])"
| "fan_step e (Judge [] errs after) f = (f, Finished FanOK, [])"
| "fan_step e (Judge (i # is) errs after) f =
     (if i \<notin> set errs then (f, Judge is errs after, [])
      else if after = AfterDispatch True \<and> feCtxErr e then (f, Finished FanCancelled, [])
      else case on_failure i (Judge is errs after) f of (f1, t) \<Rightarrow> (f1, t, []))"
| "fan_step e (Clock [] c) f = (f, Finished FanNoClock, [])"
| "fan_step e (Clock (i # is) c) f =
     (if feFailed e then (f, ClockFailed i is, [(i, c)])
      else (f, Calls (map (playCompanion f (feOrigin e)) is) [] (AfterPlay (feOrigin e)), [(i, c)]))"
| "fan_step e (ClockFailed i is) f = (case on_failure i (Clock is DPlay) f of (f1, t) \<Rightarrow> (f1, t, []))"
| "fan_step e (Retiring i rest) f =
     (if feFailed e then f\<lparr>foWarnings := foWarnings f @ '' Stop could not be confirmed.''\<rparr> else f, rest, [(i, DStop True)])"
| "fan_step e (FailedCommand i) f = (latch (label_of f i) f, FailedStop i, [])"
| "fan_step e (FailedStop i) f = (case stop_section True (Some i) f of (f1, t) \<Rightarrow> (f1, t, []))"
| "fan_step e (Dispatch scalarOnly c) f = (case dispatch_section scalarOnly c f of (f1, t) \<Rightarrow> (f1, t, []))"
| "fan_step e (Watch []) f = (f, Finished FanOK, [])"
| "fan_step e (Watch (i # is)) f =
     (case retire_locked i f of
        (f1, False, _) \<Rightarrow> (latch (label_of f1 i) f1, Watch is, [])
      | (f1, True, already) \<Rightarrow> (f1, if already then Watch is else Retiring i (Watch is), []))"
| "fan_step e (Finished r) f = (f, Finished r, [])"

text \<open>
  \<open>diagnosticSummaryLocked\<close>: the participant it reports, whether all active ones are connected, the
  playback state and the error shown.
\<close>

definition diagnosticSummaryLocked :: "(bool \<times> string) list \<Rightarrow> fanout \<Rightarrow> (nat \<times> bool \<times> string \<times> string option) option" where
  "diagnosticSummaryLocked states f =
     (if states = [] then None
      else
        let shown = filter (\<lambda>i. \<not> (foRetired f ! i \<or> foVibrationOnly f \<and> \<not> is_vibrator f i)) [0..<length states];
            reported = (case shown of [] \<Rightarrow> 0 | i # _ \<Rightarrow> i);
            connected = (\<forall>i \<in> set shown. fst (states ! i)) in
        Some (case foFault f of
                Some l \<Rightarrow> (reported, connected, ''stale'', Some (l @ '' failed; linked session stopped. Start a new session.''))
              | None \<Rightarrow> (reported, connected, snd (states ! reported), if foWarnings f \<noteq> [] then Some (foWarnings f) else None)))"

definition MotionStartupParticipants :: "fanout \<Rightarrow> participant list" where
  "MotionStartupParticipants f = map (\<lambda>i. foParticipants f ! i) (filter (\<lambda>i. \<not> foRetired f ! i) [0..<length (foParticipants f)])"

section \<open>A lease of one connection\<close>

text \<open>
  \<open>leasedTransport\<close>: the owner is called only while the lease is valid.  A Stop of a retired connection
  succeeds without a call, and everything else fails.
\<close>

datatype lease_outcome = LeaseRetired | LeaseInvalid | LeaseForwarded device_command

definition leased_call :: "(unit \<Rightarrow> bool) option \<Rightarrow> device_command \<Rightarrow> lease_outcome" where
  "leased_call current c =
     (let valid = (case current of None \<Rightarrow> False | Some p \<Rightarrow> p ()) in
      case c of
        DStop fault \<Rightarrow> if valid then LeaseForwarded c else LeaseRetired
      | _ \<Rightarrow> if valid then LeaseForwarded c else LeaseInvalid)"

section \<open>Interleavings\<close>

record fan_thread =
  ftOperation :: fan_operation
  ftTask :: fan_task
  ftSent :: "(nat \<times> device_command) list" \<comment> \<open>the calls it has made\<close>

record fan_world =
  fwFan :: fanout
  fwThreads :: "fan_thread list"

definition newFanWorld :: "participant list \<Rightarrow> bool \<Rightarrow> fan_world" where
  "newFanWorld ps continue = \<lparr>fwFan = NewLinkedSession ps continue, fwThreads = []\<rparr>"

datatype fan_event = FanBegin fan_operation | FanMove nat fan_env

fun fan_event_step :: "fan_event \<Rightarrow> fan_world \<Rightarrow> fan_world" where
  "fan_event_step (FanBegin op) w =
     (case fan_begin op (fwFan w) of
        (f, t) \<Rightarrow> w\<lparr>fwFan := f, fwThreads := fwThreads w @ [\<lparr>ftOperation = op, ftTask = t, ftSent = []\<rparr>]\<rparr>)"
| "fan_event_step (FanMove j e) w =
     (if j < length (fwThreads w) then
        let th = fwThreads w ! j in
        case fan_step e (ftTask th) (fwFan w) of
          (f, t, sent) \<Rightarrow> w\<lparr>fwFan := f, fwThreads := (fwThreads w)[j := th\<lparr>ftTask := t, ftSent := ftSent th @ sent\<rparr>]\<rparr>
      else w)"

definition fan_run :: "fan_event list \<Rightarrow> fan_world \<Rightarrow> fan_world" where
  "fan_run xs w = fold fan_event_step xs w"

section \<open>The session only degrades\<close>

text \<open>What every section keeps: the participants and the policy, the first fault, and who is retired.\<close>

definition fan_later :: "fanout \<Rightarrow> fanout \<Rightarrow> bool" where
  "fan_later f g \<longleftrightarrow>
     foParticipants g = foParticipants f \<and> foContinueHealthy g = foContinueHealthy f \<and>
     length (foRetired g) = length (foRetired f) \<and>
     (\<forall>l. foFault f = Some l \<longrightarrow> foFault g = Some l) \<and> (\<forall>i < length (foRetired f). foRetired f ! i \<longrightarrow> foRetired g ! i) \<and>
     (\<not> foContinueHealthy f \<longrightarrow> foRetired g = foRetired f) \<and>
     (False \<in> set (foRetired f) \<longrightarrow> False \<in> set (foRetired g))"

lemma fan_later_refl [simp]: "fan_later f f"
  by (simp add: fan_later_def)

lemma fan_later_trans: "fan_later f g \<Longrightarrow> fan_later g h \<Longrightarrow> fan_later f h"
  by (simp add: fan_later_def)

lemma later_updates [simp]:
  "fan_later f (f\<lparr>foVibrationOnly := v\<rparr>)" "fan_later f (f\<lparr>foFaultStopped := b\<rparr>)" "fan_later f (latch l f)"
  "fan_later f (f\<lparr>foPlaying := b, foPlaybackStartedAt := t\<rparr>)" "fan_later f (f\<lparr>foWarnings := x\<rparr>)" "fan_later f (stop_reset f)"
  by (simp_all add: fan_later_def latch_def stop_reset_def)

lemma healthy_other:
  assumes "healthyOthersLocked f i \<noteq> 0"
  obtains j where "j < length (foRetired f)" "j \<noteq> i" "\<not> foRetired f ! j"
  using assms by (auto simp: healthyOthersLocked_def filter_empty_conv)

lemma later_retire: "fan_later f (fst (retire_locked i f))"
proof (cases "\<not> foPlaying f \<or> \<not> foContinueHealthy f \<or> healthyOthersLocked f i = 0")
  case True
  then show ?thesis by (simp add: retire_locked_def)
next
  case False
  then obtain j where "j < length (foRetired f)" "j \<noteq> i" "\<not> foRetired f ! j" using healthy_other by metis
  then have "False \<in> set ((foRetired f)[i := True])" by (auto simp: in_set_conv_nth intro!: exI [of _ j])
  moreover have "foRetired f ! k \<longrightarrow> (foRetired f)[i := True] ! k" if "k < length (foRetired f)" for k
    using that by (cases "k = i") auto
  ultimately show ?thesis using False by (auto simp: retire_locked_def fan_later_def)
qed

lemma later_failure: "fan_later f (fst (on_failure i rest f))"
  using later_retire [of f i] by (auto simp: on_failure_def split: prod.splits bool.splits)

lemma later_sections [simp]:
  "fan_later f (fst (stop_section b c f))" "fan_later f (fst (dispatch_section s d f))" "fan_later f (fst (play_section v f))"
  by (simp_all add: stop_section_def dispatch_section_def play_section_def Let_def)

lemma later_begin: "fan_later f (fst (fan_begin op f))"
  by (cases op) (auto simp: fan_begin_def)

lemma later_step: "fan_later f (fst (fan_step e t f))"
proof -
  have retire: "retire_locked i f = (g, a, b) \<Longrightarrow> fan_later f g \<and> fan_later f (latch l g)" for i g a b l
    using later_retire [of f i] by (auto intro: fan_later_trans)
  have fail: "on_failure i rest f = (g, u) \<Longrightarrow> fan_later f g" for i rest g u
    using later_failure [of f i rest] by simp
  have sections: "stop_section b c f = (g, u) \<Longrightarrow> fan_later f g" "dispatch_section x d f = (g, u) \<Longrightarrow> fan_later f g" for b c x d g u
    using later_sections(1) [of f b c] later_sections(2) [of f x d] by simp_all
  show ?thesis
    by (cases "(e, t, f)" rule: fan_step.cases)
      (auto simp: Let_def retire fail sections split: prod.splits option.splits bool.splits)
qed

text \<open>Every event only degrades the session, and threads are never taken away.\<close>

lemma later_event: "fan_later (fwFan w) (fwFan (fan_event_step x w))"
proof (cases x)
  case (FanBegin op)
  then show ?thesis using later_begin [of "fwFan w" op] by (auto split: prod.split)
next
  case (FanMove j e)
  then show ?thesis using later_step [of "fwFan w" e "ftTask (fwThreads w ! j)"] by (auto simp: Let_def split: prod.split)
qed

lemma later_run: "fan_later (fwFan w) (fwFan (fan_run xs w))"
proof (induction xs arbitrary: w)
  case (Cons x xs)
  then show ?case using fan_later_trans [OF later_event Cons.IH] by (simp add: fan_run_def)
qed (simp add: fan_run_def)

section \<open>What a task may still send\<close>

fun is_stop :: "device_command \<Rightarrow> bool" where
  "is_stop (DStop b) = True"
| "is_stop _ = False"

text \<open>The participant hears nothing from the task but Stops.\<close>

fun mutes :: "nat \<Rightarrow> fan_task \<Rightarrow> bool" where
  "mutes i (Calls cs errs a) \<longleftrightarrow> (\<forall>(j, c, d) \<in> set cs. j = i \<longrightarrow> is_stop c \<and> d = None)"
| "mutes i (Clock js c) \<longleftrightarrow> i \<notin> set js"
| "mutes i (ClockFailed j js) \<longleftrightarrow> i \<notin> set js"
| "mutes i (Retiring j rest) \<longleftrightarrow> mutes i rest"
| "mutes i _ \<longleftrightarrow> True"

definition silent :: "nat \<Rightarrow> fanout \<Rightarrow> bool" where
  "silent i f \<longleftrightarrow> foFault f \<noteq> None \<or> i < length (foRetired f) \<and> foRetired f ! i"

lemma silent_later: "silent i f \<Longrightarrow> fan_later f g \<Longrightarrow> silent i g"
  by (auto simp: silent_def fan_later_def)

definition fan_sized :: "fanout \<Rightarrow> bool" where
  "fan_sized f \<longleftrightarrow> length (foRetired f) = length (foParticipants f)"

lemma sized_later: "fan_sized f \<Longrightarrow> fan_later f g \<Longrightarrow> fan_sized g"
  by (simp add: fan_sized_def fan_later_def)

lemma inactive_nth: "i < length (foParticipants f) \<Longrightarrow>
    inactiveSnapshotLocked f ! i \<longleftrightarrow> foRetired f ! i \<or> foVibrationOnly f \<and> \<not> is_vibrator f i"
  by (simp add: inactiveSnapshotLocked_def)

lemma mutes_sections:
  assumes "silent i f" and "fan_sized f"
  shows "mutes i (snd (stop_section b c f))" "mutes i (snd (dispatch_section s d f))" "mutes i (snd (play_section v f))"
  using assms
  by (auto simp: stop_section_def stop_calls_def dispatch_section_def play_section_def Let_def silent_def fan_sized_def
      inactive_nth is_vibrator_def split: option.split)

lemma mutes_begin: "silent i f \<Longrightarrow> fan_sized f \<Longrightarrow> mutes i (snd (fan_begin op f))"
  using mutes_sections [of i f]
  by (cases op) (auto simp: fan_begin_def diagnostics_section_def Let_def)

lemma mutes_failure: "mutes i rest \<Longrightarrow> mutes i (snd (on_failure j rest f))"
  by (auto simp: on_failure_def split: prod.split bool.split)

lemma calls_step:
  assumes "k = feIndex e mod Suc (length cs)" and "(c # cs) ! k = (j, cmd, d)"
  shows "fan_step e (Calls (c # cs) errs a) f =
    (f, Calls (take k (c # cs) @ drop (Suc k) (c # cs)) (if feFailed e then j # errs else errs) a,
     if feFailed e then [(j, cmd)] else (j, cmd) # (case d of None \<Rightarrow> [] | Some q \<Rightarrow> [(j, q)]))"
  using assms by (simp add: Let_def)

lemma mutes_step:
  assumes "mutes i t" and "silent i f" and "fan_sized f" and r: "fan_step e t f = (g, u, sent)"
  shows "mutes i u \<and> (\<forall>c. (i, c) \<in> set sent \<longrightarrow> is_stop c)"
proof -
  have clock: "k = j" if "playCompanion h x j = (k, c, d)" for h j x k c d
    using that by (auto simp: playCompanion_def Let_def split: if_splits)
  have sections: "stop_section b c f = (h, v) \<Longrightarrow> mutes i v" "dispatch_section x d f = (h, v) \<Longrightarrow> mutes i v" for b c x d h v
    using mutes_sections(1) [OF assms(2,3), of b c] mutes_sections(2) [OF assms(2,3), of x d] by simp_all
  have fail: "on_failure j rest f = (h, v) \<Longrightarrow> mutes i rest \<Longrightarrow> mutes i v" for j rest h v
    using mutes_failure [of i rest j f] by simp
  show ?thesis
  proof (cases "\<exists>c cs errs a. t = Calls (c # cs) errs a")
    case True
    then obtain c cs errs a where t: "t = Calls (c # cs) errs a" by blast
    define k where "k = feIndex e mod Suc (length cs)"
    obtain j cmd d where x: "(c # cs) ! k = (j, cmd, d)" by (metis prod_cases3)
    have k: "k < length (c # cs)" by (simp add: k_def)
    have m: "\<forall>(j, c, d) \<in> set (c # cs). j = i \<longrightarrow> is_stop c \<and> d = None" using assms(1) t by simp
    have "set (take k (c # cs) @ drop (Suc k) (c # cs)) \<subseteq> set (c # cs)"
      by (auto dest: in_set_takeD in_set_dropD)
    moreover have "j = i \<longrightarrow> is_stop cmd \<and> d = None" using m nth_mem [OF k] x by auto
    moreover have "u = Calls (take k (c # cs) @ drop (Suc k) (c # cs)) (if feFailed e then j # errs else errs) a"
        "sent = (if feFailed e then [(j, cmd)] else (j, cmd) # (case d of None \<Rightarrow> [] | Some q \<Rightarrow> [(j, q)]))"
      using r unfolding t calls_step [OF k_def x] by (simp_all only: prod.inject)
    ultimately show ?thesis using m by (auto split: option.splits)
  next
    case False
    then show ?thesis using r assms(1)
      by (cases "(e, t, f)" rule: fan_step.cases)
        (auto simp: Let_def dest: fail clock sections split: prod.splits option.splits bool.splits if_splits)
  qed
qed

lemma fan_step_some: obtains g u sent where "fan_step e t f = (g, u, sent)"
  by (cases "fan_step e t f")

lemma muted_event:
  assumes "\<forall>th \<in> set (drop n (fwThreads w)). mutes i (ftTask th) \<and> (\<forall>c. (i, c) \<in> set (ftSent th) \<longrightarrow> is_stop c)"
    and "silent i (fwFan w)" and "fan_sized (fwFan w)" and "n \<le> length (fwThreads w)"
  shows "(\<forall>th \<in> set (drop n (fwThreads (fan_event_step x w))). mutes i (ftTask th) \<and> (\<forall>c. (i, c) \<in> set (ftSent th) \<longrightarrow> is_stop c)) \<and>
    n \<le> length (fwThreads (fan_event_step x w))"
proof (cases x)
  case (FanBegin op)
  then show ?thesis using assms mutes_begin [OF assms(2,3), of op] by (auto split: prod.split)
next
  case (FanMove j e)
  show ?thesis
  proof (cases "j < length (fwThreads w)")
    case True
    let ?th = "fwThreads w ! j"
    obtain g u sent where r: "fan_step e (ftTask ?th) (fwFan w) = (g, u, sent)" by (rule fan_step_some)
    have v: "fwThreads (fan_event_step x w) = (fwThreads w)[j := ?th\<lparr>ftTask := u, ftSent := ftSent ?th @ sent\<rparr>]"
      using True r FanMove by (simp add: Let_def)
    show ?thesis
    proof (cases "n \<le> j")
      case True
      then have "?th \<in> set (drop n (fwThreads w))"
        using \<open>j < length (fwThreads w)\<close> by (auto simp: in_set_conv_nth intro!: exI [of _ "j - n"])
      with assms(1) have old: "mutes i (ftTask ?th)" "\<forall>c. (i, c) \<in> set (ftSent ?th) \<longrightarrow> is_stop c" by auto
      from mutes_step [OF old(1) assms(2,3) r] old(2) show ?thesis
        using True assms(1,4) unfolding v drop_update_swap [OF True]
        by (auto dest!: set_update_subset_insert [THEN subsetD])
    next
      case False
      then show ?thesis using assms(1,4) unfolding v by (simp add: drop_update_cancel)
    qed
  next
    case False
    then show ?thesis using assms FanMove by simp
  qed
qed

section \<open>The Stops of a failure\<close>

text \<open>What a task owes and has done: Stops to everyone, and the fault that a failure latches.\<close>

definition stops_all :: "nat \<Rightarrow> bool \<Rightarrow> fan_call list \<Rightarrow> (nat \<times> device_command) list \<Rightarrow> bool" where
  "stops_all n flt cs sent \<longleftrightarrow> (\<forall>i < n. (i, DStop flt) \<in> set sent \<or> (i, DStop flt, None) \<in> set cs)"

fun task_ok :: "fanout \<Rightarrow> (nat \<times> device_command) list \<Rightarrow> fan_task \<Rightarrow> bool" where
  "task_ok f sent (Calls cs errs (AfterStop flt cause)) \<longleftrightarrow>
     stops_all (length (foParticipants f)) flt cs sent \<and> (cause \<noteq> None \<longrightarrow> flt \<and> foFault f \<noteq> None)"
| "task_ok f sent (FailedStop i) \<longleftrightarrow> foFault f \<noteq> None"
| "task_ok f sent (Retiring i rest) \<longleftrightarrow> task_ok f sent rest"
| "task_ok f sent (Judge js errs (AfterStop flt cause)) \<longleftrightarrow> False"
| "task_ok f sent (Finished (FanFailed l)) \<longleftrightarrow> stops_all (length (foParticipants f)) True [] sent \<and> foFault f \<noteq> None"
| "task_ok f sent (Finished FanStopFailed) \<longleftrightarrow> (\<exists>flt. stops_all (length (foParticipants f)) flt [] sent) \<and> foFault f \<noteq> None"
| "task_ok f sent (Finished FanStopped) \<longleftrightarrow> (\<exists>flt. stops_all (length (foParticipants f)) flt [] sent)"
| "task_ok f sent _ \<longleftrightarrow> True"

text \<open>The tasks of a Stop.\<close>

fun stop_task :: "fan_task \<Rightarrow> bool" where
  "stop_task (Calls cs errs (AfterStop flt cause)) \<longleftrightarrow> cause = None"
| "stop_task (Finished r) \<longleftrightarrow> r = FanStopped \<or> r = FanStopFailed"
| "stop_task _ \<longleftrightarrow> False"

lemma stops_all_more: "stops_all n flt cs sent \<Longrightarrow> stops_all n flt cs (sent @ xs)"
  by (auto simp: stops_all_def)

lemma task_ok_later: "task_ok f sent t \<Longrightarrow> fan_later f g \<Longrightarrow> task_ok g (sent @ xs) t"
  by (induction f sent t rule: task_ok.induct) (auto simp: fan_later_def intro: stops_all_more)

lemma ok_stop_section:
  "cause \<noteq> None \<longrightarrow> b \<and> foFault f \<noteq> None \<Longrightarrow> stop_section b cause f = (g, u) \<Longrightarrow> task_ok g sent u"
  by (auto simp: stop_section_def Let_def stops_all_def stop_calls_def stop_reset_def stop_fault_def)

lemma ok_other_sections:
  "dispatch_section s c f = (g, u) \<Longrightarrow> task_ok g sent u" "play_section v f = (g, u) \<Longrightarrow> task_ok g sent u"
  by (auto simp: dispatch_section_def play_section_def Let_def split: option.splits if_splits)

lemma ok_begin: "fan_begin op f = (g, u) \<Longrightarrow> task_ok g [] u \<and> (\<forall>b. op = OpStop b \<longrightarrow> stop_task u)"
  by (cases op)
    (auto simp: fan_begin_def diagnostics_section_def Let_def stop_section_def stop_calls_def stops_all_def stop_reset_def
      intro: ok_other_sections split: if_splits)

lemma ok_failure: "on_failure i rest f = (g, u) \<Longrightarrow> task_ok g sent rest \<Longrightarrow> task_ok g sent u"
  by (auto simp: on_failure_def split: prod.splits bool.splits if_splits)

lemma after_cases [simp]:
  "stop_task (Calls cs errs a) \<longleftrightarrow> (\<exists>flt. a = AfterStop flt None)"
  "task_ok f sent (Judge js errs a) \<longleftrightarrow> (\<forall>flt cause. a \<noteq> AfterStop flt cause)"
  by (cases a; simp)+

lemma stop_task_step: "stop_task t \<Longrightarrow> fan_step e t f = (g, u, xs) \<Longrightarrow> stop_task u"
  by (cases "(e, t, f)" rule: fan_step.cases) (auto simp: Let_def split: if_splits prod.splits)

lemma nth_others: "k < length xs \<Longrightarrow> x \<in> set xs \<Longrightarrow> x \<noteq> xs ! k \<Longrightarrow> x \<in> set (take k xs @ drop (Suc k) xs)"
  by (subst (asm) id_take_nth_drop [of k xs]) auto

lemma ok_step:
  assumes "task_ok f sent t" and r: "fan_step e t f = (g, u, xs)"
  shows "task_ok g (sent @ xs) u"
proof (cases "\<exists>c cs errs a. t = Calls (c # cs) errs a")
  case True
  then obtain c cs errs a where t: "t = Calls (c # cs) errs a" by blast
  define k where "k = feIndex e mod Suc (length cs)"
  obtain j cmd d where x: "(c # cs) ! k = (j, cmd, d)" by (metis prod_cases3)
  have k: "k < length (c # cs)" by (simp add: k_def)
  have st: "g = f" "u = Calls (take k (c # cs) @ drop (Suc k) (c # cs)) (if feFailed e then j # errs else errs) a"
      "(j, cmd) \<in> set xs"
    using r unfolding t calls_step [OF k_def x] by (auto split: option.splits)
  have "stops_all n flt (take k (c # cs) @ drop (Suc k) (c # cs)) (sent @ xs)" if "stops_all n flt (c # cs) sent" for n flt
    unfolding stops_all_def
  proof (intro allI impI)
    fix i assume "i < n"
    then consider "(i, DStop flt) \<in> set sent" | "(i, DStop flt, None) \<in> set (c # cs)" using \<open>stops_all n flt (c # cs) sent\<close> by (auto simp: stops_all_def)
    then show "(i, DStop flt) \<in> set (sent @ xs) \<or> (i, DStop flt, None) \<in> set (take k (c # cs) @ drop (Suc k) (c # cs))"
    proof cases
      case 2
      then show ?thesis
        using nth_others [OF k 2] st(3) x by (cases "(i, DStop flt, None) = (c # cs) ! k") auto
    qed simp
  qed
  then show ?thesis using assms(1) t st(1,2) by (cases a) auto
next
  case False
  have later: "fan_later f g" using later_step [of f e t] r by simp
  show ?thesis
  proof (cases t)
    case (Calls cs errs a)
    have "cs = []" using Calls False by (cases cs) auto
    show ?thesis
    proof (cases a)
      case (AfterStop flt cause)
      then show ?thesis using Calls \<open>cs = []\<close> assms
        by (auto simp: Let_def latch_def stops_all_def split: if_splits option.splits) blast+
    qed (use Calls \<open>cs = []\<close> assms in auto)
  next
    case (Judge js errs a)
    show ?thesis
    proof (cases js)
      case Nil
      then show ?thesis using Judge r by (cases a) auto
    next
      case (Cons i ks)
      have "task_ok g (sent @ xs) (Judge ks errs a)" using assms(1) Judge by simp
      then show ?thesis using ok_failure [of i "Judge ks errs a" f g u] Judge Cons r
        by (auto split: if_splits prod.splits)
    qed
  next
    case (Clock js c)
    then show ?thesis using r by (cases js) (auto split: if_splits)
  next
    case (ClockFailed i js)
    then show ?thesis using ok_failure [of i "Clock js DPlay" f g u] r by (auto split: prod.splits)
  next
    case (Retiring i rest)
    then have "u = rest" "task_ok f sent rest" using r assms(1) by auto
    then show ?thesis using task_ok_later [OF _ later] by simp
  next
    case (FailedStop i)
    then show ?thesis using ok_stop_section [of "Some i" True f g u] assms(1) r by (auto split: prod.splits)
  next
    case (Dispatch s c)
    then show ?thesis using ok_other_sections(1) [of s c f g u] r by (auto split: prod.splits)
  next
    case (Watch js)
    then show ?thesis using r by (cases js) (auto split: prod.splits bool.splits if_splits)
  next
    case (Finished q)
    then show ?thesis using r assms(1) by simp
  qed (use r in \<open>auto simp: latch_def\<close>)
qed

section \<open>Reachable sessions\<close>

definition fan_inv :: "fan_world \<Rightarrow> bool" where
  "fan_inv w \<longleftrightarrow> fan_sized (fwFan w) \<and>
     (\<forall>th \<in> set (fwThreads w). task_ok (fwFan w) (ftSent th) (ftTask th) \<and>
        (\<forall>b. ftOperation th = OpStop b \<longrightarrow> stop_task (ftTask th)))"

lemma fan_inv_event:
  assumes inv: "fan_inv w"
  shows "fan_inv (fan_event_step x w)"
proof -
  have later: "task_ok (fwFan (fan_event_step x w)) (ftSent th) (ftTask th)" if "th \<in> set (fwThreads w)" for th
    using inv that task_ok_later [OF _ later_event [of w x], of "ftSent th" "ftTask th" "[]"] by (auto simp: fan_inv_def)
  have sized: "fan_sized (fwFan (fan_event_step x w))" using inv sized_later [OF _ later_event] by (simp add: fan_inv_def)
  show ?thesis
  proof (cases x)
    case (FanBegin op)
    obtain f t where b: "fan_begin op (fwFan w) = (f, t)" by (cases "fan_begin op (fwFan w)")
    show ?thesis using inv later sized ok_begin [OF b] b FanBegin by (auto simp: fan_inv_def)
  next
    case (FanMove j e)
    show ?thesis
    proof (cases "j < length (fwThreads w)")
      case True
      let ?th = "fwThreads w ! j"
      obtain g u sent where r: "fan_step e (ftTask ?th) (fwFan w) = (g, u, sent)" by (rule fan_step_some)
      have th: "task_ok (fwFan w) (ftSent ?th) (ftTask ?th)" "\<forall>b. ftOperation ?th = OpStop b \<longrightarrow> stop_task (ftTask ?th)"
        using inv True by (auto simp: fan_inv_def)
      have v: "fan_event_step x w = w\<lparr>fwFan := g, fwThreads := (fwThreads w)[j := ?th\<lparr>ftTask := u, ftSent := ftSent ?th @ sent\<rparr>]\<rparr>"
        using True r FanMove by (simp add: Let_def)
      show ?thesis using inv later sized ok_step [OF th(1) r] th(2) stop_task_step [OF _ r]
        unfolding fan_inv_def v by (auto dest!: set_update_subset_insert [THEN subsetD])
    qed (use inv FanMove in simp)
  qed
qed

lemma fan_inv_new: "fan_inv (newFanWorld ps c)"
  by (simp add: fan_inv_def newFanWorld_def NewLinkedSession_def fan_sized_def)

interpretation fan: machine "\<lambda>w. \<exists>ps c. w = newFanWorld ps c" "\<lambda>w v. \<exists>x. v = fan_event_step x w" fan_inv
  by unfold_locales (auto intro: fan_inv_new fan_inv_event)

lemma fan_inv_run: "fan_inv w \<Longrightarrow> fan_inv (fan_run xs w)"
  by (induction xs arbitrary: w) (auto simp: fan_run_def intro: fan_inv_event)

lemma fan_run_append: "fan_run (xs @ ys) w = fan_run ys (fan_run xs w)"
  by (simp add: fan_run_def)

lemma muted_run:
  assumes "\<forall>th \<in> set (drop n (fwThreads w)). mutes i (ftTask th) \<and> (\<forall>c. (i, c) \<in> set (ftSent th) \<longrightarrow> is_stop c)"
    and "silent i (fwFan w)" and "fan_sized (fwFan w)" and "n \<le> length (fwThreads w)"
  shows "\<forall>th \<in> set (drop n (fwThreads (fan_run xs w))). \<forall>c. (i, c) \<in> set (ftSent th) \<longrightarrow> is_stop c"
  using assms
proof (induction xs arbitrary: w)
  case (Cons x xs)
  have "\<forall>th \<in> set (drop n (fwThreads (fan_run xs (fan_event_step x w)))). \<forall>c. (i, c) \<in> set (ftSent th) \<longrightarrow> is_stop c"
    using muted_event [OF Cons.prems, of x] silent_later [OF Cons.prems(2) later_event] sized_later [OF Cons.prems(3) later_event]
    by (intro Cons.IH) auto
  then show ?case by (simp add: fan_run_def)
qed (auto simp: fan_run_def)

text \<open>A session that had a healthy participant keeps one, and without the policy nobody is ever retired.\<close>

lemma fan_keeps_one_healthy:
  "ps \<noteq> [] \<Longrightarrow> False \<in> set (foRetired (fwFan (fan_run xs (newFanWorld ps c)))) \<and>
     (\<not> c \<longrightarrow> True \<notin> set (foRetired (fwFan (fan_run xs (newFanWorld ps c)))))"
  using later_run [of "newFanWorld ps c" xs]
  by (auto simp: fan_later_def newFanWorld_def NewLinkedSession_def set_replicate_conv_if)

section \<open>Properties\<close>

text \<open>
  Property C32.  A failed session hears only Stops.  Once a fault is latched, or a participant is retired,
  no operation that begins later makes any call but Stop, to anyone or to that participant, and the latch
  and the retirement last for the session, whatever else is still running.
\<close>

theorem fan_failed_hears_only_stops:
  assumes "w = fan_run xs (newFanWorld ps continue)"
    and "foFault (fwFan w) \<noteq> None \<or> i < length ps \<and> foRetired (fwFan w) ! i"
    and "n = length (fwThreads w)" and "j < length (fwThreads (fan_run ys w))" and "n \<le> j"
  shows "(\<forall>c. (i, c) \<in> set (ftSent (fwThreads (fan_run ys w) ! j)) \<longrightarrow> is_stop c) \<and>
    (foFault (fwFan (fan_run ys w)) \<noteq> None \<or> foRetired (fwFan (fan_run ys w)) ! i)"
proof -
  have sized: "fan_sized (fwFan w)" "length (foParticipants (fwFan w)) = length ps"
    using fan_inv_run [OF fan_inv_new, of xs ps continue] later_run [of "newFanWorld ps continue" xs] assms(1)
    by (auto simp: fan_inv_def fan_later_def newFanWorld_def NewLinkedSession_def)
  then have s: "silent i (fwFan w)" using assms(2) by (auto simp: silent_def fan_sized_def)
  have "fwThreads (fan_run ys w) ! j \<in> set (drop n (fwThreads (fan_run ys w)))"
    using assms(4,5) by (auto simp: in_set_conv_nth intro!: exI [of _ "j - n"])
  moreover have "\<forall>th \<in> set (drop n (fwThreads (fan_run ys w))). \<forall>c. (i, c) \<in> set (ftSent th) \<longrightarrow> is_stop c"
    by (rule muted_run) (use s sized assms(3) in auto)
  moreover have "silent i (fwFan (fan_run ys w))" by (rule silent_later [OF s later_run])
  ultimately show ?thesis by (auto simp: silent_def)
qed

text \<open>
  Property C31.  A failure stops everyone.  A Stop ends, confirmed or not, only after it has called Stop on
  every participant, retired ones too; a Stop that could not be confirmed, and a command that failed on a
  participant that is not retired, have latched a fault, and the failed command ends only after a Stop with
  the fault flag went to every participant.
\<close>

theorem fan_failure_stops_all:
  assumes "th \<in> set (fwThreads (fan_run xs (newFanWorld ps continue)))" and "ftTask th = Finished r"
  shows "(\<forall>l. r = FanFailed l \<longrightarrow> (\<forall>i < length ps. (i, DStop True) \<in> set (ftSent th))) \<and>
    (\<forall>b. ftOperation th = OpStop b \<longrightarrow> (r = FanStopped \<or> r = FanStopFailed) \<and>
       (\<exists>fault. \<forall>i < length ps. (i, DStop fault) \<in> set (ftSent th))) \<and>
    ((\<exists>l. r = FanFailed l) \<or> r = FanStopFailed \<longrightarrow> foFault (fwFan (fan_run xs (newFanWorld ps continue))) \<noteq> None)"
proof -
  let ?w = "fan_run xs (newFanWorld ps continue)"
  have n: "length (foParticipants (fwFan ?w)) = length ps"
    using later_run [of "newFanWorld ps continue" xs] by (simp add: fan_later_def newFanWorld_def NewLinkedSession_def)
  have "task_ok (fwFan ?w) (ftSent th) (Finished r)" "\<forall>b. ftOperation th = OpStop b \<longrightarrow> stop_task (Finished r)"
    using fan_inv_run [OF fan_inv_new, of xs ps continue] assms by (auto simp: fan_inv_def)
  then show ?thesis using n by (cases r) (auto simp: stops_all_def)
qed

text \<open>
  Two devices play; the second one's next append fails with nobody allowed to go on: both are stopped, and
  the next play is refused.
\<close>

definition linkedPair :: "participant list" where
  "linkedPair = [\<lparr>paID = ''handy'', paLabel = ''Handy'', paAlignedPlayer = False, paAligner = False\<rparr>,
     \<lparr>paID = ''coyote'', paLabel = ''Coyote'', paAlignedPlayer = True, paAligner = True\<rparr>]"

definition answered :: fan_env where
  "answered = \<lparr>feIndex = 0, feFailed = False, feOrigin = 1000, feCtxErr = False\<rparr>"

definition fan_failing :: "fan_event list" where
  "fan_failing = [FanBegin (OpPlay False)] @ replicate 6 (FanMove 0 answered) @
     [FanBegin (OpAppendPoints True False False)] @
     [FanMove 1 answered, FanMove 1 answered, FanMove 1 (answered\<lparr>feFailed := True\<rparr>)] @ replicate 9 (FanMove 1 answered)"

lemma fan_failed_hears_only_stops_witness:
  "ftTask (fwThreads (fan_run [FanBegin (OpPlay False)] (fan_run fan_failing (newFanWorld linkedPair False))) ! 2) = Finished (FanFault ''Coyote'') \<and>
   foFault (fwFan (fan_run [FanBegin (OpPlay False)] (fan_run fan_failing (newFanWorld linkedPair False)))) \<noteq> None"
proof -
  define w where "w = fan_run fan_failing (newFanWorld linkedPair False)"
  have ok: "foFault (fwFan w) \<noteq> None \<and> length (fwThreads w) = 2 \<and> \<not> foRetired (fwFan (fan_run [FanBegin (OpPlay False)] w)) ! 0 \<and>
      length (fwThreads (fan_run [FanBegin (OpPlay False)] w)) = 3 \<and>
      ftTask (fwThreads (fan_run [FanBegin (OpPlay False)] w) ! 2) = Finished (FanFault ''Coyote'')"
    unfolding w_def by code_simp
  then show ?thesis
    using fan_failed_hears_only_stops [of w fan_failing linkedPair False 0 2 2 "[FanBegin (OpPlay False)]"]
    by (simp add: w_def)
qed

lemma fan_failure_stops_all_witness:
  "(0, DStop True) \<in> set (ftSent (fwThreads (fan_run fan_failing (newFanWorld linkedPair False)) ! 1)) \<and>
   (1, DStop True) \<in> set (ftSent (fwThreads (fan_run fan_failing (newFanWorld linkedPair False)) ! 1))"
proof -
  have ok: "length (fwThreads (fan_run fan_failing (newFanWorld linkedPair False))) = 2 \<and>
      ftTask (fwThreads (fan_run fan_failing (newFanWorld linkedPair False)) ! 1) = Finished (FanFailed ''Coyote'')"
    by code_simp
  then have "fwThreads (fan_run fan_failing (newFanWorld linkedPair False)) ! 1 \<in> set (fwThreads (fan_run fan_failing (newFanWorld linkedPair False)))"
    by simp
  from fan_failure_stops_all [OF this] ok show ?thesis by (simp add: linkedPair_def)
qed

end
