(* ===== verification/Accounts.thy ===== *)
theory Accounts
  imports GoText "HOL-Library.Code_Target_Nat" "HOL-Library.List_Lexorder" "HOL-Library.Char_ord" "HOL-Library.Product_Lexorder"
begin

text \<open>
  Accounts, logins, control permissions and recovery codes: \<open>internal/accounts\<close> without the profile
  images.  The tables of the datastore are lists of rows; a transaction of the serialised writer is a
  function that returns an error and changes nothing, or the new tables and a result.  Timestamps
  that only the user interface shows are left out; \<open>created_at\<close> is kept as its text, because the code
  orders by it.  Random identifiers, password hashes with their salt, and the digest of tokens and codes
  are arguments, and so is the check of a password against a hash.
\<close>

section \<open>Tables\<close>

abbreviation (input) minute :: duration where
  "minute \<equiv> 60 * second"

definition RoleAdmin :: string where "RoleAdmin = ''admin''"
definition RoleOperator :: string where "RoleOperator = ''operator''"
definition InterfaceFull :: string where "InterfaceFull = ''full''"
definition InterfaceRemote :: string where "InterfaceRemote = ''remote''"

abbreviation MaxSessionsPerAccount :: nat where
  "MaxSessionsPerAccount \<equiv> 20"

abbreviation MaxRecoveryCodes :: nat where
  "MaxRecoveryCodes \<equiv> 8"

definition DefaultSessionLifetime :: duration where
  "DefaultSessionLifetime = 12 * 60 * minute"

record account =
  acID :: string
  acName :: string
  acNameKey :: string
  acRole :: string
  acHash :: string
  acDisabled :: bool
  acAccess :: string

record session_row =
  srKey :: string
  srUser :: string
  srCreated :: string
  srLastSeen :: time
  srExpires :: time
  srPublicID :: string
  srName :: string
  srBrowser :: string
  srPlatform :: string
  srInterface :: string
  srControl :: "string option"

record grant_row =
  grUser :: string
  grID :: string
  grIssuedBy :: string
  grExpires :: "time option"

record account_db =
  dbAccounts :: "account list"
  dbSessions :: "session_row list"
  dbGrants :: "grant_row list"
  dbCodes :: "(string \<times> string) list" \<comment> \<open>digest and owner\<close>
  dbLinks :: "(string \<times> string) list" \<comment> \<open>active links, owner and linked account\<close>
  dbIdle :: "int option" \<comment> \<open>minutes without activity before a login ends\<close>

datatype account_error =
    AlreadyInitialized
  | InvalidCredentials
  | InvalidRole
  | InvalidSession
  | InvalidUsername
  | InvalidPassword
  | LastAdmin
  | AccountNotFound
  | UsernameTaken
  | InterfaceAccess
  | AdministratorRequired
  | ControlPermissionRequired
  | InvalidSessionPolicy
  | ManagedSessionNotFound
  | InvalidSessionName
  | ControlIdentityNotAllowed
  | InvalidRecoveryCode
  | GrantLifetime
  | GrantRefused
  | SessionLimit
  | DatabaseError

type_synonym 'a tx = "account_db \<Rightarrow> account_error + account_db \<times> 'a"

text \<open>\<open>WithTx\<close>: a transaction that fails is rolled back.\<close>

definition WithTx :: "'a tx \<Rightarrow> account_db \<Rightarrow> account_db \<times> (account_error + 'a)" where
  "WithTx t d = (case t d of Inl e \<Rightarrow> (d, Inl e) | Inr (d1, x) \<Rightarrow> (d1, Inr x))"

definition require :: "account_error \<Rightarrow> bool \<Rightarrow> account_error + unit" where
  "require e b = (if b then Inr () else Inl e)"

definition account_row :: "string \<Rightarrow> account_db \<Rightarrow> account option" where
  "account_row i d = find (\<lambda>a. acID a = i) (dbAccounts d)"

definition session_of :: "string \<Rightarrow> account_db \<Rightarrow> session_row option" where
  "session_of k d = find (\<lambda>r. srKey r = k) (dbSessions d)"

definition update_account :: "string \<Rightarrow> (account \<Rightarrow> account) \<Rightarrow> account_db \<Rightarrow> account_db" where
  "update_account i f d = d\<lparr>dbAccounts := map (\<lambda>a. if acID a = i then f a else a) (dbAccounts d)\<rparr>"

definition update_sessions :: "(session_row \<Rightarrow> bool) \<Rightarrow> (session_row \<Rightarrow> session_row) \<Rightarrow> account_db \<Rightarrow> account_db" where
  "update_sessions P f d = d\<lparr>dbSessions := map (\<lambda>r. if P r then f r else r) (dbSessions d)\<rparr>"

definition delete_sessions :: "(session_row \<Rightarrow> bool) \<Rightarrow> account_db \<Rightarrow> account_db" where
  "delete_sessions P d = d\<lparr>dbSessions := filter (\<lambda>r. \<not> P r) (dbSessions d)\<rparr>"

definition delete_codes :: "string \<Rightarrow> account_db \<Rightarrow> account_db" where
  "delete_codes i d = d\<lparr>dbCodes := filter (\<lambda>c. snd c \<noteq> i) (dbCodes d)\<rparr>"

section \<open>Syntax of names, passwords and codes\<close>

definition username_char :: "char \<Rightarrow> bool" where
  "username_char c \<longleftrightarrow> (let n = of_char c :: nat in
     97 \<le> n \<and> n \<le> 122 \<or> 65 \<le> n \<and> n \<le> 90 \<or> 48 \<le> n \<and> n \<le> 57 \<or> c = CHR ''.'' \<or> c = CHR ''_'' \<or> c = CHR ''-'')"

definition normalizeUsername :: "string \<Rightarrow> account_error + string \<times> string" where
  "normalizeUsername username =
     (let u = TrimSpace username in
      if length u < 3 \<or> 64 < length u \<or> \<not> list_all username_char u then Inl InvalidUsername else Inr (u, toLower u))"

definition ValidatePassword :: "string \<Rightarrow> account_error + unit" where
  "ValidatePassword p = require InvalidPassword (length p \<le> 1024 \<and> ValidString p \<and> 15 \<le> RuneCount p)"

text \<open>\<open>base64.RawURLEncoding\<close> decodes 22 characters to 16 bytes exactly when all are of its alphabet.\<close>

definition base64url_char :: "char \<Rightarrow> bool" where
  "base64url_char c \<longleftrightarrow> (let n = of_char c :: nat in
     97 \<le> n \<and> n \<le> 122 \<or> 65 \<le> n \<and> n \<le> 90 \<or> 48 \<le> n \<and> n \<le> 57 \<or> c = CHR ''_'' \<or> c = CHR ''-'')"

definition validSessionManagementID :: "string \<Rightarrow> bool" where
  "validSessionManagementID i \<longleftrightarrow> length i = 22 \<and> list_all base64url_char i"

definition hex_char :: "char \<Rightarrow> bool" where
  "hex_char c \<longleftrightarrow> (let n = of_char c :: nat in 97 \<le> n \<and> n \<le> 102 \<or> 48 \<le> n \<and> n \<le> 57)"

definition normalizeRecoveryCode :: "string \<Rightarrow> string" where
  "normalizeRecoveryCode code =
     (if 80 < length code then []
      else let c = toLower (filter (\<lambda>x. x \<notin> set [CHR ''-'', CHR '' '', CHR 0x0D, CHR 0x0A, CHR 0x09]) code) in
        if length c = 32 \<and> list_all hex_char c then c else [])"

definition upper_char :: "char \<Rightarrow> char" where
  "upper_char c = (let n = of_char c :: nat in if 97 \<le> n \<and> n \<le> 122 then char_of (n - 32) else c)"

function quads :: "string \<Rightarrow> string list" where
  "quads s = (if s = [] then [] else take 4 s # quads (drop 4 s))"
  by pat_completeness auto
termination by (relation "measure length") auto

declare quads.simps [simp del]

fun join_dash :: "string list \<Rightarrow> string" where
  "join_dash [] = []"
| "join_dash [p] = p"
| "join_dash (p # ps) = p @ ''-'' @ join_dash ps"

definition formatRecoveryCode :: "string \<Rightarrow> string" where
  "formatRecoveryCode code = join_dash (map (map upper_char) (quads code))"

definition recoveryCodeDigest :: "(string \<Rightarrow> string) \<Rightarrow> string \<Rightarrow> string" where
  "recoveryCodeDigest sha code = sha (''magichandy-recovery-v1'' @ [CHR 0x00] @ normalizeRecoveryCode code)"

definition normalizedSessionClient :: "string \<times> string \<Rightarrow> string \<times> string" where
  "normalizedSessionClient c =
     (if fst c \<in> set [''edge'', ''chrome'', ''firefox'', ''safari''] then fst c else ''other'',
      if snd c \<in> set [''windows'', ''macos'', ''linux'', ''android'', ''ios''] then snd c else ''other'')"

text \<open>\<open>unicode.IsControl\<close>\<close>

definition IsControl :: "rune \<Rightarrow> bool" where
  "IsControl r \<longleftrightarrow> r < 32 \<or> 127 \<le> r \<and> r < 160"

definition normalizedInterface :: "string \<Rightarrow> string" where
  "normalizedInterface v = (if v = [] then InterfaceFull else v)"

section \<open>Live logins and authority\<close>

definition validIdleMinutes :: "int \<Rightarrow> bool" where
  "validIdleMinutes m \<longleftrightarrow> m \<in> {0, 30, 60, 120, 240, 480}"

definition sessionTimesAt :: "session_row \<Rightarrow> int \<Rightarrow> time \<Rightarrow> bool" where
  "sessionTimesAt r m now \<longleftrightarrow>
     now < srExpires r \<and> validIdleMinutes m \<and> (m = 0 \<or> time_sub now (srLastSeen r) \<le> m * minute)"

definition readIdleMinutes :: "account_db \<Rightarrow> account_error + int" where
  "readIdleMinutes d =
     (case dbIdle d of
        None \<Rightarrow> Inl DatabaseError
      | Some m \<Rightarrow> if validIdleMinutes m then Inr m else Inl InvalidSessionPolicy)"

text \<open>The row of a login with its account, joined.\<close>

definition session_account :: "string \<Rightarrow> account_db \<Rightarrow> (session_row \<times> account) option" where
  "session_account k d =
     (case session_of k d of
        None \<Rightarrow> None
      | Some r \<Rightarrow> (case account_row (srUser r) d of None \<Rightarrow> None | Some a \<Rightarrow> Some (r, a)))"

definition liveSessionOwner :: "time \<Rightarrow> string \<Rightarrow> account_db \<Rightarrow> account_error + string" where
  "liveSessionOwner now k d =
     (case session_account k d of
        None \<Rightarrow> Inl InvalidSession
      | Some (r, a) \<Rightarrow>
          if acDisabled a then Inl InvalidSession
          else case dbIdle d of
            None \<Rightarrow> Inl DatabaseError
          | Some m \<Rightarrow> if sessionTimesAt r m now then Inr (srUser r) else Inl InvalidSession)"

definition liveAdministrator :: "time \<Rightarrow> string \<Rightarrow> account_db \<Rightarrow> account_error + string" where
  "liveAdministrator now k d =
     bindR (liveSessionOwner now k d) (\<lambda>owner.
       case session_account k d of
         None \<Rightarrow> Inl DatabaseError
       | Some (r, a) \<Rightarrow>
           if acRole a \<noteq> RoleAdmin \<or> acAccess a \<noteq> InterfaceFull \<or> srInterface r \<noteq> InterfaceFull then Inl AdministratorRequired
           else Inr owner)"

definition FullAccess :: "account \<Rightarrow> bool" where
  "FullAccess a \<longleftrightarrow> normalizedInterface (acAccess a) = InterfaceFull"

record account_session =
  asKey :: string
  asPublicID :: string
  asInterface :: string
  asAccount :: account
  asControlAccount :: string
  asExpires :: time
  asGrant :: "grant_row option"

definition grant_live :: "time \<Rightarrow> grant_row \<Rightarrow> bool" where
  "grant_live now g \<longleftrightarrow> (case grExpires g of None \<Rightarrow> True | Some t \<Rightarrow> now < t)"

definition issued_grant :: "string \<Rightarrow> account_db \<Rightarrow> grant_row option" where
  "issued_grant i d =
     (case find (\<lambda>g. grUser g = i) (dbGrants d) of
        None \<Rightarrow> None
      | Some g \<Rightarrow>
          (case account_row (grIssuedBy g) d of
             None \<Rightarrow> None
           | Some owner \<Rightarrow> if \<not> acDisabled owner \<and> acRole owner = RoleAdmin then Some g else None))"

definition ControlGrant :: "time \<Rightarrow> string \<Rightarrow> account_db \<Rightarrow> grant_row option" where
  "ControlGrant now i d = (case issued_grant i d of None \<Rightarrow> None | Some g \<Rightarrow> if grant_live now g then Some g else None)"

definition CanUseRemote :: "time \<Rightarrow> account_session \<Rightarrow> bool" where
  "CanUseRemote now s \<longleftrightarrow>
     \<not> acDisabled (asAccount s) \<and>
     (acRole (asAccount s) = RoleAdmin \<or>
      acRole (asAccount s) = RoleOperator \<and> (case asGrant s of None \<Rightarrow> False | Some g \<Rightarrow> grant_live now g))"

definition CanControl :: "time \<Rightarrow> account_session \<Rightarrow> bool" where
  "CanControl now s \<longleftrightarrow> normalizedInterface (asInterface s) = InterfaceFull \<and> FullAccess (asAccount s) \<and> CanUseRemote now s"

definition RemoteDesktopAccount :: "account_session \<Rightarrow> string" where
  "RemoteDesktopAccount s =
     (if FullAccess (asAccount s) then acID (asAccount s) else case asGrant s of Some g \<Rightarrow> grIssuedBy g | None \<Rightarrow> [])"

text \<open>The query of \<open>RequireControlSessionTx\<close>, which joins the tables again and takes the end alone.\<close>

definition issued_expiry :: "string \<Rightarrow> account_db \<Rightarrow> time option option" where
  "issued_expiry owner d =
     (case find (\<lambda>g. grUser g = owner) (dbGrants d) of
        None \<Rightarrow> None
      | Some g \<Rightarrow>
          if list_ex (\<lambda>issuer. acID issuer = grIssuedBy g \<and> \<not> acDisabled issuer \<and> acRole issuer = RoleAdmin) (dbAccounts d)
          then Some (grExpires g) else None)"

definition RequireControlSession :: "time \<Rightarrow> string \<Rightarrow> account_db \<Rightarrow> account_error + unit" where
  "RequireControlSession now k d =
     bindR (liveSessionOwner now k d) (\<lambda>owner.
       case session_account k d of
         None \<Rightarrow> Inl DatabaseError
       | Some (r, a) \<Rightarrow>
           if acAccess a \<noteq> InterfaceFull \<or> srInterface r \<noteq> InterfaceFull then Inl ControlPermissionRequired
           else if acRole a = RoleAdmin then Inr ()
           else case issued_expiry owner d of
             None \<Rightarrow> Inl ControlPermissionRequired
           | Some None \<Rightarrow> Inr ()
           | Some (Some t) \<Rightarrow> if \<not> now < t then Inl ControlPermissionRequired else Inr ())"

definition linked :: "string \<Rightarrow> string \<Rightarrow> account_db \<Rightarrow> bool" where
  "linked owner target d \<longleftrightarrow>
     (owner, target) \<in> set (dbLinks d) \<and> (case account_row target d of None \<Rightarrow> False | Some a \<Rightarrow> \<not> acDisabled a)"

text \<open>\<open>resolveSessionKey\<close> without its activity update, at one instant.\<close>

definition inspectSessionKey :: "time \<Rightarrow> string \<Rightarrow> account_db \<Rightarrow> account_error + account_session" where
  "inspectSessionKey now k d =
     (case session_account k d of
        None \<Rightarrow> Inl InvalidSession
      | Some (r, a) \<Rightarrow>
          (case dbIdle d of
             None \<Rightarrow> Inl DatabaseError
           | Some m \<Rightarrow>
               if \<not> sessionTimesAt r m now \<or> acDisabled a then Inl InvalidSession
               else
                 let control = (case srControl r of
                       None \<Rightarrow> acID a
                     | Some c \<Rightarrow> if linked (srUser r) c d \<and> c \<noteq> [] then c else acID a) in
                 Inr \<lparr>asKey = k, asPublicID = srPublicID r, asInterface = srInterface r, asAccount = a,
                      asControlAccount = control, asExpires = srExpires r,
                      asGrant = (if acRole a \<noteq> RoleAdmin then ControlGrant now (acID a) d else None)\<rparr>))"

text \<open>The write of an active request, at most once a minute; \<open>seen\<close> was read before the writer was free.\<close>

definition touch_session :: "time \<Rightarrow> time \<Rightarrow> string \<Rightarrow> unit tx" where
  "touch_session now seen k d =
     bindR (liveSessionOwner now k d) (\<lambda>_. Inr (update_sessions (\<lambda>r. srKey r = k) (\<lambda>r. r\<lparr>srLastSeen := seen\<rparr>) d, ()))"

definition resolve_needs_touch :: "time \<Rightarrow> string \<Rightarrow> account_db \<Rightarrow> bool" where
  "resolve_needs_touch now k d =
     (case session_of k d of None \<Rightarrow> False | Some r \<Rightarrow> minute \<le> time_sub now (srLastSeen r))"

definition resolveSessionKey :: "time \<Rightarrow> bool \<Rightarrow> string \<Rightarrow> account_session tx" where
  "resolveSessionKey now touch k d =
     bindR (inspectSessionKey now k d) (\<lambda>s.
       if touch \<and> resolve_needs_touch now k d
       then bindR (touch_session now now k d) (\<lambda>(d1, _). Inr (d1, s))
       else Inr (d, s))"

definition token_ok :: "string \<Rightarrow> bool" where
  "token_ok t \<longleftrightarrow> 32 \<le> length t \<and> length t \<le> 128"

definition ResolveSession :: "(string \<Rightarrow> string) \<Rightarrow> time \<Rightarrow> string \<Rightarrow> account_session tx" where
  "ResolveSession sha now t d = (if token_ok t then resolveSessionKey now True (sha t) d else Inl InvalidSession)"

definition InspectSession :: "(string \<Rightarrow> string) \<Rightarrow> time \<Rightarrow> string \<Rightarrow> account_session tx" where
  "InspectSession sha now t d = (if token_ok t then resolveSessionKey now False (sha t) d else Inl InvalidSession)"

definition CheckSession :: "time \<Rightarrow> string \<Rightarrow> account_session tx" where
  "CheckSession now k d = (if length k = 64 then resolveSessionKey now False k d else Inl InvalidSession)"

definition MatchesSessionKey :: "(string \<Rightarrow> string) \<Rightarrow> string \<Rightarrow> string \<Rightarrow> bool" where
  "MatchesSessionKey sha t k \<longleftrightarrow> token_ok t \<and> length k = 64 \<and> sha t = k"

section \<open>Accounts and passwords\<close>

definition as_administrator :: "time \<Rightarrow> string \<Rightarrow> account_db \<Rightarrow> account_error + unit" where
  "as_administrator now actor d = (if actor = [] then Inr () else bindR (liveAdministrator now actor d) (\<lambda>_. Inr ()))"

definition create_account ::
  "time \<Rightarrow> bool \<Rightarrow> string \<Rightarrow> string \<Rightarrow> string \<Rightarrow> string \<Rightarrow> string \<Rightarrow> string \<Rightarrow> string \<Rightarrow> account tx" where
  "create_account now bootstrap actor username password role access encoded i d =
     bindR (normalizeUsername username) (\<lambda>(name, key).
     let rl = toLower (TrimSpace role); acc = normalizedInterface access in
     bindR (require InvalidRole (rl = RoleAdmin \<or> rl = RoleOperator)) (\<lambda>_.
     bindR (require InterfaceAccess (acc = InterfaceFull \<or> acc = InterfaceRemote \<and> rl = RoleOperator)) (\<lambda>_.
     bindR (ValidatePassword password) (\<lambda>_.
     bindR (as_administrator now actor d) (\<lambda>_.
     bindR (require AlreadyInitialized (\<not> bootstrap \<or> dbAccounts d = [])) (\<lambda>_.
     bindR (require UsernameTaken (\<not> list_ex (\<lambda>a. acNameKey a = key) (dbAccounts d))) (\<lambda>_.
     bindR (require DatabaseError (account_row i d = None)) (\<lambda>_.
       let a = \<lparr>acID = i, acName = name, acNameKey = key, acRole = rl, acHash = encoded, acDisabled = False, acAccess = acc\<rparr> in
       Inr (d\<lparr>dbAccounts := dbAccounts d @ [a]\<rparr>, a)))))))))"

text \<open>A password proof is the row it was checked against.\<close>

definition checkPassword :: "(string \<Rightarrow> string \<Rightarrow> bool) \<Rightarrow> string \<Rightarrow> string \<Rightarrow> account_db \<Rightarrow> account_error + account" where
  "checkPassword verify username password d =
     (case normalizeUsername username of
        Inl e \<Rightarrow> Inl InvalidCredentials
      | Inr (name, key) \<Rightarrow>
          (case find (\<lambda>a. acNameKey a = key) (dbAccounts d) of
             None \<Rightarrow> Inl InvalidCredentials
           | Some a \<Rightarrow> if \<not> acDisabled a \<and> verify password (acHash a) then Inr a else Inl InvalidCredentials))"

definition revalidate :: "account \<Rightarrow> account_db \<Rightarrow> account_error + unit" where
  "revalidate pr d =
     (case account_row (acID pr) d of
        None \<Rightarrow> Inl InvalidCredentials
      | Some a \<Rightarrow> if \<not> acDisabled a \<and> acHash a = acHash pr then Inr () else Inl InvalidCredentials)"

definition recoverySessionKeys :: "string \<Rightarrow> account_db \<Rightarrow> account_error + string list" where
  "recoverySessionKeys i d =
     (let keys = map srKey (filter (\<lambda>r. srUser r = i) (dbSessions d)) in
      if MaxSessionsPerAccount < length keys then Inl SessionLimit else Inr keys)"

definition replacePassword :: "string \<Rightarrow> string \<Rightarrow> string list tx" where
  "replacePassword i encoded d =
     bindR (recoverySessionKeys i d) (\<lambda>keys.
     bindR (require AccountNotFound (account_row i d \<noteq> None)) (\<lambda>_.
       Inr (delete_codes i (delete_sessions (\<lambda>r. srUser r = i) (update_account i (\<lambda>a. a\<lparr>acHash := encoded\<rparr>) d)), keys)))"

definition recoveryOwnerProof ::
  "(string \<Rightarrow> string \<Rightarrow> bool) \<Rightarrow> time \<Rightarrow> string \<Rightarrow> string \<Rightarrow> account_db \<Rightarrow> account_error + account" where
  "recoveryOwnerProof verify now actor password d =
     bindR (CheckSession now actor d) (\<lambda>(_, s). checkPassword verify (acName (asAccount s)) password d)"

definition revalidateRecoveryOwner :: "time \<Rightarrow> string \<Rightarrow> account \<Rightarrow> account_db \<Rightarrow> account_error + unit" where
  "revalidateRecoveryOwner now actor pr d =
     bindR (liveSessionOwner now actor d) (\<lambda>owner.
       if owner \<noteq> acID pr then Inl InvalidSession else revalidate pr d)"

definition ChangeOwnPassword :: "time \<Rightarrow> string \<Rightarrow> account \<Rightarrow> string \<Rightarrow> string \<Rightarrow> string list tx" where
  "ChangeOwnPassword now actor pr new encoded d =
     bindR (ValidatePassword new) (\<lambda>_.
     bindR (revalidateRecoveryOwner now actor pr d) (\<lambda>_. replacePassword (acID pr) encoded d))"

definition ResetPasswordForSession :: "time \<Rightarrow> string \<Rightarrow> string \<Rightarrow> string \<Rightarrow> string \<Rightarrow> string list tx" where
  "ResetPasswordForSession now actor i new encoded d =
     bindR (ValidatePassword new) (\<lambda>_.
     bindR (liveAdministrator now actor d) (\<lambda>_. replacePassword i encoded d))"

definition setDisabled :: "time \<Rightarrow> string \<Rightarrow> string \<Rightarrow> bool \<Rightarrow> string list tx" where
  "setDisabled now actor i disabled d =
     bindR (as_administrator now actor d) (\<lambda>_.
       case account_row i d of
         None \<Rightarrow> Inl AccountNotFound
       | Some a \<Rightarrow>
           bindR (require LastAdmin (\<not> (disabled \<and> \<not> acDisabled a \<and> acRole a = RoleAdmin \<and>
             length (filter (\<lambda>x. acRole x = RoleAdmin \<and> \<not> acDisabled x) (dbAccounts d)) \<le> 1))) (\<lambda>_.
           let d1 = update_account i (\<lambda>x. x\<lparr>acDisabled := disabled\<rparr>) d in
           if disabled then bindR (recoverySessionKeys i d1) (\<lambda>keys.
             Inr (delete_codes i (delete_sessions (\<lambda>r. srUser r = i) d1), keys))
           else Inr (d1, [])))"

definition SetInterfaceAccess :: "time \<Rightarrow> string \<Rightarrow> string \<Rightarrow> string \<Rightarrow> string list tx" where
  "SetInterfaceAccess now actor i access d =
     bindR (require InterfaceAccess (access = InterfaceFull \<or> access = InterfaceRemote)) (\<lambda>_.
     bindR (liveAdministrator now actor d) (\<lambda>_.
       case account_row i d of
         None \<Rightarrow> Inl AccountNotFound
       | Some a \<Rightarrow>
           bindR (require InterfaceAccess (\<not> (access = InterfaceRemote \<and> acRole a \<noteq> RoleOperator))) (\<lambda>_.
           if acAccess a = access then Inr (d, [])
           else bindR (recoverySessionKeys i d) (\<lambda>keys.
             let d1 = delete_sessions (\<lambda>r. srUser r = i) (update_account i (\<lambda>x. x\<lparr>acAccess := access\<rparr>) d) in
             Inr (d1\<lparr>dbGrants := filter (\<lambda>g. grUser g \<noteq> i) (dbGrants d1)\<rparr>, keys)))))"

section \<open>Logins\<close>

text \<open>The oldest logins beyond the limit, never the new one.\<close>

definition evicted :: "string \<Rightarrow> string \<Rightarrow> account_db \<Rightarrow> string list" where
  "evicted i k d =
     map srKey (drop (MaxSessionsPerAccount - 1)
       (rev (sort_key (\<lambda>r. (srCreated r, srKey r)) (filter (\<lambda>r. srUser r = i \<and> srKey r \<noteq> k) (dbSessions d)))))"

definition newSessionWithClient ::
  "time \<Rightarrow> string \<Rightarrow> string \<times> string \<Rightarrow> account option \<Rightarrow> string \<Rightarrow> string \<Rightarrow> string \<Rightarrow> string \<Rightarrow> account_session tx" where
  "newSessionWithClient now i client proof aud k publicID created d =
     (let audience = normalizedInterface aud; cl = normalizedSessionClient client in
      bindR (require InterfaceAccess (audience = InterfaceFull \<or> audience = InterfaceRemote)) (\<lambda>_.
        case account_row i d of
          None \<Rightarrow> Inl AccountNotFound
        | Some a \<Rightarrow>
            bindR (require InvalidCredentials (\<not> acDisabled a)) (\<lambda>_.
            bindR (require InterfaceAccess (\<not> (audience = InterfaceFull \<and> \<not> FullAccess a))) (\<lambda>_.
            bindR (case proof of None \<Rightarrow> Inr () | Some pr \<Rightarrow> revalidate pr d) (\<lambda>_.
            bindR (require DatabaseError (session_of k d = None \<and> \<not> list_ex (\<lambda>r. srPublicID r = publicID) (dbSessions d))) (\<lambda>_.
              let r = \<lparr>srKey = k, srUser = i, srCreated = created, srLastSeen = now, srExpires = now + DefaultSessionLifetime,
                        srPublicID = publicID, srName = [], srBrowser = fst cl, srPlatform = snd cl, srInterface = audience,
                        srControl = None\<rparr>;
                  d1 = d\<lparr>dbSessions := dbSessions d @ [r]\<rparr> in
              Inr (delete_sessions (\<lambda>x. srKey x \<in> set (evicted i k d1)) d1,
                \<lparr>asKey = k, asPublicID = publicID, asInterface = audience, asAccount = a, asControlAccount = acID a,
                 asExpires = now + DefaultSessionLifetime, asGrant = None\<rparr>)))))))"

text \<open>\<open>LoginForInterface\<close>: the proof was checked before; the account is the one it was checked against.\<close>

definition LoginForInterface ::
  "time \<Rightarrow> account \<Rightarrow> string \<times> string \<Rightarrow> string \<Rightarrow> string \<Rightarrow> string \<Rightarrow> string \<Rightarrow> account_session tx" where
  "LoginForInterface now pr client aud k publicID created d =
     newSessionWithClient now (acID pr) client (Some pr) aud k publicID created d"

definition RevokeSession :: "(string \<Rightarrow> string) \<Rightarrow> string \<Rightarrow> unit tx" where
  "RevokeSession sha t d = Inr (if t = [] then d else delete_sessions (\<lambda>r. srKey r = sha t) d, ())"

definition RenameOwnSession :: "time \<Rightarrow> string \<Rightarrow> string \<Rightarrow> string \<Rightarrow> unit tx" where
  "RenameOwnSession now actor i name d =
     (let n = TrimSpace name in
      if \<not> ValidString n \<or> 80 < RuneCount n \<or> list_ex IsControl (runes n) then Inl InvalidSessionName
      else if \<not> validSessionManagementID i then Inl ManagedSessionNotFound
      else bindR (liveSessionOwner now actor d) (\<lambda>owner.
        if list_ex (\<lambda>r. srUser r = owner \<and> srPublicID r = i) (dbSessions d)
        then Inr (update_sessions (\<lambda>r. srUser r = owner \<and> srPublicID r = i) (\<lambda>r. r\<lparr>srName := n\<rparr>) d, ())
        else Inl ManagedSessionNotFound))"

definition RevokeOwnSession :: "time \<Rightarrow> string \<Rightarrow> string \<Rightarrow> string tx" where
  "RevokeOwnSession now actor i d =
     (if \<not> validSessionManagementID i then Inl ManagedSessionNotFound
      else bindR (liveSessionOwner now actor d) (\<lambda>owner.
        case find (\<lambda>r. srUser r = owner \<and> srPublicID r = i) (dbSessions d) of
          None \<Rightarrow> Inl ManagedSessionNotFound
        | Some r \<Rightarrow> Inr (delete_sessions (\<lambda>x. srKey x = srKey r \<and> srUser x = owner) d, srKey r)))"

definition RevokeOtherSessions :: "time \<Rightarrow> string \<Rightarrow> string list tx" where
  "RevokeOtherSessions now actor d =
     bindR (liveSessionOwner now actor d) (\<lambda>owner.
       let keys = map srKey (filter (\<lambda>r. srUser r = owner \<and> srKey r \<noteq> actor) (dbSessions d)) in
       if MaxSessionsPerAccount \<le> length keys then Inl SessionLimit
       else Inr (delete_sessions (\<lambda>r. srUser r = owner \<and> srKey r \<noteq> actor) d, keys))"

definition SetControlIdentity :: "(string \<Rightarrow> string) \<Rightarrow> time \<Rightarrow> string \<Rightarrow> string \<Rightarrow> unit tx" where
  "SetControlIdentity sha now t tgt d =
     (if \<not> token_ok t then Inl InvalidSession
      else bindR (liveSessionOwner now (sha t) d) (\<lambda>owner.
        let target = TrimSpace tgt;
            assign = (\<lambda>c. update_sessions (\<lambda>r. srKey r = sha t) (\<lambda>r. r\<lparr>srControl := c\<rparr>) d) in
        if target = [] \<or> target = owner then Inr (assign None, ())
        else if linked owner target d then Inr (assign (Some target), ())
        else Inl ControlIdentityNotAllowed))"

section \<open>Policy, permissions and recovery\<close>

definition expired_keys :: "time \<Rightarrow> int \<Rightarrow> account_db \<Rightarrow> string list" where
  "expired_keys now m d = map srKey (filter (\<lambda>r. \<not> sessionTimesAt r m now) (dbSessions d))"

definition pruneExpiredSessions :: "time \<Rightarrow> int \<Rightarrow> account_db \<Rightarrow> account_db \<times> string list" where
  "pruneExpiredSessions now m d =
     (let keys = expired_keys now m d in (delete_sessions (\<lambda>r. srKey r \<in> set keys) d, keys))"

definition initializeSessionPolicy :: "time \<Rightarrow> unit tx" where
  "initializeSessionPolicy now d =
     (case dbIdle d of
        Some m \<Rightarrow> bindR (readIdleMinutes d) (\<lambda>_. Inr (d, ()))
      | None \<Rightarrow> Inr ((fst (pruneExpiredSessions now 30 d))\<lparr>dbIdle := Some 480\<rparr>, ()))"

definition SetSessionPolicy :: "time \<Rightarrow> string \<Rightarrow> int \<Rightarrow> string list tx" where
  "SetSessionPolicy now actor minutes d =
     bindR (require InvalidSessionPolicy (validIdleMinutes minutes)) (\<lambda>_.
     bindR (liveAdministrator now actor d) (\<lambda>_.
     bindR (readIdleMinutes d) (\<lambda>previous.
       case pruneExpiredSessions now previous d of
         (d1, retired) \<Rightarrow>
           (case pruneExpiredSessions now minutes (d1\<lparr>dbIdle := Some minutes\<rparr>) of
              (d2, newly) \<Rightarrow> Inr (d2, retired @ newly)))))"

text \<open>\<open>asked\<close> is when the request read the clock, before it waited for the writer.\<close>

definition grantControl :: "time \<Rightarrow> time \<Rightarrow> string \<Rightarrow> string \<Rightarrow> string \<Rightarrow> duration \<Rightarrow> grant_row tx" where
  "grantControl now asked actor i grantID lifetime d =
     bindR (require InvalidSession (actor \<noteq> [])) (\<lambda>_.
     bindR (require GrantLifetime (lifetime = 0 \<or> minute \<le> lifetime \<and> lifetime \<le> 12 * 60 * minute)) (\<lambda>_.
     bindR (liveAdministrator now actor d) (\<lambda>admin.
     bindR (require GrantRefused
         ((case account_row admin d of None \<Rightarrow> False | Some a \<Rightarrow> \<not> acDisabled a \<and> acRole a = RoleAdmin) \<and>
          (case account_row i d of None \<Rightarrow> False | Some a \<Rightarrow> \<not> acDisabled a \<and> acRole a = RoleOperator))) (\<lambda>_.
       let g = \<lparr>grUser = i, grID = grantID, grIssuedBy = admin, grExpires = (if lifetime = 0 then None else Some (asked + lifetime))\<rparr> in
       Inr (d\<lparr>dbGrants := filter (\<lambda>x. grUser x \<noteq> i) (dbGrants d) @ [g]\<rparr>, g)))))"

definition revokeControl :: "time \<Rightarrow> string \<Rightarrow> string \<Rightarrow> unit tx" where
  "revokeControl now actor i d =
     bindR (require InvalidSession (actor \<noteq> [])) (\<lambda>_.
     bindR (liveAdministrator now actor d) (\<lambda>admin.
     bindR (require GrantRefused (case account_row admin d of None \<Rightarrow> False | Some a \<Rightarrow> \<not> acDisabled a \<and> acRole a = RoleAdmin)) (\<lambda>_.
       Inr (d\<lparr>dbGrants := filter (\<lambda>g. grUser g \<noteq> i) (dbGrants d)\<rparr>, ()))))"

text \<open>\<open>codes\<close> are the random codes; the primary key and the trigger of the table refuse a clash or a ninth.\<close>

definition ReplaceRecoveryCodes :: "(string \<Rightarrow> string) \<Rightarrow> time \<Rightarrow> string \<Rightarrow> account \<Rightarrow> string list \<Rightarrow> string list tx" where
  "ReplaceRecoveryCodes sha now actor pr codes d =
     bindR (revalidateRecoveryOwner now actor pr d) (\<lambda>_.
       let d1 = delete_codes (acID pr) d; shown = map formatRecoveryCode codes;
           rows = map (\<lambda>c. (recoveryCodeDigest sha c, acID pr)) shown in
       bindR (require DatabaseError (distinct (map fst (dbCodes d1 @ rows)) \<and> length codes \<le> MaxRecoveryCodes)) (\<lambda>_.
         Inr (d1\<lparr>dbCodes := dbCodes d1 @ rows\<rparr>, shown)))"

definition RemoveRecoveryCodes :: "time \<Rightarrow> string \<Rightarrow> account \<Rightarrow> unit tx" where
  "RemoveRecoveryCodes now actor pr d =
     bindR (revalidateRecoveryOwner now actor pr d) (\<lambda>_. Inr (delete_codes (acID pr) d, ()))"

definition recoveryAccount :: "string \<Rightarrow> string \<Rightarrow> account_db \<Rightarrow> account_error + string" where
  "recoveryAccount nameKey digest d =
     (case find (\<lambda>a. acNameKey a = nameKey \<and> (digest, acID a) \<in> set (dbCodes d) \<and> \<not> acDisabled a) (dbAccounts d) of
        None \<Rightarrow> Inl InvalidRecoveryCode
      | Some a \<Rightarrow> Inr (acID a))"

definition recovery_name :: "string \<Rightarrow> string" where
  "recovery_name username = (case normalizeUsername username of Inl e \<Rightarrow> [] | Inr (name, key) \<Rightarrow> key)"

text \<open>The part before the transaction, and the transaction.\<close>

definition recover_lookup :: "(string \<Rightarrow> string) \<Rightarrow> string \<Rightarrow> string \<Rightarrow> string \<Rightarrow> account_db \<Rightarrow> account_error + string" where
  "recover_lookup sha username code password d =
     bindR (recoveryAccount (recovery_name username) (recoveryCodeDigest sha code) d) (\<lambda>i.
     bindR (require InvalidRecoveryCode (normalizeRecoveryCode code \<noteq> [])) (\<lambda>_.
     bindR (ValidatePassword password) (\<lambda>_. Inr i)))"

definition RecoverPassword :: "(string \<Rightarrow> string) \<Rightarrow> string \<Rightarrow> string \<Rightarrow> string \<Rightarrow> string \<Rightarrow> (string \<times> string list) tx" where
  "RecoverPassword sha username code i encoded d =
     bindR (recoveryAccount (recovery_name username) (recoveryCodeDigest sha code) d) (\<lambda>current.
     bindR (require InvalidRecoveryCode (current = i)) (\<lambda>_.
     bindR (recoverySessionKeys i d) (\<lambda>keys.
       Inr (delete_codes i (delete_sessions (\<lambda>r. srUser r = i) (update_account i (\<lambda>a. a\<lparr>acHash := encoded\<rparr>) d)), (i, keys)))))"

section \<open>Requests against the store\<close>

datatype account_event =
    AeInitPolicy
  | AeBootstrap string string string string
  | AeCreate string string string string string string string
  | AeCheck string string
  | AeOwnerCheck string string
  | AeLogin account "string \<times> string" string string string string
  | AeFirstLogin string "string \<times> string" string string string
  | AeTouch string time
  | AeRevoke string
  | AeRename string string string
  | AeRevokeOwn string string
  | AeRevokeOthers string
  | AeIdentity string string
  | AeDisable string string bool
  | AeAccess string string string
  | AeChangePassword string account string string
  | AeReset string string string string
  | AePolicy string int
  | AeGrant time string string string duration
  | AeRevokeGrant string string
  | AeReplaceCodes string account "string list"
  | AeRemoveCodes string account
  | AeRecover string string string string
  | AeLinks "(string \<times> string) list"

record account_world =
  awDb :: account_db
  awProofs :: "account list" \<comment> \<open>password checks that succeeded\<close>

definition newAccountWorld :: account_world where
  "newAccountWorld =
     \<lparr>awDb = \<lparr>dbAccounts = [], dbSessions = [], dbGrants = [], dbCodes = [], dbLinks = [], dbIdle = None\<rparr>, awProofs = []\<rparr>"

definition commit :: "'a tx \<Rightarrow> account_world \<Rightarrow> account_world" where
  "commit t w = w\<lparr>awDb := fst (WithTx t (awDb w))\<rparr>"

definition keep_proof :: "account_error + account \<Rightarrow> account_world \<Rightarrow> account_world" where
  "keep_proof r w = (case r of Inl e \<Rightarrow> w | Inr pr \<Rightarrow> w\<lparr>awProofs := pr # awProofs w\<rparr>)"

definition with_proof :: "account \<Rightarrow> 'a tx \<Rightarrow> account_world \<Rightarrow> account_world" where
  "with_proof pr t w = (if pr \<in> set (awProofs w) then commit t w else w)"

text \<open>
  What one request does at the time \<open>now\<close>.  Checks and writes of one operation are events of their own
  where the code does not hold the writer between them.  \<open>AeLinks\<close> is any change of the account links,
  which this package only reads.
\<close>

definition account_exec :: "(string \<Rightarrow> string) \<Rightarrow> (string \<Rightarrow> string \<Rightarrow> bool) \<Rightarrow> time \<times> account_event \<Rightarrow> account_world \<Rightarrow> account_world" where
  "account_exec sha verify x w =
     (case x of (now, e) \<Rightarrow>
       case e of
         AeInitPolicy \<Rightarrow> commit (initializeSessionPolicy now) w
       | AeBootstrap username password encoded i \<Rightarrow>
           commit (create_account now True [] username password RoleAdmin InterfaceFull encoded i) w
       | AeCreate actor username password role access encoded i \<Rightarrow>
           if actor = [] then w else commit (create_account now False actor username password role access encoded i) w
       | AeCheck username password \<Rightarrow> keep_proof (checkPassword verify username password (awDb w)) w
       | AeOwnerCheck actor password \<Rightarrow> keep_proof (recoveryOwnerProof verify now actor password (awDb w)) w
       | AeLogin pr client aud k publicID created \<Rightarrow> with_proof pr (LoginForInterface now pr client aud k publicID created) w
       | AeFirstLogin i client k publicID created \<Rightarrow>
           commit (newSessionWithClient now i client None InterfaceFull k publicID created) w
       | AeTouch k seen \<Rightarrow> if seen \<le> now then commit (touch_session now seen k) w else w
       | AeRevoke t \<Rightarrow> commit (RevokeSession sha t) w
       | AeRename actor i name \<Rightarrow> commit (RenameOwnSession now actor i name) w
       | AeRevokeOwn actor i \<Rightarrow> commit (RevokeOwnSession now actor i) w
       | AeRevokeOthers actor \<Rightarrow> commit (RevokeOtherSessions now actor) w
       | AeIdentity t target \<Rightarrow> commit (SetControlIdentity sha now t target) w
       | AeDisable actor i disabled \<Rightarrow> if actor = [] then w else commit (setDisabled now actor i disabled) w
       | AeAccess actor i access \<Rightarrow> commit (SetInterfaceAccess now actor i access) w
       | AeChangePassword actor pr new encoded \<Rightarrow> with_proof pr (ChangeOwnPassword now actor pr new encoded) w
       | AeReset actor i new encoded \<Rightarrow> commit (ResetPasswordForSession now actor i new encoded) w
       | AePolicy actor minutes \<Rightarrow> commit (SetSessionPolicy now actor minutes) w
       | AeGrant asked actor i grantID lifetime \<Rightarrow> commit (grantControl now asked actor i grantID lifetime) w
       | AeRevokeGrant actor i \<Rightarrow> commit (revokeControl now actor i) w
       | AeReplaceCodes actor pr codes \<Rightarrow> with_proof pr (ReplaceRecoveryCodes sha now actor pr codes) w
       | AeRemoveCodes actor pr \<Rightarrow> with_proof pr (RemoveRecoveryCodes now actor pr) w
       | AeRecover username code i encoded \<Rightarrow> commit (RecoverPassword sha username code i encoded) w
       | AeLinks links \<Rightarrow> w\<lparr>awDb := (awDb w)\<lparr>dbLinks := links\<rparr>\<rparr>)"

definition account_run ::
  "(string \<Rightarrow> string) \<Rightarrow> (string \<Rightarrow> string \<Rightarrow> bool) \<Rightarrow> (time \<times> account_event) list \<Rightarrow> account_world \<Rightarrow> account_world" where
  "account_run sha verify xs w = fold (account_exec sha verify) xs w"

text \<open>The login key that an event creates.\<close>

fun created_key :: "account_event \<Rightarrow> string option" where
  "created_key (AeLogin pr client aud k publicID created) = Some k"
| "created_key (AeFirstLogin i client k publicID created) = Some k"
| "created_key _ = None"

end
