(* ===== verification/AccountInvariant.thy ===== *)
theory AccountInvariant
  imports Accounts
begin

text \<open>
  The invariant of the account tables: rows refer to rows that exist, an enabled administrator remains
  once there is an account, every login belongs to an enabled account with the interface it was made for,
  and no account has more logins than the limit.  Every transaction of \<open>Accounts\<close> keeps it.
\<close>

section \<open>Tables\<close>

lemma account_row_update:
  assumes "\<And>a. acID (f a) = acID a"
  shows "account_row j (update_account i f d) = map_option (\<lambda>a. if j = i then f a else a) (account_row j d)"
proof -
  have "find (\<lambda>a. acID a = j) (map (\<lambda>a. if acID a = i then f a else a) xs) =
      map_option (\<lambda>a. if j = i then f a else a) (find (\<lambda>a. acID a = j) xs)" for xs
    by (induction xs) (auto simp: assms)
  then show ?thesis by (simp add: account_row_def update_account_def)
qed

lemma table_fields [simp]:
  "dbSessions (update_account i f d) = dbSessions d" "dbGrants (update_account i f d) = dbGrants d"
  "dbIdle (update_account i f d) = dbIdle d" "dbCodes (update_account i f d) = dbCodes d" "dbLinks (update_account i f d) = dbLinks d"
  "dbAccounts (delete_sessions P d) = dbAccounts d" "dbGrants (delete_sessions P d) = dbGrants d"
  "dbIdle (delete_sessions P d) = dbIdle d" "dbLinks (delete_sessions P d) = dbLinks d" "dbCodes (delete_sessions P d) = dbCodes d"
  "dbSessions (delete_sessions P d) = filter (\<lambda>r. \<not> P r) (dbSessions d)"
  "dbAccounts (update_sessions P g d) = dbAccounts d" "dbGrants (update_sessions P g d) = dbGrants d"
  "dbIdle (update_sessions P g d) = dbIdle d" "dbLinks (update_sessions P g d) = dbLinks d" "dbCodes (update_sessions P g d) = dbCodes d"
  "dbAccounts (delete_codes i d) = dbAccounts d" "dbSessions (delete_codes i d) = dbSessions d" "dbGrants (delete_codes i d) = dbGrants d"
  "dbIdle (delete_codes i d) = dbIdle d" "dbLinks (delete_codes i d) = dbLinks d"
  by (simp_all add: update_account_def delete_sessions_def update_sessions_def delete_codes_def)

lemma account_row_cong: "dbAccounts d = dbAccounts e \<Longrightarrow> account_row i d = account_row i e"
  by (simp add: account_row_def)

lemma account_row_same [simp]:
  "account_row i (delete_sessions P d) = account_row i d" "account_row i (update_sessions P g d) = account_row i d"
  "account_row i (delete_codes j d) = account_row i d" "account_row i (d\<lparr>dbSessions := s\<rparr>) = account_row i d"
  "account_row i (d\<lparr>dbGrants := gs\<rparr>) = account_row i d" "account_row i (d\<lparr>dbCodes := c\<rparr>) = account_row i d"
  "account_row i (d\<lparr>dbIdle := m\<rparr>) = account_row i d" "account_row i (d\<lparr>dbLinks := l\<rparr>) = account_row i d"
  by (simp_all add: account_row_def)

lemma find_member: "find P xs = Some x \<Longrightarrow> x \<in> set xs \<and> P x"
  by (auto simp: find_Some_iff)

lemma find_key:
  assumes "distinct (map key xs)" and "x \<in> set xs"
  shows "find (\<lambda>y. key y = key x) xs = Some x"
  using assms by (induction xs) (auto simp: rev_image_eqI)

text \<open>The rows of the tables refer to each other as the schema and the operations promise.\<close>

definition role_ok :: "account \<Rightarrow> bool" where
  "role_ok a \<longleftrightarrow>
     (acRole a = RoleAdmin \<or> acRole a = RoleOperator) \<and> (acAccess a = InterfaceFull \<or> acAccess a = InterfaceRemote \<and> acRole a = RoleOperator)"

definition accounts_ok :: "account list \<Rightarrow> bool" where
  "accounts_ok xs \<longleftrightarrow> distinct (map acID xs) \<and> distinct (map acNameKey xs) \<and> (\<forall>a \<in> set xs. role_ok a) \<and>
     (xs = [] \<or> (\<exists>a \<in> set xs. acRole a = RoleAdmin \<and> \<not> acDisabled a))"

definition session_ok :: "account_db \<Rightarrow> session_row \<Rightarrow> bool" where
  "session_ok d r \<longleftrightarrow> (srInterface r = InterfaceFull \<or> srInterface r = InterfaceRemote) \<and>
     (\<exists>a. account_row (srUser r) d = Some a \<and> \<not> acDisabled a \<and> (srInterface r = InterfaceFull \<longrightarrow> acAccess a = InterfaceFull))"

definition sessions_of :: "string \<Rightarrow> session_row list \<Rightarrow> nat" where
  "sessions_of i rs = length (filter (\<lambda>r. srUser r = i) rs)"

definition account_inv :: "account_db \<Rightarrow> bool" where
  "account_inv d \<longleftrightarrow> accounts_ok (dbAccounts d) \<and> distinct (map srKey (dbSessions d)) \<and> (\<forall>r \<in> set (dbSessions d). session_ok d r) \<and>
     (\<forall>i. sessions_of i (dbSessions d) \<le> MaxSessionsPerAccount) \<and> (\<forall>m. dbIdle d = Some m \<longrightarrow> validIdleMinutes m)"

definition tx_keeps :: "'a tx \<Rightarrow> bool" where
  "tx_keeps t \<longleftrightarrow> (\<forall>d e x. account_inv d \<and> t d = Inr (e, x) \<longrightarrow> account_inv e)"

lemma inv_commit: "tx_keeps t \<Longrightarrow> account_inv (awDb w) \<Longrightarrow> account_inv (awDb (commit t w))"
  by (auto simp: tx_keeps_def commit_def WithTx_def split: sum.split)

lemma session_ok_cong: "dbAccounts e = dbAccounts d \<Longrightarrow> session_ok e r = session_ok d r"
  by (simp add: session_ok_def account_row_def)

lemma sessions_of_filter: "sessions_of i (filter P rs) \<le> sessions_of i rs"
  by (induction rs) (auto simp: sessions_of_def)

lemma inv_delete [intro]: "account_inv d \<Longrightarrow> account_inv (delete_sessions P d)"
  unfolding account_inv_def
  by (auto simp: distinct_map_filter session_ok_cong [of "delete_sessions P d" d] intro: order_trans [OF sessions_of_filter])

lemma inv_codes [intro]: "account_inv d \<Longrightarrow> account_inv (delete_codes i d)"
  by (simp add: account_inv_def session_ok_cong [of "delete_codes i d" d])

lemma inv_update_sessions:
  assumes "account_inv d" and "\<And>r. srKey (g r) = srKey r \<and> srUser (g r) = srUser r \<and> srInterface (g r) = srInterface r"
  shows "account_inv (update_sessions P g d)"
proof -
  have keys: "map srKey (map (\<lambda>r. if P r then g r else r) rs) = map srKey rs" for rs
    using assms(2) by (induction rs) auto
  have count: "sessions_of i (map (\<lambda>r. if P r then g r else r) rs) = sessions_of i rs" for i rs
    using assms(2) by (induction rs) (auto simp: sessions_of_def)
  have ok: "session_ok d (g r) = session_ok d r" "session_ok (update_sessions P g d) r = session_ok d r" for r
    using assms(2) by (simp_all add: session_ok_def)
  have s: "dbSessions (update_sessions P g d) = map (\<lambda>r. if P r then g r else r) (dbSessions d)"
    by (simp add: update_sessions_def)
  show ?thesis using assms(1) unfolding account_inv_def s keys count by (auto simp: ok)
qed

lemma inv_frame:
  "account_inv d \<Longrightarrow> account_inv (d\<lparr>dbGrants := g\<rparr>)" "account_inv d \<Longrightarrow> account_inv (d\<lparr>dbCodes := c\<rparr>)"
  "account_inv d \<Longrightarrow> account_inv (d\<lparr>dbLinks := l\<rparr>)" "account_inv d \<Longrightarrow> validIdleMinutes m \<Longrightarrow> account_inv (d\<lparr>dbIdle := Some m\<rparr>)"
  by (simp_all add: account_inv_def session_ok_def)

section \<open>Every transaction keeps the invariant\<close>

lemma require_Inr [simp]: "require e b = Inr x \<longleftrightarrow> b"
  by (simp add: require_def)

lemma account_row_in: "account_row i d = Some a \<Longrightarrow> a \<in> set (dbAccounts d) \<and> acID a = i"
  using find_member by (fastforce simp: account_row_def)

lemma live_owner:
  "liveSessionOwner now k d = Inr i \<longleftrightarrow>
     (\<exists>r a m. session_account k d = Some (r, a) \<and> srUser r = i \<and> \<not> acDisabled a \<and> dbIdle d = Some m \<and> sessionTimesAt r m now)"
  by (auto simp: liveSessionOwner_def split: option.splits prod.splits)

lemma session_account_Some:
  "session_account k d = Some (r, a) \<longleftrightarrow> session_of k d = Some r \<and> account_row (srUser r) d = Some a"
  by (auto simp: session_account_def split: option.splits)

lemma live_administrator:
  assumes "liveAdministrator now k d = Inr i"
  obtains a where "account_row i d = Some a" "\<not> acDisabled a" "acRole a = RoleAdmin" "acAccess a = InterfaceFull"
  using assms
  by (auto simp: liveAdministrator_def bindR_Inr_iff live_owner session_account_Some split: option.splits prod.splits if_splits)

lemma accounts_ok_update:
  assumes "accounts_ok xs"
    and "\<And>a. acID (f a) = acID a \<and> acNameKey (f a) = acNameKey a \<and> acRole (f a) = acRole a"
    and "\<And>a. a \<in> set xs \<Longrightarrow> acID a = i \<Longrightarrow> role_ok (f a)"
    and "xs \<noteq> [] \<longrightarrow> (\<exists>a \<in> set xs. acRole a = RoleAdmin \<and> \<not> acDisabled (if acID a = i then f a else a))"
  shows "accounts_ok (map (\<lambda>a. if acID a = i then f a else a) xs)"
proof -
  have "acID \<circ> (\<lambda>a. if acID a = i then f a else a) = acID" "acNameKey \<circ> (\<lambda>a. if acID a = i then f a else a) = acNameKey"
    using assms(2) by auto
  moreover have "xs = [] \<or> (\<exists>a \<in> set (map (\<lambda>a. if acID a = i then f a else a) xs). acRole a = RoleAdmin \<and> \<not> acDisabled a)"
  proof (cases "xs = []")
    case False
    then obtain a where "a \<in> set xs" "acRole a = RoleAdmin" "\<not> acDisabled (if acID a = i then f a else a)"
      using assms(4) by blast
    then show ?thesis using assms(2) by (intro disjI2 bexI [of _ "if acID a = i then f a else a"]) auto
  qed simp
  ultimately show ?thesis using assms(1,3) unfolding accounts_ok_def list.map_comp by auto
qed

lemma keeps_touch: "tx_keeps (touch_session now seen k)"
  by (auto simp: tx_keeps_def touch_session_def bindR_Inr_iff intro: inv_update_sessions)

lemma keeps_rename: "tx_keeps (RenameOwnSession now actor i name)"
  by (auto simp: tx_keeps_def RenameOwnSession_def bindR_Inr_iff Let_def intro: inv_update_sessions split: if_splits)

lemma keeps_identity: "tx_keeps (SetControlIdentity sha now t tgt)"
  by (auto simp: tx_keeps_def SetControlIdentity_def bindR_Inr_iff Let_def intro: inv_update_sessions split: if_splits)

lemma keeps_revoke: "tx_keeps (RevokeSession sha t)" "tx_keeps (RevokeOwnSession now actor i)" "tx_keeps (RevokeOtherSessions now actor)"
  by (auto simp: tx_keeps_def RevokeSession_def RevokeOwnSession_def RevokeOtherSessions_def bindR_Inr_iff Let_def
      split: if_splits option.splits)

lemma keeps_grants: "tx_keeps (grantControl now asked actor i g l)" "tx_keeps (revokeControl now actor i)"
  by (auto simp: tx_keeps_def grantControl_def revokeControl_def bindR_Inr_iff Let_def intro: inv_frame)

lemma keeps_codes: "tx_keeps (ReplaceRecoveryCodes sha now actor pr codes)" "tx_keeps (RemoveRecoveryCodes now actor pr)"
  by (auto simp: tx_keeps_def ReplaceRecoveryCodes_def RemoveRecoveryCodes_def bindR_Inr_iff Let_def intro!: inv_frame)

lemma keeps_policy: "tx_keeps (initializeSessionPolicy now)" "tx_keeps (SetSessionPolicy now actor m)"
  by (auto simp: tx_keeps_def initializeSessionPolicy_def SetSessionPolicy_def pruneExpiredSessions_def bindR_Inr_iff Let_def
      intro!: inv_frame inv_delete split: option.splits) (auto simp: validIdleMinutes_def)

lemma inv_update_delete:
  assumes inv: "account_inv d" and f: "\<And>a. acID (f a) = acID a"
    and ok: "accounts_ok (map (\<lambda>a. if acID a = i then f a else a) (dbAccounts d))"
  shows "account_inv (delete_sessions (\<lambda>r. srUser r = i) (update_account i f d))"
proof -
  have "session_ok (delete_sessions (\<lambda>r. srUser r = i) (update_account i f d)) r = session_ok d r" if "srUser r \<noteq> i" for r
    using that by (simp add: session_ok_def account_row_update f option.map_comp comp_def option.map_ident)
  then show ?thesis using inv ok unfolding account_inv_def
    by (auto simp: update_account_def distinct_map_filter intro: order_trans [OF sessions_of_filter])
qed

lemma some_admin: "accounts_ok xs \<Longrightarrow> xs \<noteq> [] \<longrightarrow> (\<exists>a \<in> set xs. acRole a = RoleAdmin \<and> \<not> acDisabled a)"
  by (auto simp: accounts_ok_def)

lemma inv_new_hash:
  assumes "account_inv d"
  shows "account_inv (delete_codes i (delete_sessions (\<lambda>r. srUser r = i) (update_account i (\<lambda>a. a\<lparr>acHash := h\<rparr>) d)))"
proof -
  have "accounts_ok (map (\<lambda>a. if acID a = i then a\<lparr>acHash := h\<rparr> else a) (dbAccounts d))"
    by (rule accounts_ok_update) (use assms some_admin [of "dbAccounts d"] in \<open>auto simp: account_inv_def accounts_ok_def role_ok_def\<close>)
  then show ?thesis by (intro inv_codes inv_update_delete assms) simp_all
qed

lemma keeps_password:
  "tx_keeps (ChangeOwnPassword now actor pr new encoded)" "tx_keeps (ResetPasswordForSession now actor i new encoded)"
  "tx_keeps (RecoverPassword sha username code i encoded)"
  by (auto simp: tx_keeps_def ChangeOwnPassword_def ResetPasswordForSession_def RecoverPassword_def replacePassword_def bindR_Inr_iff
      intro: inv_new_hash)

lemma other_admin:
  assumes "distinct (map acID xs)" and "1 < length (filter (\<lambda>x. acRole x = RoleAdmin \<and> \<not> acDisabled x) xs)"
  obtains a where "a \<in> set xs" "acRole a = RoleAdmin" "\<not> acDisabled a" "acID a \<noteq> i"
proof (rule ccontr)
  let ?ys = "filter (\<lambda>x. acRole x = RoleAdmin \<and> \<not> acDisabled x) xs"
  assume "\<not> thesis"
  then have "set (map acID ?ys) \<subseteq> {i}" using that by auto
  then have "card (set (map acID ?ys)) \<le> 1" using card_mono [of "{i}"] by fastforce
  moreover have "distinct (map acID ?ys)" using assms(1) by (simp add: distinct_map_filter)
  ultimately show False using assms(2) distinct_card by fastforce
qed

lemma keeps_disabled: "tx_keeps (setDisabled now actor i b)"
  unfolding tx_keeps_def
proof (intro allI impI, elim conjE)
  fix d e x
  assume inv: "account_inv d" and r: "setDisabled now actor i b d = Inr (e, x)"
  then obtain a where a: "account_row i d = Some a"
    by (auto simp: setDisabled_def bindR_Inr_iff split: option.splits)
  note acc = account_row_in [OF a]
  have xs: "accounts_ok (dbAccounts d)" using inv by (simp add: account_inv_def)
  let ?f = "\<lambda>x. x\<lparr>acDisabled := b\<rparr>"
  have "\<exists>y \<in> set (dbAccounts d). acRole y = RoleAdmin \<and> \<not> acDisabled (if acID y = i then ?f y else y)"
  proof (cases "b \<and> \<not> acDisabled a \<and> acRole a = RoleAdmin")
    case True
    then have "1 < length (filter (\<lambda>x. acRole x = RoleAdmin \<and> \<not> acDisabled x) (dbAccounts d))"
      using r a by (auto simp: setDisabled_def bindR_Inr_iff)
    then obtain y where "y \<in> set (dbAccounts d)" "acRole y = RoleAdmin" "\<not> acDisabled y" "acID y \<noteq> i"
      using other_admin xs unfolding accounts_ok_def by metis
    then show ?thesis by auto
  next
    case False
    obtain y where y: "y \<in> set (dbAccounts d)" "acRole y = RoleAdmin" "\<not> acDisabled y"
      using xs acc unfolding accounts_ok_def by (metis empty_iff list.set(1))
    have "acID y = i \<Longrightarrow> y = a" using xs y(1) acc by (auto simp: accounts_ok_def distinct_map inj_on_def)
    then show ?thesis using y False by (intro bexI [of _ y]) auto
  qed
  then have ok: "accounts_ok (map (\<lambda>a. if acID a = i then ?f a else a) (dbAccounts d))"
    using xs by (intro accounts_ok_update) (auto simp: accounts_ok_def role_ok_def)
  show "account_inv e"
  proof (cases b)
    case True
    then have "e = delete_codes i (delete_sessions (\<lambda>r. srUser r = i) (update_account i ?f d))"
      using r a by (auto simp: setDisabled_def bindR_Inr_iff Let_def)
    then show ?thesis using inv_update_delete [OF inv _ ok] by (auto intro: inv_codes)
  next
    case False
    then have e: "e = update_account i ?f d" using r a by (auto simp: setDisabled_def bindR_Inr_iff Let_def)
    have "session_ok e r" if "session_ok d r" for r
      using that False by (cases "srUser r = i") (auto simp: session_ok_def e account_row_update)
    then show ?thesis using inv ok by (auto simp: account_inv_def e update_account_def)
  qed
qed

lemma keeps_access: "tx_keeps (SetInterfaceAccess now actor i access)"
  unfolding tx_keeps_def
proof (intro allI impI, elim conjE)
  fix d e x
  assume inv: "account_inv d" and r: "SetInterfaceAccess now actor i access d = Inr (e, x)"
  then obtain a where a: "account_row i d = Some a" "access = InterfaceFull \<or> access = InterfaceRemote \<and> acRole a = RoleOperator"
    by (auto simp: SetInterfaceAccess_def bindR_Inr_iff split: option.splits)
  note acc = account_row_in [OF a(1)]
  have xs: "accounts_ok (dbAccounts d)" using inv by (simp add: account_inv_def)
  let ?f = "\<lambda>x. x\<lparr>acAccess := access\<rparr>"
  have "y = a" if "y \<in> set (dbAccounts d)" "acID y = i" for y
    using xs that acc by (auto simp: accounts_ok_def distinct_map inj_on_def)
  then have ok: "accounts_ok (map (\<lambda>a. if acID a = i then ?f a else a) (dbAccounts d))"
    using xs a(2) some_admin [OF xs] by (intro accounts_ok_update) (auto simp: accounts_ok_def role_ok_def)
  show "account_inv e"
  proof (cases "acAccess a = access")
    case True
    then show ?thesis using r a inv by (auto simp: SetInterfaceAccess_def bindR_Inr_iff)
  next
    case False
    then have e: "e = (delete_sessions (\<lambda>r. srUser r = i) (update_account i ?f d))\<lparr>dbGrants := filter (\<lambda>g. grUser g \<noteq> i) (dbGrants d)\<rparr>"
      using r a by (auto simp: SetInterfaceAccess_def bindR_Inr_iff Let_def)
    show ?thesis unfolding e by (intro inv_frame inv_update_delete inv ok) simp
  qed
qed

lemma find_Some_append: "find P xs = Some x \<Longrightarrow> find P (xs @ ys) = Some x"
  by (induction xs) (auto split: if_splits)

lemma filter_split_length: "length (filter P xs) \<le> length (filter (\<lambda>r. P r \<and> \<not> Q r) xs) + length (filter Q xs)"
  by (induction xs) auto

text \<open>The row that a successful creation adds.\<close>

definition created_row :: "string \<Rightarrow> string \<Rightarrow> string \<Rightarrow> string \<Rightarrow> string \<Rightarrow> string \<Rightarrow> account" where
  "created_row i name key role access encoded = \<lparr>acID = i, acName = name, acNameKey = key, acRole = toLower (TrimSpace role),
     acHash = encoded, acDisabled = False, acAccess = normalizedInterface access\<rparr>"

lemma create_account_Inr:
  assumes "create_account now b actor u p role access encoded i d = Inr (e, x)"
  obtains name key where "normalizeUsername u = Inr (name, key)"
    "toLower (TrimSpace role) = RoleAdmin \<or> toLower (TrimSpace role) = RoleOperator"
    "normalizedInterface access = InterfaceFull \<or> normalizedInterface access = InterfaceRemote \<and> toLower (TrimSpace role) = RoleOperator"
    "as_administrator now actor d = Inr ()" "\<not> b \<or> dbAccounts d = []" "\<not> list_ex (\<lambda>a. acNameKey a = key) (dbAccounts d)"
    "account_row i d = None" "e = d\<lparr>dbAccounts := dbAccounts d @ [created_row i name key role access encoded]\<rparr>"
proof -
  obtain name key where n: "normalizeUsername u = Inr (name, key)"
    using assms by (cases "normalizeUsername u") (simp_all add: create_account_def, force)
  show ?thesis
    using assms unfolding create_account_def n bindR_simps prod.case Let_def bindR_Inr_iff require_Inr
    by (elim exE conjE) (rule that [OF n]; auto simp: created_row_def)
qed

lemma keeps_create:
  assumes "b \<or> actor \<noteq> []" and "b \<longrightarrow> toLower (TrimSpace role) = RoleAdmin"
  shows "tx_keeps (create_account now b actor u p role access encoded i)"
  unfolding tx_keeps_def
proof (intro allI impI, elim conjE)
  fix d e x
  assume inv: "account_inv d" and r: "create_account now b actor u p role access encoded i d = Inr (e, x)"
  obtain name key where c: "toLower (TrimSpace role) = RoleAdmin \<or> toLower (TrimSpace role) = RoleOperator"
      "normalizedInterface access = InterfaceFull \<or> normalizedInterface access = InterfaceRemote \<and> toLower (TrimSpace role) = RoleOperator"
      "as_administrator now actor d = Inr ()" "\<not> b \<or> dbAccounts d = []" "\<not> list_ex (\<lambda>a. acNameKey a = key) (dbAccounts d)"
      "account_row i d = None" and e: "e = d\<lparr>dbAccounts := dbAccounts d @ [created_row i name key role access encoded]\<rparr>"
    by (rule create_account_Inr [OF r]) (rule that)
  define a where "a = created_row i name key role access encoded"
  have a: "acID a = i" "acNameKey a = key" "acRole a = toLower (TrimSpace role)" "\<not> acDisabled a" "role_ok a"
    using c(1,2) by (simp_all add: a_def created_row_def role_ok_def)
  have xs: "accounts_ok (dbAccounts d)" using inv by (simp add: account_inv_def)
  have "dbAccounts d \<noteq> []" if nb: "\<not> b"
  proof -
    obtain j where "liveAdministrator now actor d = Inr j"
      using c(3) assms(1) nb by (auto simp: as_administrator_def bindR_Inr_iff)
    then obtain y where "account_row j d = Some y" by (rule live_administrator)
    then show ?thesis using account_row_in by fastforce
  qed
  then have admin: "\<exists>y \<in> set (dbAccounts d @ [a]). acRole y = RoleAdmin \<and> \<not> acDisabled y"
    using some_admin [OF xs] assms(2) a by (cases b) auto
  have fresh: "i \<notin> set (map acID (dbAccounts d))" "key \<notin> set (map acNameKey (dbAccounts d))"
    using c(5,6) by (auto simp: account_row_def find_None_iff list_ex_iff)
  have "accounts_ok (dbAccounts d @ [a])"
    using xs admin fresh a unfolding accounts_ok_def by auto
  moreover have "session_ok e r" if "session_ok d r" for r
    using that by (auto simp: session_ok_def e account_row_def dest: find_Some_append)
  ultimately show "account_inv e" using inv by (auto simp: account_inv_def e a_def)
qed

lemma administrator_role: "toLower (TrimSpace RoleAdmin) = RoleAdmin"
  by code_simp

lemma length_filter_sorted: "length (filter P (rev (sort_key f xs))) = length (filter P xs)"
  by (simp add: rev_filter [symmetric] filter_sort)

lemma evicted_count:
  "length (filter (\<lambda>r. (srUser r = i \<and> srKey r \<noteq> k) \<and> srKey r \<notin> set (evicted i k d)) (dbSessions d)) \<le> MaxSessionsPerAccount - 1"
proof -
  define xs where "xs = rev (sort_key (\<lambda>r. (srCreated r, srKey r)) (filter (\<lambda>r. srUser r = i \<and> srKey r \<noteq> k) (dbSessions d)))"
  let ?P = "\<lambda>r. srKey r \<notin> set (evicted i k d)"
  have ev: "evicted i k d = map srKey (drop 19 xs)" by (simp add: evicted_def xs_def)
  have "length (filter ?P (filter (\<lambda>r. srUser r = i \<and> srKey r \<noteq> k) (dbSessions d))) = length (filter ?P xs)"
    by (simp only: xs_def length_filter_sorted)
  also have "\<dots> = length (filter ?P (take 19 xs)) + length (filter ?P (drop 19 xs))"
    by (metis append_take_drop_id filter_append length_append)
  also have "filter ?P (drop 19 xs) = []" by (simp add: ev filter_empty_conv)
  also have "length (filter ?P (take 19 xs)) \<le> 19" using length_filter_le [of ?P "take 19 xs"] by simp
  finally show ?thesis by (simp add: conj_commute)
qed

lemma keeps_session: "tx_keeps (newSessionWithClient now i client pr aud k publicID created)"
  unfolding tx_keeps_def
proof (intro allI impI, elim conjE)
  fix d e x
  assume inv: "account_inv d" and r: "newSessionWithClient now i client pr aud k publicID created d = Inr (e, x)"
  define audience where "audience = normalizedInterface aud"
  obtain a where a: "account_row i d = Some a" "\<not> acDisabled a" "audience = InterfaceFull \<or> audience = InterfaceRemote"
      "audience = InterfaceFull \<longrightarrow> FullAccess a" "session_of k d = None"
    using r by (auto simp: newSessionWithClient_def bindR_Inr_iff Let_def audience_def split: option.splits)
  define row where "row = \<lparr>srKey = k, srUser = i, srCreated = created, srLastSeen = now, srExpires = now + DefaultSessionLifetime,
    srPublicID = publicID, srName = [], srBrowser = fst (normalizedSessionClient client), srPlatform = snd (normalizedSessionClient client),
    srInterface = audience, srControl = None\<rparr>"
  define d1 where "d1 = d\<lparr>dbSessions := dbSessions d @ [row]\<rparr>"
  have e: "e = delete_sessions (\<lambda>y. srKey y \<in> set (evicted i k d1)) d1"
    using r a by (auto simp: newSessionWithClient_def bindR_Inr_iff Let_def audience_def row_def d1_def split: option.splits)
  have row: "srKey row = k" "srUser row = i" "srInterface row = audience" by (simp_all add: row_def)
  have fresh: "k \<notin> set (map srKey (dbSessions d))" using a(5) by (auto simp: session_of_def find_None_iff)
  have "role_ok a" using inv account_row_in [OF a(1)] by (simp add: account_inv_def accounts_ok_def)
  then have full: "audience = InterfaceFull \<longrightarrow> acAccess a = InterfaceFull"
    using a(4) by (auto simp: FullAccess_def role_ok_def normalizedInterface_def InterfaceFull_def InterfaceRemote_def)
  have ok: "session_ok e s" if "s = row \<or> session_ok d s" for s
    using that a full row by (auto simp: session_ok_def e d1_def)
  have count: "sessions_of j (dbSessions e) \<le> MaxSessionsPerAccount" for j
  proof (cases "j = i")
    case True
    have "dbSessions e = filter (\<lambda>y. srKey y \<notin> set (evicted i k d1)) (dbSessions d1)" by (simp add: e)
    then have "sessions_of i (dbSessions e) = length (filter (\<lambda>y. srUser y = i \<and> srKey y \<notin> set (evicted i k d1)) (dbSessions d1))"
      by (simp add: sessions_of_def conj_commute)
    also have "\<dots> \<le> length (filter (\<lambda>r. (srUser r = i \<and> srKey r \<noteq> k) \<and> srKey r \<notin> set (evicted i k d1)) (dbSessions d1)) +
        length (filter (\<lambda>r. srKey r = k) (dbSessions d1))"
      using filter_split_length [of "\<lambda>y. srUser y = i \<and> srKey y \<notin> set (evicted i k d1)" "dbSessions d1" "\<lambda>r. srKey r = k"]
      by (simp add: conj_ac)
    also have "length (filter (\<lambda>r. srKey r = k) (dbSessions d1)) = 1"
    proof -
      have "\<forall>y \<in> set (dbSessions d). srKey y \<noteq> k" using fresh by auto
      then have "filter (\<lambda>r. srKey r = k) (dbSessions d) = []" by (simp add: filter_empty_conv)
      then show ?thesis by (simp add: d1_def row)
    qed
    finally show ?thesis using evicted_count [of i k d1] True by simp
  next
    case False
    then have "sessions_of j (dbSessions d1) = sessions_of j (dbSessions d)" by (simp add: sessions_of_def d1_def row)
    moreover have "sessions_of j (dbSessions e) \<le> sessions_of j (dbSessions d1)" by (simp add: e sessions_of_filter)
    moreover have "sessions_of j (dbSessions d) \<le> MaxSessionsPerAccount" using inv by (simp add: account_inv_def)
    ultimately show ?thesis by linarith
  qed
  show "account_inv e" unfolding account_inv_def
    using inv fresh count ok by (auto simp: account_inv_def e d1_def row distinct_map_filter)
qed

lemma inv_with_proof: "tx_keeps t \<Longrightarrow> account_inv (awDb w) \<Longrightarrow> account_inv (awDb (with_proof pr t w))"
  by (simp add: with_proof_def inv_commit)

lemma keeps_login: "tx_keeps (LoginForInterface now pr client aud k publicID created)"
  using keeps_session by (simp add: tx_keeps_def LoginForInterface_def)

lemma account_inv_exec:
  assumes "account_inv (awDb w)"
  shows "account_inv (awDb (account_exec sha verify x w))"
proof -
  have keep: "account_inv (awDb (keep_proof r w))" for r
    using assms by (simp add: keep_proof_def split: sum.split)
  obtain now e where x: "x = (now, e)" by (cases x)
  show ?thesis unfolding x
    by (cases e)
      (auto simp: account_exec_def assms keep
        intro!: assms inv_commit [OF _ assms] inv_with_proof [OF _ assms] keeps_policy keeps_create [OF _ impI] administrator_role keeps_session keeps_login keeps_codes keeps_touch keeps_revoke keeps_rename keeps_identity
          keeps_disabled keeps_access keeps_password keeps_grants inv_frame)
qed

lemma account_inv_new: "account_inv (awDb newAccountWorld)"
  by (simp add: account_inv_def newAccountWorld_def accounts_ok_def sessions_of_def)

interpretation accounts: machine "\<lambda>w. w = newAccountWorld" "\<lambda>w v. \<exists>sha verify x. v = account_exec sha verify x w"
    "\<lambda>w. account_inv (awDb w)"
  by unfold_locales (auto intro: account_inv_new account_inv_exec)

lemma account_inv_run: "account_inv (awDb w) \<Longrightarrow> account_inv (awDb (account_run sha verify xs w))"
  by (induction xs arbitrary: w) (auto simp: account_run_def intro: account_inv_exec)

end
