(* ===== verification/AccountExpiry.thy ===== *)
theory AccountExpiry
  imports AccountInvariant
begin

text \<open>
  When a login can be used, and that no transaction of \<open>Accounts\<close> lengthens the life of a login that has ended:
  \<open>tx_fades\<close> for every transaction, then for runs of requests in the order of the clock.
\<close>

section \<open>Expiry is final\<close>

lemma login_times_mono:
  assumes "sessionTimesAt r m t" and "now \<le> t"
  shows "sessionTimesAt r m now"
proof -
  have "time_sub now (srLastSeen r) \<le> time_sub t (srLastSeen r)" using assms(2) by (simp add: time_sub_def)
  then show ?thesis using assms by (auto simp: sessionTimesAt_def)
qed

abbreviation alive :: "time \<Rightarrow> string \<Rightarrow> account_db \<Rightarrow> bool" where
  "alive now k d \<equiv> isOk (liveSessionOwner now k d)"

lemma alive_iff:
  "alive now k d \<longleftrightarrow> (\<exists>r a m. session_of k d = Some r \<and> account_row (srUser r) d = Some a \<and> \<not> acDisabled a \<and>
     dbIdle d = Some m \<and> sessionTimesAt r m now)"
  by (auto simp: isOk_iff live_owner session_account_Some)

lemma inspect_alive: "isOk (inspectSessionKey now k d) = alive now k d"
  by (auto simp: inspectSessionKey_def liveSessionOwner_def isOk_iff Let_def split: option.splits prod.splits)

lemma find_filtered:
  assumes "find (\<lambda>r. key r = k) (filter P rs) = Some r" and "distinct (map key rs)"
  shows "find (\<lambda>r. key r = k) rs = Some r \<and> P r"
  using assms find_member [OF assms(1)] find_key [OF assms(2), of r] by auto

lemma session_of_delete:
  assumes "session_of k (delete_sessions P d) = Some r" and "distinct (map srKey (dbSessions d))"
  shows "session_of k d = Some r" "\<not> P r"
  using find_filtered [of srKey k] assms by (fastforce simp: session_of_def)+

lemma session_of_update:
  assumes "\<And>r. srKey (g r) = srKey r"
  shows "session_of k (update_sessions P g d) = map_option (\<lambda>r. if P r then g r else r) (session_of k d)"
proof -
  have "find (\<lambda>r. srKey r = k) (map (\<lambda>r. if P r then g r else r) rs) = map_option (\<lambda>r. if P r then g r else r) (find (\<lambda>r. srKey r = k) rs)"
    for rs
    by (induction rs) (auto simp: assms)
  then show ?thesis by (simp add: session_of_def update_sessions_def)
qed

lemma session_of_cong: "dbSessions e = dbSessions d \<Longrightarrow> session_of k e = session_of k d"
  by (simp add: session_of_def)

lemma session_of_frames [simp]:
  "session_of k (update_account i f d) = session_of k d" "session_of k (delete_codes i d) = session_of k d"
  "session_of k (d\<lparr>dbGrants := gs\<rparr>) = session_of k d" "session_of k (d\<lparr>dbCodes := c\<rparr>) = session_of k d"
  "session_of k (d\<lparr>dbIdle := m\<rparr>) = session_of k d" "session_of k (d\<lparr>dbLinks := l\<rparr>) = session_of k d"
  "session_of k (d\<lparr>dbAccounts := as\<rparr>) = session_of k d"
  by (simp_all add: session_of_def)

text \<open>The owner of a row that is there is enabled, whatever happens to the account in between.\<close>

lemma inv_owner:
  assumes "account_inv d" and "session_of k d = Some r"
  obtains a where "account_row (srUser r) d = Some a" "\<not> acDisabled a"
  using assms find_member [of _ "dbSessions d" r] by (fastforce simp: account_inv_def session_ok_def session_of_def)

lemma inv_keys: "account_inv d \<Longrightarrow> distinct (map srKey (dbSessions d))"
  by (simp add: account_inv_def)

lemma alive_back:
  assumes "account_inv d" and "session_of k d = Some r" and "dbIdle d = Some m" and "sessionTimesAt r m u" and "now \<le> u"
  shows "alive now k d"
  using inv_owner [OF assms(1,2)] login_times_mono [OF assms(4,5)] assms(2,3) by (auto simp: alive_iff)

text \<open>After the transaction the login is alive no later than it was before.\<close>

definition tx_fades :: "time \<Rightarrow> string \<Rightarrow> 'a tx \<Rightarrow> bool" where
  "tx_fades now k t \<longleftrightarrow>
     (\<forall>d e x. account_inv d \<and> dbIdle d \<noteq> None \<and> t d = Inr (e, x) \<longrightarrow>
       dbIdle e \<noteq> None \<and> (\<forall>u. now \<le> u \<and> alive u k e \<longrightarrow> alive now k d))"

text \<open>Rows may go away or change what does not bear on their times.\<close>

definition lets_fade :: "string \<Rightarrow> account_db \<Rightarrow> account_db \<Rightarrow> bool" where
  "lets_fade k d e \<longleftrightarrow> dbIdle e = dbIdle d \<and>
     (\<forall>y. session_of k e = Some y \<longrightarrow> (\<exists>r. session_of k d = Some r \<and> srLastSeen y = srLastSeen r \<and> srExpires y = srExpires r))"

lemma lets_fade_refl: "lets_fade k d d"
  by (simp add: lets_fade_def)

lemma lets_fade_same: "dbIdle e = dbIdle d \<Longrightarrow> session_of k e = session_of k d \<Longrightarrow> lets_fade k d e"
  by (simp add: lets_fade_def)

lemma lets_fade_delete:
  assumes "account_inv d"
  shows "lets_fade k d (delete_sessions P d)"
proof -
  have "session_of k (delete_sessions P d) = Some y \<Longrightarrow> session_of k d = Some y" for y
    by (rule session_of_delete(1)) (use inv_keys [OF assms] in simp_all)
  then show ?thesis by (auto simp: lets_fade_def simp del: session_of_frames)
qed

lemma lets_fade_update:
  assumes "\<And>r. srKey (g r) = srKey r" and "\<And>r. srLastSeen (g r) = srLastSeen r \<and> srExpires (g r) = srExpires r"
  shows "lets_fade k d (update_sessions P g d)"
proof -
  have s: "session_of k (update_sessions P g d) = map_option (\<lambda>r. if P r then g r else r) (session_of k d)"
    by (rule session_of_update) (rule assms(1))
  show ?thesis
  proof (cases "session_of k d")
    case None
    then show ?thesis by (simp add: lets_fade_def s)
  next
    case (Some r)
    have "srLastSeen (if P r then g r else r) = srLastSeen r" "srExpires (if P r then g r else r) = srExpires r"
      using assms(2) [of r] by (auto split: if_splits)
    then show ?thesis using Some by (simp add: lets_fade_def s)
  qed
qed

lemma fades_sessions:
  assumes "\<And>d e x. account_inv d \<Longrightarrow> t d = Inr (e, x) \<Longrightarrow> lets_fade k d e"
  shows "tx_fades now k t"
  unfolding tx_fades_def
proof (intro allI impI, elim conjE)
  fix d e x
  assume a: "account_inv d" "dbIdle d \<noteq> None" "t d = Inr (e, x)"
  have f: "lets_fade k d e" using assms a by blast
  have "alive now k d" if u: "now \<le> u" "alive u k e" for u
  proof -
    obtain y m where y: "session_of k e = Some y" "dbIdle e = Some m" "sessionTimesAt y m u" using u(2) by (auto simp: alive_iff)
    then obtain r where r: "session_of k d = Some r" "srLastSeen y = srLastSeen r" "srExpires y = srExpires r"
      using f by (auto simp: lets_fade_def)
    then have "sessionTimesAt r m u" using y(3) by (simp add: sessionTimesAt_def)
    moreover have "dbIdle d = Some m" using f y(2) by (simp add: lets_fade_def)
    ultimately show ?thesis using alive_back [OF a(1) r(1) _ _ u(1)] by blast
  qed
  then show "dbIdle e \<noteq> None \<and> (\<forall>u. now \<le> u \<and> alive u k e \<longrightarrow> alive now k d)"
    using f a(2) by (auto simp: lets_fade_def)
qed

lemma fades_touch: "tx_fades now k (touch_session now seen key)"
  unfolding tx_fades_def
proof (intro allI impI, elim conjE)
  fix d e x
  assume a: "account_inv d" "dbIdle d \<noteq> None" "touch_session now seen key d = Inr (e, x)"
  then have live: "alive now key d" and e: "e = update_sessions (\<lambda>r. srKey r = key) (\<lambda>r. r\<lparr>srLastSeen := seen\<rparr>) d"
    by (auto simp: touch_session_def bindR_Inr_iff isOk_iff)
  have "alive now k d" if u: "now \<le> u" "alive u k e" for u
  proof (cases "k = key")
    case False
    obtain y m where y: "session_of k e = Some y" "dbIdle e = Some m" "sessionTimesAt y m u" using u(2) by (auto simp: alive_iff)
    then obtain r where r: "session_of k d = Some r" "y = (if srKey r = key then r\<lparr>srLastSeen := seen\<rparr> else r)"
      by (auto simp: e session_of_update)
    moreover have "srKey r = k" using r(1) find_member by (fastforce simp: session_of_def)
    ultimately show ?thesis using alive_back [OF a(1) _ _ _ u(1)] y False by (auto simp: e)
  qed (use live in simp)
  then show "dbIdle e \<noteq> None \<and> (\<forall>u. now \<le> u \<and> alive u k e \<longrightarrow> alive now k d)" using a(2) by (auto simp: e)
qed

lemma fades_rows:
  "tx_fades now k (RenameOwnSession t actor i name)" "tx_fades now k (SetControlIdentity sha t tok tgt)"
  "tx_fades now k (RevokeSession sha tok)" "tx_fades now k (RevokeOwnSession t actor i)" "tx_fades now k (RevokeOtherSessions t actor)"
  "tx_fades now k (grantControl t asked actor i g l)" "tx_fades now k (revokeControl t actor i)"
  "tx_fades now k (ReplaceRecoveryCodes sha t actor pr codes)" "tx_fades now k (RemoveRecoveryCodes t actor pr)"
  by (rule fades_sessions,
      auto simp: RenameOwnSession_def SetControlIdentity_def RevokeSession_def RevokeOwnSession_def RevokeOtherSessions_def
        grantControl_def revokeControl_def ReplaceRecoveryCodes_def RemoveRecoveryCodes_def bindR_Inr_iff Let_def
        intro: lets_fade_delete lets_fade_update lets_fade_refl lets_fade_same split: if_splits option.splits)+

lemma lets_fade_new_hash:
  assumes "account_inv d" and "\<And>a. acID (f a) = acID a"
  shows "lets_fade k d (delete_sessions P (update_account i f d))"
proof -
  have s: "session_of k (delete_sessions P (update_account i f d)) = session_of k (delete_sessions P d)"
    by (simp add: session_of_def)
  show ?thesis using lets_fade_delete [OF assms(1), of k P] by (simp add: lets_fade_def s)
qed

lemma lets_fade_frames:
  "lets_fade k d e \<Longrightarrow> lets_fade k d (delete_codes i e)" "lets_fade k d e \<Longrightarrow> lets_fade k d (e\<lparr>dbGrants := gs\<rparr>)"
  by (simp_all add: lets_fade_def)

lemma fades_accounts:
  "tx_fades now k (ChangeOwnPassword t actor pr new encoded)" "tx_fades now k (ResetPasswordForSession t actor i new encoded)"
  "tx_fades now k (RecoverPassword sha username code i encoded)" "tx_fades now k (setDisabled t actor i b)"
  "tx_fades now k (SetInterfaceAccess t actor i access)"
  by (rule fades_sessions,
      auto simp: ChangeOwnPassword_def ResetPasswordForSession_def RecoverPassword_def replacePassword_def setDisabled_def
        SetInterfaceAccess_def bindR_Inr_iff Let_def
        intro!: lets_fade_frames lets_fade_new_hash intro: lets_fade_refl lets_fade_same split: if_splits option.splits)+

lemma fades_create: "tx_fades now k (create_account t b actor u p role access encoded i)"
  by (rule fades_sessions, erule create_account_Inr) (simp add: lets_fade_same)

lemma find_in_append: "find P (xs @ ys) = (case find P xs of None \<Rightarrow> find P ys | Some x \<Rightarrow> Some x)"
  by (induction xs) auto

lemma fades_login:
  assumes "key \<noteq> k"
  shows "tx_fades now k (newSessionWithClient t i client pr aud key publicID created)"
proof (rule fades_sessions)
  fix d e x
  assume inv: "account_inv d" and r: "newSessionWithClient t i client pr aud key publicID created d = Inr (e, x)"
  then obtain row P where e: "e = delete_sessions P (d\<lparr>dbSessions := dbSessions d @ [row]\<rparr>)" and row: "srKey row = key"
      and fresh: "session_of key d = None"
    by (auto simp: newSessionWithClient_def bindR_Inr_iff Let_def split: option.splits)
  let ?d1 = "d\<lparr>dbSessions := dbSessions d @ [row]\<rparr>"
  have "distinct (map srKey (dbSessions ?d1))"
    using inv_keys [OF inv] fresh row by (auto simp: session_of_def find_None_iff)
  moreover have "session_of k ?d1 = session_of k d"
    using assms row by (simp add: session_of_def find_in_append split: option.split)
  ultimately show "lets_fade k d e" using session_of_delete [of k P ?d1] by (auto simp: lets_fade_def e)
qed

lemma prune_survivor:
  assumes "session_of k (fst (pruneExpiredSessions now m d)) = Some r" and "account_inv d"
  shows "session_of k d = Some r \<and> sessionTimesAt r m now"
proof -
  have "session_of k (delete_sessions (\<lambda>r. srKey r \<in> set (expired_keys now m d)) d) = Some r"
    using assms(1) by (simp add: pruneExpiredSessions_def Let_def)
  note s = session_of_delete [OF this inv_keys [OF assms(2)]]
  have "r \<in> set (dbSessions d)" using find_member [OF s(1) [unfolded session_of_def]] by simp
  moreover have "srKey r \<notin> set (expired_keys now m d)" using s(2) .
  ultimately have "sessionTimesAt r m now" by (auto simp: expired_keys_def)
  then show ?thesis using s(1) by simp
qed

lemma fades_policy: "tx_fades now k (SetSessionPolicy now actor minutes)" "tx_fades now k (initializeSessionPolicy now)"
proof -
  show "tx_fades now k (SetSessionPolicy now actor minutes)" unfolding tx_fades_def
  proof (intro allI impI, elim conjE)
    fix d e x
    assume a: "account_inv d" "dbIdle d \<noteq> None" "SetSessionPolicy now actor minutes d = Inr (e, x)"
    then obtain prev where prev: "dbIdle d = Some prev" by auto
    define d1 where "d1 = fst (pruneExpiredSessions now prev d)"
    have e: "e = fst (pruneExpiredSessions now minutes (d1\<lparr>dbIdle := Some minutes\<rparr>))" and v: "validIdleMinutes minutes"
      using a prev by (auto simp: SetSessionPolicy_def bindR_Inr_iff readIdleMinutes_def d1_def case_prod_unfold split: if_splits)
    have i1: "account_inv (d1\<lparr>dbIdle := Some minutes\<rparr>)"
      using a(1) v by (auto simp: d1_def pruneExpiredSessions_def Let_def intro: inv_frame)
    have "alive now k d" if u: "now \<le> u" "alive u k e" for u
    proof -
      obtain y where y: "session_of k e = Some y" using u(2) by (auto simp: alive_iff)
      then have "session_of k d1 = Some y" using prune_survivor [OF _ i1, of k now minutes y] by (simp add: e)
      then have s: "session_of k d = Some y" "sessionTimesAt y prev now"
        using prune_survivor [OF _ a(1), of k now prev y] by (simp_all add: d1_def)
      then show ?thesis using alive_back [OF a(1) s(1) prev s(2)] by simp
    qed
    moreover have "dbIdle e = Some minutes" by (simp add: e pruneExpiredSessions_def Let_def)
    ultimately show "dbIdle e \<noteq> None \<and> (\<forall>u. now \<le> u \<and> alive u k e \<longrightarrow> alive now k d)" by auto
  qed
  show "tx_fades now k (initializeSessionPolicy now)"
    unfolding tx_fades_def
  proof (intro allI impI, elim conjE)
    fix d e x
    assume a: "account_inv d" "dbIdle d \<noteq> None" "initializeSessionPolicy now d = Inr (e, x)"
    then have "e = d" by (auto simp: initializeSessionPolicy_def bindR_Inr_iff)
    then show "dbIdle e \<noteq> None \<and> (\<forall>u. now \<le> u \<and> alive u k e \<longrightarrow> alive now k d)"
      using a by (auto simp: alive_iff intro: login_times_mono)
  qed
qed

section \<open>Runs\<close>

definition fading_step :: "time \<Rightarrow> string \<Rightarrow> account_world \<Rightarrow> account_world \<Rightarrow> bool" where
  "fading_step now k w v \<longleftrightarrow> dbIdle (awDb v) \<noteq> None \<and> (\<forall>u. now \<le> u \<and> alive u k (awDb v) \<longrightarrow> alive now k (awDb w))"

lemma fading_same: "dbIdle (awDb w) \<noteq> None \<Longrightarrow> awDb v = awDb w \<Longrightarrow> fading_step now k w v"
  by (auto simp: fading_step_def alive_iff intro: login_times_mono)

lemma fading_commit:
  assumes "tx_fades now k t" and "account_inv (awDb w)" and "dbIdle (awDb w) \<noteq> None"
  shows "fading_step now k w (commit t w)"
proof (cases "t (awDb w)")
  case (Inl e)
  then show ?thesis using assms(3) by (intro fading_same) (simp_all add: commit_def WithTx_def)
next
  case (Inr y)
  then obtain d x where "t (awDb w) = Inr (d, x)" by (cases y) simp
  then have d: "awDb (commit t w) = d" "dbIdle d \<noteq> None \<and> (\<forall>u. now \<le> u \<and> alive u k d \<longrightarrow> alive now k (awDb w))"
    using assms unfolding tx_fades_def by (simp_all add: commit_def WithTx_def) blast+
  show ?thesis unfolding fading_step_def d(1) by (rule d(2))
qed

lemma fading_if: "fading_step now k w a \<Longrightarrow> fading_step now k w b \<Longrightarrow> fading_step now k w (if c then a else b)"
  by simp

lemma fading_with_proof:
  "tx_fades now k t \<Longrightarrow> account_inv (awDb w) \<Longrightarrow> dbIdle (awDb w) \<noteq> None \<Longrightarrow> fading_step now k w (with_proof pr t w)"
  by (simp add: with_proof_def fading_commit fading_same)

lemma fading_links: "dbIdle (awDb w) \<noteq> None \<Longrightarrow> fading_step now k w (w\<lparr>awDb := (awDb w)\<lparr>dbLinks := l\<rparr>\<rparr>)"
  by (auto simp: fading_step_def alive_iff intro: login_times_mono)

lemma fades_proved_login: "key \<noteq> k \<Longrightarrow> tx_fades now k (LoginForInterface t pr client aud key publicID created)"
  unfolding LoginForInterface_def [abs_def] by (rule fades_login)

lemma fading_exec:
  assumes "account_inv (awDb w)" and "dbIdle (awDb w) \<noteq> None" and "created_key e \<noteq> Some k"
  shows "fading_step now k w (account_exec sha verify (now, e) w)"
proof -
  have keep: "fading_step now k w (keep_proof r w)" for r
    using assms by (simp add: keep_proof_def fading_same split: sum.split)
  note steps = fading_if fading_commit [OF _ assms(1,2)] fading_with_proof [OF _ assms(1,2)] fading_same [OF assms(2) refl]
    fading_links [OF assms(2)] keep
  note fades = fades_touch fades_rows fades_accounts fades_create fades_login fades_proved_login fades_policy
  show ?thesis
    by (insert assms(3), cases e; simp only: account_exec_def prod.case account_event.case created_key.simps option.inject;
      (rule steps fades | assumption)+)
qed

lemma fading_run:
  assumes "account_inv (awDb w)" and "dbIdle (awDb w) \<noteq> None" and "sorted (map fst xs)" and "\<forall>x \<in> set xs. t \<le> fst x \<and> fst x \<le> u"
    and "\<forall>x \<in> set xs. created_key (snd x) \<noteq> Some k" and "\<not> alive t k (awDb w)" and "t \<le> u"
  shows "\<not> alive u k (awDb (account_run sha verify xs w))"
  using assms
proof (induction xs arbitrary: w t)
  case Nil
  then show ?case by (auto simp: account_run_def alive_iff dest: login_times_mono)
next
  case (Cons x xs)
  obtain now e where x: "x = (now, e)" by (cases x)
  let ?v = "account_exec sha verify x w"
  have f: "fading_step now k w ?v" unfolding x by (rule fading_exec) (use Cons.prems x in auto)
  have "\<not> alive now k (awDb w)" using Cons.prems(4,6) x by (auto simp: alive_iff dest: login_times_mono)
  then have "\<not> alive now k (awDb ?v)" using f by (auto simp: fading_step_def)
  then have "\<not> alive u k (awDb (account_run sha verify xs ?v))"
    by (intro Cons.IH account_inv_exec) (use Cons.prems f x in \<open>auto simp: fading_step_def\<close>)
  then show ?case by (simp add: account_run_def)
qed

end
