(* ===== verification/AccountSafety.thy ===== *)
theory AccountSafety
  imports AccountExpiry
begin

text \<open>
  What the account tables promise: one authority over control, recovery codes that work once, and passwords whose
  replacement ends what rested on them; then the properties of runs of requests from an empty store.
\<close>

section \<open>One authority\<close>

lemma inv_session:
  assumes "account_inv d" and "session_account k d = Some (r, a)"
  shows "session_ok d r" "role_ok a" "acID a = srUser r"
proof -
  have r: "session_of k d = Some r" "account_row (srUser r) d = Some a" using assms(2) by (simp_all add: session_account_Some)
  have "r \<in> set (dbSessions d)" using find_member [OF r(1) [unfolded session_of_def]] by simp
  then show "session_ok d r" using assms(1) by (simp add: account_inv_def)
  show "role_ok a" "acID a = srUser r"
    using account_row_in [OF r(2)] assms(1) by (simp_all add: account_inv_def accounts_ok_def)
qed

lemma normal_interface:
  "i = InterfaceFull \<or> i = InterfaceRemote \<Longrightarrow> normalizedInterface i = InterfaceFull \<longleftrightarrow> i = InterfaceFull"
  by (auto simp: normalizedInterface_def InterfaceFull_def InterfaceRemote_def)

lemma role_full: "role_ok a \<Longrightarrow> FullAccess a \<longleftrightarrow> acAccess a = InterfaceFull"
  using normal_interface by (auto simp: FullAccess_def role_ok_def)

text \<open>The two joins of a permission with its issuer agree, because account IDs are unique.\<close>

lemma issued_expiry_grant:
  assumes "account_inv d"
  shows "issued_expiry owner d = map_option grExpires (issued_grant owner d)"
proof -
  have "list_ex (\<lambda>a. acID a = i \<and> P a) (dbAccounts d) \<longleftrightarrow> (\<exists>a. account_row i d = Some a \<and> P a)" for i P
  proof
    assume "list_ex (\<lambda>a. acID a = i \<and> P a) (dbAccounts d)"
    then obtain a where a: "a \<in> set (dbAccounts d)" "acID a = i" "P a" by (auto simp: list_ex_iff)
    then obtain b where b: "account_row i d = Some b"
      by (cases "account_row i d") (auto simp: account_row_def find_None_iff)
    have "b \<in> set (dbAccounts d)" "acID b = i" using account_row_in [OF b] by simp_all
    moreover have "inj_on acID (set (dbAccounts d))"
      using assms by (simp add: account_inv_def accounts_ok_def distinct_map)
    ultimately have "a = b" using a(1,2) by (auto dest: inj_onD)
    with a(3) b show "\<exists>a. account_row i d = Some a \<and> P a" by blast
  next
    assume "\<exists>a. account_row i d = Some a \<and> P a"
    then show "list_ex (\<lambda>a. acID a = i \<and> P a) (dbAccounts d)"
      using account_row_in [of i d] by (auto simp: list_ex_iff)
  qed
  then show ?thesis
    by (auto simp: issued_expiry_def issued_grant_def split: option.split)
qed

lemma control_iff:
  assumes "account_inv d"
  shows "RequireControlSession now k d = Inr () \<longleftrightarrow> (\<exists>s. inspectSessionKey now k d = Inr s \<and> CanControl now s)"
proof (cases "session_account k d")
  case None
  then show ?thesis by (simp add: RequireControlSession_def liveSessionOwner_def inspectSessionKey_def)
next
  case (Some p)
  then obtain r a where s: "session_account k d = Some (r, a)" by (cases p) simp
  note ok = inv_session [OF assms s]
  have full: "normalizedInterface (srInterface r) = InterfaceFull \<longleftrightarrow> srInterface r = InterfaceFull"
    using ok(1) normal_interface by (auto simp: session_ok_def)
  have roles: "acRole a = RoleAdmin \<or> acRole a = RoleOperator" "RoleOperator \<noteq> RoleAdmin"
    using ok(2) by (auto simp: role_ok_def RoleAdmin_def RoleOperator_def)
  show ?thesis
  proof (cases "\<not> acDisabled a \<and> (\<exists>m. dbIdle d = Some m \<and> sessionTimesAt r m now)")
    case False
    then show ?thesis
      by (auto simp: RequireControlSession_def liveSessionOwner_def inspectSessionKey_def s split: option.splits)
  next
    case True
    then obtain m where m: "\<not> acDisabled a" "dbIdle d = Some m" "sessionTimesAt r m now" by auto
    obtain control where i: "inspectSessionKey now k d =
        Inr \<lparr>asKey = k, asPublicID = srPublicID r, asInterface = srInterface r, asAccount = a, asControlAccount = control,
          asExpires = srExpires r, asGrant = (if acRole a \<noteq> RoleAdmin then ControlGrant now (acID a) d else None)\<rparr>"
      using m by (simp add: inspectSessionKey_def s)
    have live: "liveSessionOwner now k d = Inr (srUser r)" using m by (simp add: liveSessionOwner_def s)
    show ?thesis
      using roles m full role_full [OF ok(2)] ok(3) unfolding RequireControlSession_def live i
      by (auto simp: s CanControl_def CanUseRemote_def ControlGrant_def issued_expiry_grant [OF assms] grant_live_def
          split: option.splits if_splits)
  qed
qed

section \<open>Recovery codes\<close>

lemma hex_case: "\<forall>c. hex_char c \<longrightarrow> upper_char c \<notin> set [CHR ''-'', CHR '' '', CHR 0x0D, CHR 0x0A, CHR 0x09] \<and> toLower [upper_char c] = [c]"
  by code_simp

lemma concat_quads: "concat (quads s) = s"
  by (induction s rule: quads.induct) (subst quads.simps, simp)

lemma quads_length: "length (quads s) \<le> length s"
proof (induction s rule: quads.induct)
  case (1 s)
  show ?case
  proof (cases "s = []")
    case False
    then have "length (quads (drop 4 s)) \<le> length s - 4" using 1 by simp
    moreover have "0 < length s" using False by simp
    ultimately have "Suc (length (quads (drop 4 s))) \<le> length s" by linarith
    then show ?thesis using False by (subst quads.simps) simp
  qed (subst quads.simps, simp)
qed

lemma join_dash_filter:
  assumes "\<not> P CHR ''-''" and "list_all (list_all P) ps"
  shows "filter P (join_dash ps) = concat ps"
  using assms by (induction ps rule: join_dash.induct) (auto simp: list_all_iff)

lemma join_dash_length: "length (join_dash ps) \<le> length (concat ps) + length ps"
  by (induction ps rule: join_dash.induct) auto

lemma recovery_code_roundtrip:
  assumes "length c = 32" and "list_all hex_char c"
  shows "normalizeRecoveryCode (formatRecoveryCode c) = c"
proof -
  let ?P = "\<lambda>x. x \<notin> set [CHR ''-'', CHR '' '', CHR 0x0D, CHR 0x0A, CHR 0x09]"
  let ?ps = "map (map upper_char) (quads c)"
  have cat: "concat ?ps = map upper_char c" by (simp add: map_concat [symmetric] concat_quads)
  have "set (concat (quads c)) = set c" by (simp add: concat_quads)
  then have "list_all (list_all ?P) ?ps"
    using assms(2) hex_case by (fastforce simp: list_all_iff)
  then have f: "filter ?P (formatRecoveryCode c) = map upper_char c"
    unfolding formatRecoveryCode_def by (subst join_dash_filter) (simp_all add: cat)
  have "length (formatRecoveryCode c) \<le> 64"
    using join_dash_length [of ?ps] quads_length [of c] assms(1) by (simp add: formatRecoveryCode_def cat)
  moreover have "toLower (map upper_char c) = c" using assms(2) hex_case by (simp add: map_idI list_all_iff)
  ultimately show ?thesis using f assms by (simp add: normalizeRecoveryCode_def Let_def)
qed

lemma recoverySessionKeys_ok: "account_inv d \<Longrightarrow> \<exists>keys. recoverySessionKeys i d = Inr keys"
proof -
  assume "account_inv d"
  then have "sessions_of i (dbSessions d) \<le> MaxSessionsPerAccount" unfolding account_inv_def by blast
  then show "\<exists>keys. recoverySessionKeys i d = Inr keys" by (simp add: recoverySessionKeys_def sessions_of_def)
qed

lemma unique_name:
  assumes "account_inv d" and "account_row i d = Some a" and "y \<in> set (dbAccounts d)" and "acNameKey y = acNameKey a"
  shows "y = a"
proof -
  have "a \<in> set (dbAccounts d)" using account_row_in [OF assms(2)] by simp
  moreover have "inj_on acNameKey (set (dbAccounts d))" using assms(1) by (simp add: account_inv_def accounts_ok_def distinct_map)
  ultimately show ?thesis using assms(3,4) by (simp add: inj_on_def)
qed

lemma named_account:
  assumes "account_inv d" and "account_row i d = Some a" and "\<not> acDisabled a" and "(h, i) \<in> set (dbCodes d)"
  shows "recoveryAccount (acNameKey a) h d = Inr i"
proof -
  let ?P = "\<lambda>y. acNameKey y = acNameKey a \<and> (h, acID y) \<in> set (dbCodes d) \<and> \<not> acDisabled y"
  have a: "a \<in> set (dbAccounts d)" "acID a = i" using account_row_in [OF assms(2)] by auto
  then have "?P a" using assms(3,4) by simp
  then have "find ?P (dbAccounts d) \<noteq> None" using a(1) by (simp only: find_None_iff) blast
  then obtain y where y: "find ?P (dbAccounts d) = Some y" by blast
  have "y \<in> set (dbAccounts d)" "acNameKey y = acNameKey a" using find_member [OF y] by simp_all
  then have "y = a" by (rule unique_name [OF assms(1,2)])
  then show ?thesis using y a(2) by (simp add: recoveryAccount_def)
qed

lemma recovery_refused:
  assumes "account_inv d" and "account_row i d = Some a" and "i \<notin> snd ` set (dbCodes d)"
  shows "recoveryAccount (acNameKey a) h d = Inl InvalidRecoveryCode"
proof -
  let ?P = "\<lambda>y. acNameKey y = acNameKey a \<and> (h, acID y) \<in> set (dbCodes d) \<and> \<not> acDisabled y"
  have "\<not> ?P y" if y: "y \<in> set (dbAccounts d)" for y
  proof
    assume p: "?P y"
    then have "y = a" using unique_name [OF assms(1,2) y] by simp
    then have "acID y = i" using account_row_in [OF assms(2)] by simp
    then show False using assms(3) p image_eqI [of i snd "(h, acID y)" "set (dbCodes d)"] by simp
  qed
  then have "find ?P (dbAccounts d) = None" by (simp only: find_None_iff) blast
  then show ?thesis by (simp add: recoveryAccount_def)
qed

section \<open>A replaced password\<close>

definition other_hash :: "string \<Rightarrow> string \<Rightarrow> account_db \<Rightarrow> bool" where
  "other_hash i h d \<longleftrightarrow> (case account_row i d of None \<Rightarrow> False | Some a \<Rightarrow> acHash a \<noteq> h)"

definition tx_rehash :: "string \<Rightarrow> string \<Rightarrow> 'a tx \<Rightarrow> bool" where
  "tx_rehash i h t \<longleftrightarrow> (\<forall>d e x. other_hash i h d \<and> t d = Inr (e, x) \<longrightarrow> other_hash i h e)"

text \<open>The password hash that an event writes to an account that exists.\<close>

fun written_hash :: "account_event \<Rightarrow> string option" where
  "written_hash (AeChangePassword actor pr new encoded) = Some encoded"
| "written_hash (AeReset actor i new encoded) = Some encoded"
| "written_hash (AeRecover username code i encoded) = Some encoded"
| "written_hash _ = None"

lemma other_hash_frames [simp]:
  "other_hash i h (delete_sessions P d) = other_hash i h d" "other_hash i h (update_sessions P g d) = other_hash i h d"
  "other_hash i h (delete_codes j d) = other_hash i h d" "other_hash i h (d\<lparr>dbSessions := s\<rparr>) = other_hash i h d"
  "other_hash i h (d\<lparr>dbGrants := gs\<rparr>) = other_hash i h d" "other_hash i h (d\<lparr>dbCodes := c\<rparr>) = other_hash i h d"
  "other_hash i h (d\<lparr>dbIdle := m\<rparr>) = other_hash i h d" "other_hash i h (d\<lparr>dbLinks := l\<rparr>) = other_hash i h d"
  by (simp_all add: other_hash_def)

lemma other_hash_update:
  assumes "\<And>a. acID (f a) = acID a" and "\<And>a. acHash (f a) = acHash a \<or> acHash (f a) \<noteq> h" and "other_hash i h d"
  shows "other_hash i h (update_account j f d)"
proof -
  obtain a where a: "account_row i d = Some a" "acHash a \<noteq> h" using assms(3) by (auto simp: other_hash_def split: option.splits)
  have r: "account_row i (update_account j f d) = map_option (\<lambda>a. if i = j then f a else a) (account_row i d)"
    by (rule account_row_update) (rule assms(1))
  show ?thesis using a assms(2) [of a] by (auto simp: other_hash_def r)
qed

lemma rehash_rows:
  "tx_rehash j h (RenameOwnSession t actor i name)" "tx_rehash j h (SetControlIdentity sha t tok tgt)"
  "tx_rehash j h (RevokeSession sha tok)" "tx_rehash j h (RevokeOwnSession t actor i)" "tx_rehash j h (RevokeOtherSessions t actor)"
  "tx_rehash j h (grantControl t asked actor i g l)" "tx_rehash j h (revokeControl t actor i)"
  "tx_rehash j h (ReplaceRecoveryCodes sha t actor pr codes)" "tx_rehash j h (RemoveRecoveryCodes t actor pr)"
  "tx_rehash j h (touch_session t seen key)"
  unfolding tx_rehash_def
  by (auto simp: RenameOwnSession_def SetControlIdentity_def RevokeSession_def RevokeOwnSession_def RevokeOtherSessions_def
        grantControl_def revokeControl_def ReplaceRecoveryCodes_def RemoveRecoveryCodes_def touch_session_def bindR_Inr_iff Let_def
        split: if_splits option.splits)

lemma rehash_policy: "tx_rehash j h (initializeSessionPolicy t)" "tx_rehash j h (SetSessionPolicy t actor m)"
  unfolding tx_rehash_def
  by (auto simp: initializeSessionPolicy_def SetSessionPolicy_def pruneExpiredSessions_def bindR_Inr_iff Let_def split: option.splits)

lemma rehash_accounts: "tx_rehash j h (setDisabled t actor i b)" "tx_rehash j h (SetInterfaceAccess t actor i access)"
  unfolding tx_rehash_def
  by (auto simp: setDisabled_def SetInterfaceAccess_def bindR_Inr_iff Let_def intro!: other_hash_update split: if_splits option.splits)

lemma rehash_password:
  assumes "encoded \<noteq> h"
  shows "tx_rehash j h (ChangeOwnPassword t actor pr new encoded)" "tx_rehash j h (ResetPasswordForSession t actor i new encoded)"
    "tx_rehash j h (RecoverPassword sha username code i encoded)"
  using assms unfolding tx_rehash_def
  by (auto simp: ChangeOwnPassword_def ResetPasswordForSession_def RecoverPassword_def replacePassword_def bindR_Inr_iff intro!: other_hash_update)

lemma rehash_create: "tx_rehash j h (create_account t b actor u p role access encoded i)"
  unfolding tx_rehash_def
proof (intro allI impI, elim conjE)
  fix d e x
  assume o: "other_hash j h d" and r: "create_account t b actor u p role access encoded i d = Inr (e, x)"
  obtain name key where e: "e = d\<lparr>dbAccounts := dbAccounts d @ [created_row i name key role access encoded]\<rparr>"
    by (rule create_account_Inr [OF r])
  show "other_hash j h e" using o by (auto simp: other_hash_def e account_row_def find_in_append split: option.splits)
qed

lemma rehash_login: "tx_rehash j h (newSessionWithClient t i client pr aud key publicID created)"
  unfolding tx_rehash_def by (auto simp: newSessionWithClient_def bindR_Inr_iff Let_def split: option.splits)

lemma rehash_proved_login: "tx_rehash j h (LoginForInterface t pr client aud key publicID created)"
  unfolding LoginForInterface_def [abs_def] by (rule rehash_login)

lemma rehash_same: "other_hash i h (awDb w) \<Longrightarrow> awDb v = awDb w \<Longrightarrow> other_hash i h (awDb v)"
  by simp

lemma rehash_commit: "tx_rehash i h t \<Longrightarrow> other_hash i h (awDb w) \<Longrightarrow> other_hash i h (awDb (commit t w))"
  by (auto simp: commit_def WithTx_def tx_rehash_def split: sum.split)

lemma rehash_with_proof: "tx_rehash i h t \<Longrightarrow> other_hash i h (awDb w) \<Longrightarrow> other_hash i h (awDb (with_proof pr t w))"
  by (simp add: with_proof_def rehash_commit)

lemma rehash_if: "other_hash i h (awDb a) \<Longrightarrow> other_hash i h (awDb b) \<Longrightarrow> other_hash i h (awDb (if c then a else b))"
  by simp

lemma rehash_exec:
  assumes "other_hash i h (awDb w)" and "written_hash e \<noteq> Some h"
  shows "other_hash i h (awDb (account_exec sha verify (now, e) w))"
proof -
  have keep: "other_hash i h (awDb (keep_proof r w))" and links: "other_hash i h (awDb (w\<lparr>awDb := (awDb w)\<lparr>dbLinks := l\<rparr>\<rparr>))" for r l
    using assms(1) by (simp_all add: keep_proof_def split: sum.split)
  note steps = rehash_if rehash_commit [OF _ assms(1)] rehash_with_proof [OF _ assms(1)] keep links assms(1)
    rehash_rows rehash_policy rehash_accounts rehash_password rehash_create rehash_login rehash_proved_login
  show ?thesis
    by (insert assms(2), cases e; simp only: account_exec_def prod.case account_event.case written_hash.simps option.inject;
      (rule steps | assumption)+)
qed

lemma rehash_run:
  assumes "other_hash i h (awDb w)" and "\<forall>x \<in> set xs. written_hash (snd x) \<noteq> Some h"
  shows "other_hash i h (awDb (account_run sha verify xs w))"
  using assms
proof (induction xs arbitrary: w)
  case (Cons x xs)
  have "other_hash i h (awDb (account_exec sha verify x w))"
    using rehash_exec [of i h w "snd x" sha verify "fst x"] Cons.prems by simp
  then show ?case using Cons by (simp add: account_run_def)
qed (simp add: account_run_def)

lemma other_hash_refuses:
  assumes "other_hash (acID pr) (acHash pr) d"
  shows "\<not> isOk (LoginForInterface t pr client aud key publicID created d)" "\<not> isOk (revalidateRecoveryOwner t k pr d)"
  using assms
  by (auto simp: other_hash_def LoginForInterface_def newSessionWithClient_def revalidateRecoveryOwner_def revalidate_def isOk_iff bindR_Inr_iff
      Let_def split: option.splits if_splits)

text \<open>The tables after a password was replaced.\<close>

definition new_password :: "string \<Rightarrow> string \<Rightarrow> account_db \<Rightarrow> account_db" where
  "new_password i encoded d = delete_codes i (delete_sessions (\<lambda>r. srUser r = i) (update_account i (\<lambda>a. a\<lparr>acHash := encoded\<rparr>) d))"

lemma recoveryAccount_exists: "recoveryAccount n h d = Inr i \<Longrightarrow> account_row i d \<noteq> None"
proof -
  assume "recoveryAccount n h d = Inr i"
  then obtain a where a: "find (\<lambda>a. acNameKey a = n \<and> (h, acID a) \<in> set (dbCodes d) \<and> \<not> acDisabled a) (dbAccounts d) = Some a" "acID a = i"
    by (auto simp: recoveryAccount_def split: option.splits)
  have "a \<in> set (dbAccounts d)" using find_member [OF a(1)] by simp
  then show "account_row i d \<noteq> None" using a(2) unfolding account_row_def find_None_iff by blast
qed

text \<open>One of the three operations that replace a password succeeded.\<close>

definition password_replaced :: "(string \<Rightarrow> string) \<Rightarrow> string \<Rightarrow> string \<Rightarrow> account_db \<Rightarrow> account_db \<Rightarrow> bool" where
  "password_replaced sha i encoded d e \<longleftrightarrow>
     (\<exists>now actor pr new keys. ChangeOwnPassword now actor pr new encoded d = Inr (e, keys) \<and> acID pr = i) \<or>
     (\<exists>now actor new keys. ResetPasswordForSession now actor i new encoded d = Inr (e, keys)) \<or>
     (\<exists>username code keys. RecoverPassword sha username code i encoded d = Inr (e, i, keys))"

lemma password_replaced_new:
  assumes "password_replaced sha i encoded d e"
  shows "e = new_password i encoded d" "account_row i d \<noteq> None"
proof -
  have "e = new_password i encoded d \<and> account_row i d \<noteq> None" using assms unfolding password_replaced_def
  proof (elim disjE exE conjE)
    fix username code keys
    assume r: "RecoverPassword sha username code i encoded d = Inr (e, i, keys)"
    then have "recoveryAccount (recovery_name username) (recoveryCodeDigest sha code) d = Inr i"
      by (auto simp: RecoverPassword_def bindR_Inr_iff)
    then show ?thesis using r recoveryAccount_exists by (auto simp: RecoverPassword_def bindR_Inr_iff new_password_def)
  qed (auto simp: ChangeOwnPassword_def ResetPasswordForSession_def replacePassword_def new_password_def bindR_Inr_iff)
  then show "e = new_password i encoded d" "account_row i d \<noteq> None" by auto
qed

lemma new_password_tables:
  assumes "account_row i d \<noteq> None"
  shows "sessions_of i (dbSessions (new_password i encoded d)) = 0" "i \<notin> snd ` set (dbCodes (new_password i encoded d))"
    "h \<noteq> encoded \<Longrightarrow> other_hash i h (new_password i encoded d)"
proof -
  show "sessions_of i (dbSessions (new_password i encoded d)) = 0" by (simp add: new_password_def sessions_of_def)
  show "i \<notin> snd ` set (dbCodes (new_password i encoded d))" by (auto simp: new_password_def delete_codes_def)
  show "h \<noteq> encoded \<Longrightarrow> other_hash i h (new_password i encoded d)"
    using assms by (auto simp: new_password_def other_hash_def account_row_update)
qed

section \<open>Which login is the oldest\<close>

text \<open>
  \<open>created_at\<close> is a text in \<open>time.RFC3339Nano\<close>, which drops trailing zeros of the fraction, and the eviction orders by
  the text.  Within one second that is not the order of time: of the logins of 0.1 s and 0.15 s the later one is evicted.
\<close>

definition sample_row :: "string \<Rightarrow> string \<Rightarrow> session_row" where
  "sample_row k created = \<lparr>srKey = k, srUser = ''u1'', srCreated = created, srLastSeen = 0, srExpires = 1, srPublicID = k, srName = [],
     srBrowser = ''other'', srPlatform = ''other'', srInterface = InterfaceFull, srControl = None\<rparr>"

lemma later_login_evicted:
  "evicted ''u1'' ''new'' \<lparr>dbAccounts = [], dbSessions = sample_row ''first'' ''2024-01-01T00:00:00.1Z'' #
     sample_row ''second'' ''2024-01-01T00:00:00.15Z'' # map (\<lambda>i. sample_row (replicate i CHR ''k'') ''2024-01-01T00:01:00Z'') [1..<19],
     dbGrants = [], dbCodes = [], dbLinks = [], dbIdle = Some 0\<rparr> = [''second'']"
  by code_simp

section \<open>Properties\<close>

lemma reachable_tables: "account_inv (awDb (account_run sha verify xs newAccountWorld))"
  by (rule account_inv_run [OF account_inv_new])

text \<open>
  Property C11.  A login that has ended stays ended: once it is refused at some time, no later request, in the
  order of the clock, can bring it back, whatever is done to accounts, passwords, permissions or the idle limit,
  unless its key is issued again.  In particular a longer idle limit does not revive what the old one had ended.
\<close>

theorem expired_login_never_revived:
  assumes "w = account_run sha verify xs newAccountWorld" and "dbIdle (awDb w) \<noteq> None"
    and "\<not> isOk (inspectSessionKey t k (awDb w))"
    and "sorted (map fst ys)" and "\<forall>x \<in> set ys. t \<le> fst x \<and> fst x \<le> u \<and> created_key (snd x) \<noteq> Some k" and "t \<le> u"
  shows "\<not> isOk (inspectSessionKey u k (awDb (account_run sha verify ys w))) \<and>
    \<not> isOk (RequireControlSession u k (awDb (account_run sha verify ys w))) \<and>
    \<not> isOk (touch_session u seen k (awDb (account_run sha verify ys w)))"
proof -
  have "\<not> alive t k (awDb w)" using assms(3) by (simp add: inspect_alive)
  then have dead: "\<not> alive u k (awDb (account_run sha verify ys w))"
    using assms(5) by (intro fading_run [OF _ assms(2,4) _ _ _ assms(6)]) (auto simp: assms(1) reachable_tables)
  then show ?thesis by (simp add: inspect_alive) (auto simp: RequireControlSession_def touch_session_def isOk_iff bindR_Inr_iff)
qed

text \<open>
  Property C12.  The two deciders of control agree: the transaction that admits a command
  (\<open>RequireControlSession\<close>) accepts a login exactly when the session that the request resolved may control
  (\<open>CanControl\<close>), for an administrator as for an operator with a permission.
\<close>

theorem control_authority_agrees:
  assumes "d = awDb (account_run sha verify xs newAccountWorld)"
  shows "RequireControlSession now k d = Inr () \<longleftrightarrow> (\<exists>s. inspectSessionKey now k d = Inr s \<and> CanControl now s)"
  unfolding assms by (rule control_iff [OF reachable_tables])

text \<open>
  Property C14.  Whatever requests came: once there is an account an enabled administrator remains, no two accounts
  share a name, every login belongs to an enabled account and to an interface that account may use, and no account has
  more logins than the limit, so the check that refuses to revoke too many never fires.
\<close>

theorem accounts_stay_administered:
  assumes "d = awDb (account_run sha verify xs newAccountWorld)"
  shows "(dbAccounts d = [] \<or> list_ex (\<lambda>a. acRole a = RoleAdmin \<and> \<not> acDisabled a) (dbAccounts d)) \<and>
    distinct (map acNameKey (dbAccounts d)) \<and> list_all (session_ok d) (dbSessions d) \<and>
    sessions_of i (dbSessions d) \<le> MaxSessionsPerAccount \<and> isOk (recoverySessionKeys i d)"
proof -
  have inv: "account_inv d" unfolding assms by (rule reachable_tables)
  show ?thesis using inv recoverySessionKeys_ok [OF inv, of i]
    by (auto simp: account_inv_def accounts_ok_def list_ex_iff list_all_iff isOk_iff)
qed

text \<open>
  Property C13.  A new password ends what rested on the old one: whether the owner changed it, an administrator reset
  it or a recovery code replaced it, the account has no login and no recovery code left, and a check of the old password
  that was still under way never becomes a login or authorises a change, however many requests come between, as long as
  the old hash is not written again.
\<close>

theorem new_password_ends_old_authority:
  assumes "password_replaced sha i encoded d e"
    and "acID pr = i" and "acHash pr \<noteq> encoded" and "\<forall>x \<in> set ys. written_hash (snd x) \<noteq> Some (acHash pr)"
    and "v = account_run sha verify ys \<lparr>awDb = e, awProofs = proofs\<rparr>"
  shows "sessions_of i (dbSessions e) = 0 \<and> i \<notin> snd ` set (dbCodes e) \<and>
    \<not> isOk (LoginForInterface t pr client aud key publicID created (awDb v)) \<and> \<not> isOk (revalidateRecoveryOwner t k pr (awDb v))"
proof -
  note e = password_replaced_new [OF assms(1)]
  note tables = new_password_tables [OF e(2), where encoded = encoded, folded e(1)]
  have "other_hash (acID pr) (acHash pr) (awDb v)"
    unfolding assms(5) by (rule rehash_run) (use tables(3) assms(2-4) in auto)
  then show ?thesis using tables other_hash_refuses by blast
qed

text \<open>
  Property C15.  A recovery code that was shown lets its owner in once: whatever way it is typed that normalises to one of
  the codes drawn, the lookup finds the account, the recovery with the new hash succeeds, and then no code of the old set
  is accepted any more.
\<close>

theorem recovery_code_works_once:
  assumes "d = awDb (account_run sha verify xs newAccountWorld)" and "ReplaceRecoveryCodes sha now actor pr codes d = Inr (e, shown)"
    and "list_all (\<lambda>c. length c = 32 \<and> list_all hex_char c) codes" and "normalizeRecoveryCode typed \<in> set codes"
    and "account_row (acID pr) d = Some a" and "normalizeUsername username = Inr (name, acNameKey a)" and "ValidatePassword new = Inr ()"
  shows "recover_lookup sha username typed new e = Inr (acID pr) \<and>
    (\<exists>f keys. RecoverPassword sha username typed (acID pr) encoded e = Inr (f, acID pr, keys) \<and>
      recover_lookup sha username other new f = Inl InvalidRecoveryCode)"
proof -
  let ?i = "acID pr" and ?c = "normalizeRecoveryCode typed"
  have inv: "account_inv d" unfolding assms(1) by (rule reachable_tables)
  then have inve: "account_inv e" using keeps_codes(1) [of sha now actor pr codes] assms(2) unfolding tx_keeps_def by blast
  have r: "revalidateRecoveryOwner now actor pr d = Inr ()"
      "e = (delete_codes ?i d)\<lparr>dbCodes := dbCodes (delete_codes ?i d) @ map (\<lambda>c. (recoveryCodeDigest sha c, ?i)) (map formatRecoveryCode codes)\<rparr>"
    using assms(2) by (auto simp: ReplaceRecoveryCodes_def bindR_Inr_iff Let_def)
  have row: "account_row ?i e = Some a" "\<not> acDisabled a"
    using assms(5) r by (auto simp: revalidateRecoveryOwner_def revalidate_def bindR_Inr_iff split: if_splits)
  have c: "length ?c = 32" "list_all hex_char ?c" using assms(3,4) by (auto simp: list_all_iff)
  have "recoveryCodeDigest sha (formatRecoveryCode ?c) = recoveryCodeDigest sha typed"
    using recovery_code_roundtrip [OF c] by (simp add: recoveryCodeDigest_def)
  then have code: "(recoveryCodeDigest sha typed, ?i) \<in> set (dbCodes e)"
    using assms(4) by (force simp: r(2))
  have name: "recovery_name username = acNameKey a" using assms(6) by (simp add: recovery_name_def)
  have found: "recoveryAccount (acNameKey a) (recoveryCodeDigest sha typed) e = Inr ?i"
    by (rule named_account [OF inve row code])
  obtain keys where keys: "recoverySessionKeys ?i e = Inr keys" using recoverySessionKeys_ok [OF inve] by blast
  let ?f = "new_password ?i encoded e"
  have rec: "RecoverPassword sha username typed ?i encoded e = Inr (?f, ?i, keys)"
    by (simp add: RecoverPassword_def name found keys new_password_def require_def)
  have f: "account_inv ?f" using keeps_password(3) [of sha username typed "acID pr" encoded] rec inve unfolding tx_keeps_def by blast
  have frow: "account_row ?i ?f = Some (a\<lparr>acHash := encoded\<rparr>)"
    using row(1) by (simp add: new_password_def account_row_update)
  have "recoveryAccount (acNameKey a) h ?f = Inl InvalidRecoveryCode" for h
    using recovery_refused [OF f frow] new_password_tables(2) [of ?i e encoded] row(1) by simp
  then have "recover_lookup sha username other new ?f = Inl InvalidRecoveryCode" by (simp add: recover_lookup_def name)
  moreover have "recover_lookup sha username typed new e = Inr ?i"
    using c(1) by (auto simp: recover_lookup_def name found assms(7) require_def)
  ultimately show ?thesis using rec by blast
qed

section \<open>Witnesses\<close>

text \<open>The identifiers of the examples, with the digest that keeps a text as it is.\<close>

definition sample_hash :: "string \<Rightarrow> string" where "sample_hash s = s"
abbreviation sample_password :: string where "sample_password \<equiv> ''correct horse battery''"

abbreviation sample_admin :: account where
  "sample_admin \<equiv> \<lparr>acID = ''u1'', acName = ''Owner'', acNameKey = ''owner'', acRole = RoleAdmin, acHash = ''h1'',
     acDisabled = False, acAccess = InterfaceFull\<rparr>"

definition sample_setup :: "(time \<times> account_event) list" where
  "sample_setup =
     [(0, AeInitPolicy), (1, AeBootstrap ''Owner'' sample_password ''h1'' ''u1''),
      (2, AeFirstLogin ''u1'' (''edge'', ''windows'') ''k1'' ''p1'' ''2024''),
      (3, AePolicy ''k1'' 30)]"

definition sample_world :: account_world where
  "sample_world = account_run sample_hash (=) sample_setup newAccountWorld"

lemma sample_world_eq:
  "sample_world = \<lparr>awDb = \<lparr>dbAccounts = [sample_admin], dbSessions = [\<lparr>srKey = ''k1'', srUser = ''u1'', srCreated = ''2024'', srLastSeen = 2,
     srExpires = 2 + DefaultSessionLifetime, srPublicID = ''p1'', srName = [], srBrowser = ''edge'', srPlatform = ''windows'',
     srInterface = InterfaceFull, srControl = None\<rparr>], dbGrants = [], dbCodes = [], dbLinks = [], dbIdle = Some 30\<rparr>, awProofs = []\<rparr>"
  by code_simp

definition sample_late :: time where "sample_late = 3 + 31 * 60 * second"

definition sample_later :: "(time \<times> account_event) list" where
  "sample_later =
     [(sample_late + 1, AeFirstLogin ''u1'' (''edge'', ''windows'') ''k2'' ''p2'' ''2025''), (sample_late + 2, AePolicy ''k2'' 480)]"

lemma expired_login_never_revived_witness:
  "dbIdle (awDb (account_run sample_hash (=) sample_later sample_world)) = Some 480 \<and>
   \<not> isOk (inspectSessionKey (sample_late + 3) ''k1'' (awDb (account_run sample_hash (=) sample_later sample_world)))"
proof
  show "dbIdle (awDb (account_run sample_hash (=) sample_later sample_world)) = Some 480" by code_simp
  have "dbIdle (awDb sample_world) \<noteq> None" "\<not> isOk (inspectSessionKey sample_late ''k1'' (awDb sample_world))"
    "sorted (map fst sample_later)" "sample_late \<le> sample_late + 3"
    "\<forall>x \<in> set sample_later. sample_late \<le> fst x \<and> fst x \<le> sample_late + 3 \<and> created_key (snd x) \<noteq> Some ''k1''"
    by code_simp+
  then show "\<not> isOk (inspectSessionKey (sample_late + 3) ''k1'' (awDb (account_run sample_hash (=) sample_later sample_world)))"
    using expired_login_never_revived [OF sample_world_def, of sample_late "''k1''" sample_later "sample_late + 3"] by blast
qed

lemma control_authority_agrees_witness:
  "\<exists>s. inspectSessionKey 4 ''k1'' (awDb sample_world) = Inr s \<and> CanControl 4 s"
proof -
  have "RequireControlSession 4 ''k1'' (awDb sample_world) = Inr ()" by code_simp
  then show ?thesis using control_authority_agrees [of "awDb sample_world" sample_hash "(=)" sample_setup] by (simp add: sample_world_def)
qed

lemma accounts_stay_administered_witness:
  "list_ex (\<lambda>a. acRole a = RoleAdmin \<and> \<not> acDisabled a) (dbAccounts (awDb sample_world)) \<and>
   sessions_of ''u1'' (dbSessions (awDb sample_world)) \<le> MaxSessionsPerAccount"
proof -
  have "dbAccounts (awDb sample_world) \<noteq> []" by (simp add: sample_world_eq)
  then show ?thesis
    using accounts_stay_administered [of "awDb sample_world" sample_hash "(=)" sample_setup "''u1''"] by (simp add: sample_world_def)
qed

definition sample_reset :: account_db where
  "sample_reset = fst (WithTx (ResetPasswordForSession 4 ''k1'' ''u1'' ''another good password'' ''h2'') (awDb sample_world))"

lemma new_password_ends_old_authority_witness:
  "\<not> isOk (LoginForInterface 6 sample_admin (''edge'', ''windows'') InterfaceFull ''k3'' ''p3'' ''2026''
     (awDb (account_run sample_hash (=) [(5, AeFirstLogin ''u1'' (''edge'', ''windows'') ''k2'' ''p2'' ''2025'')]
       \<lparr>awDb = sample_reset, awProofs = [sample_admin]\<rparr>)))"
proof -
  have "ResetPasswordForSession 4 ''k1'' ''u1'' ''another good password'' ''h2'' (awDb sample_world) = Inr (sample_reset, [''k1''])"
    by code_simp
  then have "password_replaced sample_hash ''u1'' ''h2'' (awDb sample_world) sample_reset" unfolding password_replaced_def by blast
  from new_password_ends_old_authority [OF this, of sample_admin "[(5, AeFirstLogin ''u1'' (''edge'', ''windows'') ''k2'' ''p2'' ''2025'')]"]
  show ?thesis by simp
qed

definition sample_code :: string where "sample_code = ''0123456789abcdef0123456789abcdef''"

definition sample_codes :: account_db where
  "sample_codes = fst (WithTx (ReplaceRecoveryCodes sample_hash 4 ''k1'' sample_admin [sample_code]) (awDb sample_world))"

lemma recovery_code_works_once_witness:
  "recover_lookup sample_hash ''OWNER'' ''0123-4567 89ab-cdef 0123-4567 89AB-CDEF'' ''another good password'' sample_codes = Inr ''u1''"
proof -
  have "ReplaceRecoveryCodes sample_hash 4 ''k1'' sample_admin [sample_code] (awDb sample_world) = Inr (sample_codes, [formatRecoveryCode sample_code])"
    "normalizeUsername ''OWNER'' = Inr (''OWNER'', ''owner'')" "ValidatePassword ''another good password'' = Inr ()"
    "list_all (\<lambda>c. length c = 32 \<and> list_all hex_char c) [sample_code]"
    "normalizeRecoveryCode ''0123-4567 89ab-cdef 0123-4567 89AB-CDEF'' \<in> set [sample_code]"
    "account_row ''u1'' (awDb sample_world) = Some sample_admin"
    by code_simp+
  then show ?thesis
    using recovery_code_works_once [OF arg_cong [OF sample_world_def, of awDb], of 4 "''k1''" sample_admin "[sample_code]" sample_codes
        "[formatRecoveryCode sample_code]" "''0123-4567 89ab-cdef 0123-4567 89AB-CDEF''" sample_admin "''OWNER''" "''OWNER''" "''another good password''"]
    by simp
qed

end
