(* ===== verification/RequestAccess.thy ===== *)
theory RequestAccess
  imports AccountSafety CommandReceipts
begin

text \<open>
  How a request of the main listener or the remote listener reaches its handler: the capacity lanes of
  \<open>request_admission.go\<close>, authentication (\<open>auth.go\<close>), the authority over routes (\<open>permissions.go\<close>) and the
  bounded activity of sessions (\<open>session_activity.go\<close>), over the tables of \<open>Accounts\<close>.  Each critical section
  is a step of its request; requests interleave freely with each other and with changes of accounts, the
  controller and the gateway.  The checks of origin and network before and the handlers after are not here.
\<close>

section \<open>Requests and routes\<close>

record http_request =
  hrMethod :: string
  hrPath :: string
  hrCookie :: "string option" \<comment> \<open>value of the session cookie of its listener\<close>
  hrInterface :: string
  hrPeer :: string
  hrController :: string

definition readRequest :: "http_request \<Rightarrow> bool" where
  "readRequest r \<longleftrightarrow> hrMethod r = ''GET'' \<or> hrMethod r = ''HEAD''"

definition cutPrefix :: "string \<Rightarrow> string \<Rightarrow> string option" where
  "cutPrefix p s = (if prefix p s then Some (drop (length p) s) else None)"

definition singleResourceAction :: "string \<Rightarrow> string \<Rightarrow> string \<Rightarrow> bool" where
  "singleResourceAction route p action =
     (case cutPrefix p route of
        None \<Rightarrow> False
      | Some i \<Rightarrow>
          suffix action i \<and>
          (let j = take (length i - length action) i in j \<noteq> [] \<and> CHR ''/'' \<notin> set j))"

definition hostDiagnosticsRoute :: "string \<Rightarrow> bool" where
  "hostDiagnosticsRoute route \<longleftrightarrow>
     prefix ''/api/labs/'' route \<or> prefix ''/api/diagnostics/'' route \<or> route = ''/api/traces'' \<or> prefix ''/api/traces/'' route \<or>
     route \<in> set [''/api/transport/cloud/state'', ''/api/transport/cloud/events'', ''/api/transport/cloud/diagnostics'',
       ''/api/transport/bluetooth/state'', ''/api/transport/bluetooth/events'', ''/api/transport/bluetooth/diagnostics'',
       ''/api/transport/intiface/diagnostics'']"

definition hostPrivateRead :: "string \<Rightarrow> bool" where
  "hostPrivateRead route \<longleftrightarrow>
     route = ''/api/auth/session-policy'' \<or>
     hostDiagnosticsRoute route \<or> route = ''/api/audit'' \<or> prefix ''/api/audit/'' route \<or> route = ''/api/network'' \<or>
     prefix ''/api/network/'' route \<or> route = ''/api/setup'' \<or> prefix ''/api/setup/'' route \<or>
     prefix ''/api/llm/'' route \<and> route \<noteq> ''/api/llm/status'' \<or>
     route = ''/api/media/tools'' \<or> route = ''/api/accounts'' \<or>
     prefix ''/api/accounts/'' route \<and> \<not> singleResourceAction route ''/api/accounts/'' ''/profile-image''"

definition ownSessionManagementRoute :: "http_request \<Rightarrow> bool" where
  "ownSessionManagementRoute r =
     (if hrPath r = ''/api/auth/sessions'' then hrMethod r = ''DELETE''
      else case cutPrefix ''/api/auth/sessions/'' (hrPath r) of
        None \<Rightarrow> False
      | Some i \<Rightarrow> i \<noteq> [] \<and> CHR ''/'' \<notin> set i \<and> (hrMethod r = ''DELETE'' \<or> hrMethod r = ''PATCH''))"

definition selfServiceRoute :: "http_request \<Rightarrow> bool" where
  "selfServiceRoute r \<longleftrightarrow>
     hrPath r = ''/api/auth/recovery-codes'' \<and> (hrMethod r = ''POST'' \<or> hrMethod r = ''DELETE'') \<or>
     ownSessionManagementRoute r \<or>
     hrPath r \<in> set [''/api/auth/logout'', ''/api/auth/password'', ''/api/auth/control-identity'', ''/api/auth/profile-image'',
       ''/api/controller/heartbeat'', ''/api/chat/cursor'']"

definition controlRoute :: "string \<Rightarrow> bool" where
  "controlRoute route =
     (if prefix ''/api/motion/lab/'' route then False
      else prefix ''/api/motion/'' route \<or> prefix ''/api/modes/'' route \<or> prefix ''/api/chat/'' route \<or>
        prefix ''/api/voice/requests/'' route \<or>
        prefix ''/api/library/'' route \<and> suffix ''/play'' route \<or>
        singleResourceAction route ''/api/library/feedback/'' ''/undo'' \<or>
        singleResourceAction route ''/api/media/videos/'' ''/metadata'' \<or>
        singleResourceAction route ''/api/remote/commands/'' ''/claim'' \<or>
        route \<in> set [''/api/controller/takeover'', ''/api/media/sync'', ''/api/media/duration'', ''/api/media/script-offset'',
          ''/api/media/playback'', ''/api/voice/transcriptions'', ''/api/voice/preferences'', ''/api/voice/input-preferences'',
          ''/api/library/feedback'', ''/api/transport/bluetooth/status'', ''/api/transport/bluetooth/ack'',
          ''/api/settings/llm-motion-mode'', ''/api/media/videos/tags'', ''/api/media/tags/rename'', ''/api/media/tags/delete'',
          ''/api/remote/presence'', ''/api/remote/commands'', ''/api/remote/keepalive'', ''/api/remote/edge'',
          ''/api/remote/edge/resume'', ''/api/transport/coyote/strength'', ''/api/transport/coyote/test'',
          ''/api/transport/coyote/zero'', ''/api/transport/intiface/vibrator/resume'', ''/api/transport/intiface/vibrator/test''])"

definition bluetoothGatewayDataRoute :: "http_request \<Rightarrow> bool" where
  "bluetoothGatewayDataRoute r \<longleftrightarrow>
     hrMethod r = ''GET'' \<and> hrPath r = ''/api/transport/bluetooth/commands'' \<or>
     hrMethod r = ''POST'' \<and> (hrPath r = ''/api/transport/bluetooth/status'' \<or> hrPath r = ''/api/transport/bluetooth/ack'')"

definition bluetoothGatewaySessionRoute :: "http_request \<Rightarrow> bool" where
  "bluetoothGatewaySessionRoute r \<longleftrightarrow>
     bluetoothGatewayDataRoute r \<or> hrMethod r = ''POST'' \<and> hrPath r = ''/api/transport/bluetooth/disconnect''"

definition isPublicAuthenticationRequest :: "http_request \<Rightarrow> bool" where
  "isPublicAuthenticationRequest r \<longleftrightarrow>
     (hrMethod r = ''GET'' \<or> hrMethod r = ''HEAD'') \<and> \<not> prefix ''/api/'' (hrPath r) \<or>
     hrPath r \<in> set [''/healthz'', ''/api/auth/status'', ''/api/auth/bootstrap'', ''/api/auth/login''] \<or>
     hrPath r = ''/api/motion/stop'' \<and> hrMethod r = ''POST'' \<or>
     hrPath r = ''/api/auth/recover'' \<and> hrMethod r = ''POST'' \<or>
     hrPath r = ''/api/notice-preferences'' \<and> (readRequest r \<or> hrMethod r = ''PUT'' \<or> hrMethod r = ''DELETE'')"

definition passiveSessionRequest :: "http_request \<Rightarrow> bool" where
  "passiveSessionRequest r =
     (if readRequest r then True
      else if hrMethod r \<noteq> ''POST'' then False
      else hrPath r \<in> set [''/api/auth/logout'', ''/api/controller/heartbeat'', ''/api/chat/cursor'', ''/api/transport/bluetooth/status'',
          ''/api/transport/bluetooth/ack'', ''/api/transport/bluetooth/disconnect'', ''/api/media/sync'', ''/api/media/duration'',
          ''/api/remote/presence'', ''/api/remote/keepalive''] \<or>
        prefix ''/api/voice/requests/'' (hrPath r) \<and> suffix ''/played'' (hrPath r))"

definition immediateControlTraffic :: "http_request \<Rightarrow> bool" where
  "immediateControlTraffic r =
     (if readRequest r then hrPath r = ''/api/state'' \<or> hrPath r = ''/api/controller''
      else controlRoute (hrPath r) \<and> motionCommandRoute (hrPath r) \<and> \<not> deferredMotionCommand (hrPath r))"

definition stop_request :: "http_request \<Rightarrow> bool" where
  "stop_request r \<longleftrightarrow> hrMethod r = ''POST'' \<and> hrPath r = ''/api/motion/stop''"

section \<open>Capacity lanes\<close>

datatype request_lane = OrdinaryLane | LoginLane | ShellLane | LivenessLane | ControlLane | DiagnosticExportLane

fun requestLaneLimits :: "request_lane \<Rightarrow> int \<times> int" where
  "requestLaneLimits OrdinaryLane = (128, 64)"
| "requestLaneLimits LoginLane = (8, 2)"
| "requestLaneLimits ShellLane = (16, 8)"
| "requestLaneLimits LivenessLane = (16, 8)"
| "requestLaneLimits ControlLane = (16, 8)"
| "requestLaneLimits DiagnosticExportLane = (1, 1)"

record lane_state =
  lsActive :: int
  lsPeak :: int
  lsRejected :: int
  lsPeers :: "string \<Rightarrow> int option"

definition peer_count :: "lane_state \<Rightarrow> string \<Rightarrow> int" where
  "peer_count l peer = (case lsPeers l peer of None \<Rightarrow> 0 | Some n \<Rightarrow> n)"

definition lane_enter :: "request_lane \<Rightarrow> string \<Rightarrow> lane_state \<Rightarrow> lane_state \<times> bool" where
  "lane_enter lane peer l =
     (if fst (requestLaneLimits lane) \<le> lsActive l \<or> snd (requestLaneLimits lane) \<le> peer_count l peer
      then (l\<lparr>lsRejected := lsRejected l + 1\<rparr>, False)
      else (l\<lparr>lsActive := lsActive l + 1, lsPeak := max (lsPeak l) (lsActive l + 1),
              lsPeers := (lsPeers l)(peer \<mapsto> peer_count l peer + 1)\<rparr>, True))"

definition lane_leave :: "string \<Rightarrow> lane_state \<Rightarrow> lane_state" where
  "lane_leave peer l =
     l\<lparr>lsActive := lsActive l - 1,
       lsPeers := (if peer_count l peer - 1 = 0 then (lsPeers l)(peer := None) else (lsPeers l)(peer \<mapsto> peer_count l peer - 1))\<rparr>"

section \<open>Activity of a session\<close>

record session_activity =
  saEnded :: bool
  saRequests :: int
  saLanes :: "request_lane \<Rightarrow> int"

definition owner_lane :: "request_lane \<Rightarrow> bool" where
  "owner_lane lane \<longleftrightarrow> lane = LivenessLane \<or> lane = ControlLane"

definition sessionLimit :: "request_lane \<Rightarrow> nat" where
  "sessionLimit lane =
     128 + (if owner_lane lane then nat (fst (requestLaneLimits LivenessLane) + fst (requestLaneLimits ControlLane)) else 0)"

definition requestLimit :: "request_lane \<Rightarrow> int" where
  "requestLimit lane = (if owner_lane lane then 8 else 32)"

text \<open>The map of sessions is an association list; \<open>fresh_activity\<close> is an entry that \<open>enterLane\<close> makes.\<close>

definition fresh_activity :: session_activity where
  "fresh_activity = \<lparr>saEnded = False, saRequests = 0, saLanes = (\<lambda>_. 0)\<rparr>"

type_synonym activities = "(string \<times> session_activity) list"

definition put_activity :: "string \<Rightarrow> session_activity \<Rightarrow> activities \<Rightarrow> activities" where
  "put_activity k e xs = (k, e) # filter (\<lambda>x. fst x \<noteq> k) xs"

definition enterLane :: "string \<Rightarrow> request_lane \<Rightarrow> activities \<Rightarrow> activities \<times> bool" where
  "enterLane k lane xs =
     (if map_of xs k = None \<and> sessionLimit lane \<le> length xs then (xs, False)
      else
        let e = (case map_of xs k of None \<Rightarrow> fresh_activity | Some e \<Rightarrow> e); ys = put_activity k e xs in
        if requestLimit lane \<le> saLanes e lane \<or> saEnded e then (ys, False)
        else (put_activity k (e\<lparr>saRequests := saRequests e + 1, saLanes := (saLanes e)(lane := saLanes e lane + 1)\<rparr>) ys, True))"

text \<open>The function that \<open>enterLane\<close> returns; the entry it closes over is the one under its key as long as it has requests.\<close>

definition leaveLane :: "string \<Rightarrow> request_lane \<Rightarrow> activities \<Rightarrow> activities" where
  "leaveLane k lane xs =
     (case map_of xs k of
        None \<Rightarrow> xs
      | Some e \<Rightarrow>
          let e1 = e\<lparr>saRequests := saRequests e - 1, saLanes := (saLanes e)(lane := saLanes e lane - 1)\<rparr> in
          if saRequests e1 = 0 then filter (\<lambda>x. fst x \<noteq> k) xs else put_activity k e1 xs)"

definition activity_revoke :: "string \<Rightarrow> activities \<Rightarrow> activities" where
  "activity_revoke k xs = (case map_of xs k of None \<Rightarrow> xs | Some e \<Rightarrow> put_activity k (e\<lparr>saEnded := True\<rparr>) xs)"

section \<open>One request\<close>

datatype gate_phase = Arrived | Admitted | Authenticated | Authorized | Handling | Returning nat | Returned nat | Answered nat

text \<open>
  \<open>gtSession\<close> is the session of the context; \<open>gtSeen\<close> and \<open>gtJudged\<close> only record when and over which tables
  the request was authenticated, and when its authority was judged and whether accounts were required then.
\<close>

record gate_task =
  gtReq :: http_request
  gtPhase :: gate_phase
  gtLane :: "request_lane option"
  gtSession :: "account_session option"
  gtEntry :: "(string \<times> request_lane) option"
  gtSeen :: "(time \<times> account_db) option"
  gtJudged :: "(time \<times> bool) option"

record gate =
  gwRequired :: bool
  gwAccounts :: account_world
  gwLanes :: "request_lane \<Rightarrow> lane_state"
  gwActivity :: activities
  gwOwner :: "string \<times> string" \<comment> \<open>client and session key of the controller\<close>
  gwGateway :: string
  gwTasks :: "gate_task list"

definition newGate :: "bool \<Rightarrow> account_world \<Rightarrow> gate" where
  "newGate required w =
     \<lparr>gwRequired = required, gwAccounts = w, gwLanes = (\<lambda>_. \<lparr>lsActive = 0, lsPeak = 0, lsRejected = 0, lsPeers = (\<lambda>_. None)\<rparr>),
      gwActivity = [], gwOwner = ([], []), gwGateway = [], gwTasks = []\<rparr>"

definition matchesRequestSession :: "(string \<Rightarrow> string) \<Rightarrow> http_request \<Rightarrow> string \<Rightarrow> bool" where
  "matchesRequestSession sha r k \<longleftrightarrow>
     k \<noteq> [] \<and> (case hrCookie r of None \<Rightarrow> False | Some c \<Rightarrow> MatchesSessionKey sha (TrimSpace c) k)"

definition requestLane :: "(string \<Rightarrow> string) \<Rightarrow> http_request \<Rightarrow> gate \<Rightarrow> request_lane" where
  "requestLane sha r w =
     (let owned = (hrPath r = ''/api/controller/heartbeat'' \<or> immediateControlTraffic r) \<and>
            cleanControllerClientID (hrController r) = fst (gwOwner w) \<and> matchesRequestSession sha r (snd (gwOwner w)) in
      if readRequest r \<and> hrPath r = ''/api/diagnostics/report'' then DiagnosticExportLane
      else if readRequest r \<and> \<not> prefix ''/api/'' (hrPath r) then ShellLane
      else if hrMethod r = ''POST'' \<and> hrPath r \<in> set [''/api/auth/login'', ''/api/auth/bootstrap'', ''/api/auth/recover''] then LoginLane
      else if owned \<and> hrMethod r = ''POST'' \<and> hrPath r = ''/api/controller/heartbeat'' then LivenessLane
      else if owned \<and> immediateControlTraffic r then ControlLane
      else if bluetoothGatewayDataRoute r \<and> matchesRequestSession sha r (gwGateway w) then LivenessLane
      else OrdinaryLane)"

text \<open>\<open>capabilities\<close> of a request with a session; a request without one has none once accounts are required.\<close>

definition can_configure :: "http_request \<Rightarrow> account_session option \<Rightarrow> bool" where
  "can_configure r s =
     (case s of
        None \<Rightarrow> False
      | Some x \<Rightarrow> hrInterface r = InterfaceFull \<and> FullAccess (asAccount x) \<and> acRole (asAccount x) = RoleAdmin)"

definition can_control :: "time \<Rightarrow> account_session option \<Rightarrow> bool" where
  "can_control now s = (case s of None \<Rightarrow> False | Some x \<Rightarrow> CanControl now x)"

definition authorizeRoutes :: "time \<Rightarrow> bool \<Rightarrow> http_request \<Rightarrow> account_session option \<Rightarrow> bool" where
  "authorizeRoutes now required r s =
     (if isPublicAuthenticationRequest r \<or> \<not> required then True
      else if (case s of None \<Rightarrow> False | Some x \<Rightarrow> \<not> FullAccess (asAccount x) \<or> asInterface x = InterfaceRemote) then False
      else if can_configure r s \<or> selfServiceRoute r \<or> bluetoothGatewaySessionRoute r \<or>
              (readRequest r \<and> \<not> hostPrivateRead (hrPath r)) then True
      else can_control now s \<and> controlRoute (hrPath r))"

text \<open>\<open>sessionFromRequest\<close>: the error decides between 503 and a request without a login; \<open>up\<close> is the datastore answering in time.\<close>

definition sessionFromRequest ::
  "(string \<Rightarrow> string) \<Rightarrow> time \<Rightarrow> bool \<Rightarrow> http_request \<Rightarrow> account_db \<Rightarrow> account_db \<times> (account_error + account_session)" where
  "sessionFromRequest sha now up r d =
     (case hrCookie r of
        None \<Rightarrow> (d, Inl InvalidSession)
      | Some c \<Rightarrow>
          let token = TrimSpace c in
          if token = [] then (d, Inl InvalidSession)
          else if \<not> up then (d, Inl DatabaseError)
          else
            case WithTx (if passiveSessionRequest r then InspectSession sha now token else ResolveSession sha now token) d of
              (e, Inl err) \<Rightarrow> (e, Inl err)
            | (e, Inr s) \<Rightarrow>
                (e, if asInterface s \<noteq> hrInterface r \<or> hrInterface r = InterfaceFull \<and> \<not> FullAccess (asAccount s)
                    then Inl InvalidSession else Inr s))"

definition set_task :: "nat \<Rightarrow> gate_task \<Rightarrow> gate \<Rightarrow> gate" where
  "set_task i t w = w\<lparr>gwTasks := (gwTasks w)[i := t]\<rparr>"

definition gate_admit :: "(string \<Rightarrow> string) \<Rightarrow> nat \<Rightarrow> gate_task \<Rightarrow> gate \<Rightarrow> gate" where
  "gate_admit sha i t w =
     (if stop_request (gtReq t) then set_task i (t\<lparr>gtPhase := Admitted\<rparr>) w
      else
        let lane = requestLane sha (gtReq t) w in
        case lane_enter lane (hrPeer (gtReq t)) (gwLanes w lane) of
          (l, ok) \<Rightarrow>
            set_task i (if ok then t\<lparr>gtPhase := Admitted, gtLane := Some lane\<rparr> else t\<lparr>gtPhase := Answered 429\<rparr>)
              (w\<lparr>gwLanes := (gwLanes w)(lane := l)\<rparr>))"

text \<open>\<open>authenticateRequests\<close>\<close>

definition gate_authenticate :: "(string \<Rightarrow> string) \<Rightarrow> time \<Rightarrow> bool \<Rightarrow> nat \<Rightarrow> gate_task \<Rightarrow> gate \<Rightarrow> gate" where
  "gate_authenticate sha now up i t w =
     (let r = gtReq t; d = awDb (gwAccounts w) in
      if stop_request r \<or> readRequest r \<and> \<not> prefix ''/api/'' (hrPath r) then set_task i (t\<lparr>gtPhase := Authenticated\<rparr>) w
      else
        case sessionFromRequest sha now up r d of
          (e, res) \<Rightarrow>
            let w1 = w\<lparr>gwAccounts := (gwAccounts w)\<lparr>awDb := e\<rparr>\<rparr> in
            case res of
              Inr s \<Rightarrow> set_task i (t\<lparr>gtPhase := Authenticated, gtSession := Some s, gtSeen := Some (now, d)\<rparr>) w1
            | Inl err \<Rightarrow>
                if err \<noteq> InvalidSession then set_task i (t\<lparr>gtPhase := Returned 503\<rparr>) w1
                else if gwRequired w \<and> \<not> isPublicAuthenticationRequest r then set_task i (t\<lparr>gtPhase := Returned 401\<rparr>) w1
                else set_task i (t\<lparr>gtPhase := Authenticated\<rparr>) w1)"

text \<open>Only the main listener has \<open>authorizeRoutes\<close>; the remote one serves a fixed list of its own.\<close>

definition gate_authorize :: "time \<Rightarrow> nat \<Rightarrow> gate_task \<Rightarrow> gate \<Rightarrow> gate" where
  "gate_authorize now i t w =
     set_task i
       (if hrInterface (gtReq t) = InterfaceRemote \<or> authorizeRoutes now (gwRequired w) (gtReq t) (gtSession t)
        then t\<lparr>gtPhase := Authorized, gtJudged := Some (now, gwRequired w)\<rparr> else t\<lparr>gtPhase := Returned 403\<rparr>) w"

text \<open>\<open>trackSessionActivity\<close>\<close>

definition gate_track :: "(string \<Rightarrow> string) \<Rightarrow> nat \<Rightarrow> gate_task \<Rightarrow> gate \<Rightarrow> gate" where
  "gate_track sha i t w =
     (if isPublicAuthenticationRequest (gtReq t) then set_task i (t\<lparr>gtPhase := Handling\<rparr>) w
      else
        case gtSession t of
          None \<Rightarrow> set_task i (t\<lparr>gtPhase := Handling\<rparr>) w
        | Some s \<Rightarrow>
            let lane = requestLane sha (gtReq t) w in
            case enterLane (asKey s) lane (gwActivity w) of
              (a, ok) \<Rightarrow>
                set_task i (if ok then t\<lparr>gtPhase := Handling, gtEntry := Some (asKey s, lane)\<rparr> else t\<lparr>gtPhase := Returned 429\<rparr>)
                  (w\<lparr>gwActivity := a\<rparr>))"

definition gate_leave_session :: "nat \<Rightarrow> nat \<Rightarrow> gate_task \<Rightarrow> gate \<Rightarrow> gate" where
  "gate_leave_session status i t w =
     set_task i (t\<lparr>gtPhase := Returned status, gtEntry := None\<rparr>)
       (case gtEntry t of None \<Rightarrow> w | Some (k, lane) \<Rightarrow> w\<lparr>gwActivity := leaveLane k lane (gwActivity w)\<rparr>)"

definition gate_leave_lane :: "nat \<Rightarrow> nat \<Rightarrow> gate_task \<Rightarrow> gate \<Rightarrow> gate" where
  "gate_leave_lane status i t w =
     set_task i (t\<lparr>gtPhase := Answered status, gtLane := None\<rparr>)
       (case gtLane t of
          None \<Rightarrow> w
        | Some lane \<Rightarrow> w\<lparr>gwLanes := (gwLanes w)(lane := lane_leave (hrPeer (gtReq t)) (gwLanes w lane))\<rparr>)"

definition gate_step :: "(string \<Rightarrow> string) \<Rightarrow> time \<Rightarrow> bool \<Rightarrow> nat \<Rightarrow> gate \<Rightarrow> gate" where
  "gate_step sha now up i w =
     (if length (gwTasks w) \<le> i then w
      else
        let t = gwTasks w ! i in
        case gtPhase t of
          Arrived \<Rightarrow> gate_admit sha i t w
        | Admitted \<Rightarrow> gate_authenticate sha now up i t w
        | Authenticated \<Rightarrow> gate_authorize now i t w
        | Authorized \<Rightarrow> gate_track sha i t w
        | Handling \<Rightarrow> set_task i (t\<lparr>gtPhase := Returning 200\<rparr>) w
        | Returning status \<Rightarrow> gate_leave_session status i t w
        | Returned status \<Rightarrow> gate_leave_lane status i t w
        | Answered status \<Rightarrow> w)"

section \<open>The server\<close>

datatype gate_event =
    GeArrive http_request
  | GeStep nat bool
  | GeRequire
  | GeOwner string string
  | GeGateway string
  | GeRevoke string
  | GeAccount account_event

definition new_task :: "http_request \<Rightarrow> gate_task" where
  "new_task r = \<lparr>gtReq = r, gtPhase = Arrived, gtLane = None, gtSession = None, gtEntry = None, gtSeen = None, gtJudged = None\<rparr>"

fun gate_exec :: "(string \<Rightarrow> string) \<Rightarrow> (string \<Rightarrow> string \<Rightarrow> bool) \<Rightarrow> time \<times> gate_event \<Rightarrow> gate \<Rightarrow> gate" where
  "gate_exec sha verify (now, GeArrive r) w = w\<lparr>gwTasks := gwTasks w @ [new_task r]\<rparr>"
| "gate_exec sha verify (now, GeStep i up) w = gate_step sha now up i w"
| "gate_exec sha verify (now, GeRequire) w = w\<lparr>gwRequired := True\<rparr>"
| "gate_exec sha verify (now, GeOwner client k) w = w\<lparr>gwOwner := (client, k)\<rparr>"
| "gate_exec sha verify (now, GeGateway k) w = w\<lparr>gwGateway := k\<rparr>"
| "gate_exec sha verify (now, GeRevoke k) w = w\<lparr>gwActivity := activity_revoke k (gwActivity w)\<rparr>"
| "gate_exec sha verify (now, GeAccount e) w = w\<lparr>gwAccounts := account_exec sha verify (now, e) (gwAccounts w)\<rparr>"

definition gate_run ::
  "(string \<Rightarrow> string) \<Rightarrow> (string \<Rightarrow> string \<Rightarrow> bool) \<Rightarrow> (time \<times> gate_event) list \<Rightarrow> gate \<Rightarrow> gate" where
  "gate_run sha verify xs w = fold (gate_exec sha verify) xs w"

text \<open>The context of a request that is being handled: it ends with its login, or with the unprotected mode.\<close>

definition request_ended :: "gate \<Rightarrow> gate_task \<Rightarrow> bool" where
  "request_ended w t =
     (case gtEntry t of
        None \<Rightarrow> gwRequired w
      | Some (k, lane) \<Rightarrow> (case map_of (gwActivity w) k of None \<Rightarrow> True | Some e \<Rightarrow> saEnded e))"

end
