(* ===== verification/RequestInvariant.thy ===== *)
theory RequestInvariant
  imports RequestAccess
begin

text \<open>
  The invariant of requests on their way to a handler: lanes and session entries count the requests that hold them,
  and each request carries the evidence of the checks it has passed.  Every step of \<open>RequestAccess\<close> keeps it.
\<close>

section \<open>Counting the requests that hold something\<close>

definition tcount :: "(gate_task \<Rightarrow> bool) \<Rightarrow> gate_task list \<Rightarrow> int" where
  "tcount P ts = int (length (filter P ts))"

lemma tcount_update: "i < length ts \<Longrightarrow> tcount P (ts[i := t]) = tcount P ts + of_bool (P t) - of_bool (P (ts ! i))"
  using filter_update [of i ts P t] by (auto simp: tcount_def)

lemma tcount_append: "tcount P (ts @ [t]) = tcount P ts + of_bool (P t)"
  by (simp add: tcount_def)

lemma tcount_pos: "i < length ts \<Longrightarrow> P (ts ! i) \<Longrightarrow> 0 < tcount P ts"
  using filter_pos [of "ts ! i" ts P] by (simp add: tcount_def)

lemma tcount_nonneg [simp]: "0 \<le> tcount P ts"
  by (simp add: tcount_def)

lemma less_one_le: "(x :: int) \<le> y \<Longrightarrow> x - 1 \<le> y"
  by simp

section \<open>Lanes\<close>

definition holds :: "request_lane \<Rightarrow> gate_task \<Rightarrow> bool" where
  "holds lane t \<longleftrightarrow> gtLane t = Some lane"

definition holds_for :: "request_lane \<Rightarrow> string \<Rightarrow> gate_task \<Rightarrow> bool" where
  "holds_for lane peer t \<longleftrightarrow> gtLane t = Some lane \<and> hrPeer (gtReq t) = peer"

definition lane_ok :: "request_lane \<Rightarrow> lane_state \<Rightarrow> gate_task list \<Rightarrow> bool" where
  "lane_ok lane l ts \<longleftrightarrow>
     lsActive l = tcount (holds lane) ts \<and> tcount (holds lane) ts \<le> fst (requestLaneLimits lane) \<and>
     (\<forall>peer. peer_count l peer = tcount (holds_for lane peer) ts \<and> tcount (holds_for lane peer) ts \<le> snd (requestLaneLimits lane) \<and>
       lsPeers l peer \<noteq> Some 0)"

lemma lane_ok_same:
  assumes "i < length ts" and "gtLane t = gtLane (ts ! i)" and "gtReq t = gtReq (ts ! i)"
  shows "lane_ok lane l (ts[i := t]) = lane_ok lane l ts"
  using assms by (simp add: lane_ok_def tcount_update holds_def holds_for_def)

lemma limits_pos: "0 < fst (requestLaneLimits lane)" "0 < snd (requestLaneLimits lane)"
  by (cases lane; simp)+

lemma lane_ok_other:
  assumes "lane_ok lane l ts" and "i < length ts" and "gtLane (ts ! i) \<noteq> Some lane" and "gtLane t \<noteq> Some lane"
  shows "lane_ok lane l (ts[i := t])"
  using assms by (simp add: lane_ok_def tcount_update holds_def holds_for_def)

lemma lane_ok_enter:
  assumes ok: "lane_ok lane l ts" and i: "i < length ts" "gtLane (ts ! i) = None" "gtReq t = gtReq (ts ! i)"
    and e: "lane_enter lane (hrPeer (gtReq t)) l = (l1, True)" and t: "gtLane t = Some lane"
  shows "lane_ok lane l1 (ts[i := t])"
proof -
  let ?p = "hrPeer (gtReq t)"
  have l1: "l1 = l\<lparr>lsActive := lsActive l + 1, lsPeak := max (lsPeak l) (lsActive l + 1), lsPeers := (lsPeers l)(?p \<mapsto> peer_count l ?p + 1)\<rparr>"
      "lsActive l < fst (requestLaneLimits lane)" "peer_count l ?p < snd (requestLaneLimits lane)"
    using e by (auto simp: lane_enter_def split: if_splits)
  have count: "peer_count l1 q = (if q = ?p then peer_count l q + 1 else peer_count l q)" for q
    by (simp add: l1(1) peer_count_def)
  have peers: "tcount (holds_for lane q) (ts[i := t]) = tcount (holds_for lane q) ts + of_bool (q = ?p)" for q
    using i t by (auto simp: tcount_update holds_for_def)
  have "tcount (holds lane) (ts[i := t]) = tcount (holds lane) ts + 1"
    using i t by (simp add: tcount_update holds_def)
  moreover have "lsPeers l1 q \<noteq> Some 0" for q
    using ok by (auto simp: lane_ok_def l1(1) add_nonneg_eq_0_iff)
  ultimately show ?thesis
    using ok l1(2,3) unfolding lane_ok_def count peers by (auto simp: l1(1))
qed

lemma lane_ok_refused:
  assumes "lane_ok lane l ts" and "lane_enter lane peer l = (l1, False)"
  shows "lane_ok lane l1 ts"
  using assms by (auto simp: lane_enter_def lane_ok_def peer_count_def split: if_splits)

lemma lane_ok_leave:
  assumes ok: "lane_ok lane l ts" and i: "i < length ts" "gtLane (ts ! i) = Some lane" "gtReq t = gtReq (ts ! i)" and t: "gtLane t = None"
  shows "lane_ok lane (lane_leave (hrPeer (gtReq (ts ! i))) l) (ts[i := t])"
proof -
  let ?p = "hrPeer (gtReq (ts ! i))" and ?l1 = "lane_leave (hrPeer (gtReq (ts ! i))) l"
  have count: "peer_count ?l1 q = (if q = ?p then peer_count l q - 1 else peer_count l q)" for q
    by (auto simp: lane_leave_def peer_count_def)
  have peers: "tcount (holds_for lane q) (ts[i := t]) = tcount (holds_for lane q) ts - of_bool (q = ?p)" for q
    using i t by (auto simp: tcount_update holds_for_def)
  have "tcount (holds lane) (ts[i := t]) = tcount (holds lane) ts - 1"
    using i t by (simp add: tcount_update holds_def)
  moreover have "lsPeers ?l1 q \<noteq> Some 0" for q using ok by (auto simp: lane_ok_def lane_leave_def)
  moreover have "lsActive ?l1 = lsActive l - 1" by (simp add: lane_leave_def)
  moreover have "tcount (holds_for lane ?p) ts - 1 \<le> snd (requestLaneLimits lane)"
    using ok by (auto simp: lane_ok_def intro: less_one_le)
  ultimately show ?thesis using ok unfolding lane_ok_def count peers by auto
qed

section \<open>Sessions\<close>

definition tracked :: "string \<Rightarrow> gate_task \<Rightarrow> bool" where
  "tracked k t \<longleftrightarrow> (case gtEntry t of None \<Rightarrow> False | Some (j, lane) \<Rightarrow> j = k)"

definition tracked_in :: "string \<Rightarrow> request_lane \<Rightarrow> gate_task \<Rightarrow> bool" where
  "tracked_in k lane t \<longleftrightarrow> gtEntry t = Some (k, lane)"

definition entry_ok :: "string \<Rightarrow> session_activity option \<Rightarrow> gate_task list \<Rightarrow> bool" where
  "entry_ok k x ts \<longleftrightarrow>
     (case x of
        None \<Rightarrow> tcount (tracked k) ts = 0
      | Some e \<Rightarrow> saRequests e = tcount (tracked k) ts \<and> 0 < saRequests e \<and>
          (\<forall>lane. saLanes e lane = tcount (tracked_in k lane) ts \<and> tcount (tracked_in k lane) ts \<le> requestLimit lane))"

definition activity_ok :: "activities \<Rightarrow> gate_task list \<Rightarrow> bool" where
  "activity_ok xs ts \<longleftrightarrow> distinct (map fst xs) \<and> length xs \<le> 160 \<and> (\<forall>k. entry_ok k (map_of xs k) ts)"

lemma map_of_filter_other: "map_of (filter (\<lambda>x. fst x \<noteq> k) xs) j = (if j = k then None else map_of xs j)"
  by (induction xs) auto

lemma map_of_put [simp]: "map_of (put_activity k e xs) j = (if j = k then Some e else map_of xs j)"
  by (auto simp: put_activity_def map_of_filter_other)

lemma distinct_put: "distinct (map fst xs) \<Longrightarrow> distinct (map fst (put_activity k e xs))"
  by (auto simp: put_activity_def distinct_map_filter)

lemma length_without: "map_of xs k = Some e \<Longrightarrow> length (filter (\<lambda>x. fst x \<noteq> k) xs) < length xs"
  by (rule length_filter_less [of "(k, e)"]) (auto dest: map_of_SomeD)

lemma length_put: "length (put_activity k e xs) \<le> (if map_of xs k = None then Suc (length xs) else length xs)"
  using length_filter_le [of "\<lambda>x. fst x \<noteq> k" xs] length_without [of xs k]
  by (cases "map_of xs k") (auto simp: put_activity_def Suc_le_eq intro: le_imp_less_Suc)

lemma session_limit: "sessionLimit lane \<le> 160" "0 < requestLimit lane"
  by (simp_all add: sessionLimit_def requestLimit_def)

lemma entry_ok_same:
  assumes "i < length ts" and "gtEntry t = gtEntry (ts ! i)"
  shows "entry_ok k x (ts[i := t]) = entry_ok k x ts"
  using assms by (simp add: entry_ok_def tcount_update tracked_def tracked_in_def split: option.split)

lemma entry_ok_other:
  assumes "entry_ok k x ts" and "i < length ts" and "\<not> tracked k (ts ! i)" and "\<not> tracked k t"
  shows "entry_ok k x (ts[i := t])"
proof -
  have "\<not> tracked_in k lane (ts ! i)" "\<not> tracked_in k lane t" for lane
    using assms(3,4) by (auto simp: tracked_def tracked_in_def)
  then show ?thesis using assms by (simp add: entry_ok_def tcount_update split: option.splits)
qed

lemma no_lane_without_entry: "tcount (tracked k) ts = 0 \<Longrightarrow> tcount (tracked_in k lane) ts = 0"
  by (auto simp: tcount_def filter_empty_conv tracked_def tracked_in_def)

lemma activity_ok_enter:
  assumes ok: "activity_ok xs ts" and i: "i < length ts" "gtEntry (ts ! i) = None" and e: "enterLane k lane xs = (ys, b)"
    and t: "gtEntry t = (if b then Some (k, lane) else None)"
  shows "activity_ok ys (ts[i := t])"
proof (cases "map_of xs k = None \<and> sessionLimit lane \<le> length xs")
  case True
  then have "ys = xs" "\<not> b" using e by (auto simp: enterLane_def)
  then show ?thesis using ok i t by (simp add: activity_ok_def entry_ok_same)
next
  case False
  define a where "a = (case map_of xs k of None \<Rightarrow> fresh_activity | Some e \<Rightarrow> e)"
  have len: "length (put_activity k y xs) \<le> 160" for y
    using False ok length_put [of k y xs] session_limit(1) [of lane] by (auto simp: activity_ok_def split: if_splits)
  have keys: "distinct (map fst (put_activity k y xs))" for y using ok distinct_put by (simp add: activity_ok_def)
  have lanes: "saLanes a l = tcount (tracked_in k l) ts" "tcount (tracked_in k l) ts \<le> requestLimit l" for l
    using ok session_limit(2) [of l] no_lane_without_entry [of k ts l]
    by (auto simp: activity_ok_def entry_ok_def a_def fresh_activity_def split: option.splits dest: spec [of _ k])
  have reqs: "saRequests a = tcount (tracked k) ts"
    using ok by (auto simp: activity_ok_def entry_ok_def a_def fresh_activity_def split: option.splits dest: spec [of _ k])
  show ?thesis
  proof (cases "requestLimit lane \<le> saLanes a lane \<or> saEnded a")
    case refused: True
    then have ys: "ys = put_activity k a xs" "\<not> b" using e False by (auto simp: enterLane_def a_def Let_def)
    have "map_of xs k \<noteq> None"
      using refused session_limit(2) [of lane] by (cases "map_of xs k") (simp_all add: a_def fresh_activity_def)
    then have "map_of ys = map_of xs" using ys(1) by (auto simp: a_def)
    then show ?thesis using ok len keys ys i t by (simp add: activity_ok_def entry_ok_same)
  next
    case entered: False
    let ?a = "a\<lparr>saRequests := saRequests a + 1, saLanes := (saLanes a)(lane := saLanes a lane + 1)\<rparr>"
    have ys: "ys = put_activity k ?a (put_activity k a xs)" b using e False entered by (auto simp: enterLane_def a_def Let_def)
    have ys2: "put_activity k ?a (put_activity k a xs) = put_activity k ?a xs" by (simp add: put_activity_def)
    have ne: "\<not> tracked j (ts ! i)" "\<not> tracked_in j l (ts ! i)" for j l using i(2) by (simp_all add: tracked_def tracked_in_def)
    have "entry_ok j (map_of ys j) (ts[i := t])" for j
    proof (cases "j = k")
      case True
      have "tcount (tracked k) (ts[i := t]) = tcount (tracked k) ts + 1" using i(1) t ys(2) ne by (simp add: tcount_update tracked_def)
      moreover have "tcount (tracked_in k l) (ts[i := t]) = tcount (tracked_in k l) ts + of_bool (l = lane)" for l
        using i(1) t ys(2) ne by (auto simp: tcount_update tracked_in_def)
      ultimately show ?thesis using lanes reqs entered True unfolding ys(1) by (auto simp: entry_ok_def)
    next
      case other: False
      have "entry_ok j (map_of xs j) ts" using ok by (simp add: activity_ok_def)
      then have "entry_ok j (map_of xs j) (ts[i := t])" by (rule entry_ok_other) (use i(1) ne t ys(2) other in \<open>auto simp: tracked_def\<close>)
      then show ?thesis using other by (simp add: ys(1))
    qed
    then show ?thesis using len keys by (simp add: activity_ok_def ys ys2)
  qed
qed

lemma activity_ok_leave:
  assumes ok: "activity_ok xs ts" and i: "i < length ts" "gtEntry (ts ! i) = Some (k, lane)" and t: "gtEntry t = None"
  shows "activity_ok (leaveLane k lane xs) (ts[i := t])"
proof -
  have "0 < tcount (tracked k) ts" using i by (intro tcount_pos) (auto simp: tracked_def)
  then obtain e where e: "map_of xs k = Some e" "saRequests e = tcount (tracked k) ts"
      "\<And>l. saLanes e l = tcount (tracked_in k l) ts \<and> tcount (tracked_in k l) ts \<le> requestLimit l"
    using ok by (auto simp: activity_ok_def entry_ok_def split: option.splits dest: spec [of _ k])
  have nt: "\<not> tracked j t" "\<not> tracked_in j l t" for j l using t by (simp_all add: tracked_def tracked_in_def)
  have c: "tcount (tracked k) (ts[i := t]) = tcount (tracked k) ts - 1" using i nt by (simp add: tcount_update tracked_def)
  have cl: "tcount (tracked_in k l) (ts[i := t]) = tcount (tracked_in k l) ts - of_bool (l = lane)" for l
    using i nt by (auto simp: tcount_update tracked_in_def)
  have other: "entry_ok j (map_of xs j) (ts[i := t])" if "j \<noteq> k" for j
  proof -
    have "entry_ok j (map_of xs j) ts" using ok by (simp add: activity_ok_def)
    then show ?thesis by (rule entry_ok_other) (use i nt that in \<open>auto simp: tracked_def\<close>)
  qed
  define e1 where "e1 = e\<lparr>saRequests := saRequests e - 1, saLanes := (saLanes e)(lane := saLanes e lane - 1)\<rparr>"
  have leave: "leaveLane k lane xs = (if saRequests e1 = 0 then filter (\<lambda>x. fst x \<noteq> k) xs else put_activity k e1 xs)"
    by (simp add: leaveLane_def e(1) e1_def Let_def)
  show ?thesis
  proof (cases "saRequests e1 = 0")
    case True
    have "entry_ok k None (ts[i := t])" using True c e(2) by (simp add: entry_ok_def e1_def)
    then show ?thesis using ok other True order_trans [OF length_filter_le, of xs 160 "\<lambda>x. fst x \<noteq> k"]
      by (simp add: activity_ok_def leave map_of_filter_other distinct_map_filter)
  next
    case False
    have "0 \<le> tcount (tracked k) (ts[i := t])" by simp
    then have "entry_ok k (Some e1) (ts[i := t])"
      using False c cl e(2,3) by (auto simp: entry_ok_def e1_def intro: less_one_le)
    then show ?thesis using ok other False length_put [of k e1 xs] e(1) distinct_put [of xs k e1]
      by (auto simp: activity_ok_def leave)
  qed
qed

lemma activity_ok_revoke:
  assumes ok: "activity_ok xs ts"
  shows "activity_ok (activity_revoke k xs) ts"
proof (cases "map_of xs k")
  case None
  then show ?thesis using ok by (simp add: activity_revoke_def)
next
  case (Some e)
  have "entry_ok k (Some e) ts" using ok Some by (auto simp: activity_ok_def dest: spec [of _ k])
  then have "entry_ok k (Some (e\<lparr>saEnded := True\<rparr>)) ts" by (simp add: entry_ok_def)
  then show ?thesis using ok Some length_put [of k "e\<lparr>saEnded := True\<rparr>" xs] distinct_put
    by (auto simp: activity_revoke_def activity_ok_def)
qed

section \<open>What a request has passed\<close>

text \<open>The session was live over the tables \<open>d\<close> at the time \<open>now\<close>, for the listener the request came to.\<close>

definition authentic :: "(string \<Rightarrow> string) \<Rightarrow> gate_task \<Rightarrow> account_session \<Rightarrow> time \<Rightarrow> account_db \<Rightarrow> bool" where
  "authentic sha t s now d \<longleftrightarrow>
     gtSeen t = Some (now, d) \<and> account_inv d \<and>
     (case hrCookie (gtReq t) of None \<Rightarrow> False | Some c \<Rightarrow> inspectSessionKey now (sha (TrimSpace c)) d = Inr s) \<and>
     asInterface s = hrInterface (gtReq t) \<and> (hrInterface (gtReq t) = InterfaceFull \<longrightarrow> FullAccess (asAccount s))"

definition task_ok :: "(string \<Rightarrow> string) \<Rightarrow> bool \<Rightarrow> gate_task \<Rightarrow> bool" where
  "task_ok sha required t \<longleftrightarrow>
     (\<forall>s. gtSession t = Some s \<longrightarrow> (\<exists>now d. authentic sha t s now d)) \<and>
     (\<forall>u b. gtJudged t = Some (u, b) \<longrightarrow>
       (b \<longrightarrow> required) \<and> (hrInterface (gtReq t) \<noteq> InterfaceRemote \<longrightarrow> authorizeRoutes u b (gtReq t) (gtSession t))) \<and>
     (gtPhase t \<in> {Arrived, Admitted, Authenticated} \<longrightarrow> gtJudged t = None) \<and>
     (gtPhase t \<in> {Arrived, Admitted, Authenticated, Authorized} \<longrightarrow> gtEntry t = None) \<and>
     (gtPhase t = Arrived \<longrightarrow> gtLane t = None) \<and>
     (gtPhase t = Handling \<and> \<not> isPublicAuthenticationRequest (gtReq t) \<longrightarrow>
       (case gtSession t of None \<Rightarrow> gtEntry t = None | Some s \<Rightarrow> (\<exists>lane. gtEntry t = Some (asKey s, lane))))"

definition gate_inv :: "(string \<Rightarrow> string) \<Rightarrow> gate \<Rightarrow> bool" where
  "gate_inv sha w \<longleftrightarrow>
     account_inv (awDb (gwAccounts w)) \<and> (\<forall>lane. lane_ok lane (gwLanes w lane) (gwTasks w)) \<and>
     activity_ok (gwActivity w) (gwTasks w) \<and> list_all (task_ok sha (gwRequired w)) (gwTasks w)"

lemma set_task_fields [simp]:
  "gwTasks (set_task i t w) = (gwTasks w)[i := t]" "gwRequired (set_task i t w) = gwRequired w" "gwAccounts (set_task i t w) = gwAccounts w"
  "gwLanes (set_task i t w) = gwLanes w" "gwActivity (set_task i t w) = gwActivity w"
  by (simp_all add: set_task_def)

lemma list_all_update: "list_all P xs \<Longrightarrow> P y \<Longrightarrow> list_all P (xs[i := y])"
  by (auto simp: list_all_iff dest: subsetD [OF set_update_subset_insert])

lemma gate_set_inv:
  assumes "gate_inv sha w" and "i < length (gwTasks w)" and "task_ok sha (gwRequired w) t"
    and "gtReq t = gtReq (gwTasks w ! i)" "gtLane t = gtLane (gwTasks w ! i)" "gtEntry t = gtEntry (gwTasks w ! i)"
  shows "gate_inv sha (set_task i t w)"
  using assms by (simp add: gate_inv_def lane_ok_same activity_ok_def entry_ok_same list_all_update)

lemma gate_task_inv: "gate_inv sha w \<Longrightarrow> i < length (gwTasks w) \<Longrightarrow> task_ok sha (gwRequired w) (gwTasks w ! i)"
  by (simp add: gate_inv_def list_all_length)

lemma gate_accounts_inv: "gate_inv sha w \<Longrightarrow> account_inv e \<Longrightarrow> gate_inv sha (w\<lparr>gwAccounts := (gwAccounts w)\<lparr>awDb := e\<rparr>\<rparr>)"
  by (simp add: gate_inv_def)

lemma resolve_session:
  assumes "resolveSessionKey now touch k d = Inr (e, s)"
  shows "inspectSessionKey now k d = Inr s" "account_inv d \<Longrightarrow> account_inv e"
proof -
  show "inspectSessionKey now k d = Inr s"
    using assms by (auto simp: resolveSessionKey_def bindR_Inr_iff split: if_splits)
  show "account_inv d \<Longrightarrow> account_inv e"
    using assms keeps_touch [of now now k] by (auto simp: resolveSessionKey_def bindR_Inr_iff tx_keeps_def split: if_splits)
qed

lemma request_session:
  assumes "sessionFromRequest sha now up r d = (e, res)" and "account_inv d"
  shows "account_inv e"
    and "res = Inr s \<Longrightarrow> (case hrCookie r of None \<Rightarrow> False | Some c \<Rightarrow> inspectSessionKey now (sha (TrimSpace c)) d = Inr s) \<and>
      asInterface s = hrInterface r \<and> (hrInterface r = InterfaceFull \<longrightarrow> FullAccess (asAccount s))"
proof -
  define t where "t c = (if passiveSessionRequest r then InspectSession sha now c else ResolveSession sha now c)" for c
  have tx: "inspectSessionKey now (sha c) d = Inr x \<and> account_inv f" if r: "t c d = Inr (f, x)" for c f x
  proof -
    obtain touch where "resolveSessionKey now touch (sha c) d = Inr (f, x)"
      using r by (auto simp: t_def InspectSession_def ResolveSession_def split: if_splits)
    then show ?thesis using resolve_session [of now touch "sha c" d f x] assms(2) by blast
  qed
  have "account_inv e \<and> (res = Inr s \<longrightarrow> (case hrCookie r of None \<Rightarrow> False | Some c \<Rightarrow> inspectSessionKey now (sha (TrimSpace c)) d = Inr s) \<and>
      asInterface s = hrInterface r \<and> (hrInterface r = InterfaceFull \<longrightarrow> FullAccess (asAccount s)))"
  proof (cases "hrCookie r")
    case None
    then show ?thesis using assms by (auto simp: sessionFromRequest_def)
  next
    case (Some c)
    show ?thesis
    proof (cases "t (TrimSpace c) d")
      case (Inl err)
      then show ?thesis using assms Some
        by (auto simp: sessionFromRequest_def t_def [symmetric] WithTx_def Let_def split: if_splits)
    next
      case (Inr y)
      obtain f x where y: "t (TrimSpace c) d = Inr (f, x)" using Inr by (cases y) simp
      show ?thesis using assms Some y tx [OF y]
        by (auto simp: sessionFromRequest_def t_def [symmetric] WithTx_def Let_def split: if_splits)
    qed
  qed
  then show "account_inv e"
    and "res = Inr s \<Longrightarrow> (case hrCookie r of None \<Rightarrow> False | Some c \<Rightarrow> inspectSessionKey now (sha (TrimSpace c)) d = Inr s) \<and>
      asInterface s = hrInterface r \<and> (hrInterface r = InterfaceFull \<longrightarrow> FullAccess (asAccount s))"
    by blast+
qed

section \<open>Every step keeps the invariant\<close>

lemma gate_admit_inv:
  assumes "gate_inv sha w" and "i < length (gwTasks w)" and "t = gwTasks w ! i" and "gtPhase t = Arrived"
  shows "gate_inv sha (gate_admit sha i t w)"
proof (cases "stop_request (gtReq t)")
  case True
  have "task_ok sha (gwRequired w) (t\<lparr>gtPhase := Admitted\<rparr>)"
    using gate_task_inv [OF assms(1,2)] assms(3,4) by (simp add: task_ok_def authentic_def)
  then show ?thesis using True assms by (simp add: gate_admit_def gate_set_inv)
next
  case False
  define lane where "lane = requestLane sha (gtReq t) w"
  obtain l ok where e: "lane_enter lane (hrPeer (gtReq t)) (gwLanes w lane) = (l, ok)" by fastforce
  define u where "u = (if ok then t\<lparr>gtPhase := Admitted, gtLane := Some lane\<rparr> else t\<lparr>gtPhase := Answered 429\<rparr>)"
  have g: "gate_admit sha i t w = set_task i u (w\<lparr>gwLanes := (gwLanes w)(lane := l)\<rparr>)"
    using False e by (simp add: gate_admit_def lane_def Let_def u_def)
  have t: "task_ok sha (gwRequired w) t" "gtLane t = None" using gate_task_inv [OF assms(1,2)] assms(3,4) by (simp_all add: task_ok_def)
  have u: "gtReq u = gtReq t" "gtEntry u = gtEntry t" "gtLane u = (if ok then Some lane else None)" "task_ok sha (gwRequired w) u"
    using t assms(4) by (auto simp: u_def task_ok_def authentic_def)
  have old: "lane_ok j (gwLanes w j) (gwTasks w)" for j using assms(1) by (simp add: gate_inv_def)
  have new: "lane_ok lane l ((gwTasks w)[i := u])"
  proof (cases ok)
    case True
    show ?thesis by (rule lane_ok_enter [OF old [of lane] assms(2)]) (use True e t u assms(3) in simp_all)
  next
    case no: False
    then have "lane_ok lane l (gwTasks w)" using lane_ok_refused [OF old [of lane]] e by simp
    then show ?thesis using no t u assms(2,3) by (simp add: lane_ok_same)
  qed
  have "lane_ok j (gwLanes w j) ((gwTasks w)[i := u])" if "j \<noteq> lane" for j
    using that t u assms(2,3) by (intro lane_ok_other old) auto
  then show ?thesis using assms(1-3) new u unfolding g by (simp add: gate_inv_def activity_ok_def entry_ok_same list_all_update)
qed

lemma gate_authenticate_inv:
  assumes "gate_inv sha w" and "i < length (gwTasks w)" and "t = gwTasks w ! i" and "gtPhase t = Admitted"
  shows "gate_inv sha (gate_authenticate sha now up i t w)"
proof -
  have t: "task_ok sha (gwRequired w) t" using gate_task_inv [OF assms(1,2)] assms(3) by simp
  obtain e res where s: "sessionFromRequest sha now up (gtReq t) (awDb (gwAccounts w)) = (e, res)" by fastforce
  have inv: "account_inv (awDb (gwAccounts w))" using assms(1) by (simp add: gate_inv_def)
  note rs = request_session [OF s inv]
  let ?w = "w\<lparr>gwAccounts := (gwAccounts w)\<lparr>awDb := e\<rparr>\<rparr>"
  have w1: "gate_inv sha ?w" by (rule gate_accounts_inv [OF assms(1) rs(1)])
  have plain: "task_ok sha (gwRequired w) (t\<lparr>gtPhase := p\<rparr>)" if "p \<in> {Authenticated} \<union> range Returned" for p
    using t that assms(4) by (auto simp: task_ok_def authentic_def)
  have keeps: "gate_inv sha (set_task i (t\<lparr>gtPhase := p\<rparr>) ?w)" if "p \<in> {Authenticated} \<union> range Returned" for p
    using assms(2,3) plain [OF that] by (intro gate_set_inv [OF w1]) simp_all
  have "task_ok sha (gwRequired w) (t\<lparr>gtPhase := Authenticated, gtSession := Some x, gtSeen := Some (now, awDb (gwAccounts w))\<rparr>)"
    if "res = Inr x" for x
    using t assms(4) rs(2) [OF that] inv by (simp add: task_ok_def authentic_def)
  then have "gate_inv sha (set_task i (t\<lparr>gtPhase := Authenticated, gtSession := Some x, gtSeen := Some (now, awDb (gwAccounts w))\<rparr>) ?w)"
    if "res = Inr x" for x
    using assms(2,3) that by (intro gate_set_inv [OF w1]) simp_all
  moreover have "gate_inv sha (set_task i (t\<lparr>gtPhase := Authenticated\<rparr>) w)"
    using assms plain [of Authenticated] by (intro gate_set_inv) simp_all
  ultimately show ?thesis using keeps s
    by (cases res) (simp_all add: gate_authenticate_def Let_def)
qed

lemma gate_authorize_inv:
  assumes "gate_inv sha w" and "i < length (gwTasks w)" and "t = gwTasks w ! i" and "gtPhase t = Authenticated"
  shows "gate_inv sha (gate_authorize now i t w)"
proof -
  have t: "task_ok sha (gwRequired w) t" using gate_task_inv [OF assms(1,2)] assms(3) by simp
  have "task_ok sha (gwRequired w) (t\<lparr>gtPhase := Authorized, gtJudged := Some (now, gwRequired w)\<rparr>)"
    if "hrInterface (gtReq t) = InterfaceRemote \<or> authorizeRoutes now (gwRequired w) (gtReq t) (gtSession t)"
    using t that assms(4) by (auto simp: task_ok_def authentic_def)
  moreover have "task_ok sha (gwRequired w) (t\<lparr>gtPhase := Returned 403\<rparr>)" using t assms(4) by (simp add: task_ok_def authentic_def)
  ultimately show ?thesis unfolding gate_authorize_def using assms(2,3) by (intro gate_set_inv [OF assms(1)]) auto
qed

lemma gate_track_inv:
  assumes "gate_inv sha w" and "i < length (gwTasks w)" and "t = gwTasks w ! i" and "gtPhase t = Authorized"
  shows "gate_inv sha (gate_track sha i t w)"
proof (cases "isPublicAuthenticationRequest (gtReq t) \<or> gtSession t = None")
  case True
  have "task_ok sha (gwRequired w) (t\<lparr>gtPhase := Handling\<rparr>)"
    using gate_task_inv [OF assms(1,2)] assms(3,4) True by (auto simp: task_ok_def authentic_def)
  then have "gate_inv sha (set_task i (t\<lparr>gtPhase := Handling\<rparr>) w)" using assms(2,3) by (intro gate_set_inv [OF assms(1)]) simp_all
  then show ?thesis using True by (auto simp: gate_track_def)
next
  case False
  then obtain s where s: "gtSession t = Some s" "\<not> isPublicAuthenticationRequest (gtReq t)" by auto
  define lane where "lane = requestLane sha (gtReq t) w"
  obtain a ok where e: "enterLane (asKey s) lane (gwActivity w) = (a, ok)" by fastforce
  define u where "u = (if ok then t\<lparr>gtPhase := Handling, gtEntry := Some (asKey s, lane)\<rparr> else t\<lparr>gtPhase := Returned 429\<rparr>)"
  have g: "gate_track sha i t w = set_task i u (w\<lparr>gwActivity := a\<rparr>)" using s e by (simp add: gate_track_def lane_def Let_def u_def)
  have t: "task_ok sha (gwRequired w) t" "gtEntry t = None" using gate_task_inv [OF assms(1,2)] assms(3,4) by (simp_all add: task_ok_def)
  have u: "gtReq u = gtReq t" "gtLane u = gtLane t" "gtEntry u = (if ok then Some (asKey s, lane) else None)" "task_ok sha (gwRequired w) u"
    using t s assms(4) by (auto simp: u_def task_ok_def authentic_def)
  have "activity_ok a ((gwTasks w)[i := u])"
    by (rule activity_ok_enter [OF _ assms(2) _ e]) (use assms(1,3) t u in \<open>simp_all add: gate_inv_def\<close>)
  then show ?thesis using assms(1-3) u unfolding g by (simp add: gate_inv_def lane_ok_same list_all_update)
qed

lemma gate_leave_session_inv:
  assumes "gate_inv sha w" and "i < length (gwTasks w)" and "t = gwTasks w ! i" and "gtPhase t = Returning status"
  shows "gate_inv sha (gate_leave_session status i t w)"
proof -
  have u: "task_ok sha (gwRequired w) (t\<lparr>gtPhase := Returned status, gtEntry := None\<rparr>)"
    using gate_task_inv [OF assms(1,2)] assms(3,4) by (simp add: task_ok_def authentic_def)
  show ?thesis
  proof (cases "gtEntry t")
    case None
    then show ?thesis using assms u by (simp add: gate_leave_session_def gate_set_inv)
  next
    case (Some p)
    obtain k lane where p: "gtEntry t = Some (k, lane)" using Some by (cases p) simp
    have "activity_ok (leaveLane k lane (gwActivity w)) ((gwTasks w)[i := t\<lparr>gtPhase := Returned status, gtEntry := None\<rparr>])"
      by (rule activity_ok_leave [OF _ assms(2)]) (use assms(1,3) p in \<open>simp_all add: gate_inv_def\<close>)
    then show ?thesis using assms(1-3) u p by (simp add: gate_leave_session_def gate_inv_def lane_ok_same list_all_update)
  qed
qed

lemma gate_leave_lane_inv:
  assumes "gate_inv sha w" and "i < length (gwTasks w)" and "t = gwTasks w ! i" and "gtPhase t = Returned status"
  shows "gate_inv sha (gate_leave_lane status i t w)"
proof -
  let ?u = "t\<lparr>gtPhase := Answered status, gtLane := None\<rparr>"
  have u: "task_ok sha (gwRequired w) ?u"
    using gate_task_inv [OF assms(1,2)] assms(3,4) by (simp add: task_ok_def authentic_def)
  show ?thesis
  proof (cases "gtLane t")
    case None
    then show ?thesis using assms u by (simp add: gate_leave_lane_def gate_set_inv)
  next
    case (Some lane)
    have old: "lane_ok j (gwLanes w j) (gwTasks w)" for j using assms(1) by (simp add: gate_inv_def)
    have "lane_ok lane (lane_leave (hrPeer (gtReq t)) (gwLanes w lane)) ((gwTasks w)[i := ?u])"
      using lane_ok_leave [OF old [of lane] assms(2), of ?u] Some assms(3) by simp
    moreover have "lane_ok j (gwLanes w j) ((gwTasks w)[i := ?u])" if "j \<noteq> lane" for j
      using that Some assms(2,3) by (intro lane_ok_other old) auto
    ultimately show ?thesis using assms(1-3) u Some
      by (simp add: gate_leave_lane_def gate_inv_def activity_ok_def entry_ok_same list_all_update)
  qed
qed

lemma gate_step_inv:
  assumes "gate_inv sha w"
  shows "gate_inv sha (gate_step sha now up i w)"
proof (cases "i < length (gwTasks w)")
  case True
  define t where "t = gwTasks w ! i"
  have "task_ok sha (gwRequired w) (t\<lparr>gtPhase := Returning 200\<rparr>)" if "gtPhase t = Handling"
    using gate_task_inv [OF assms True] that by (auto simp: task_ok_def authentic_def t_def)
  then have "gate_inv sha (set_task i (t\<lparr>gtPhase := Returning 200\<rparr>) w)" if "gtPhase t = Handling"
    using that True by (intro gate_set_inv [OF assms]) (simp_all add: t_def)
  then show ?thesis
    using True gate_admit_inv [OF assms True t_def] gate_authenticate_inv [OF assms True t_def] gate_authorize_inv [OF assms True t_def]
      gate_track_inv [OF assms True t_def] gate_leave_session_inv [OF assms True t_def] gate_leave_lane_inv [OF assms True t_def] assms
    by (cases "gtPhase t") (simp_all add: gate_step_def t_def [symmetric] Let_def)
qed (simp add: gate_step_def assms)

lemma gate_new_request_inv: "gate_inv sha w \<Longrightarrow> gate_inv sha (w\<lparr>gwTasks := gwTasks w @ [new_task r]\<rparr>)"
proof -
  assume inv: "gate_inv sha w"
  have "task_ok sha b (new_task r)" for b by (simp add: task_ok_def new_task_def)
  moreover have "lane_ok lane l (ts @ [new_task r]) = lane_ok lane l ts" for lane l ts
    by (simp add: lane_ok_def tcount_append holds_def holds_for_def new_task_def)
  moreover have "entry_ok k x (ts @ [new_task r]) = entry_ok k x ts" for k x ts
    by (simp add: entry_ok_def tcount_append tracked_def tracked_in_def new_task_def split: option.split)
  ultimately show ?thesis using inv by (simp add: gate_inv_def activity_ok_def)
qed

lemma gate_require_inv: "gate_inv sha w \<Longrightarrow> gate_inv sha (w\<lparr>gwRequired := True\<rparr>)"
  by (auto simp: gate_inv_def task_ok_def elim!: list.pred_mono_strong)

lemma gate_inv_exec: "gate_inv sha w \<Longrightarrow> gate_inv sha (gate_exec sha verify x w)"
proof -
  assume inv: "gate_inv sha w"
  obtain now e where x: "x = (now, e)" by (cases x)
  show ?thesis unfolding x
  proof (cases e)
    case (GeAccount a)
    then show "gate_inv sha (gate_exec sha verify (now, e) w)"
      using inv account_inv_exec [of "gwAccounts w" sha verify "(now, a)"] by (simp add: gate_inv_def)
  qed (use inv in \<open>simp_all add: gate_new_request_inv gate_step_inv gate_require_inv\<close>, (simp add: gate_inv_def activity_ok_revoke)+)
qed

lemma gate_inv_new: "account_inv (awDb w) \<Longrightarrow> gate_inv sha (newGate required w)"
  by (simp add: gate_inv_def newGate_def lane_ok_def tcount_def peer_count_def activity_ok_def entry_ok_def less_imp_le limits_pos)

lemma gate_inv_run: "gate_inv sha w \<Longrightarrow> gate_inv sha (gate_run sha verify xs w)"
  by (induction xs arbitrary: w) (auto simp: gate_run_def intro: gate_inv_exec)

interpretation gate: machine "\<lambda>(sha, w). \<exists>required a. account_inv (awDb a) \<and> w = newGate required a"
    "\<lambda>(sha, w) (sha2, v). sha2 = sha \<and> (\<exists>verify x. v = gate_exec sha verify x w)" "\<lambda>(sha, w). gate_inv sha w"
  by unfold_locales (auto intro: gate_inv_new gate_inv_exec)

end
