(* ===== verification/RequestSafety.thy ===== *)
theory RequestSafety
  imports RequestInvariant
begin

text \<open>
  What reaches a handler: the routes of the host are reached by administrators only, lanes and sessions stay within
  their limits, and Stop is always let through.
\<close>

section \<open>Routes\<close>

lemma cutPrefix_None [simp]: "\<not> prefix p s \<Longrightarrow> cutPrefix p s = None"
  by (simp add: cutPrefix_def)

lemma single_prefix: "singleResourceAction route p action \<Longrightarrow> prefix p route"
  by (auto simp: singleResourceAction_def cutPrefix_def split: if_splits)

text \<open>Routes of the host are in no list that serves an operator.\<close>

abbreviation host_prefixes :: "string list" where
  "host_prefixes \<equiv> [''/api/labs/'', ''/api/diagnostics/'', ''/api/traces'', ''/api/audit'', ''/api/network'', ''/api/setup'', ''/api/llm/'',
    ''/api/accounts'', ''/api/auth/session-policy'', ''/api/media/tools'', ''/api/transport/cloud/'', ''/api/transport/intiface/diagnostics'',
    ''/api/transport/bluetooth/state'', ''/api/transport/bluetooth/events'', ''/api/transport/bluetooth/diagnostics'']"

lemma private_prefix: "hostPrivateRead route \<Longrightarrow> list_ex (\<lambda>p. prefix p route) host_prefixes"
  by (auto simp: hostPrivateRead_def hostDiagnosticsRoute_def prefix_def)

lemma private_not_control: "hostPrivateRead route \<Longrightarrow> \<not> controlRoute route"
proof
  assume p: "hostPrivateRead route" and c: "controlRoute route"
  from private_prefix [OF p] show False
    using c single_prefix [of route "''/api/library/feedback/''" "''/undo''"] single_prefix [of route "''/api/media/videos/''" "''/metadata''"]
      single_prefix [of route "''/api/remote/commands/''" "''/claim''"]
    by (auto simp: controlRoute_def prefix_def)
qed

lemma private_not_self: "hostPrivateRead (hrPath r) \<Longrightarrow> \<not> selfServiceRoute r"
  using private_prefix [of "hrPath r"]
  by (auto simp: selfServiceRoute_def ownSessionManagementRoute_def cutPrefix_def prefix_def split: if_splits)

lemma private_not_gateway: "hostPrivateRead (hrPath r) \<Longrightarrow> \<not> bluetoothGatewaySessionRoute r"
  using private_prefix [of "hrPath r"] by (auto simp: bluetoothGatewaySessionRoute_def bluetoothGatewayDataRoute_def prefix_def)

lemma private_not_public: "hostPrivateRead (hrPath r) \<Longrightarrow> \<not> isPublicAuthenticationRequest r"
  using private_prefix [of "hrPath r"] by (auto simp: isPublicAuthenticationRequest_def prefix_def)

section \<open>Properties\<close>

lemma gate_reachable: "gate_inv sha (gate_run sha verify xs (newGate required (account_run sha verify ys newAccountWorld)))"
  by (rule gate_inv_run [OF gate_inv_new [OF reachable_tables]])

text \<open>
  Property C16.  Who may change or read what belongs to the host: when a request to the main listener is being handled and
  accounts were required when it was judged, and it is neither public nor self-service nor the gateway's nor a read that
  is open to every login, then its context has ended, or its cookie was a login that the tables held to be live and that
  belongs to an administrator, or else the route is a control route, private to nobody, and the login had the permission
  to control at that moment.  Whatever requests, logins, revocations and account changes came between.
\<close>

theorem host_needs_administrator:
  assumes "w = gate_run sha verify xs (newGate required (account_run sha verify ys newAccountWorld))"
    and "i < length (gwTasks w)" and "t = gwTasks w ! i" and "gtPhase t = Handling" and "r = gtReq t"
    and "hrInterface r = InterfaceFull" and "gtJudged t = Some (u, True)"
    and "\<not> isPublicAuthenticationRequest r" and "\<not> selfServiceRoute r" and "\<not> bluetoothGatewaySessionRoute r"
    and "readRequest r \<longrightarrow> hostPrivateRead (hrPath r)"
  shows "request_ended w t \<or>
    (\<exists>now d c s. gtSeen t = Some (now, d) \<and> hrCookie r = Some c \<and> inspectSessionKey now (sha (TrimSpace c)) d = Inr s \<and>
      FullAccess (asAccount s) \<and>
      (acRole (asAccount s) = RoleAdmin \<or> controlRoute (hrPath r) \<and> \<not> hostPrivateRead (hrPath r) \<and> CanControl u s))"
proof -
  have inv: "gate_inv sha w" unfolding assms(1) by (rule gate_reachable)
  have ok: "task_ok sha (gwRequired w) t" using gate_task_inv [OF inv assms(2)] assms(3) by simp
  have "\<forall>v b. gtJudged t = Some (v, b) \<longrightarrow>
      (b \<longrightarrow> gwRequired w) \<and> (hrInterface (gtReq t) \<noteq> InterfaceRemote \<longrightarrow> authorizeRoutes v b (gtReq t) (gtSession t))"
    using ok unfolding task_ok_def by blast
  from this [rule_format, OF assms(7)]
  have auth: "authorizeRoutes u True r (gtSession t)" and req: "gwRequired w"
    using assms(5,6) by (simp_all add: InterfaceFull_def InterfaceRemote_def)
  show ?thesis
  proof (cases "gtSession t")
    case None
    then have "gtEntry t = None" using ok assms(4,5,8) by (simp add: task_ok_def)
    then show ?thesis using req by (simp add: request_ended_def)
  next
    case (Some s)
    then obtain now d where a: "authentic sha t s now d" using ok unfolding task_ok_def by blast
    then obtain c where c: "hrCookie r = Some c" "inspectSessionKey now (sha (TrimSpace c)) d = Inr s"
      using assms(5) by (cases "hrCookie r") (simp_all add: authentic_def)
    have full: "FullAccess (asAccount s)" using a assms(5,6) by (simp add: authentic_def)
    have "acRole (asAccount s) = RoleAdmin \<or> controlRoute (hrPath r) \<and> CanControl u s"
      using auth Some assms(8-11) unfolding authorizeRoutes_def can_configure_def can_control_def by (simp split: if_splits) blast
    then have "acRole (asAccount s) = RoleAdmin \<or> controlRoute (hrPath r) \<and> \<not> hostPrivateRead (hrPath r) \<and> CanControl u s"
      using private_not_control [of "hrPath r"] by blast
    moreover have "gtSeen t = Some (now, d)" using a by (simp add: authentic_def)
    ultimately show ?thesis using c full by blast
  qed
qed

text \<open>
  Property C18.  The lanes count exactly the requests that are under way: per lane and per peer, never above the limits,
  with no entry left behind for a peer that has none, and the entry of a session counts exactly its requests per lane
  and exists only while it has some.
\<close>

theorem lanes_count_requests:
  assumes "w = gate_run sha verify xs (newGate required (account_run sha verify ys newAccountWorld))"
  shows "lsActive (gwLanes w lane) = tcount (holds lane) (gwTasks w) \<and> lsActive (gwLanes w lane) \<le> fst (requestLaneLimits lane) \<and>
    peer_count (gwLanes w lane) peer = tcount (holds_for lane peer) (gwTasks w) \<and>
    peer_count (gwLanes w lane) peer \<le> snd (requestLaneLimits lane) \<and> lsPeers (gwLanes w lane) peer \<noteq> Some 0 \<and>
    length (gwActivity w) \<le> 160 \<and>
    (case map_of (gwActivity w) k of
       None \<Rightarrow> tcount (tracked k) (gwTasks w) = 0
     | Some e \<Rightarrow> saRequests e = tcount (tracked k) (gwTasks w) \<and> 0 < saRequests e \<and>
         saLanes e lane = tcount (tracked_in k lane) (gwTasks w) \<and> saLanes e lane \<le> requestLimit lane)"
proof -
  have inv: "gate_inv sha w" unfolding assms by (rule gate_reachable)
  have "lane_ok lane (gwLanes w lane) (gwTasks w)" "entry_ok k (map_of (gwActivity w) k) (gwTasks w)" "length (gwActivity w) \<le> 160"
    using inv by (simp_all add: gate_inv_def activity_ok_def)
  then show ?thesis by (simp add: lane_ok_def entry_ok_def split: option.splits)
qed

text \<open>Where a Stop is after a number of its own steps.\<close>

fun stop_phase :: "nat \<Rightarrow> gate_phase" where
  "stop_phase 0 = Arrived"
| "stop_phase (Suc n) =
     (case stop_phase n of Arrived \<Rightarrow> Admitted | Admitted \<Rightarrow> Authenticated | Authenticated \<Rightarrow> Authorized | Authorized \<Rightarrow> Handling
      | Handling \<Rightarrow> Returning 200 | Returning s \<Rightarrow> Returned s | Returned s \<Rightarrow> Answered s | Answered s \<Rightarrow> Answered s)"

definition steps_of :: "nat \<Rightarrow> (time \<times> gate_event) list \<Rightarrow> nat" where
  "steps_of i xs = length (filter (\<lambda>(now, e). case e of GeStep j up \<Rightarrow> j = i | _ \<Rightarrow> False) xs)"

lemma steps_of_Cons: "steps_of i (x # xs) = steps_of i [x] + steps_of i xs"
  by (simp add: steps_of_def)

definition stop_task :: "nat \<Rightarrow> gate_task \<Rightarrow> bool" where
  "stop_task n t \<longleftrightarrow> stop_request (gtReq t) \<and> gtPhase t = stop_phase n \<and> gtLane t = None \<and> gtEntry t = None \<and> gtSession t = None"

lemma stop_is_public: "stop_request r \<Longrightarrow> isPublicAuthenticationRequest r"
  by (simp add: stop_request_def isPublicAuthenticationRequest_def)

lemma stop_moves:
  assumes "i < length (gwTasks w)" and "stop_task n (gwTasks w ! i)"
  shows "\<exists>t. gate_step sha now up i w = set_task i t w \<and> stop_task (Suc n) t \<or> gate_step sha now up i w = w \<and> stop_task (Suc n) (gwTasks w ! i)"
  using assms stop_is_public [of "gtReq (gwTasks w ! i)"]
  by (cases "stop_phase n")
    (auto simp: gate_step_def stop_task_def Let_def gate_admit_def gate_authenticate_def gate_authorize_def gate_track_def
      gate_leave_session_def gate_leave_lane_def authorizeRoutes_def)

lemma step_others: "j \<noteq> i \<Longrightarrow> gwTasks (gate_step sha now up j w) ! i = gwTasks w ! i"
  "length (gwTasks (gate_step sha now up j w)) = length (gwTasks w)"
  by (auto simp: gate_step_def Let_def gate_admit_def gate_authenticate_def gate_authorize_def gate_track_def
      gate_leave_session_def gate_leave_lane_def split: gate_phase.split option.split prod.split sum.split)

lemma stop_exec:
  assumes "i < length (gwTasks w)" and "stop_task n (gwTasks w ! i)"
  shows "i < length (gwTasks (gate_exec sha verify x w)) \<and> stop_task (n + steps_of i [x]) (gwTasks (gate_exec sha verify x w) ! i)"
proof -
  obtain now e where x: "x = (now, e)" by (cases x)
  show ?thesis
  proof (cases e)
    case (GeStep j up)
    show ?thesis
    proof (cases "j = i")
      case True
      then show ?thesis using assms stop_moves [OF assms, of sha now up] x GeStep by (auto simp: steps_of_def)
    next
      case False
      then show ?thesis using assms step_others x GeStep by (simp add: steps_of_def)
    qed
  qed (use assms x in \<open>simp_all add: steps_of_def nth_append\<close>)
qed

text \<open>
  Property C17.  Stop is always let through: on either listener, with every lane full, with the datastore down, with a
  stale cookie or none, and under every interleaving with other requests, each of a Stop request's own steps takes it
  forward, the fourth one into its handler; it holds no lane and no session entry and is never refused.
\<close>

theorem stop_always_let_through:
  assumes "stop_request r" and "i = length (gwTasks w)"
    and "v = gate_run sha verify xs (gate_exec sha verify (now, GeArrive r) w)"
  shows "gtPhase (gwTasks v ! i) = stop_phase (steps_of i xs) \<and> gtLane (gwTasks v ! i) = None \<and> gtEntry (gwTasks v ! i) = None"
proof -
  have "stop_task (n + steps_of i xs) (gwTasks (gate_run sha verify xs u) ! i)" if "i < length (gwTasks u)" "stop_task n (gwTasks u ! i)" for n u
    using that
  proof (induction xs arbitrary: n u)
    case (Cons x xs)
    from stop_exec [OF Cons.prems, of sha verify x]
    have "stop_task (n + steps_of i [x] + steps_of i xs) (gwTasks (gate_run sha verify xs (gate_exec sha verify x u)) ! i)"
      by (intro Cons.IH) auto
    then show ?case by (simp add: gate_run_def steps_of_Cons [of i x xs] add.assoc)
  qed (simp add: gate_run_def steps_of_def)
  from this [of "gate_exec sha verify (now, GeArrive r) w" 0]
  show ?thesis using assms by (simp add: stop_task_def new_task_def)
qed

section \<open>Witnesses\<close>

text \<open>One login of the administrator of \<open>sample_setup\<close> reads the accounts.\<close>

definition gate_hash :: "string \<Rightarrow> string" where
  "gate_hash s = (if s = replicate 32 CHR ''a'' then ''k1'' else s)"

definition accounts_request :: http_request where
  "accounts_request = \<lparr>hrMethod = ''GET'', hrPath = ''/api/accounts'', hrCookie = Some (replicate 32 CHR ''a''),
     hrInterface = InterfaceFull, hrPeer = ''127.0.0.1'', hrController = []\<rparr>"

definition gate_events :: "(time \<times> gate_event) list" where
  "gate_events = (5, GeArrive accounts_request) # replicate 4 (6, GeStep 0 True)"

definition sample_gate :: gate where
  "sample_gate = gate_run gate_hash (=) gate_events (newGate True (account_run gate_hash (=) sample_setup newAccountWorld))"

lemma host_needs_administrator_witness:
  "\<exists>now d c s. gtSeen (gwTasks sample_gate ! 0) = Some (now, d) \<and> hrCookie accounts_request = Some c \<and>
     inspectSessionKey now (gate_hash (TrimSpace c)) d = Inr s \<and> FullAccess (asAccount s) \<and> acRole (asAccount s) = RoleAdmin"
proof -
  have "0 < length (gwTasks sample_gate)" "gtPhase (gwTasks sample_gate ! 0) = Handling" "accounts_request = gtReq (gwTasks sample_gate ! 0)"
    "gtJudged (gwTasks sample_gate ! 0) = Some (6, True)" "\<not> request_ended sample_gate (gwTasks sample_gate ! 0)"
    by code_simp+
  moreover have "hrInterface accounts_request = InterfaceFull" "\<not> isPublicAuthenticationRequest accounts_request"
    "\<not> selfServiceRoute accounts_request" "\<not> bluetoothGatewaySessionRoute accounts_request"
    "readRequest accounts_request \<longrightarrow> hostPrivateRead (hrPath accounts_request)" "\<not> controlRoute (hrPath accounts_request)"
    by code_simp+
  ultimately show ?thesis
    using host_needs_administrator [OF sample_gate_def, of 0 "gwTasks sample_gate ! 0" accounts_request 6] by blast
qed

lemma lanes_count_requests_witness:
  "tcount (holds OrdinaryLane) (gwTasks sample_gate) = 1 \<and> tcount (tracked ''k1'') (gwTasks sample_gate) = 1"
proof -
  have "lsActive (gwLanes sample_gate OrdinaryLane) = 1" "map_option saRequests (map_of (gwActivity sample_gate) ''k1'') = Some 1"
    by code_simp+
  then show ?thesis
    using lanes_count_requests [OF sample_gate_def, of OrdinaryLane "''127.0.0.1''" "''k1''"] by (auto split: option.splits)
qed

lemma stop_always_let_through_witness:
  "gtPhase (gwTasks (gate_run gate_hash (=) (replicate 4 (7, GeStep 1 False)) (gate_exec gate_hash (=) (7, GeArrive
     (accounts_request\<lparr>hrMethod := ''POST'', hrPath := ''/api/motion/stop''\<rparr>)) sample_gate)) ! 1) = Handling"
proof -
  have "stop_request (accounts_request\<lparr>hrMethod := ''POST'', hrPath := ''/api/motion/stop''\<rparr>)" "1 = length (gwTasks sample_gate)"
    "stop_phase (steps_of 1 (replicate 4 (7, GeStep 1 False))) = Handling"
    by code_simp+
  then show ?thesis
    using stop_always_let_through [of "accounts_request\<lparr>hrMethod := ''POST'', hrPath := ''/api/motion/stop''\<rparr>" 1 sample_gate] by metis
qed

end
