(* ===== verification/Spec2Isabelle.thy ===== *)
theory Spec2Isabelle
  imports CoyoteSafety CommandReceipts EngineSafety HandySafety RemoteHub LlmScheduler StopAdmission FanOut RequestSafety
begin

text \<open>
  A verification library for MagicHandy, the local server that turns chat, patterns and media into
  motion of a stroker and output of an electrical stimulation unit.  The library models the parts of
  the Go code that keep the devices safe: who may command, what a Stop guarantees, and which bytes
  and strengths may leave the machine.

  \<^bold>\<open>The program.\<close>  Browsers send commands to \<open>internal/httpapi\<close>, which decides who controls the
  devices (a lease with command tickets), admits each command once, and replays the reply of a
  repeated one.  Admitted motion commands reach the motion engine (\<open>internal/motion\<close>), a set of
  goroutines that plan a stream, append it in chunks and stop it.  The engine talks to transports
  (\<open>internal/transport\<close>), among them the Coyote owner, whose pacer sends a packet every 100 ms to the
  stimulation unit through \<open>internal/estim\<close>.

  \<^bold>\<open>Theories and code.\<close>
  \<^item> \<open>Prelude\<close>: clocks, durations, bytes, decimal numerals, and the interfaces \<open>machine\<close>,
    \<open>fenced_machine\<close> and \<open>codec\<close>.
  \<^item> \<open>EstimProtocol\<close> (\<open>internal/estim/protocol.go\<close>): the packets of the unit, byte by byte.
  \<^item> \<open>EstimStrength\<close> (\<open>strength.go\<close>): the strength handshake with its ceilings and zero fence.
  \<^item> \<open>EstimSimulated\<close> (\<open>simulated.go\<close>): the simulated unit, and the loop closed with the handshake.
  \<^item> \<open>Companion\<close> (\<open>internal/companion\<close>): the stream timeline, starvation tracking and play clock.
  \<^item> \<open>CoyoteOwner\<close>, \<open>CoyoteConcurrency\<close>, \<open>CoyoteSafety\<close> (\<open>internal/transport/coyote*.go\<close>): the critical
    sections of the dispatch owner; its goroutines as tasks over a world with two mutexes, a link and
    a wire, with the check of a write and its hand-over to the link as separate steps; and the
    invariant of all interleavings.
  \<^item> \<open>ControllerLease\<close> (\<open>internal/httpapi/controller*.go\<close>): lease, takeover, loss and tickets.
  \<^item> \<open>Accounts\<close>, \<open>AccountInvariant\<close>, \<open>AccountExpiry\<close>, \<open>AccountSafety\<close> (\<open>internal/accounts\<close>): accounts,
    passwords, recovery codes, sessions and control permissions over one store, the invariant of the
    store, what expiry does, and the properties.
  \<^item> \<open>RequestAccess\<close>, \<open>RequestInvariant\<close>, \<open>RequestSafety\<close> (\<open>internal/httpapi\<close>): the chain a request passes
    before its handler (capacity lanes, authentication, authority over routes, session activity) on both listeners, as steps
    over many requests.
  \<^item> \<open>CommandReceipts\<close> (\<open>internal/httpapi/command*.go\<close>): sequence numbers, receipts, body hashes.
  \<^item> \<open>StopAdmission\<close> (\<open>stop_admission.go\<close>, \<open>emergencyStopWithAdmission\<close> of \<open>motion.go\<close>): how overlapping Stop
    requests share one dispatch under the lifecycle lock.
  \<^item> \<open>MotionTarget\<close>, \<open>MotionEngine\<close>, \<open>EngineRuns\<close>, \<open>EngineSafety\<close> (\<open>internal/motion/engine.go\<close>,
    \<open>dispatch.go\<close>, \<open>startup*.go\<close>, \<open>vibration.go\<close>, \<open>target.go\<close>): normalised settings, the critical
    sections of the engine, its goroutines as scripts of operations, and the invariant of all
    interleavings.
  \<^item> \<open>HandyWire\<close>, \<open>HandyCodec\<close>, \<open>HandySession\<close>, \<open>HandySafety\<close> (\<open>internal/handyble/wire.go\<close>, \<open>codec.go\<close>,
    \<open>session.go\<close>, \<open>session_rpc.go\<close>): the stroker's protobuf frames, its requests and messages, and
    the RPC session over one Bluetooth link with its invariant.
  \<^item> \<open>FanOut\<close> (\<open>internal/transport/fanout.go\<close>, \<open>leased.go\<close>): linked playback of several devices, its fault
    latch and its retirements.
  \<^item> \<open>GoText\<close>, \<open>RemoteHub\<close> (\<open>internal/remote/hub.go\<close>, \<open>claim.go\<close>): Go's strings rune by rune, and the hub
    that relays a phone's commands to the desktop tab that holds control.
  \<^item> \<open>LlmScheduler\<close> (\<open>internal/httpapi/llm_scheduler.go\<close>): the coordinator of language-model streams.

  \<^bold>\<open>How state and concurrency are modelled.\<close>  A Go struct is a record, a method under its mutex one
  function from state to state; where code releases the mutex, the function ends and the next one
  begins.  Step relations interleave them, among them \<open>coyote_step\<close> over a world of tasks and \<open>eng_step\<close>
  over a world of threads whose scripts are the rest of their bodies.  A step's environment answers for
  everything outside the modelled code: clock, device errors, contexts, planner.  The wire of a world
  lists what was handed to the device, in order.  Errors are sums or options.

  \<^bold>\<open>What the lemmas show.\<close>  Each component has an invariant that every operation keeps (\<open>sc_inv\<close>,
  \<open>sim_inv\<close>, \<open>lease_inv\<close>, \<open>world_inv\<close>, \<open>engine_inv\<close>, \<open>session_inv\<close>, \<open>hub_inv\<close>, \<open>llm_inv\<close>, \<open>stop_inv\<close>,
  \<open>fan_inv\<close>, \<open>account_inv\<close>, \<open>gate_inv\<close>) and interprets \<open>machine\<close> or \<open>fenced_machine\<close> with
  it; the packets interpret \<open>codec\<close>.  The properties read the invariants: Stop silences the pacer and
  ends every run of the engine for good, strengths rise only by the user and within the ceilings,
  commands are admitted once, control changes hands only through the lease.

  \<^bold>\<open>Bounds.\<close>  Generation counters of type \<open>uint64\<close> count up by one and are natural numbers.  Loops
  over slices recurse on lists; \<open>fillChunk\<close> ends because each window holds a sample and the chunk is
  bounded; the engine's retries carry their counters (64 lead buffers, 3 and 6 readings).  No fuel is
  used.

  \<^bold>\<open>Not modelled.\<close>  Floating-point planning and rendering (curves, filters, previews), which answer
  through the environment; the HTTP handlers, the other stores and the adapters around the modelled core; prompts
  and language models; voice workers; media libraries.  Traces, snapshots for the browser and log
  messages are left out.  Blocking on a mutex is a step that is not possible yet; fairness of the Go
  scheduler is not modelled.
\<close>

end
